(* ===== verification/Prelude.thy ===== *)
theory Prelude
  imports Main "HOL-Library.Sublist" "HOL-Library.Char_ord" "HOL-Library.List_Lexorder"
begin

text \<open>
  The vocabulary every component shares. Go's \<open>string\<close> is a byte string, so it is
  a \<open>char list\<close> here (a \<open>char\<close> is one byte). The functions below are the ones of
  Go's \<open>strings\<close> package the program calls, with Go's results on every input:
  \<open>Cut\<close>, \<open>CutLast\<close>, \<open>Split\<close> at a one-byte separator, \<open>Join\<close>, \<open>TrimSpace\<close>,
  \<open>CutPrefix\<close>, \<open>CutSuffix\<close>, \<open>ContainsAny\<close>. \<open>TrimSpace\<close> knows every white space
  rune of Unicode by its UTF-8 bytes. \<open>ToLower\<close> is exact on the ASCII part of its result.
\<close>

named_theorems go_defs \<open>definitions to unfold when a closed term is evaluated\<close>

section \<open>Separators\<close>

abbreviation slash :: char where "slash \<equiv> CHR ''/''"
abbreviation colon :: char where "colon \<equiv> CHR '':''"
abbreviation star :: char where "star \<equiv> CHR ''*''"
abbreviation comma :: char where "comma \<equiv> CHR '',''"
abbreviation equals :: char where "equals \<equiv> CHR ''=''"
abbreviation hash :: char where "hash \<equiv> CHR 0x23"
abbreviation backslash :: char where "backslash \<equiv> CHR 0x5C"

declare sublist_code [go_defs]

section \<open>Prefixes, suffixes and cuts\<close>

abbreviation has_prefix :: "string \<Rightarrow> string \<Rightarrow> bool" where
  "has_prefix s p \<equiv> prefix p s"

abbreviation has_suffix :: "string \<Rightarrow> string \<Rightarrow> bool" where
  "has_suffix s p \<equiv> suffix p s"

text \<open>\<open>strings.ContainsAny\<close> for a set of ASCII characters.\<close>

definition contains_any :: "string \<Rightarrow> string \<Rightarrow> bool" where
  [go_defs]: "contains_any s cs = list_ex (\<lambda>c. c \<in> set cs) s"

text \<open>\<open>strings.Cut\<close> at a one-byte separator: before, after, found.\<close>

fun cut :: "char \<Rightarrow> string \<Rightarrow> string \<times> string \<times> bool" where
  "cut c [] = ([], [], False)"
| "cut c (x # xs) =
     (if x = c then ([], xs, True)
      else (case cut c xs of (b, a, ok) \<Rightarrow> if ok then (x # b, a, True) else (x # xs, [], False)))"

text \<open>\<open>strings.CutLast\<close>: the cut at the last separator; not found gives the whole string first.\<close>

fun cut_last :: "char \<Rightarrow> string \<Rightarrow> string \<times> string \<times> bool" where
  "cut_last c [] = ([], [], False)"
| "cut_last c (x # xs) =
     (case cut_last c xs of (b, a, ok) \<Rightarrow>
        if ok then (x # b, a, True)
        else if x = c then ([], xs, True) else (x # xs, [], False))"

definition cut_prefix :: "string \<Rightarrow> string \<Rightarrow> string option" where
  [go_defs]: "cut_prefix s p = (if has_prefix s p then Some (drop (length p) s) else None)"

definition cut_suffix :: "string \<Rightarrow> string \<Rightarrow> string option" where
  [go_defs]: "cut_suffix s p = (if has_suffix s p then Some (take (length s - length p) s) else None)"

lemma cut_found: "cut c s = (b, a, True) \<longleftrightarrow> s = b @ c # a \<and> c \<notin> set b"
proof (induction s arbitrary: b a)
  case Nil
  show ?case by simp
next
  case (Cons x xs)
  obtain b' a' ok where r: "cut c xs = (b', a', ok)" by (cases "cut c xs")
  show ?case
  proof (cases "x = c")
    case True
    then show ?thesis by (cases b) auto
  next
    case False
    with Cons.IH [of b' a'] r show ?thesis
      using Cons.IH by (cases b) (auto split: if_splits)
  qed
qed

lemma cut_not_found: "cut c s = (b, a, False) \<longleftrightarrow> b = s \<and> a = [] \<and> c \<notin> set s"
proof (induction s arbitrary: b a)
  case Nil
  show ?case by auto
next
  case (Cons x xs)
  obtain b' a' ok where r: "cut c xs = (b', a', ok)" by (cases "cut c xs")
  show ?case
    using Cons.IH [of b' a'] r cut_found [of c xs b' a'] by (cases ok) auto
qed

lemma cut_append [simp]: "c \<notin> set b \<Longrightarrow> cut c (b @ c # a) = (b, a, True)"
  by (simp add: cut_found)

lemma cut_absent [simp]: "c \<notin> set s \<Longrightarrow> cut c s = (s, [], False)"
  by (simp add: cut_not_found)

text \<open>Two strings cut at a byte neither front part has agree part by part.\<close>

lemma sep_eq:
  fixes c :: char
  assumes "c \<notin> set a" "c \<notin> set b"
  shows "a @ c # x = b @ c # y \<longleftrightarrow> a = b \<and> x = y"
proof
  assume "a @ c # x = b @ c # y"
  then have "cut c (a @ c # x) = cut c (b @ c # y)" by simp
  then show "a = b \<and> x = y" using assms by simp
qed simp

lemma cut_last_found: "cut_last c s = (b, a, True) \<longleftrightarrow> s = b @ c # a \<and> c \<notin> set a"
proof (induction s arbitrary: b a)
  case Nil
  show ?case by simp
next
  case (Cons x xs)
  obtain b' a' ok where r: "cut_last c xs = (b', a', ok)" by (cases "cut_last c xs")
  have nf: "\<not> ok \<Longrightarrow> c \<notin> set xs"
  proof
    assume "\<not> ok" and "c \<in> set xs"
    then obtain ys zs where "xs = ys @ c # zs" and "c \<notin> set zs"
      by (meson split_list_last)
    then have "cut_last c xs = (ys, zs, True)" using Cons.IH by blast
    with r \<open>\<not> ok\<close> show False by simp
  qed
  show ?case
  proof (cases ok)
    case True
    then have xs: "xs = b' @ c # a'" and na: "c \<notin> set a'"
      using Cons.IH r by auto
    have "cut_last c (x # xs) = (b, a, True) \<longleftrightarrow> b = x # b' \<and> a = a'"
      using r True by auto
    moreover have "x # xs = b @ c # a \<and> c \<notin> set a \<longleftrightarrow> b = x # b' \<and> a = a'"
    proof
      assume h: "x # xs = b @ c # a \<and> c \<notin> set a"
      show "b = x # b' \<and> a = a'"
      proof (cases b)
        case Nil
        with h xs have "a = b' @ c # a'" by simp
        with h show ?thesis by simp
      next
        case (Cons y ys)
        with h have "xs = ys @ c # a" by simp
        then have "cut_last c xs = (ys, a, True)" using Cons.IH h by blast
        with r Cons h show ?thesis by simp
      qed
    next
      assume "b = x # b' \<and> a = a'"
      with xs na show "x # xs = b @ c # a \<and> c \<notin> set a" by simp
    qed
    ultimately show ?thesis by simp
  next
    case False
    with nf have "c \<notin> set xs" by simp
    with r False show ?thesis by (cases b) auto
  qed
qed

lemma cut_last_not_found: "cut_last c s = (b, a, False) \<longleftrightarrow> b = s \<and> a = [] \<and> c \<notin> set s"
proof (induction s arbitrary: b a)
  case Nil
  show ?case by auto
next
  case (Cons x xs)
  obtain b' a' ok where r: "cut_last c xs = (b', a', ok)" by (cases "cut_last c xs")
  show ?case
    using Cons.IH [of b' a'] r cut_last_found [of c xs b' a'] by (cases ok) auto
qed

section \<open>Split and join\<close>

text \<open>\<open>strings.Split\<close> (and \<open>SplitSeq\<close>) at a one-byte separator: never the empty list.\<close>

fun split_on :: "char \<Rightarrow> string \<Rightarrow> string list" where
  "split_on c [] = [[]]"
| "split_on c (x # xs) =
     (if x = c then [] # split_on c xs
      else (case split_on c xs of [] \<Rightarrow> [[x]] | y # ys \<Rightarrow> (x # y) # ys))"

fun join :: "string \<Rightarrow> string list \<Rightarrow> string" where
  "join sep [] = []"
| "join sep [x] = x"
| "join sep (x # y # ys) = x @ sep @ join sep (y # ys)"

lemma split_on_ne [simp]: "split_on c s \<noteq> []"
  by (cases s) (auto split: list.splits)

lemma split_on_absent [simp]: "c \<notin> set s \<Longrightarrow> split_on c s = [s]"
  by (induction s) auto

lemma split_on_append [simp]: "split_on c (a @ c # b) = split_on c a @ split_on c b"
  by (induction a) (auto split: list.splits)

lemma head_upto: "a \<notin> set xs \<Longrightarrow> takeWhile (\<lambda>x. x \<noteq> a) (xs @ a # ys) = xs"
  by (induction xs) auto

lemma same_key_one: "distinct (map f xs) \<Longrightarrow> (\<And>x. x \<in> set xs \<Longrightarrow> f x = k) \<Longrightarrow> y \<in> set xs \<Longrightarrow> xs = [y]"
  by (cases xs rule: remdups_adj.cases) auto

lemma split_on_parts: "p \<in> set (split_on c s) \<Longrightarrow> c \<notin> set p"
  by (induction s arbitrary: p) (auto split: list.splits if_splits)

lemma join_split: "join [c] (split_on c s) = s"
proof (induction s)
  case Nil
  show ?case by simp
next
  case (Cons x xs)
  obtain y ys where s: "split_on c xs = y # ys"
    by (cases "split_on c xs") auto
  with Cons have "join [c] (y # ys) = xs" by simp
  then show ?case using s by (cases ys) auto
qed

lemma split_join:
  "ps \<noteq> [] \<Longrightarrow> \<forall>p \<in> set ps. c \<notin> set p \<Longrightarrow> split_on c (join [c] ps) = ps"
  by (induction "[c]" ps rule: join.induct) auto

lemma join_Cons: "join sep (x # xs) = (if xs = [] then x else x @ sep @ join sep xs)"
  by (cases xs) simp_all

lemma join_elem_sublist: "x \<in> set xs \<Longrightarrow> sublist x (join sep xs)"
proof (induction xs)
  case (Cons y ys)
  then consider (here) "x = y" | (there) "sublist x (join sep ys)" "ys \<noteq> []" by (cases ys) auto
  then show ?case
  proof cases
    case here
    then show ?thesis by (simp add: join_Cons)
  next
    case there
    have "sublist (join sep ys) ((y @ sep) @ join sep ys)" by (rule sublist_append_leftI)
    then show ?thesis using there by (auto simp: join_Cons intro: sublist_order.order_trans)
  qed
qed simp

lemma split_on_inj: "split_on c a = split_on c b \<Longrightarrow> a = b"
  by (metis join_split)

lemma prefix_split_on:
  "has_prefix s (a @ [c]) \<longleftrightarrow> (\<exists>b. s = a @ c # b)"
  by (auto simp: prefix_def)

section \<open>White space\<close>

text \<open>
  The runes of \<open>unicode.IsSpace\<close>, each as its UTF-8 bytes: TAB, LF, VT, FF, CR, SPACE,
  U+0085, U+00A0, U+1680, U+2000 to U+200A, U+2028, U+2029, U+202F, U+205F and U+3000.
\<close>

definition white_runes :: "string list" where
  [go_defs]: "white_runes =
     [[CHR 0x09], [CHR 0x0A], [CHR 0x0B], [CHR 0x0C], [CHR 0x0D], [CHR 0x20],
      [CHR 0xC2, CHR 0x85], [CHR 0xC2, CHR 0xA0], [CHR 0xE1, CHR 0x9A, CHR 0x80],
      [CHR 0xE2, CHR 0x80, CHR 0x80], [CHR 0xE2, CHR 0x80, CHR 0x81],
      [CHR 0xE2, CHR 0x80, CHR 0x82], [CHR 0xE2, CHR 0x80, CHR 0x83],
      [CHR 0xE2, CHR 0x80, CHR 0x84], [CHR 0xE2, CHR 0x80, CHR 0x85],
      [CHR 0xE2, CHR 0x80, CHR 0x86], [CHR 0xE2, CHR 0x80, CHR 0x87],
      [CHR 0xE2, CHR 0x80, CHR 0x88], [CHR 0xE2, CHR 0x80, CHR 0x89],
      [CHR 0xE2, CHR 0x80, CHR 0x8A], [CHR 0xE2, CHR 0x80, CHR 0xA8],
      [CHR 0xE2, CHR 0x80, CHR 0xA9], [CHR 0xE2, CHR 0x80, CHR 0xAF],
      [CHR 0xE2, CHR 0x81, CHR 0x9F], [CHR 0xE3, CHR 0x80, CHR 0x80]]"

text \<open>How many bytes of white space a string starts with, as one rune: 0 when it starts with none.\<close>

definition space_at :: "string list \<Rightarrow> string \<Rightarrow> nat" where
  [go_defs]: "space_at ws s = (case find (\<lambda>w. has_prefix s w) ws of None \<Rightarrow> 0 | Some w \<Rightarrow> length w)"

function drop_white :: "string list \<Rightarrow> string \<Rightarrow> string" where
  "drop_white ws s =
     (if s = [] \<or> space_at ws s = 0 then s else drop_white ws (drop (space_at ws s) s))"
  by pat_completeness auto
termination
  by (relation "measure (\<lambda>(ws, s). length s)") auto

declare drop_white.simps [simp del]

definition trim_left :: "string \<Rightarrow> string" where
  [go_defs]: "trim_left s = drop_white white_runes s"

definition trim_right :: "string \<Rightarrow> string" where
  [go_defs]: "trim_right s = rev (drop_white (map rev white_runes) (rev s))"

text \<open>\<open>strings.TrimSpace\<close>.\<close>

definition trim_space :: "string \<Rightarrow> string" where
  [go_defs]: "trim_space s = trim_right (trim_left s)"

lemma drop_white_none: "space_at ws s = 0 \<Longrightarrow> drop_white ws s = s"
  by (simp add: drop_white.simps [of ws s])

lemma drop_white_stop: "drop_white ws s = [] \<or> space_at ws (drop_white ws s) = 0"
proof (induction ws s rule: drop_white.induct)
  case (1 ws s)
  then show ?case by (simp add: drop_white.simps [of ws s])
qed

lemma drop_white_suffix: "suffix (drop_white ws s) s"
proof (induction ws s rule: drop_white.induct)
  case (1 ws s)
  show ?case
  proof (cases "s = [] \<or> space_at ws s = 0")
    case True
    then show ?thesis by (simp add: drop_white.simps [of ws s])
  next
    case False
    then have "suffix (drop_white ws s) (drop (space_at ws s) s)"
      using "1.IH" by (simp add: drop_white.simps [of ws s])
    then show ?thesis using suffix_drop suffix_order.order_trans by blast
  qed
qed

lemma trim_right_prefix: "prefix (trim_right s) s"
  using drop_white_suffix [of "map rev white_runes" "rev s"]
  by (simp add: trim_right_def suffix_to_prefix)

lemma trim_left_suffix: "suffix (trim_left s) s"
  by (simp add: trim_left_def drop_white_suffix)

lemma trim_space_set: "set (trim_space s) \<subseteq> set s"
  using set_mono_prefix [OF trim_right_prefix] set_mono_suffix [OF trim_left_suffix]
  by (fastforce simp: trim_space_def)

text \<open>A string is unchanged by \<open>TrimSpace\<close> exactly when neither end is white space.\<close>

definition trimmed :: "string \<Rightarrow> bool" where
  [go_defs]: "trimmed s \<longleftrightarrow> s = trim_space s"

lemma trim_space_Nil [simp]: "trim_space [] = []"
  by (simp add: trim_space_def trim_left_def trim_right_def drop_white.simps)

lemma trimmed_Nil [simp]: "trimmed []"
  by (simp add: trimmed_def)

lemma trim_space_trimmed [simp]: "trimmed s \<Longrightarrow> trim_space s = s"
  by (simp add: trimmed_def)

lemma trimmed_left: "trimmed s \<Longrightarrow> trim_left s = s"
  by (metis trimmed_def trim_space_def trim_left_suffix trim_right_prefix prefix_length_le
      suffix_length_le suffix_def append_Nil le_antisym length_append add_le_same_cancel2 le_zero_eq
      length_0_conv)

text \<open>A string whose ends are trimmed stays trimmed around a byte no white space rune has.\<close>

lemma space_at_zero: "[] \<notin> set ws \<Longrightarrow> space_at ws s = 0 \<longleftrightarrow> (\<forall>w \<in> set ws. \<not> prefix w s)"
proof (cases "find (\<lambda>w. prefix w s) ws")
  case None
  then have "\<forall>w \<in> set ws. \<not> prefix w s" by (simp add: find_None_iff)
  moreover have "space_at ws s = 0" using None by (simp add: space_at_def)
  ultimately show ?thesis by simp
next
  case (Some w)
  then have "w \<in> set ws" "prefix w s" by (auto simp: find_Some_iff)
  moreover assume "[] \<notin> set ws"
  ultimately show ?thesis using Some by (auto simp: space_at_def)
qed

lemma prefix_before: "c \<notin> set w \<Longrightarrow> prefix w (k @ c # v) \<longleftrightarrow> prefix w k"
proof (induction w arbitrary: k)
  case (Cons a w)
  then show ?case by (cases k) auto
qed simp

lemma white_runes_ne: "[] \<notin> set white_runes"
  by (simp add: white_runes_def)

lemma trimmed_ends:
  assumes "trimmed s" "s \<noteq> []"
  shows "space_at white_runes s = 0" "space_at (map rev white_runes) (rev s) = 0"
proof -
  have l: "trim_left s = s" by (rule trimmed_left [OF assms(1)])
  then show "space_at white_runes s = 0"
    using drop_white_stop [of white_runes s] assms(2) by (simp add: trim_left_def)
  have "trim_right s = s" using assms(1) l by (simp add: trimmed_def trim_space_def)
  then show "space_at (map rev white_runes) (rev s) = 0"
    using drop_white_stop [of "map rev white_runes" "rev s"] assms(2)
    by (simp add: trim_right_def) (metis rev_is_Nil_conv rev_rev_ident)
qed

lemma trim_space_around:
  assumes "trimmed k" "k \<noteq> []" "trimmed v" "\<forall>w \<in> set white_runes. c \<notin> set w"
  shows "trim_space (k @ c # v) = k @ c # v"
proof -
  have "space_at white_runes (k @ c # v) = 0"
    using trimmed_ends(1) [OF assms(1,2)] assms(4) white_runes_ne
    by (simp add: space_at_zero prefix_before)
  then have l: "trim_left (k @ c # v) = k @ c # v"
    by (simp add: trim_left_def drop_white_none)
  have ne: "[] \<notin> set (map rev white_runes)" using white_runes_ne by auto
  have nc: "\<forall>w \<in> set (map rev white_runes). c \<notin> set w" using assms(4) by auto
  have "space_at (map rev white_runes) (rev v @ c # rev k) = 0"
  proof (cases "v = []")
    case True
    then show ?thesis using nc ne prefix_before [of c _ "[]" "rev k"]
      by (auto simp: space_at_zero [OF ne])
  next
    case False
    then show ?thesis
      using trimmed_ends(2) [OF assms(3)] nc
      by (auto simp: space_at_zero [OF ne] prefix_before)
  qed
  then have "trim_right (k @ c # v) = k @ c # v"
    by (simp add: trim_right_def drop_white_none)
  then show ?thesis using l by (simp add: trim_space_def)
qed

lemma equals_not_white: "\<forall>w \<in> set white_runes. equals \<notin> set w"
  by (simp add: white_runes_def)

section \<open>Lower case\<close>

definition lower_char :: "char \<Rightarrow> char" where
  [go_defs]: "lower_char c =
     (if CHR ''A'' \<le> c \<and> c \<le> CHR ''Z'' then char_of ((of_char c :: nat) + 32) else c)"

text \<open>
  \<open>strings.ToLower\<close>: ASCII letters, and the two other runes whose lower case is an ASCII
  letter (U+0130, lowered to \<open>i\<close>, and U+212A, lowered to \<open>k\<close>). The other runes are never
  lowered into ASCII, which is all the program's comparisons see of them; their bytes stay.
\<close>

fun to_lower :: "string \<Rightarrow> string" where
  "to_lower [] = []"
| "to_lower (c # s) =
     (if c = CHR 0xC4 \<and> take 1 s = [CHR 0xB0] then CHR ''i'' # to_lower (drop 1 s)
      else if c = CHR 0xE2 \<and> take 2 s = [CHR 0x84, CHR 0xAA] then CHR ''k'' # to_lower (drop 2 s)
      else lower_char c # to_lower s)"

section \<open>Result values\<close>

text \<open>Error results are \<open>Inl\<close>; the next step of a Go function runs on \<open>Inr\<close>.\<close>

definition and_then :: "'e + 'a \<Rightarrow> ('a \<Rightarrow> 'e + 'b) \<Rightarrow> 'e + 'b" where
  "and_then r f = (case r of Inl e \<Rightarrow> Inl e | Inr x \<Rightarrow> f x)"

lemma and_then_simps [simp]:
  "and_then (Inl e) f = Inl e"
  "and_then (Inr x) f = f x"
  by (simp_all add: and_then_def)

lemma and_then_Inr: "and_then r f = Inr y \<longleftrightarrow> (\<exists>x. r = Inr x \<and> f x = Inr y)"
  by (cases r) auto

end
