(* ===== verification/File_Path.thy ===== *)
theory File_Path
  imports Prelude
begin

text \<open>
  The functions of Go's \<open>path/filepath\<close> (and \<open>path\<close>) the program calls, on a Unix
  system: \<open>Clean\<close>, \<open>Join\<close> of two elements, \<open>Rel\<close>, \<open>Base\<close>, \<open>Dir\<close> and \<open>IsAbs\<close>. \<open>Clean\<close>
  is the walk over the path's elements with a stack, which is what the library's byte
  loop computes; \<open>Rel\<close> is \<open>None\<close> where the library answers an error.
\<close>

definition dot :: string where [go_defs]: "dot = ''.''"
definition dotdot :: string where [go_defs]: "dotdot = ''..''"

lemma dots [simp]:
  "dot \<noteq> []" "dotdot \<noteq> []" "dot \<noteq> dotdot" "dotdot \<noteq> dot"
  "slash \<notin> set dot" "slash \<notin> set dotdot"
  by (simp_all add: dot_def dotdot_def)

definition is_abs :: "string \<Rightarrow> bool" where
  [go_defs]: "is_abs p = has_prefix p ''/''"

section \<open>Clean\<close>

text \<open>The walk: \<open>r\<close> says the path is rooted, the stack holds the elements kept, newest first.\<close>

fun clean_loop :: "bool \<Rightarrow> string list \<Rightarrow> string list \<Rightarrow> string list" where
  "clean_loop r st [] = rev st"
| "clean_loop r st (x # xs) =
     (if x = [] \<or> x = dot then clean_loop r st xs
      else if x = dotdot then
        (case st of
           [] \<Rightarrow> if r then clean_loop r [] xs else clean_loop r [dotdot] xs
         | y # ys \<Rightarrow> if y = dotdot then clean_loop r (dotdot # st) xs else clean_loop r ys xs)
      else clean_loop r (x # st) xs)"

text \<open>The elements a path names after cleaning; whether it is rooted is \<open>is_abs\<close>.\<close>

definition path_segs :: "string \<Rightarrow> string list" where
  [go_defs]: "path_segs p = clean_loop (is_abs p) [] (split_on slash p)"

definition clean :: "string \<Rightarrow> string" where
  [go_defs]: "clean p =
     (if is_abs p then slash # join [slash] (path_segs p)
      else if path_segs p = [] then dot
      else join [slash] (path_segs p))"

definition join_path :: "string \<Rightarrow> string \<Rightarrow> string" where
  [go_defs]: "join_path a b =
     (if a \<noteq> [] then clean (a @ [slash] @ b)
      else if b \<noteq> [] then clean b
      else [])"

lemma clean_loop_skip: "x = [] \<or> x = dot \<Longrightarrow> clean_loop r st (x # xs) = clean_loop r st xs"
  by auto

lemma clean_loop_push:
  "x \<noteq> [] \<Longrightarrow> x \<noteq> dot \<Longrightarrow> x \<noteq> dotdot \<Longrightarrow> clean_loop r st (x # xs) = clean_loop r (x # st) xs"
  by simp

lemma clean_loop_up:
  "clean_loop r st (dotdot # xs) =
   (if st = [] then clean_loop r (if r then [] else [dotdot]) xs
    else clean_loop r (if hd st = dotdot then dotdot # st else tl st) xs)"
  by (cases st) simp_all

declare clean_loop.simps(2) [simp del]

lemma clean_loop_then:
  "clean_loop r st (xs @ ys) = clean_loop r (rev (clean_loop r st xs)) ys"
proof (induction xs arbitrary: st)
  case Nil
  show ?case by simp
next
  case (Cons x xs)
  consider "x = [] \<or> x = dot" | "x = dotdot" | "x \<noteq> []" "x \<noteq> dot" "x \<noteq> dotdot" by blast
  then show ?case
    by cases (simp_all add: clean_loop_skip clean_loop_push clean_loop_up Cons.IH)
qed

lemma clean_loop_plain:
  "dotdot \<notin> set ys \<Longrightarrow> clean_loop r st ys = rev st @ filter (\<lambda>x. x \<noteq> [] \<and> x \<noteq> dot) ys"
proof (induction ys arbitrary: st)
  case Nil
  show ?case by simp
next
  case (Cons y ys)
  show ?case
  proof (cases "y = [] \<or> y = dot")
    case True
    with Cons show ?thesis by (auto simp: clean_loop_skip)
  next
    case False
    moreover have "y \<noteq> dotdot" "dotdot \<notin> set ys" using Cons.prems by auto
    ultimately show ?thesis by (simp add: clean_loop_push Cons.IH)
  qed
qed

text \<open>What holds of every kept element holds of the result.\<close>

lemma clean_loop_inv:
  assumes up: "r \<or> P dotdot"
    and step: "\<forall>x \<in> set xs. x = [] \<or> x = dot \<or> x = dotdot \<or> P x"
    and st: "\<forall>x \<in> set st. P x"
    and keep: "r \<longrightarrow> dotdot \<notin> set st"
  shows "\<forall>x \<in> set (clean_loop r st xs). P x"
  using step st keep
proof (induction xs arbitrary: st)
  case Nil
  then show ?case by simp
next
  case (Cons x xs)
  have IH: "\<forall>z \<in> set (clean_loop r st' xs). P z"
    if "\<forall>z \<in> set st'. P z" "r \<longrightarrow> dotdot \<notin> set st'" for st'
    using Cons.IH [of st'] Cons.prems(1) that by simp
  consider "x = [] \<or> x = dot" | "x = dotdot" | "x \<noteq> []" "x \<noteq> dot" "x \<noteq> dotdot" by blast
  then show ?case
  proof cases
    case 1
    show ?thesis unfolding clean_loop_skip [OF 1] by (rule IH) (use Cons.prems in blast)+
  next
    case 2
    define st' where "st' = (if st = [] then if r then [] else [dotdot]
      else if hd st = dotdot then dotdot # st else tl st)"
    have "(\<forall>z \<in> set st'. P z) \<and> (r \<longrightarrow> dotdot \<notin> set st')"
      using Cons.prems(2,3) up unfolding st'_def by (cases st) auto
    then have "\<forall>z \<in> set (clean_loop r st' xs). P z" using IH by blast
    moreover have "clean_loop r st (x # xs) = clean_loop r st' xs"
      by (simp add: 2 clean_loop_up st'_def)
    ultimately show ?thesis by simp
  next
    case 3
    show ?thesis unfolding clean_loop_push [OF 3]
      by (rule IH) (use Cons.prems 3 in auto)
  qed
qed

lemma path_segs_elem:
  assumes "x \<in> set (path_segs p)"
  shows "slash \<notin> set x" "x \<noteq> []" "x \<noteq> dot"
proof -
  have "\<forall>x \<in> set (path_segs p). slash \<notin> set x \<and> x \<noteq> [] \<and> x \<noteq> dot"
    unfolding path_segs_def
    by (rule clean_loop_inv) (use split_on_parts [of _ slash p] in \<open>simp_all, blast\<close>)
  with assms show "slash \<notin> set x" "x \<noteq> []" "x \<noteq> dot" by auto
qed

text \<open>A rooted path never climbs above its root.\<close>

lemma path_segs_rooted: "is_abs p \<Longrightarrow> dotdot \<notin> set (path_segs p)"
proof -
  assume "is_abs p"
  then have "\<forall>x \<in> set (path_segs p). x \<noteq> dotdot"
    unfolding path_segs_def by (intro clean_loop_inv) auto
  then show ?thesis by blast
qed

text \<open>A cleaned path is its own cleaning: the elements kept are in normal form.\<close>

definition normal :: "bool \<Rightarrow> string list \<Rightarrow> bool" where
  "normal r xs \<longleftrightarrow>
     (\<exists>n ys. xs = replicate n dotdot @ ys \<and> dotdot \<notin> set ys \<and> (r \<longrightarrow> n = 0))"

lemma normalI: "dotdot \<notin> set ys \<Longrightarrow> r \<longrightarrow> n = 0 \<Longrightarrow> normal r (replicate n dotdot @ ys)"
  unfolding normal_def by blast

lemma normal_push:
  assumes "normal r (rev st)" "x \<noteq> dotdot"
  shows "normal r (rev (x # st))"
proof -
  obtain n ys where "rev st = replicate n dotdot @ ys" "dotdot \<notin> set ys" "r \<longrightarrow> n = 0"
    using assms(1) unfolding normal_def by blast
  then show ?thesis using assms(2) normalI [of "ys @ [x]" r n] by simp
qed

lemma normal_up:
  assumes "normal r (rev (y # st))"
  shows "normal r (rev (if y = dotdot then dotdot # y # st else st))"
proof -
  obtain n ys where n: "rev st @ [y] = replicate n dotdot @ ys" "dotdot \<notin> set ys" "r \<longrightarrow> n = 0"
    using assms unfolding normal_def by auto
  show ?thesis
  proof (cases "ys" rule: rev_cases)
    case Nil
    then obtain m where m: "n = Suc m" using n(1) by (cases n) auto
    then have e: "rev st = replicate m dotdot" "y = dotdot"
      using n(1) Nil by (auto simp: replicate_append_same [symmetric])
    have "rev (dotdot # y # st) = replicate (Suc (Suc m)) dotdot"
      using e by (simp add: replicate_append_same)
    then show ?thesis using e m n(3) normalI [of "[]" r "Suc (Suc m)"] by simp
  next
    case (snoc zs z)
    then have e: "rev st = replicate n dotdot @ zs" "y = z" using n(1) by auto
    then have "y \<noteq> dotdot" using snoc n(2) by auto
    then show ?thesis using e snoc n normalI [of zs r n] by auto
  qed
qed

lemma clean_loop_normal: "normal r (rev st) \<Longrightarrow> normal r (clean_loop r st xs)"
proof (induction xs arbitrary: st)
  case Nil
  then show ?case by simp
next
  case (Cons x xs)
  consider "x = [] \<or> x = dot" | "x = dotdot" | "x \<noteq> []" "x \<noteq> dot" "x \<noteq> dotdot" by blast
  then show ?case
  proof cases
    case 1
    then show ?thesis using Cons by (simp only: clean_loop_skip)
  next
    case 3
    show ?thesis unfolding clean_loop_push [OF 3]
      by (rule Cons.IH [OF normal_push [OF Cons.prems 3(3)]])
  next
    case 2
    show ?thesis
    proof (cases st)
      case Nil
      have "normal r (rev (if r then [] else [dotdot]))"
        using normalI [of "[]" r 0] normalI [of "[]" r 1] by (cases r) simp_all
      then show ?thesis using Cons.IH by (simp add: 2 Nil clean_loop_up)
    next
      case st: (Cons y ys)
      show ?thesis
        using Cons.IH [OF normal_up [OF Cons.prems [unfolded st]]]
        unfolding st 2 clean_loop_up by (cases "y = dotdot") simp_all
    qed
  qed
qed

lemma clean_loop_dotdots:
  "set st \<subseteq> {dotdot} \<Longrightarrow>
   clean_loop False st (replicate n dotdot @ ys) = clean_loop False (replicate n dotdot @ st) ys"
proof (induction n arbitrary: st)
  case 0
  then show ?case by simp
next
  case (Suc n)
  have "clean_loop False st (replicate (Suc n) dotdot @ ys)
      = clean_loop False (dotdot # st) (replicate n dotdot @ ys)"
    using Suc.prems by (cases st) (auto simp: clean_loop_up)
  also have "\<dots> = clean_loop False (replicate n dotdot @ dotdot # st) ys"
    by (rule Suc.IH) (use Suc.prems in auto)
  finally show ?case by (simp add: replicate_app_Cons_same)
qed

lemma clean_loop_fix:
  assumes "normal r xs" and "\<forall>x \<in> set xs. x \<noteq> [] \<and> x \<noteq> dot"
  shows "clean_loop r [] xs = xs"
proof -
  obtain n ys where n: "xs = replicate n dotdot @ ys" "dotdot \<notin> set ys" "r \<longrightarrow> n = 0"
    using assms(1) unfolding normal_def by blast
  have "filter (\<lambda>x. x \<noteq> [] \<and> x \<noteq> dot) ys = ys"
    using assms(2) n(1) by (simp add: filter_id_conv)
  then show ?thesis
    using n clean_loop_dotdots [of "[]" n ys] by (cases r) (simp_all add: clean_loop_plain)
qed

section \<open>Rel\<close>

text \<open>The elements of a cleaned path, as \<open>Rel\<close> steps through its bytes.\<close>

definition elements :: "string \<Rightarrow> string list" where
  [go_defs]: "elements p = filter (\<lambda>x. x \<noteq> []) (split_on slash p)"

fun strip_common :: "string list \<Rightarrow> string list \<Rightarrow> string list \<times> string list" where
  "strip_common (x # xs) (y # ys) = (if x = y then strip_common xs ys else (x # xs, y # ys))"
| "strip_common xs ys = (xs, ys)"

definition rel_path :: "string \<Rightarrow> string \<Rightarrow> string option" where
  [go_defs]: "rel_path basepath targpath =
     (let base = clean basepath; targ = clean targpath
      in if targ = base then Some dot
         else let base' = (if base = dot then [] else base)
         in if is_abs base' \<noteq> is_abs targ then None
         else case strip_common (elements base') (elements targ) of (b, t) \<Rightarrow>
           (case b of
              [] \<Rightarrow> Some (join [slash] t)
            | e # _ \<Rightarrow> if e = dotdot then None
                      else Some (join [slash] (map (\<lambda>_. dotdot) b @ t))))"

lemma strip_common_prefix: "strip_common b (b @ t) = ([], t)"
  by (induction b) auto

lemma strip_common_split:
  "strip_common b t = (b', t') \<Longrightarrow> \<exists>c. b = c @ b' \<and> t = c @ t'"
proof (induction b t arbitrary: b' t' rule: strip_common.induct)
  case (1 x xs y ys)
  show ?case
  proof (cases "x = y")
    case True
    with 1 obtain c where "xs = c @ b'" "ys = c @ t'" by auto
    with True show ?thesis by (metis append_Cons)
  next
    case False
    with 1 show ?thesis by auto
  qed
qed auto

lemma elements_join:
  "\<forall>x \<in> set xs. slash \<notin> set x \<and> x \<noteq> [] \<Longrightarrow> elements (join [slash] xs) = xs"
  by (cases "xs = []") (auto simp: elements_def split_join filter_id_conv)

lemma elements_clean:
  "elements (clean p) = (if \<not> is_abs p \<and> path_segs p = [] then [dot] else path_segs p)"
proof -
  have e: "elements (join [slash] (path_segs p)) = path_segs p"
    by (rule elements_join) (use path_segs_elem in blast)
  have s: "elements (slash # q) = elements q" for q
    by (simp add: elements_def)
  show ?thesis
    by (simp add: clean_def e s) (simp add: elements_def)
qed

lemma is_abs_clean [simp]: "is_abs (clean p) = is_abs p"
proof (cases "is_abs p \<or> path_segs p = []")
  case True
  then show ?thesis by (auto simp: clean_def is_abs_def dot_def)
next
  case False
  then obtain x xs where s: "path_segs p = x # xs" by (cases "path_segs p") auto
  then have "x \<noteq> []" "slash \<notin> set x" using path_segs_elem [of x p] by auto
  then obtain c cs where "x = c # cs" "c \<noteq> slash" by (cases x) auto
  with False s show ?thesis by (cases xs) (auto simp: clean_def is_abs_def)
qed

lemma path_segs_clean [simp]: "path_segs (clean p) = path_segs p"
proof -
  have el: "\<forall>x \<in> set (path_segs p). slash \<notin> set x \<and> x \<noteq> [] \<and> x \<noteq> dot"
    using path_segs_elem by blast
  have nf: "normal (is_abs p) (path_segs p)"
    unfolding path_segs_def using normalI [of "[]" "is_abs p" 0]
    by (intro clean_loop_normal) simp
  have sp: "path_segs p \<noteq> [] \<Longrightarrow> split_on slash (join [slash] (path_segs p)) = path_segs p"
    using el by (intro split_join) auto
  have fix0: "clean_loop (is_abs p) [] (path_segs p) = path_segs p"
    using clean_loop_fix [OF nf] el by blast
  have rooted: "clean_loop True [] (split_on slash (slash # q)) = clean_loop True [] (split_on slash q)" for q
    by (simp add: clean_loop_skip)
  have base: "path_segs (clean p) = clean_loop (is_abs p) [] (split_on slash (clean p))"
    by (simp add: path_segs_def [of "clean p"])
  show ?thesis
  proof (cases "path_segs p = []")
    case True
    then show ?thesis unfolding base by (simp add: clean_def clean_loop_skip)
  next
    case False
    then have "path_segs (clean p) = clean_loop (is_abs p) [] (path_segs p)"
      unfolding base using sp rooted by (simp add: clean_def clean_loop_skip)
    then show ?thesis using fix0 by simp
  qed
qed

lemma clean_idem [simp]: "clean (clean p) = clean p"
proof -
  have "clean (clean p) =
    (if is_abs (clean p) then slash # join [slash] (path_segs (clean p))
      else if path_segs (clean p) = [] then dot
      else join [slash] (path_segs (clean p)))"
    by (rule clean_def)
  then show ?thesis by (simp only: path_segs_clean is_abs_clean) (simp add: clean_def)
qed

lemma clean_eq: "is_abs p = is_abs q \<Longrightarrow> clean p = clean q \<longleftrightarrow> path_segs p = path_segs q"
  by (metis clean_def path_segs_clean)

lemma is_abs_append: "p \<noteq> [] \<Longrightarrow> is_abs (p @ q) = is_abs p"
  by (cases p) (simp_all add: is_abs_def)

lemma path_segs_append:
  assumes "p \<noteq> []" "dotdot \<notin> set (split_on slash q)"
  shows "path_segs (p @ slash # q) =
    path_segs p @ filter (\<lambda>x. x \<noteq> [] \<and> x \<noteq> dot) (split_on slash q)"
  using assms
  by (simp add: path_segs_def is_abs_append clean_loop_then clean_loop_plain)

text \<open>A path below another, seen from it: the elements it adds.\<close>

lemma rel_path_below:
  assumes "is_abs targ = is_abs base" "path_segs targ = path_segs base @ ys" "ys \<noteq> []"
  shows "rel_path base targ = Some (join [slash] ys)"
proof -
  have ne: "clean targ \<noteq> clean base" using assms by (simp add: clean_eq)
  have tn: "path_segs targ \<noteq> []" using assms by simp
  have et: "elements (clean targ) = path_segs base @ ys"
    using assms(2) tn by (simp add: elements_clean)
  define b where "b = (if clean base = dot then [] else clean base)"
  have ab: "is_abs b = is_abs targ"
    unfolding b_def using assms(1) is_abs_clean [of base] by (auto simp: is_abs_def dot_def)
  have eb: "elements b = path_segs base"
  proof (cases "\<not> is_abs base \<and> path_segs base = []")
    case True
    then show ?thesis by (simp add: b_def clean_def elements_def)
  next
    case False
    then have e: "elements (clean base) = path_segs base" by (simp add: elements_clean)
    have "clean base \<noteq> dot"
    proof
      assume "clean base = dot"
      then have "elements (clean base) = [dot]" by (simp add: elements_def)
      then show False using e path_segs_elem(3) [of dot base] by simp
    qed
    then show ?thesis using e by (simp add: b_def)
  qed
  show ?thesis
    using ne ab eb et
    by (simp add: rel_path_def Let_def b_def [symmetric] strip_common_prefix)
qed

section \<open>Base and Dir\<close>

definition base_name :: "string \<Rightarrow> string" where
  [go_defs]: "base_name p =
     (if p = [] then dot
      else let q = rev (dropWhile (\<lambda>c. c = slash) (rev p))
           in if q = [] then ''/'' else (case cut_last slash q of (_, a, ok) \<Rightarrow> if ok then a else q))"

text \<open>\<open>path.Dir\<close>: everything up to the last slash, cleaned.\<close>

definition dir_name :: "string \<Rightarrow> string" where
  [go_defs]: "dir_name p = (case cut_last slash p of (b, _, ok) \<Rightarrow> clean (if ok then b @ [slash] else []))"

end
