(* ===== verification/Groupfolder.thy ===== *)
theory Groupfolder
  imports File_Path
begin

text \<open>
  groupfolder/folder.go: the folder grammar. A folder is a \<open>/\<close>-separated path of groups;
  this theory has its containment predicate, the folders the program accepts, the path a
  folder resolves to under a base directory, the chat identifiers (JIDs) built from a
  folder and the reading of a folder back out of one, and the vhost alias list.
  The properties: containment is a partial order; every accepted folder resolves, and
  resolves to its own elements below the base; the JID grammar reads back what it writes.
\<close>

section \<open>Containment\<close>

definition ContainsSep :: "string \<Rightarrow> string \<Rightarrow> string \<Rightarrow> bool" where
  [go_defs]: "ContainsSep parent child sep =
     (if parent = [] then False else child = parent \<or> has_prefix child (parent @ sep))"

definition Contains :: "string \<Rightarrow> string \<Rightarrow> bool" where
  [go_defs]: "Contains parent child = ContainsSep parent child ''/''"

definition ParentOf :: "string \<Rightarrow> string" where
  [go_defs]: "ParentOf folder =
     (case cut_last slash folder of (parent, _, found) \<Rightarrow> if \<not> found then [] else parent)"

definition NameOf :: "string \<Rightarrow> string" where
  [go_defs]: "NameOf folder =
     (case cut_last slash folder of (_, name, found) \<Rightarrow> if \<not> found then folder else name)"

lemma Contains_alt: "Contains p c \<longleftrightarrow> p \<noteq> [] \<and> (c = p \<or> (\<exists>t. c = p @ slash # t))"
  by (auto simp: Contains_def ContainsSep_def prefix_def)

lemma Contains_split:
  "Contains p c \<longleftrightarrow> p \<noteq> [] \<and> prefix (split_on slash p) (split_on slash c)"
proof
  assume "Contains p c"
  then show "p \<noteq> [] \<and> prefix (split_on slash p) (split_on slash c)"
    by (auto simp: Contains_alt)
next
  assume h: "p \<noteq> [] \<and> prefix (split_on slash p) (split_on slash c)"
  then obtain ys where e: "split_on slash c = split_on slash p @ ys" by (auto simp: prefix_def)
  show "Contains p c"
  proof (cases ys)
    case Nil
    with e have "c = p" by (auto dest: split_on_inj)
    with h show ?thesis by (simp add: Contains_alt)
  next
    case (Cons z zs)
    have "\<forall>x \<in> set ys. slash \<notin> set x"
      using e split_on_parts [of _ slash c] by auto
    then have "split_on slash (join [slash] ys) = ys" using Cons by (intro split_join) auto
    then have "split_on slash c = split_on slash (p @ slash # join [slash] ys)" using e by simp
    then have "c = p @ slash # join [slash] ys" by (rule split_on_inj)
    with h show ?thesis by (auto simp: Contains_alt)
  qed
qed

lemma Contains_trans: "Contains a b \<Longrightarrow> Contains b c \<Longrightarrow> Contains a c"
  by (auto simp: Contains_split)

lemma Contains_refl: "a \<noteq> [] \<Longrightarrow> Contains a a"
  by (simp add: Contains_alt)

lemma Contains_antisym: "Contains a b \<Longrightarrow> Contains b a \<Longrightarrow> a = b"
  by (auto simp: Contains_alt)

lemma Contains_chain: "Contains a c \<Longrightarrow> Contains b c \<Longrightarrow> Contains a b \<or> Contains b a"
  using prefix_same_cases [of "split_on slash a" "split_on slash c"] by (auto simp: Contains_split)

lemma ParentOf_NameOf: "ParentOf f \<noteq> [] \<Longrightarrow> ParentOf f @ slash # NameOf f = f"
  by (auto simp: ParentOf_def NameOf_def cut_last_found split: prod.splits if_splits)

lemma Contains_parent:
  assumes "f \<noteq> p" "Contains p f"
  shows "Contains p (ParentOf f)"
proof -
  obtain t where f: "f = p @ slash # t" and p: "p \<noteq> []"
    using assms by (auto simp: Contains_alt)
  obtain b a where c: "cut_last slash f = (b, a, True)"
    using f cut_last_not_found [of slash f] by (cases "cut_last slash f") auto
  then have e: "p @ slash # t = b @ slash # a" "slash \<notin> set a"
    using f by (simp_all add: cut_last_found)
  then have "Contains p b" using p
    by (auto simp: append_eq_append_conv2 append_eq_Cons_conv Cons_eq_append_conv Contains_alt)
  then show ?thesis using c by (simp add: ParentOf_def)
qed

section \<open>Accepted folders\<close>

definition reservedFolders :: "string list" where
  [go_defs]: "reservedFolders = [''share'', ''*'', ''**'']"

definition isValidFolder :: "string \<Rightarrow> bool" where
  [go_defs]: "isValidFolder folder =
     (if folder = [] \<or> folder \<noteq> trim_space folder then False
      else if sublist dotdot folder \<or> contains_any folder [backslash, CHR 0x00] then False
      else list_all (\<lambda>seg.
        if seg = [] \<or> length seg > 128 then False
        else if to_lower seg \<in> set reservedFolders then False
        else True) (split_on slash folder))"

definition IsValidFolder :: "string \<Rightarrow> bool" where
  [go_defs]: "IsValidFolder folder = isValidFolder folder"

definition ensureWithinBase :: "string \<Rightarrow> string \<Rightarrow> bool" where
  [go_defs]: "ensureWithinBase base resolved =
     (case rel_path base resolved of
        None \<Rightarrow> False
      | Some rel \<Rightarrow> if has_prefix rel dotdot \<or> is_abs rel then False else True)"

text \<open>\<open>resolve\<close>: \<open>None\<close> is the error.\<close>

definition resolve :: "string \<Rightarrow> string \<Rightarrow> string option" where
  [go_defs]: "resolve base folder =
     (if \<not> isValidFolder folder then None
      else let p = join_path base folder
           in if \<not> ensureWithinBase base p then None else Some p)"

record Resolver =
  GroupsDir :: string
  IpcDir :: string

definition GroupPath :: "Resolver \<Rightarrow> string \<Rightarrow> string option" where
  [go_defs]: "GroupPath r folder = resolve (GroupsDir r) folder"

definition IpcPath :: "Resolver \<Rightarrow> string \<Rightarrow> string option" where
  [go_defs]: "IpcPath r folder = resolve (IpcDir r) folder"

lemma valid_folder_segs:
  assumes "isValidFolder f"
  shows "\<forall>x \<in> set (split_on slash f). x \<noteq> [] \<and> slash \<notin> set x \<and> \<not> sublist dotdot x"
proof
  fix x assume x: "x \<in> set (split_on slash f)"
  have "x \<noteq> []" using assms x by (auto simp: isValidFolder_def list_all_iff split: if_splits)
  moreover have "slash \<notin> set x" using split_on_parts [OF x] .
  moreover have "sublist x f"
    using x join_elem_sublist [of x "split_on slash f" "[slash]"] by (simp add: join_split)
  moreover have "\<not> sublist dotdot f" using assms by (auto simp: isValidFolder_def split: if_splits)
  ultimately show "x \<noteq> [] \<and> slash \<notin> set x \<and> \<not> sublist dotdot x"
    using sublist_order.order_trans by blast
qed

lemma valid_no_dotdot:
  assumes "isValidFolder f"
  shows "dotdot \<notin> set (split_on slash f)"
  using valid_folder_segs [OF assms] by auto

lemma valid_relative: "isValidFolder f \<Longrightarrow> \<not> is_abs f"
  using valid_folder_segs [of f] by (cases f) (auto simp: is_abs_def)

lemma filter_named:
  assumes "isValidFolder f"
  shows "filter (\<lambda>x. x \<noteq> [] \<and> x \<noteq> dot) (split_on slash f)
       = filter (\<lambda>x. x \<noteq> dot) (split_on slash f)"
  using valid_folder_segs [OF assms] by (intro filter_cong) auto

text \<open>What joining a valid folder to a base names: the base's elements, then the folder's.\<close>

lemma join_valid:
  assumes "isValidFolder f"
  shows "path_segs (join_path base f) = path_segs base @ filter (\<lambda>x. x \<noteq> dot) (split_on slash f)"
    and "is_abs (join_path base f) = is_abs base"
proof -
  have nd: "dotdot \<notin> set (split_on slash f)" by (rule valid_no_dotdot [OF assms])
  have ne: "f \<noteq> []" using assms by (auto simp: isValidFolder_def)
  have "path_segs (join_path base f) = path_segs base @ filter (\<lambda>x. x \<noteq> [] \<and> x \<noteq> dot) (split_on slash f)
    \<and> is_abs (join_path base f) = is_abs base"
  proof (cases "base = []")
    case True
    have e: "path_segs ([]::string) = []" by (simp add: path_segs_def clean_loop_skip)
    have "path_segs f = filter (\<lambda>x. x \<noteq> [] \<and> x \<noteq> dot) (split_on slash f)"
      using clean_loop_plain [OF nd] by (simp add: path_segs_def)
    then show ?thesis using True ne e valid_relative [OF assms]
      by (simp add: join_path_def) (simp add: is_abs_def)
  next
    case False
    then show ?thesis using path_segs_append [OF False nd]
      by (simp add: join_path_def is_abs_append)
  qed
  then show "path_segs (join_path base f) = path_segs base @ filter (\<lambda>x. x \<noteq> dot) (split_on slash f)"
    and "is_abs (join_path base f) = is_abs base"
    using filter_named [OF assms] by simp_all
qed

lemma within_base_valid:
  assumes "isValidFolder f"
  shows "ensureWithinBase base (join_path base f)"
proof -
  let ?ys = "filter (\<lambda>x. x \<noteq> dot) (split_on slash f)"
  note j = join_valid [OF assms, of base]
  show ?thesis
  proof (cases "?ys = []")
    case True
    then have "clean (join_path base f) = clean base" using j by (simp add: clean_eq)
    then have "rel_path base (join_path base f) = Some dot" by (simp add: rel_path_def)
    then show ?thesis
      by (simp add: ensureWithinBase_def is_abs_def) (simp add: dot_def dotdot_def)
  next
    case False
    then obtain x xs where y: "?ys = x # xs" by (cases ?ys) auto
    then have "x \<in> set (split_on slash f)" by (metis filter_is_subset list.set_intros(1) subsetD)
    then have x: "x \<noteq> []" "slash \<notin> set x" "\<not> sublist dotdot x"
      using valid_folder_segs [OF assms] by auto
    have r: "rel_path base (join_path base f) = Some (join [slash] ?ys)"
      using rel_path_below [OF j(2) j(1) False] .
    have "\<not> is_abs (join [slash] ?ys)"
      using x(1,2) unfolding y by (cases x) (auto simp: join_Cons is_abs_def)
    moreover have "\<not> has_prefix (join [slash] ?ys) dotdot"
    proof
      assume "has_prefix (join [slash] ?ys) dotdot"
      then have "has_prefix x dotdot \<or> (\<exists>c \<in> set dotdot. c = slash)"
        using x(1) unfolding y
        by (cases xs) (auto simp: join_Cons dotdot_def prefix_def append_eq_Cons_conv Cons_eq_append_conv)
      then show False using x(3) by (auto dest: prefix_imp_sublist)
    qed
    ultimately show ?thesis using r by (simp add: ensureWithinBase_def)
  qed
qed

theorem resolve_valid:
  "resolve base f = (if isValidFolder f then Some (join_path base f) else None)"
  using within_base_valid [of f base] by (simp add: resolve_def)

lemma resolve_segs:
  assumes "resolve base f = Some p"
  shows "is_abs p = is_abs base"
    "path_segs p = path_segs base @ filter (\<lambda>x. x \<noteq> dot) (split_on slash f)"
  using assms join_valid [of f base] by (auto simp: resolve_valid split: if_splits)

section \<open>JIDs\<close>

definition WebJID :: "string \<Rightarrow> string" where
  [go_defs]: "WebJID folder = ''web:'' @ folder"

definition HookJID :: "string \<Rightarrow> string \<Rightarrow> string" where
  [go_defs]: "HookJID folder source = ''hook:'' @ folder @ ''/'' @ source"

definition JidFolder :: "string \<Rightarrow> string" where
  [go_defs]: "JidFolder jid =
     (case cut_prefix jid ''web:'' of
        Some rest \<Rightarrow> rest
      | None \<Rightarrow>
        (case cut_prefix jid ''hook:'' of
           Some rest \<Rightarrow>
             (case cut_last slash rest of (b, _, found) \<Rightarrow>
               if found \<and> length b > 0 then b else rest)
         | None \<Rightarrow> []))"

lemma cut_prefix_append [simp]: "cut_prefix (p @ s) p = Some s"
  by (simp add: cut_prefix_def)

lemma JidFolder_web [simp]: "JidFolder (WebJID f) = f"
  unfolding JidFolder_def WebJID_def cut_prefix_append by simp

lemma JidFolder_hook: "f \<noteq> [] \<Longrightarrow> slash \<notin> set s \<Longrightarrow> JidFolder (HookJID f s) = f"
proof -
  assume a: "f \<noteq> []" "slash \<notin> set s"
  have w: "cut_prefix (''hook:'' @ f @ ''/'' @ s) ''web:'' = None" by (simp add: cut_prefix_def)
  have c: "cut_last slash (f @ ''/'' @ s) = (f, s, True)" using a by (simp add: cut_last_found)
  show ?thesis using a c unfolding JidFolder_def HookJID_def w cut_prefix_append by simp
qed

section \<open>Vhosts\<close>

definition valid_vhost_char :: "char \<Rightarrow> bool" where
  [go_defs]: "valid_vhost_char r =
     ((CHR ''a'' \<le> r \<and> r \<le> CHR ''z'') \<or> (CHR ''A'' \<le> r \<and> r \<le> CHR ''Z'')
      \<or> (CHR ''0'' \<le> r \<and> r \<le> CHR ''9'') \<or> r = CHR ''.'' \<or> r = CHR ''-'' \<or> r = colon)"

definition ValidVhostName :: "string \<Rightarrow> bool" where
  [go_defs]: "ValidVhostName h = (if h = [] \<or> length h > 253 then False else list_all valid_vhost_char h)"

text \<open>One entry of the alias list: \<open>None\<close> is a skipped one.\<close>

definition vhost_entry :: "string \<Rightarrow> (string \<times> string) option" where
  [go_defs]: "vhost_entry part =
     (let part = trim_space part
      in if part = [] then None
         else case cut equals part of (host, world, ok) \<Rightarrow>
           let host = to_lower (trim_space host); world = trim_space world
           in if \<not> ok \<or> host = [] \<or> world = [] then None
              else if \<not> ValidVhostName host then None
              else if \<not> IsValidFolder world then None
              else Some (host, world))"

definition ParseVhostAliases :: "string \<Rightarrow> string \<Rightarrow> string option" where
  [go_defs]: "ParseVhostAliases s =
     foldl (\<lambda>m part. case vhost_entry part of None \<Rightarrow> m | Some (h, w) \<Rightarrow> m(h \<mapsto> w))
       (\<lambda>_. None) (split_on comma s)"

lemma vhost_entry_ok: "vhost_entry part = Some (h, w) \<Longrightarrow> ValidVhostName h \<and> IsValidFolder w"
  by (auto simp: vhost_entry_def Let_def split: if_splits prod.splits)

lemma vhost_fold_ok:
  "\<forall>h w. m h = Some w \<longrightarrow> ValidVhostName h \<and> IsValidFolder w \<Longrightarrow>
   foldl (\<lambda>m part. case vhost_entry part of None \<Rightarrow> m | Some (h, w) \<Rightarrow> m(h \<mapsto> w)) m ps h = Some w \<Longrightarrow>
   ValidVhostName h \<and> IsValidFolder w"
proof (induction ps arbitrary: m)
  case Nil
  then show ?case by simp
next
  case (Cons p ps)
  show ?case
    using Cons.prems vhost_entry_ok [of p]
    by (intro Cons.IH [of "case vhost_entry p of None \<Rightarrow> m | Some (h, w) \<Rightarrow> m(h \<mapsto> w)"])
      (auto split: option.splits)
qed

section \<open>Properties\<close>

text \<open>
  C4. A folder resolves under a base directory exactly when the grammar accepts it, and
  the path it resolves to consists of the base's own elements followed by the folder's
  elements (those that are not a lone dot): no accepted folder leaves its base, whatever
  the base, and the escape check never refuses an accepted one.
\<close>

theorem resolve_contained:
  "map_option (\<lambda>p. (is_abs p, path_segs p)) (resolve base f) =
   (if isValidFolder f
    then Some (is_abs base,
               path_segs base @ filter (\<lambda>x. x \<noteq> dot \<and> x \<noteq> dotdot) (split_on slash f))
    else None)"
proof (cases "isValidFolder f")
  case True
  then have "filter (\<lambda>x. x \<noteq> dot) (split_on slash f)
      = filter (\<lambda>x. x \<noteq> dot \<and> x \<noteq> dotdot) (split_on slash f)"
    using valid_no_dotdot [OF True] by (intro filter_cong) auto
  then show ?thesis using True join_valid [OF True, of base] by (simp add: resolve_valid)
qed (simp add: resolve_valid)

text \<open>
  Two accepted folders resolve to one path exactly when they have the same elements
  once lone dots are left out: the lone dot is the one way two names share a directory.
\<close>

theorem resolve_alias:
  assumes "isValidFolder f" and "isValidFolder g"
  shows "resolve base f = resolve base g \<longleftrightarrow>
    filter (\<lambda>x. x \<noteq> dot) (split_on slash f) = filter (\<lambda>x. x \<noteq> dot) (split_on slash g)"
proof -
  have c: "clean (join_path base h) = join_path base h" if "h \<noteq> []" for h
    using that by (simp add: join_path_def)
  have ne: "f \<noteq> []" "g \<noteq> []" using assms by (auto simp: isValidFolder_def)
  have "join_path base f = join_path base g \<longleftrightarrow> path_segs (join_path base f) = path_segs (join_path base g)"
    using clean_eq [of "join_path base f" "join_path base g"] join_valid [OF assms(1), of base]
      join_valid [OF assms(2), of base] c ne by simp
  then show ?thesis using assms join_valid by (simp add: resolve_valid)
qed

text \<open>
  The JID grammar reads back the folder it was built from: for every folder from a web
  JID, and for every non-empty folder and one-segment source from a hook JID.
\<close>

theorem jid_folder_inverse:
  assumes "f \<noteq> []" and "slash \<notin> set source"
  shows "JidFolder (WebJID f) = f \<and> JidFolder (HookJID f source) = f"
  using assms by (simp_all add: JidFolder_hook)

lemma jid_folder_inverse_witness:
  "JidFolder (WebJID ''acme/eng'') = ''acme/eng'' \<and>
   JidFolder (HookJID ''acme/eng'' ''gh'') = ''acme/eng''"
  by (rule jid_folder_inverse) simp_all

text \<open>Evaluation of the grammar on a closed folder.\<close>

lemma valid_example:
  "isValidFolder ''acme/eng''" "isValidFolder ''acme/./eng''"
  by (simp_all add: go_defs drop_white.simps)

lemma resolve_alias_witness:
  "resolve ''/srv/groups'' ''acme/eng'' = resolve ''/srv/groups'' ''acme/./eng''"
  using resolve_alias [OF valid_example] by (simp add: dot_def)

end
