(* ===== verification/Objstore.thy ===== *)
theory Objstore
  imports Prelude "HOL-Library.AList"
begin

text \<open>
  objstore: the storage surface every daemon addresses. This theory has its data (keys,
  items, conditions, writes, checks, queries), the ordered-width rules of ordered.go, what
  a batch and a query must satisfy before any driver sees them (\<open>ValidateBatch\<close>,
  \<open>ValidateQuery\<close>) and the meaning of a condition on one item. A Go map is an association
  list with distinct keys where the program iterates over it and a function where it only
  looks up. The declared widths are an argument \<open>ws\<close> of the functions that read them.
\<close>

section \<open>Data\<close>

record Key =
  Partition :: string
  Sort :: string

type_synonym attrs = "string \<Rightarrow> string option"
type_synonym attr_list = "(string \<times> string) list"

record Item =
  i_key :: Key
  i_attrs :: attrs

datatype ItemCond = ItemAny | ItemPresent | ItemAbsent

datatype Op = Eq | Ne | Lt | Le | Gt | Ge | Absent | Present

record Cmp =
  c_attr :: string
  c_op :: Op
  c_value :: string

record Cond =
  cond_item :: ItemCond
  cond_where :: "Cmp list"

datatype WriteOp = Put | Update | Merge | Delete

record Write =
  w_op :: WriteOp
  w_entity :: string
  w_key :: Key
  w_attrs :: attr_list
  w_init :: attr_list
  w_remove :: "string list"
  w_cond :: Cond

record Check =
  k_entity :: string
  k_key :: Key
  k_cond :: Cond

datatype KeyOp = AnyKey | ExactKey | LtKey | LeKey | GtKey | GeKey | PrefixKey

record KeyPredicate =
  p_op :: KeyOp
  p_value :: string
  p_sep :: string

record Query =
  q_entity :: string
  q_partition :: string
  q_key :: KeyPredicate
  q_where :: "Cmp list"
  q_descending :: bool
  q_limit :: int
  q_project :: "string list"

text \<open>Go's zero values of the structs, for the fields a literal leaves out.\<close>

definition no_cond :: Cond where
  [go_defs]: "no_cond = \<lparr>cond_item = ItemAny, cond_where = []\<rparr>"

definition any_key :: KeyPredicate where
  [go_defs]: "any_key = \<lparr>p_op = AnyKey, p_value = [], p_sep = []\<rparr>"

definition write0 :: "WriteOp \<Rightarrow> string \<Rightarrow> Key \<Rightarrow> Write" where
  [go_defs]: "write0 op ent k = \<lparr>w_op = op, w_entity = ent, w_key = k, w_attrs = [], w_init = [],
     w_remove = [], w_cond = no_cond\<rparr>"

definition query0 :: "string \<Rightarrow> string \<Rightarrow> Query" where
  [go_defs]: "query0 ent part = \<lparr>q_entity = ent, q_partition = part, q_key = any_key, q_where = [],
     q_descending = False, q_limit = 0, q_project = []\<rparr>"

section \<open>Ordered widths\<close>

record rule =
  r_width :: int
  r_lead :: bool

type_synonym widths = "string \<times> string \<Rightarrow> rule option"

text \<open>\<open>declare\<close>: \<open>None\<close> is the panic on a bad or a disagreeing declaration.\<close>

definition declare_rule :: "string \<Rightarrow> string \<Rightarrow> rule \<Rightarrow> widths \<Rightarrow> widths option" where
  [go_defs]: "declare_rule entity attr r ws =
     (if r_width r \<le> 0 then None
      else case ws (entity, attr) of
        Some was \<Rightarrow> if was \<noteq> r then None else Some (ws((entity, attr) \<mapsto> r))
      | None \<Rightarrow> Some (ws((entity, attr) \<mapsto> r)))"

definition OrderedSort :: "string \<Rightarrow> int \<Rightarrow> widths \<Rightarrow> widths option" where
  [go_defs]: "OrderedSort entity width ws = declare_rule entity [] \<lparr>r_width = width, r_lead = False\<rparr> ws"

definition OrderedAttr :: "string \<Rightarrow> string \<Rightarrow> int \<Rightarrow> widths \<Rightarrow> widths option" where
  [go_defs]: "OrderedAttr entity attr width ws =
     (if attr = [] then None
      else declare_rule entity attr \<lparr>r_width = width, r_lead = False\<rparr> ws)"

definition OrderedLead :: "string \<Rightarrow> string \<Rightarrow> int \<Rightarrow> widths \<Rightarrow> widths option" where
  [go_defs]: "OrderedLead entity attr width ws =
     declare_rule entity attr \<lparr>r_width = width, r_lead = True\<rparr> ws"

definition holds :: "rule \<Rightarrow> string \<Rightarrow> bool" where
  [go_defs]: "holds r v =
     (if r_lead r then int (length v) \<ge> r_width r else int (length v) = r_width r)"

definition checkOrderedSort :: "widths \<Rightarrow> string \<Rightarrow> string list \<Rightarrow> bool" where
  [go_defs]: "checkOrderedSort ws entity keys =
     (case ws (entity, []) of None \<Rightarrow> True | Some r \<Rightarrow> list_all (holds r) keys)"

definition checkOrderedAttr :: "widths \<Rightarrow> string \<Rightarrow> string \<Rightarrow> string \<Rightarrow> bool" where
  [go_defs]: "checkOrderedAttr ws entity attr v =
     (case ws (entity, attr) of None \<Rightarrow> True | Some r \<Rightarrow> holds r v)"

section \<open>What a query must satisfy\<close>

definition keyBounds :: "KeyPredicate \<Rightarrow> string list" where
  [go_defs]: "keyBounds k =
     (case p_op k of AnyKey \<Rightarrow> [] | PrefixKey \<Rightarrow> [] | _ \<Rightarrow> [p_value k])"

definition cmp_width_ok :: "widths \<Rightarrow> string \<Rightarrow> Cmp \<Rightarrow> bool" where
  [go_defs]: "cmp_width_ok ws entity c =
     (if c_op c = Absent \<or> c_op c = Present then True
      else checkOrderedAttr ws entity (c_attr c) (c_value c))"

definition ValidateQuery :: "widths \<Rightarrow> Query \<Rightarrow> bool" where
  [go_defs]: "ValidateQuery ws q =
     (if q_entity q = [] then False
      else if q_partition q = [] then False
      else if q_limit q < 0 then False
      else if p_sep (q_key q) \<noteq> [] \<and> p_op (q_key q) \<noteq> PrefixKey then False
      else if p_op (q_key q) = AnyKey \<and> p_value (q_key q) \<noteq> [] then False
      else if \<not> checkOrderedSort ws (q_entity q) (keyBounds (q_key q)) then False
      else list_all (cmp_width_ok ws (q_entity q)) (q_where q))"

section \<open>What a batch must satisfy\<close>

definition validateCond :: "widths \<Rightarrow> string \<Rightarrow> Cond \<Rightarrow> bool" where
  [go_defs]: "validateCond ws entity c = list_all (cmp_width_ok ws entity) (cond_where c)"

definition has_attr :: "attr_list \<Rightarrow> string \<Rightarrow> bool" where
  [go_defs]: "has_attr m a = (map_of m a \<noteq> None)"

definition validateMerge :: "widths \<Rightarrow> Write \<Rightarrow> bool" where
  [go_defs]: "validateMerge ws w =
     (if \<not> list_all (\<lambda>(attr, v). checkOrderedAttr ws (w_entity w) attr v
                        \<and> \<not> has_attr (w_attrs w) attr) (w_init w) then False
      else if w_op w \<noteq> Merge then w_init w = []
      else if cond_item (w_cond w) \<noteq> ItemAny \<or> cond_where (w_cond w) \<noteq> [] then False
      else True)"

definition validateWrite :: "widths \<Rightarrow> Write \<Rightarrow> bool" where
  [go_defs]: "validateWrite ws w =
     (if \<not> checkOrderedSort ws (w_entity w) [Sort (w_key w)] then False
      else if \<not> list_all (\<lambda>(attr, v). checkOrderedAttr ws (w_entity w) attr v) (w_attrs w) then False
      else if \<not> validateCond ws (w_entity w) (w_cond w) then False
      else if w_op w = Put \<and> (cond_where (w_cond w) \<noteq> [] \<or> cond_item (w_cond w) = ItemPresent) then False
      else if \<not> validateMerge ws w then False
      else if w_remove w = [] then True
      else if w_op w \<noteq> Update \<and> w_op w \<noteq> Merge then False
      else list_all (\<lambda>attr. attr \<noteq> [] \<and> \<not> has_attr (w_init w) attr \<and> \<not> has_attr (w_attrs w) attr)
             (w_remove w))"

definition MaxBatchActions :: nat where [go_defs]: "MaxBatchActions = 100"

type_synonym coord = "string \<times> string \<times> string"

definition coord_of :: "string \<Rightarrow> Key \<Rightarrow> coord" where
  [go_defs]: "coord_of entity k = (entity, Partition k, Sort k)"

text \<open>\<open>itemClaims.claim\<close>: the items acted on so far; a second action on one is refused.\<close>

definition claim :: "coord \<Rightarrow> coord list \<Rightarrow> coord list option" where
  [go_defs]: "claim c seen = (if c \<in> set seen then None else Some (c # seen))"

fun claim_checks :: "widths \<Rightarrow> Check list \<Rightarrow> coord list \<Rightarrow> coord list option" where
  "claim_checks ws [] seen = Some seen"
| "claim_checks ws (c # cs) seen =
     (case claim (coord_of (k_entity c) (k_key c)) seen of
        None \<Rightarrow> None
      | Some seen' \<Rightarrow>
          if \<not> validateCond ws (k_entity c) (k_cond c) then None else claim_checks ws cs seen')"

fun claim_writes :: "widths \<Rightarrow> Write list \<Rightarrow> coord list \<Rightarrow> coord list option" where
  "claim_writes ws [] seen = Some seen"
| "claim_writes ws (w # rest) seen =
     (case claim (coord_of (w_entity w) (w_key w)) seen of
        None \<Rightarrow> None
      | Some seen' \<Rightarrow> if \<not> validateWrite ws w then None else claim_writes ws rest seen')"

definition ValidateBatch :: "widths \<Rightarrow> Check list \<Rightarrow> Write list \<Rightarrow> bool" where
  [go_defs]: "ValidateBatch ws checks writes =
     (if writes = [] then False
      else if length checks + length writes > MaxBatchActions then False
      else case claim_checks ws checks [] of
        None \<Rightarrow> False
      | Some seen \<Rightarrow> claim_writes ws writes seen \<noteq> None)"

fun claim_all :: "Write list \<Rightarrow> coord list \<Rightarrow> coord list option" where
  "claim_all [] seen = Some seen"
| "claim_all (w # rest) seen =
     (case claim (coord_of (w_entity w) (w_key w)) seen of
        None \<Rightarrow> None
      | Some seen' \<Rightarrow> claim_all rest seen')"

definition oneActionPerItem :: "Write list \<Rightarrow> bool" where
  [go_defs]: "oneActionPerItem writes = (claim_all writes [] \<noteq> None)"

end
