(* ===== verification/Dynstore.thy ===== *)
theory Dynstore
  imports Objstore
begin

text \<open>
  objstore/dynstore: the driver that renders the two primitives of the store interface
  into requests to a DynamoDB endpoint. The expressions are data here: a list of
  predicates that are ANDed, the SET and REMOVE halves of an update. The endpoint is not
  code of the program, so it is an argument of the two entry points: \<open>transact\<close> answers
  TransactWriteItems, \<open>pages\<close> is the sequence of pages the endpoint answers a Query with.
\<close>

section \<open>Items on the wire\<close>

definition partAttr :: string where [go_defs]: "partAttr = ''part''"
definition sortAttr :: string where [go_defs]: "sortAttr = ''sort''"
definition openAttr :: string where [go_defs]: "openAttr = ''__open''"

text \<open>An attribute value as the endpoint sends it: the driver takes strings only.\<close>

datatype raw_value = S string | Other_Type

type_synonym raw_item = "(string \<times> raw_value) list"

definition itemOf :: "Key \<Rightarrow> attr_list \<Rightarrow> raw_item" where
  [go_defs]: "itemOf key attrs =
     foldl (\<lambda>out (k, v). AList.update k (S v) out)
       [(partAttr, S (Partition key)), (sortAttr, S (Sort key))] attrs"

definition readField :: "Item option \<Rightarrow> string \<times> raw_value \<Rightarrow> Item option" where
  [go_defs]: "readField acc kv =
     (case acc of None \<Rightarrow> None
      | Some it \<Rightarrow>
        (case kv of (k, v) \<Rightarrow>
          (case v of Other_Type \<Rightarrow> None
           | S s \<Rightarrow>
             if k = partAttr then Some (it\<lparr>i_key := (i_key it)\<lparr>Partition := s\<rparr>\<rparr>)
             else if k = sortAttr then Some (it\<lparr>i_key := (i_key it)\<lparr>Sort := s\<rparr>\<rparr>)
             else Some (it\<lparr>i_attrs := (i_attrs it)(k \<mapsto> s)\<rparr>))))"

definition readItem :: "raw_item \<Rightarrow> Item option" where
  [go_defs]: "readItem raw =
     foldl readField (Some \<lparr>i_key = \<lparr>Partition = [], Sort = []\<rparr>, i_attrs = \<lambda>_. None\<rparr>) raw"

section \<open>Expressions\<close>

datatype pred = Attr_Exists string | Attr_Not_Exists string | Attr_Cmp string Op string

definition cmpExpr :: "Cmp \<Rightarrow> pred" where
  [go_defs]: "cmpExpr c =
     (case c_op c of
        Absent \<Rightarrow> Attr_Not_Exists (c_attr c)
      | Present \<Rightarrow> Attr_Exists (c_attr c)
      | op \<Rightarrow> Attr_Cmp (c_attr c) op (c_value c))"

definition condExpr :: "Cond \<Rightarrow> pred list" where
  [go_defs]: "condExpr c =
     (case cond_item c of
        ItemPresent \<Rightarrow> [Attr_Exists partAttr]
      | ItemAbsent \<Rightarrow> [Attr_Not_Exists partAttr]
      | ItemAny \<Rightarrow> []) @ map cmpExpr (cond_where c)"

datatype set_clause = Set string string | Set_If_Not_Exists string string

record update_expr =
  u_set :: "set_clause list"
  u_remove :: "string list"

definition setExpr :: "attr_list \<Rightarrow> attr_list \<Rightarrow> string list \<Rightarrow> update_expr" where
  [go_defs]: "setExpr attrs init remove =
     \<lparr>u_set = map (\<lambda>(k, v). Set k v) attrs @ map (\<lambda>(k, v). Set_If_Not_Exists k v) init,
      u_remove = remove\<rparr>"

datatype action =
    Put_Item coord raw_item "pred list"
  | Delete_Item coord "pred list"
  | Update_Item coord update_expr "pred list"
  | Condition_Check coord "pred list"

definition writeAction :: "Write \<Rightarrow> action" where
  [go_defs]: "writeAction w =
     (let cond = condExpr (w_cond w); c = coord_of (w_entity w) (w_key w)
      in case w_op w of
        Put \<Rightarrow> Put_Item c (itemOf (w_key w) (w_attrs w)) cond
      | Delete \<Rightarrow> Delete_Item c cond
      | _ \<Rightarrow>
        (let cond = (if w_op w = Update then Attr_Exists partAttr # cond else cond);
             expr = setExpr (w_attrs w) (w_init w) (w_remove w);
             expr = (if u_set expr = [] \<and> u_remove expr = [] then expr\<lparr>u_remove := [openAttr]\<rparr> else expr)
         in Update_Item c expr cond))"

definition checkAction :: "Check \<Rightarrow> action option" where
  [go_defs]: "checkAction c =
     (let cond = condExpr (k_cond c)
      in if cond = [] then None
         else Some (Condition_Check (coord_of (k_entity c) (k_key c)) cond))"

fun checkActions :: "Check list \<Rightarrow> action list option" where
  "checkActions [] = Some []"
| "checkActions (c # cs) =
     (case checkAction c of None \<Rightarrow> None
      | Some a \<Rightarrow> map_option (\<lambda>as. a # as) (checkActions cs))"

section \<open>GuardedBatch\<close>

text \<open>What TransactWriteItems answers: done, a condition that did not hold, or a fault.\<close>

datatype answer =
    Done
  | Canceled "string list"
  | Check_Failed
  | Faulted

datatype store_error =
    Invalid
  | Fault
  | NoMarker
  | ScopeHeld
  | ScopeMoved
  | ClaimLost
  | CycleErr
  | GaveUp
  | BadData
  | PartWritten store_error

definition refused :: "answer \<Rightarrow> bool" where
  [go_defs]: "refused a =
     (case a of
        Canceled reasons \<Rightarrow> list_ex (\<lambda>r. r = ''ConditionalCheckFailed'') reasons
      | Check_Failed \<Rightarrow> True
      | _ \<Rightarrow> False)"

definition GuardedBatch ::
  "widths \<Rightarrow> ('s \<Rightarrow> action list \<Rightarrow> answer \<times> 's) \<Rightarrow> 's \<Rightarrow> Check list \<Rightarrow> Write list
   \<Rightarrow> (store_error + bool) \<times> 's" where
  [go_defs]: "GuardedBatch ws transact s checks writes =
     (if \<not> ValidateBatch ws checks writes then (Inl Invalid, s)
      else case checkActions checks of
        None \<Rightarrow> (Inl Invalid, s)
      | Some cs \<Rightarrow>
          (case transact s (cs @ map writeAction writes) of (a, s') \<Rightarrow>
             if a = Done then (Inr True, s')
             else if refused a then (Inr False, s')
             else (Inl Fault, s')))"

section \<open>Query\<close>

datatype key_cond = All_Keys | Key_Cmp Op string | Begins_With string

definition keyCond :: "KeyPredicate \<Rightarrow> key_cond" where
  [go_defs]: "keyCond k =
     (case p_op k of
        AnyKey \<Rightarrow> All_Keys
      | ExactKey \<Rightarrow> Key_Cmp Eq (p_value k)
      | LtKey \<Rightarrow> Key_Cmp Lt (p_value k)
      | LeKey \<Rightarrow> Key_Cmp Le (p_value k)
      | GtKey \<Rightarrow> Key_Cmp Gt (p_value k)
      | GeKey \<Rightarrow> Key_Cmp Ge (p_value k)
      | PrefixKey \<Rightarrow> Begins_With (p_value k))"

definition filterExpr :: "Cmp list \<Rightarrow> pred list" where
  [go_defs]: "filterExpr cs = map cmpExpr cs"

definition inSubtree :: "KeyPredicate \<Rightarrow> string \<Rightarrow> bool" where
  [go_defs]: "inSubtree k srt =
     (if p_op k \<noteq> PrefixKey \<or> p_sep k = [] then True
      else srt = p_value k \<or> has_prefix srt (p_value k @ p_sep k))"

record query_input =
  in_table :: string
  in_partition :: string
  in_key :: key_cond
  in_forward :: bool
  in_consistent :: bool
  in_filter :: "pred list"
  in_project :: "string list"
  in_limit :: int

text \<open>\<open>int32(q.Limit)\<close> keeps the low 32 bits.\<close>

definition int32 :: "int \<Rightarrow> int" where
  [go_defs]: "int32 n = (n + 2 ^ 31) mod 2 ^ 32 - 2 ^ 31"

definition query_input_of :: "Query \<Rightarrow> query_input" where
  [go_defs]: "query_input_of q =
     \<lparr>in_table = q_entity q, in_partition = q_partition q, in_key = keyCond (q_key q),
      in_forward = (\<not> q_descending q), in_consistent = True,
      in_filter = filterExpr (q_where q),
      in_project = (if q_project q \<noteq> [] then partAttr # sortAttr # q_project q else []),
      in_limit = (if q_limit q > 0 then int32 (q_limit q) else 0)\<rparr>"

text \<open>One page's items: the answer when the limit is reached or an item is unreadable, else what is read.\<close>

fun take_page :: "Query \<Rightarrow> raw_item list \<Rightarrow> Item list \<Rightarrow> (store_error + Item list) + Item list" where
  "take_page q [] out = Inr out"
| "take_page q (raw # raws) out =
     (case readItem raw of
        None \<Rightarrow> Inl (Inl BadData)
      | Some it \<Rightarrow>
          if \<not> inSubtree (q_key q) (Sort (i_key it)) then take_page q raws out
          else if q_limit q > 0 \<and> int (length (out @ [it])) \<ge> q_limit q then Inl (Inr (out @ [it]))
          else take_page q raws (out @ [it]))"

text \<open>The paging loop over the endpoint's answers; a page that is \<open>None\<close> is a fault.\<close>

fun read_pages :: "Query \<Rightarrow> raw_item list option list \<Rightarrow> Item list \<Rightarrow> store_error + Item list" where
  "read_pages q [] out = Inr out"
| "read_pages q (p # ps) out =
     (case p of
        None \<Rightarrow> Inl Fault
      | Some raws \<Rightarrow>
          (case take_page q raws out of
             Inl r \<Rightarrow> r
           | Inr out' \<Rightarrow> read_pages q ps out'))"

definition QueryItems ::
  "widths \<Rightarrow> (query_input \<Rightarrow> raw_item list option list) \<Rightarrow> Query \<Rightarrow> store_error + Item list" where
  [go_defs]: "QueryItems ws pages q =
     (if \<not> ValidateQuery ws q then Inl Invalid else read_pages q (pages (query_input_of q)) [])"

end
