(* ===== verification/Reach.thy ===== *)
theory Reach
  imports Dynstore
begin

text \<open>
  objstore/reach.go, the walk: \<open>Reachable\<close> decides whether a node sits at or above another
  in the membership graph, reading the parents of one node per step. The frontier is the
  Go slice used as a stack, its top first here; \<open>seen\<close> is the visited set, a list without
  duplicates because its size is what \<open>maxWalkNodes\<close> bounds. \<open>walk_loop\<close> is one call's whole
  loop; \<open>walk_step\<close> is one iteration, from which the interleaved walks of
  \<open>Membership_Race\<close> are made too. The walk always ends, is exact when it answers, and
  answers whenever the nodes above fit the bound.
\<close>

type_synonym parents_fun = "string \<Rightarrow> store_error + string list"

definition maxWalkNodes :: nat where "maxWalkNodes = 10000"

text \<open>The inner loop over one node's parents; \<open>None\<close> is the refusal of a graph too big.\<close>

fun visit :: "string list \<Rightarrow> string list \<Rightarrow> string list \<Rightarrow> (string list \<times> string list) option" where
  "visit [] seen frontier = Some (seen, frontier)"
| "visit (p # up) seen frontier =
     (if p \<in> set seen then visit up seen frontier
      else if length seen \<ge> maxWalkNodes then None
      else visit up (p # seen) (p # frontier))"

datatype walk = Answer "store_error + bool" | Walking "string list" "string list"

definition walk_step :: "parents_fun \<Rightarrow> string \<Rightarrow> string list \<Rightarrow> string list \<Rightarrow> walk" where
  "walk_step parents to seen frontier =
     (case frontier of
        [] \<Rightarrow> Answer (Inr False)
      | node # rest \<Rightarrow>
          if node = to then Answer (Inr True)
          else case parents node of
            Inl e \<Rightarrow> Answer (Inl e)
          | Inr up \<Rightarrow>
              (case visit up seen rest of
                 None \<Rightarrow> Answer (Inl GaveUp)
               | Some (seen', frontier') \<Rightarrow> Walking seen' frontier'))"

lemma visit_size:
  "visit up seen frontier = Some (seen', frontier') \<Longrightarrow> length seen \<le> maxWalkNodes \<Longrightarrow>
   length seen' \<le> maxWalkNodes \<and>
   2 * (maxWalkNodes - length seen') + length frontier' \<le> 2 * (maxWalkNodes - length seen) + length frontier"
proof (induction up seen frontier rule: visit.induct)
  case (1 seen frontier)
  then show ?case by simp
next
  case (2 p up seen frontier)
  show ?case
  proof (cases "p \<in> set seen")
    case True
    then show ?thesis using 2 by simp
  next
    case False
    then have lt: "length seen < maxWalkNodes"
      and "visit up (p # seen) (p # frontier) = Some (seen', frontier')"
      using "2.prems" by (auto split: if_splits)
    then have "length seen' \<le> maxWalkNodes \<and> 2 * (maxWalkNodes - length seen') + length frontier'
        \<le> 2 * (maxWalkNodes - length (p # seen)) + length (p # frontier)"
      using "2.IH"(2) False by simp
    then show ?thesis using lt by (simp, linarith)
  qed
qed

function walk_loop :: "parents_fun \<Rightarrow> string \<Rightarrow> string list \<Rightarrow> string list \<Rightarrow> store_error + bool" where
  "walk_loop parents to seen frontier =
     (if length seen > maxWalkNodes then Inl GaveUp
      else case walk_step parents to seen frontier of
        Answer r \<Rightarrow> r
      | Walking seen' frontier' \<Rightarrow> walk_loop parents to seen' frontier')"
  by pat_completeness auto
termination
proof (relation "measure (\<lambda>(_, _, seen, frontier). 2 * (maxWalkNodes - length seen) + length frontier)",
    goal_cases)
  case 1
  show ?case by simp
next
  case (2 parents to seen frontier seen' frontier')
  then obtain node rest up where "frontier = node # rest"
    "visit up seen rest = Some (seen', frontier')"
    by (auto simp: walk_step_def split: list.splits if_splits sum.splits option.splits)
  then show ?case using visit_size [of up seen rest seen' frontier'] 2(1) by simp
qed

declare walk_loop.simps [simp del]

text \<open>\<open>Reachable\<close>: the walk from \<open>from\<close> alone. The size guard of \<open>walk_loop\<close> never fires from here.\<close>

definition Reachable :: "parents_fun \<Rightarrow> string \<Rightarrow> string \<Rightarrow> store_error + bool" where
  "Reachable parents from to = walk_loop parents to [from] [from]"

section \<open>Exactness\<close>

text \<open>The graph a reader of parents shows: an edge from a node to each of its parents.\<close>

definition edges_of :: "parents_fun \<Rightarrow> (string \<times> string) set" where
  "edges_of parents = {(c, p). \<exists>up. parents c = Inr up \<and> p \<in> set up}"

text \<open>
  What holds of a walk's visited set and stack over a graph \<open>E\<close>: everything visited is
  above the start, and a visited node off the stack is not the target and has all its
  parents visited.
\<close>

definition walk_inv :: "(string \<times> string) set \<Rightarrow> string \<Rightarrow> string \<Rightarrow> string list \<Rightarrow> string list \<Rightarrow> bool" where
  "walk_inv E from to seen frontier \<longleftrightarrow>
     from \<in> set seen \<and> set frontier \<subseteq> set seen \<and>
     (\<forall>n \<in> set seen. (from, n) \<in> E\<^sup>*) \<and>
     (\<forall>n \<in> set seen - set frontier. n \<noteq> to \<and> E `` {n} \<subseteq> set seen)"

lemma walk_inv_start: "walk_inv E from to [from] [from]"
  by (simp add: walk_inv_def)

lemma visit_sets:
  "visit up seen frontier = Some (seen', frontier') \<Longrightarrow>
   set seen' = set seen \<union> set up \<and> set frontier' = set frontier \<union> (set up - set seen)"
proof (induction up seen frontier rule: visit.induct)
  case (1 seen frontier)
  then show ?case by simp
next
  case (2 p up seen frontier)
  then show ?case by (auto split: if_splits)
qed

lemma walk_inv_step:
  assumes inv: "walk_inv E from to seen frontier"
    and st: "walk_step parents to seen frontier = Walking seen' frontier'"
    and up: "\<And>up. parents (hd frontier) = Inr up \<Longrightarrow> set up = E `` {hd frontier}"
  shows "walk_inv E from to seen' frontier'"
proof -
  obtain node rest us where f: "frontier = node # rest" "node \<noteq> to" "parents node = Inr us"
    and v: "visit us seen rest = Some (seen', frontier')"
    using st by (auto simp: walk_step_def split: list.splits if_splits sum.splits option.splits)
  have us: "set us = E `` {node}" using up [of us] f by simp
  note s = visit_sets [OF v]
  have "(from, n) \<in> E\<^sup>*" if "n \<in> set seen'" for n
  proof (cases "n \<in> set seen")
    case True
    then show ?thesis using inv by (simp add: walk_inv_def)
  next
    case False
    then have "(node, n) \<in> E" using that s us by auto
    moreover have "(from, node) \<in> E\<^sup>*" using inv f by (simp add: walk_inv_def)
    ultimately show ?thesis by simp
  qed
  moreover have "n \<noteq> to \<and> E `` {n} \<subseteq> set seen'" if n: "n \<in> set seen' - set frontier'" for n
  proof (cases "n = node")
    case True
    then show ?thesis using f us s by auto
  next
    case False
    then have "n \<in> set seen - set frontier" using n s f by auto
    then show ?thesis using inv s by (auto simp: walk_inv_def)
  qed
  moreover have "from \<in> set seen'" "set frontier' \<subseteq> set seen'"
    using inv s f by (auto simp: walk_inv_def)
  ultimately show ?thesis by (simp add: walk_inv_def)
qed

text \<open>An answer given under the invariant is exact.\<close>

lemma walk_inv_answer:
  assumes inv: "walk_inv E from to seen frontier"
    and st: "walk_step parents to seen frontier = Answer (Inr b)"
  shows "b \<longleftrightarrow> (from, to) \<in> E\<^sup>*"
proof (cases frontier)
  case Nil
  then have b: "\<not> b" using st by (simp add: walk_step_def)
  have "n \<in> set seen" if "(from, n) \<in> E\<^sup>*" for n
    using that
  proof (induction rule: rtrancl_induct)
    case base
    then show ?case using inv by (simp add: walk_inv_def)
  next
    case (step y z)
    then show ?case using inv Nil by (auto simp: walk_inv_def)
  qed
  then have "(from, to) \<notin> E\<^sup>*" using inv Nil by (auto simp: walk_inv_def)
  then show ?thesis using b by simp
next
  case (Cons node rest)
  then have b: "b" and "node = to"
    using st by (auto simp: walk_step_def split: if_splits sum.splits option.splits)
  then show ?thesis using inv Cons by (simp add: walk_inv_def)
qed

lemma walk_loop_exact:
  "walk_inv (edges_of parents) from to seen frontier \<Longrightarrow>
   walk_loop parents to seen frontier = Inr b \<Longrightarrow> b \<longleftrightarrow> (from, to) \<in> (edges_of parents)\<^sup>*"
proof (induction parents to seen frontier rule: walk_loop.induct)
  case (1 parents to seen frontier)
  then have small: "\<not> length seen > maxWalkNodes"
    by (auto simp: walk_loop.simps [of parents to seen frontier])
  show ?case
  proof (cases "walk_step parents to seen frontier")
    case (Answer r)
    then show ?thesis using 1 small walk_inv_answer
      by (auto simp: walk_loop.simps [of parents to seen frontier])
  next
    case (Walking seen' frontier')
    have "walk_inv (edges_of parents) from to seen' frontier'"
      by (rule walk_inv_step [OF "1.prems"(1) Walking]) (auto simp: edges_of_def)
    then show ?thesis
      using "1.IH" [OF small Walking] "1.prems"(2) small Walking
      by (simp add: walk_loop.simps [of parents to seen frontier])
  qed
qed

theorem Reachable_exact:
  "Reachable parents from to = Inr b \<Longrightarrow> b \<longleftrightarrow> (from, to) \<in> (edges_of parents)\<^sup>*"
  unfolding Reachable_def by (rule walk_loop_exact [OF walk_inv_start])

section \<open>Answers\<close>

lemma visit_distinct:
  "visit up seen frontier = Some (seen', frontier') \<Longrightarrow> distinct seen \<Longrightarrow> distinct seen'"
  by (induction up seen frontier rule: visit.induct) (auto split: if_splits)

lemma visit_fits:
  assumes "finite R" "card R \<le> maxWalkNodes"
  shows "set up \<subseteq> R \<Longrightarrow> set seen \<subseteq> R \<Longrightarrow> distinct seen \<Longrightarrow> visit up seen frontier \<noteq> None"
proof (induction up seen frontier rule: visit.induct)
  case (1 seen frontier)
  then show ?case by simp
next
  case (2 p up seen frontier)
  show ?case
  proof (cases "p \<in> set seen")
    case True
    then show ?thesis using 2 by simp
  next
    case False
    then have "set (p # seen) \<subseteq> R" "distinct (p # seen)" using "2.prems" by auto
    then have "length (p # seen) \<le> card R"
      using assms(1) by (metis card_mono distinct_card)
    then have "length seen < maxWalkNodes" using assms(2) by simp
    then show ?thesis using 2 False by simp
  qed
qed

lemma walk_loop_answers:
  assumes R: "finite R" "card R \<le> maxWalkNodes" "\<And>n. n \<in> R \<Longrightarrow> edges_of parents `` {n} \<subseteq> R"
    and total: "\<And>n. n \<in> R \<Longrightarrow> \<exists>up. parents n = Inr up"
  shows "set seen \<subseteq> R \<Longrightarrow> set frontier \<subseteq> R \<Longrightarrow> distinct seen \<Longrightarrow>
    \<exists>b. walk_loop parents to seen frontier = Inr b"
proof (induction "2 * (maxWalkNodes - length seen) + length frontier"
    arbitrary: seen frontier rule: less_induct)
  case less
  have len: "length seen \<le> maxWalkNodes"
    using less.prems R(1,2) by (metis card_mono distinct_card le_trans)
  show ?case
  proof (cases frontier)
    case Nil
    then have "walk_loop parents to seen frontier = Inr False"
      using len by (simp add: walk_loop.simps [of parents to seen] walk_step_def)
    then show ?thesis by blast
  next
    case (Cons node rest)
    show ?thesis
    proof (cases "node = to")
      case True
      then have "walk_loop parents to seen frontier = Inr True"
        using len Cons by (simp add: walk_loop.simps [of parents to seen] walk_step_def)
      then show ?thesis by blast
    next
      case False
      have nR: "node \<in> R" using less.prems Cons by simp
      then obtain up where up: "parents node = Inr up" using total by blast
      then have upR: "set up \<subseteq> R" using R(3) [OF nR] by (auto simp: edges_of_def)
      obtain seen' frontier' where v: "visit up seen rest = Some (seen', frontier')"
        using visit_fits [OF R(1,2) upR less.prems(1,3), of rest] by auto
      have step: "walk_step parents to seen frontier = Walking seen' frontier'"
        using Cons False up v by (simp add: walk_step_def)
      have "2 * (maxWalkNodes - length seen') + length frontier'
          < 2 * (maxWalkNodes - length seen) + length frontier"
        using visit_size [OF v len] Cons by simp
      moreover have "set seen' \<subseteq> R" "set frontier' \<subseteq> R" "distinct seen'"
        using visit_sets [OF v] visit_distinct [OF v] less.prems upR Cons by auto
      ultimately obtain b where "walk_loop parents to seen' frontier' = Inr b"
        using less.hyps by blast
      then show ?thesis using len step by (simp add: walk_loop.simps [of parents to seen])
    qed
  qed
qed

theorem Reachable_answers:
  assumes "finite ((edges_of parents)\<^sup>* `` {from})"
    and "card ((edges_of parents)\<^sup>* `` {from}) \<le> maxWalkNodes"
    and "\<And>n. (from, n) \<in> (edges_of parents)\<^sup>* \<Longrightarrow> \<exists>up. parents n = Inr up"
  shows "Reachable parents from to = Inr ((from, to) \<in> (edges_of parents)\<^sup>*)"
proof -
  have "\<exists>b. walk_loop parents to [from] [from] = Inr b"
    by (rule walk_loop_answers [of "(edges_of parents)\<^sup>* `` {from}"])
      (use assms in \<open>auto intro: rtrancl_into_rtrancl\<close>)
  then obtain b where b: "Reachable parents from to = Inr b" unfolding Reachable_def by blast
  then show ?thesis using Reachable_exact [OF b] by simp
qed

section \<open>Properties\<close>

text \<open>
  C32. The cycle test is exact and always answers: when the parents of every node above the
  start can be read and there are no more of them than the bound, \<open>Reachable\<close> says whether
  the target is at or above the start.
\<close>

theorem reachable_decides:
  assumes "finite ((edges_of parents)\<^sup>* `` {from})"
    and "card ((edges_of parents)\<^sup>* `` {from}) \<le> maxWalkNodes"
    and "\<And>n. (from, n) \<in> (edges_of parents)\<^sup>* \<Longrightarrow> \<exists>up. parents n = Inr up"
  shows "Reachable parents from to = Inr ((from, to) \<in> (edges_of parents)\<^sup>*)"
  by (rule Reachable_answers [OF assms])

definition chain_parents :: parents_fun where
  "chain_parents n = (if n = ''a'' then Inr [''b''] else if n = ''b'' then Inr [''a''] else Inr [])"

lemma chain_edges: "edges_of chain_parents = {(''a'', ''b''), (''b'', ''a'')}"
  by (auto simp: edges_of_def chain_parents_def split: if_splits)

lemma reachable_decides_witness: "(''a'', ''b'') \<in> (edges_of chain_parents)\<^sup>*"
proof -
  have sub: "(edges_of chain_parents)\<^sup>* `` {''a''} \<subseteq> {''a'', ''b''}"
    unfolding chain_edges by (auto elim: rtranclE)
  have "card ((edges_of chain_parents)\<^sup>* `` {''a''}) \<le> card {''a'', ''b''}"
    by (rule card_mono [OF _ sub]) simp
  then have "card ((edges_of chain_parents)\<^sup>* `` {''a''}) \<le> maxWalkNodes" by (simp add: maxWalkNodes_def)
  moreover have "finite ((edges_of chain_parents)\<^sup>* `` {''a''})" using sub by (rule finite_subset) simp
  moreover have "\<exists>up. chain_parents n = Inr up" for n by (simp add: chain_parents_def)
  ultimately have "Reachable chain_parents ''a'' ''b'' = Inr ((''a'', ''b'') \<in> (edges_of chain_parents)\<^sup>*)"
    by (intro reachable_decides)
  moreover have "Reachable chain_parents ''a'' ''b'' = Inr True" by code_simp
  ultimately show ?thesis by simp
qed

end
