(* ===== verification/Store_Contract.thy ===== *)
theory Store_Contract
  imports Dynstore
begin

text \<open>
  The contract of a read, and the driver's proof of it. \<open>selected\<close> is what objstore/query.go
  says a query returns: the items of one partition the key predicate and the filter select,
  in key order, cut to the limit and the projection. \<open>wire_answer\<close> is the documented answer
  of the endpoint to a Query request. \<open>object_reader\<close> is the interface the components read
  through; the driver over an endpoint that keeps its documentation is an instance, whatever
  the page boundaries and whichever requests fail.
\<close>

section \<open>Comparisons\<close>

definition cmp_eval :: "string \<Rightarrow> Op \<Rightarrow> string \<Rightarrow> bool" where
  [go_defs]: "cmp_eval x op v =
     (case op of Eq \<Rightarrow> x = v | Ne \<Rightarrow> x \<noteq> v | Lt \<Rightarrow> x < v | Le \<Rightarrow> x \<le> v | Gt \<Rightarrow> x > v | Ge \<Rightarrow> x \<ge> v
      | Absent \<Rightarrow> False | Present \<Rightarrow> True)"

text \<open>One comparison on an item: an absent attribute answers no comparison.\<close>

definition cmp_match :: "attrs \<Rightarrow> Cmp \<Rightarrow> bool" where
  [go_defs]: "cmp_match m c =
     (case m (c_attr c) of None \<Rightarrow> c_op c = Absent | Some x \<Rightarrow> cmp_eval x (c_op c) (c_value c))"

definition key_match :: "KeyPredicate \<Rightarrow> string \<Rightarrow> bool" where
  [go_defs]: "key_match k s =
     (case p_op k of
        AnyKey \<Rightarrow> True
      | ExactKey \<Rightarrow> s = p_value k
      | LtKey \<Rightarrow> s < p_value k
      | LeKey \<Rightarrow> s \<le> p_value k
      | GtKey \<Rightarrow> s > p_value k
      | GeKey \<Rightarrow> s \<ge> p_value k
      | PrefixKey \<Rightarrow> if p_sep k = [] then has_prefix s (p_value k)
                    else s = p_value k \<or> has_prefix s (p_value k @ p_sep k))"

section \<open>What a query selects\<close>

definition limited :: "int \<Rightarrow> 'a list \<Rightarrow> 'a list" where
  [go_defs]: "limited n xs = (if n > 0 then take (nat n) xs else xs)"

definition projected :: "string list \<Rightarrow> Item \<Rightarrow> Item" where
  [go_defs]: "projected ps it =
     (if ps = [] then it else it\<lparr>i_attrs := (\<lambda>a. if a \<in> set ps then i_attrs it a else None)\<rparr>)"

definition picks :: "Query \<Rightarrow> Item \<Rightarrow> bool" where
  [go_defs]: "picks q it =
     (Partition (i_key it) = q_partition q \<and> key_match (q_key q) (Sort (i_key it))
      \<and> list_all (cmp_match (i_attrs it)) (q_where q))"

definition ordered :: "bool \<Rightarrow> Item list \<Rightarrow> Item list" where
  [go_defs]: "ordered descending its =
     (let up = sort_key (\<lambda>it. Sort (i_key it)) its in if descending then rev up else up)"

definition selected :: "Query \<Rightarrow> Item list \<Rightarrow> Item list" where
  [go_defs]: "selected q its =
     limited (q_limit q) (map (projected (q_project q))
       (filter (picks q) (ordered (q_descending q) its)))"

section \<open>The endpoint's answer\<close>

text \<open>A stored item: the attribute names are distinct and none is a key attribute.\<close>

type_synonym stored = "Key \<times> attr_list"

definition stored_ok :: "stored \<Rightarrow> bool" where
  [go_defs]: "stored_ok st =
     (distinct (map fst (snd st)) \<and> partAttr \<notin> fst ` set (snd st) \<and> sortAttr \<notin> fst ` set (snd st))"

definition raw_of :: "stored \<Rightarrow> raw_item" where
  [go_defs]: "raw_of st =
     (partAttr, S (Partition (fst st))) # (sortAttr, S (Sort (fst st))) # map (\<lambda>(k, v). (k, S v)) (snd st)"

definition item_of :: "stored \<Rightarrow> Item" where
  [go_defs]: "item_of st = \<lparr>i_key = fst st, i_attrs = map_of (snd st)\<rparr>"

definition raw_pred :: "raw_item \<Rightarrow> pred \<Rightarrow> bool" where
  [go_defs]: "raw_pred raw p =
     (case p of
        Attr_Exists a \<Rightarrow> map_of raw a \<noteq> None
      | Attr_Not_Exists a \<Rightarrow> map_of raw a = None
      | Attr_Cmp a op v \<Rightarrow> (case map_of raw a of Some (S x) \<Rightarrow> cmp_eval x op v | _ \<Rightarrow> False))"

definition key_eval :: "key_cond \<Rightarrow> string \<Rightarrow> bool" where
  [go_defs]: "key_eval k s =
     (case k of All_Keys \<Rightarrow> True | Key_Cmp op v \<Rightarrow> cmp_eval s op v | Begins_With v \<Rightarrow> has_prefix s v)"

definition wire_answer :: "stored list \<Rightarrow> query_input \<Rightarrow> raw_item list" where
  [go_defs]: "wire_answer rows i =
     (let up = sort_key (\<lambda>st. Sort (fst st)) rows;
          ord = (if in_forward i then up else rev up)
      in map (\<lambda>raw. if in_project i = [] then raw else filter (\<lambda>kv. fst kv \<in> set (in_project i)) raw)
           (filter (\<lambda>raw. list_all (raw_pred raw) (in_filter i))
             (map raw_of (filter (\<lambda>st. Partition (fst st) = in_partition i
                                       \<and> key_eval (in_key i) (Sort (fst st))) ord))))"

text \<open>
  The endpoint keeps its documentation: the pages it sends are the answer, in order, and
  all of it unless a request fails.
\<close>

definition endpoint_ok :: "(string \<Rightarrow> stored list) \<Rightarrow> (query_input \<Rightarrow> raw_item list option list) \<Rightarrow> bool" where
  "endpoint_ok rows pages \<longleftrightarrow>
     (\<forall>i. \<exists>rest. concat (map the (takeWhile (\<lambda>p. p \<noteq> None) (pages i))) @ rest = wire_answer (rows (in_table i)) i
           \<and> (None \<notin> set (pages i) \<longrightarrow> rest = []))"

text \<open>A query that filters and projects on attributes only, not on the key's two names.\<close>

definition plain_query :: "Query \<Rightarrow> bool" where
  [go_defs]: "plain_query q =
     (list_all (\<lambda>c. c_attr c \<noteq> partAttr \<and> c_attr c \<noteq> sortAttr) (q_where q)
      \<and> partAttr \<notin> set (q_project q) \<and> sortAttr \<notin> set (q_project q))"

section \<open>Reading items back\<close>

lemma part_sort [simp]: "partAttr \<noteq> sortAttr" "sortAttr \<noteq> partAttr"
  by (simp_all add: partAttr_def sortAttr_def)

lemma read_attrs:
  "distinct (map fst kvs) \<Longrightarrow> partAttr \<notin> fst ` set kvs \<Longrightarrow> sortAttr \<notin> fst ` set kvs \<Longrightarrow>
   foldl readField (Some it) (map (\<lambda>(k, v). (k, S v)) kvs) =
     Some (it\<lparr>i_attrs := i_attrs it ++ map_of kvs\<rparr>)"
proof (induction kvs arbitrary: it)
  case Nil
  then show ?case by simp
next
  case (Cons kv kvs)
  obtain k v where kv: "kv = (k, v)" by fastforce
  have k: "k \<noteq> partAttr" "k \<noteq> sortAttr" "k \<notin> fst ` set kvs" using Cons.prems kv by auto
  then have "foldl readField (Some it) (map (\<lambda>(k, v). (k, S v)) (kv # kvs))
      = foldl readField (Some (it\<lparr>i_attrs := (i_attrs it)(k \<mapsto> v)\<rparr>)) (map (\<lambda>(k, v). (k, S v)) kvs)"
    using kv by (simp add: readField_def)
  also have "\<dots> = Some (it\<lparr>i_attrs := (i_attrs it)(k \<mapsto> v) ++ map_of kvs\<rparr>)"
    using Cons by simp
  also have "(i_attrs it)(k \<mapsto> v) ++ map_of kvs = i_attrs it ++ map_of (kv # kvs)"
    using k(3) kv by (simp add: map_add_upd_left dom_map_of_conv_image_fst)
  finally show ?case .
qed

lemma readItem_raw:
  assumes "stored_ok st"
  shows "readItem (raw_of st) = Some (item_of st)"
  using assms read_attrs [of "snd st"]
  by (simp add: readItem_def raw_of_def stored_ok_def item_of_def readField_def)

lemma filter_raw:
  assumes "partAttr \<notin> set ps" "sortAttr \<notin> set ps"
  shows "filter (\<lambda>kv. fst kv \<in> set (partAttr # sortAttr # ps)) (raw_of st)
    = raw_of (fst st, filter (\<lambda>kv. fst kv \<in> set ps \<or> fst kv = partAttr \<or> fst kv = sortAttr) (snd st))"
  by (auto simp: raw_of_def filter_map comp_def case_prod_beta intro!: arg_cong [where f = "map _"] filter_cong)

lemma map_of_filter_keys:
  "map_of (filter (\<lambda>kv. fst kv \<in> A) kvs) = (\<lambda>a. if a \<in> A then map_of kvs a else None)"
  by (induction kvs) (auto simp: fun_eq_iff)

section \<open>The driver reads what the contract selects\<close>

lemma take_page_spec:
  assumes "map readItem raws = map Some its"
    and "q_limit q > 0 \<Longrightarrow> int (length out) < q_limit q"
  shows "take_page q raws out =
    (let all = out @ filter (\<lambda>it. inSubtree (q_key q) (Sort (i_key it))) its
     in if q_limit q > 0 \<and> int (length all) \<ge> q_limit q then Inl (Inr (take (nat (q_limit q)) all))
        else Inr all)"
  using assms
proof (induction raws arbitrary: its out)
  case Nil
  then show ?case by auto
next
  case (Cons raw raws)
  then obtain it rest where its: "its = it # rest" "readItem raw = Some it"
    "map readItem raws = map Some rest" by (cases its) auto
  consider (skip) "\<not> inSubtree (q_key q) (Sort (i_key it))"
    | (stop) "inSubtree (q_key q) (Sort (i_key it))" "q_limit q > 0" "int (length out) + 1 \<ge> q_limit q"
    | (go) "inSubtree (q_key q) (Sort (i_key it))" "q_limit q > 0 \<longrightarrow> int (length out) + 1 < q_limit q"
    by linarith
  then show ?case
  proof cases
    case skip
    then show ?thesis using Cons.IH [OF its(3) Cons.prems(2)] its by simp
  next
    case stop
    then have "nat (q_limit q) = Suc (length out)" using Cons.prems(2) by linarith
    then show ?thesis using stop its by (auto simp: Let_def)
  next
    case go
    then have "q_limit q > 0 \<Longrightarrow> int (length (out @ [it])) < q_limit q" by simp
    note IH = Cons.IH [OF its(3) this]
    have "\<not> (q_limit q > 0 \<and> int (length (out @ [it])) \<ge> q_limit q)" using go by auto
    then have "take_page q (raw # raws) out = take_page q raws (out @ [it])"
      using go(1) its(2) by auto
    also note IH
    finally show ?thesis using go(1) its(1) by simp
  qed
qed

text \<open>
  A read that answers has what its query wants of the pages before the first fault, and
  where there is a fault it had reached its limit before it.
\<close>

abbreviation answered :: "'a option list \<Rightarrow> 'a option list" where
  "answered ps \<equiv> takeWhile (\<lambda>p. p \<noteq> None) ps"

lemma read_pages_spec:
  assumes "map readItem (concat (map the (answered ps))) = map Some its"
    and "q_limit q > 0 \<Longrightarrow> int (length out) < q_limit q"
  shows "let all = out @ filter (\<lambda>it. inSubtree (q_key q) (Sort (i_key it))) its
    in (if None \<notin> set ps \<or> q_limit q > 0 \<and> int (length all) \<ge> q_limit q
        then read_pages q ps out = Inr (limited (q_limit q) all)
        else read_pages q ps out = Inl Fault)"
  using assms
proof (induction ps arbitrary: its out)
  case Nil
  then show ?case by (auto simp: limited_def)
next
  case (Cons p ps)
  let ?keep = "\<lambda>it. inSubtree (q_key q) (Sort (i_key it))"
  show ?case
  proof (cases p)
    case None
    then show ?thesis using Cons.prems by (auto simp: limited_def)
  next
    case (Some raws)
    have "map Some its = map readItem raws @ map readItem (concat (map the (answered ps)))"
      using Cons.prems(1) Some by simp
    then obtain us vs where uv: "its = us @ vs" "map readItem raws = map Some us"
      "map readItem (concat (map the (answered ps))) = map Some vs"
      by (auto simp: map_eq_append_conv)
    let ?here = "out @ filter ?keep us"
    have split: "out @ filter ?keep its = ?here @ filter ?keep vs" by (simp add: uv(1))
    note tp = take_page_spec [OF uv(2) Cons.prems(2)]
    show ?thesis
    proof (cases "q_limit q > 0 \<and> int (length ?here) \<ge> q_limit q")
      case True
      then have "take (nat (q_limit q)) (?here @ filter ?keep vs) = take (nat (q_limit q)) ?here"
        by (simp add: nat_le_iff)
      moreover have "take_page q raws out = Inl (Inr (take (nat (q_limit q)) ?here))"
        using tp True by (simp only: Let_def if_True simp_thms)
      moreover have "int (length (?here @ filter ?keep vs)) \<ge> q_limit q"
        using True by simp
      ultimately show ?thesis
        using True Some unfolding Let_def split limited_def by simp
    next
      case False
      have "take_page q raws out = Inr ?here"
        using tp False by (simp only: Let_def if_False)
      then have "read_pages q (p # ps) out = read_pages q ps ?here" using Some by simp
      moreover have "q_limit q > 0 \<Longrightarrow> int (length ?here) < q_limit q" using False by linarith
      note IH = Cons.IH [OF uv(3) this]
      ultimately show ?thesis
        using IH Some unfolding Let_def split by simp
    qed
  qed
qed

section \<open>The interface\<close>

text \<open>
  Reading through a handle: an answer is what the query selects of the entity's items.
  A failed read is an error, and nothing is said of which reads fail.
\<close>

locale object_reader =
  fixes rd :: "Query \<Rightarrow> store_error + Item list"
    and rows :: "string \<Rightarrow> Item list"
  assumes reads: "plain_query q \<Longrightarrow> rd q = Inr its \<Longrightarrow> its = selected q (rows (q_entity q))"
begin

lemma reads_set:
  assumes "plain_query q" "rd q = Inr its" "q_limit q \<le> 0" "q_project q = []"
  shows "set its = {it \<in> set (rows (q_entity q)). picks q it}"
  using reads [OF assms(1,2)] assms(3,4)
  by (auto simp: selected_def limited_def ordered_def projected_def Let_def)

lemma reads_prefix:
  assumes "rd ((query0 ent part)\<lparr>q_key := \<lparr>p_op = PrefixKey, p_value = v, p_sep = []\<rparr>\<rparr>) = Inr its"
  shows "set its = {it \<in> set (rows ent). Partition (i_key it) = part \<and> has_prefix (Sort (i_key it)) v}"
  using reads_set [OF _ assms] by (simp add: plain_query_def query0_def picks_def key_match_def)

lemma reads_partition:
  assumes "rd (query0 ent part) = Inr its"
  shows "set its = {it \<in> set (rows ent). Partition (i_key it) = part}"
  using reads_set [OF _ assms]
  by (simp add: plain_query_def query0_def picks_def key_match_def any_key_def)

end

text \<open>The driver's filter on the wire is the contract's filter on the item.\<close>

lemma raw_pred_cmp:
  assumes "c_attr c \<noteq> partAttr" "c_attr c \<noteq> sortAttr"
  shows "raw_pred (raw_of st) (cmpExpr c) = cmp_match (i_attrs (item_of st)) c"
proof -
  have "map_of (raw_of st) (c_attr c) = map_option S (map_of (snd st) (c_attr c))"
    using assms by (simp add: raw_of_def map_of_map)
  then show ?thesis
    by (cases "c_op c"; cases "map_of (snd st) (c_attr c)")
      (simp_all add: raw_pred_def cmpExpr_def cmp_match_def item_of_def cmp_eval_def)
qed

lemma key_eval_subtree:
  "key_match k s \<longleftrightarrow> key_eval (keyCond k) s \<and> inSubtree k s"
  by (cases "p_op k") (auto simp: key_match_def key_eval_def keyCond_def inSubtree_def cmp_eval_def
      prefix_def)

text \<open>What one row is on the wire, read back: the contract's item, projected.\<close>

lemma read_projected:
  assumes ok: "stored_ok st" and q: "partAttr \<notin> set ps" "sortAttr \<notin> set ps"
  shows "readItem (if ps = [] then raw_of st
      else filter (\<lambda>kv. fst kv \<in> set (partAttr # sortAttr # ps)) (raw_of st))
    = Some (projected ps (item_of st))"
proof (cases "ps = []")
  case True
  then show ?thesis using readItem_raw [OF ok] by (simp add: projected_def)
next
  case False
  let ?st = "(fst st, filter (\<lambda>kv. fst kv \<in> set ps \<or> fst kv = partAttr \<or> fst kv = sortAttr) (snd st))"
  have "stored_ok ?st" using ok by (auto simp: stored_ok_def distinct_map_filter)
  moreover have "item_of ?st = projected ps (item_of st)"
  proof -
    have "filter (\<lambda>kv. fst kv \<in> set ps \<or> fst kv = partAttr \<or> fst kv = sortAttr) (snd st)
        = filter (\<lambda>kv. fst kv \<in> set ps) (snd st)"
      using ok by (intro filter_cong) (force simp: stored_ok_def)+
    then show ?thesis using False
      by (simp add: item_of_def projected_def map_of_filter_keys cong: if_cong)
  qed
  ultimately show ?thesis using False filter_raw [OF q] readItem_raw by simp
qed

lemma insort_map: "insort_key f (g x) (map g xs) = map g (insort_key (\<lambda>x. f (g x)) x xs)"
  by (induction xs) simp_all

lemma sort_map: "sort_key f (map g xs) = map g (sort_key (\<lambda>x. f (g x)) xs)"
  by (induction xs) (simp_all add: insort_map)

lemma ordered_items:
  "ordered d (map item_of rows) =
   map item_of (let up = sort_key (\<lambda>st. Sort (fst st)) rows in if d then rev up else up)"
  by (simp add: ordered_def sort_map item_of_def rev_map Let_def)

text \<open>The answer on the wire, read item by item, is the selection before the subtree and the limit.\<close>

definition wire_items :: "stored list \<Rightarrow> Query \<Rightarrow> Item list" where
  "wire_items rows q =
     map (projected (q_project q))
       (filter (\<lambda>it. list_all (cmp_match (i_attrs it)) (q_where q))
         (filter (\<lambda>it. Partition (i_key it) = q_partition q \<and> key_eval (keyCond (q_key q)) (Sort (i_key it)))
           (ordered (q_descending q) (map item_of rows))))"

lemma wire_answer_items:
  assumes ok: "\<And>st. st \<in> set rows \<Longrightarrow> stored_ok st" and q: "plain_query q"
  shows "map readItem (wire_answer rows (query_input_of q)) = map Some (wire_items rows q)"
proof -
  have pr: "partAttr \<notin> set (q_project q)" "sortAttr \<notin> set (q_project q)"
    using q by (simp_all add: plain_query_def)
  have wh: "list_all (raw_pred (raw_of st)) (map cmpExpr (q_where q))
      = list_all (cmp_match (i_attrs (item_of st))) (q_where q)" for st
    using q raw_pred_cmp by (auto simp: plain_query_def list_all_iff)
  define ord where "ord = (let up = sort_key (\<lambda>st. Sort (fst st)) rows in if q_descending q then rev up else up)"
  have ordok: "st \<in> set ord \<Longrightarrow> stored_ok st" for st using ok by (auto simp: ord_def Let_def split: if_splits)
  define sel where "sel = filter (\<lambda>st. list_all (cmp_match (i_attrs (item_of st))) (q_where q))
    (filter (\<lambda>st. Partition (fst st) = q_partition q \<and> key_eval (keyCond (q_key q)) (Sort (fst st))) ord)"
  have "wire_items rows q = map (\<lambda>st. projected (q_project q) (item_of st)) sel"
    unfolding wire_items_def ordered_items ord_def [symmetric] sel_def
    by (simp add: filter_map comp_def item_of_def)
  moreover have "wire_answer rows (query_input_of q) =
      map (\<lambda>st. if q_project q = [] then raw_of st
        else filter (\<lambda>kv. fst kv \<in> set (partAttr # sortAttr # q_project q)) (raw_of st)) sel"
    unfolding sel_def ord_def wire_answer_def query_input_of_def filterExpr_def Let_def
    by (simp add: filter_map comp_def wh)
  moreover have "st \<in> set sel \<Longrightarrow> stored_ok st" for st using ordok by (simp add: sel_def)
  ultimately show ?thesis using read_projected [OF _ pr] by simp
qed

lemma filter_map_keep: "filter P (map g xs) = map g (filter (\<lambda>x. P (g x)) xs)"
  by (simp add: filter_map comp_def)

lemma wire_items_selected:
  "limited (q_limit q) (filter (\<lambda>it. inSubtree (q_key q) (Sort (i_key it))) (wire_items rows q))
   = selected q (map item_of rows)"
proof -
  have k: "i_key (projected ps it) = i_key it" for ps it by (simp add: projected_def)
  show ?thesis
    unfolding wire_items_def selected_def picks_def key_eval_subtree filter_map_keep k
    by (auto intro!: arg_cong [where f = "limited (q_limit q)"] arg_cong [where f = "map _"] filter_cong)
qed

text \<open>
  The driver refines the contract: over an endpoint that keeps its documentation, a query
  that answers gives exactly what the contract says it selects, across any page boundaries
  and with any requests failing; and it answers whenever none fails.
\<close>

lemma driver_selects:
  assumes ep: "endpoint_ok rows pages" and ok: "\<And>e st. st \<in> set (rows e) \<Longrightarrow> stored_ok st"
    and q: "plain_query q" "ValidateQuery ws q"
  shows "QueryItems ws pages q = Inl Fault \<and> None \<in> set (pages (query_input_of q))
    \<or> QueryItems ws pages q = Inr (selected q (map item_of (rows (q_entity q))))"
proof -
  let ?i = "query_input_of q" and ?keep = "\<lambda>it. inSubtree (q_key q) (Sort (i_key it))"
  let ?W = "wire_items (rows (q_entity q)) q"
  have tab: "in_table ?i = q_entity q" by (simp add: query_input_of_def)
  obtain rest where r: "concat (map the (answered (pages ?i))) @ rest = wire_answer (rows (q_entity q)) ?i"
    "None \<notin> set (pages ?i) \<longrightarrow> rest = []"
    using ep tab unfolding endpoint_ok_def by metis
  have "map Some ?W = map readItem (concat (map the (answered (pages ?i)))) @ map readItem rest"
    using wire_answer_items [of "rows (q_entity q)", OF ok q(1)] by (simp flip: r(1))
  then obtain us vs where uv: "?W = us @ vs"
    "map readItem (concat (map the (answered (pages ?i)))) = map Some us" "map readItem rest = map Some vs"
    by (auto simp: map_eq_append_conv)
  have vs: "None \<notin> set (pages ?i) \<Longrightarrow> vs = []" using r(2) uv(3) by auto
  have W: "limited (q_limit q) (filter ?keep (us @ vs)) = selected q (map item_of (rows (q_entity q)))"
    using wire_items_selected [of q "rows (q_entity q)"] uv(1) by simp
  have l: "q_limit q > 0 \<Longrightarrow> int (length ([] :: Item list)) < q_limit q" by simp
  note spec = read_pages_spec [OF uv(2) l, unfolded Let_def append_Nil]
  show ?thesis
  proof (cases "None \<notin> set (pages ?i) \<or> q_limit q > 0 \<and> int (length (filter ?keep us)) \<ge> q_limit q")
    case True
    then have "limited (q_limit q) (filter ?keep (us @ vs)) = limited (q_limit q) (filter ?keep us)"
      using vs by (auto simp: limited_def nat_le_iff)
    then show ?thesis using spec True q(2) W by (simp add: QueryItems_def)
  next
    case False
    then show ?thesis using spec q(2) by (simp add: QueryItems_def)
  qed
qed

section \<open>The driver as an instance\<close>

text \<open>The widths a query is checked against refuse nothing that is not declared.\<close>

locale endpoint =
  fixes rows :: "string \<Rightarrow> stored list"
    and pages :: "query_input \<Rightarrow> raw_item list option list"
    and ws :: widths
  assumes keeps: "endpoint_ok rows pages"
    and stored: "st \<in> set (rows e) \<Longrightarrow> stored_ok st"
begin

lemma driver_reads:
  assumes "plain_query q" "QueryItems ws pages q = Inr its"
  shows "its = selected q (map item_of (rows (q_entity q)))"
proof -
  have "ValidateQuery ws q" using assms(2) by (simp add: QueryItems_def split: if_splits)
  then show ?thesis using driver_selects [OF keeps stored assms(1), where ws = ws] assms(2) by auto
qed

end

sublocale endpoint \<subseteq> object_reader "QueryItems ws pages" "\<lambda>e. map item_of (rows e)"
  by unfold_locales (rule driver_reads)

text \<open>
  An endpoint over given tables that fails the requests \<open>fails\<close> picks and answers the rest
  in one page; and the reader the driver is over it.
\<close>

definition table_pages :: "(query_input \<Rightarrow> bool) \<Rightarrow> (string \<Rightarrow> stored list) \<Rightarrow> query_input \<Rightarrow> raw_item list option list" where
  [go_defs]: "table_pages fails rows i =
     (if fails i then [None] else [Some (wire_answer (filter stored_ok (rows (in_table i))) i)])"

definition table_reader :: "(query_input \<Rightarrow> bool) \<Rightarrow> (string \<Rightarrow> stored list) \<Rightarrow> Query \<Rightarrow> store_error + Item list" where
  [go_defs]: "table_reader fails rows = QueryItems (\<lambda>_. None) (table_pages fails rows)"

interpretation tables: endpoint "\<lambda>e. filter stored_ok (rows e)" "table_pages fails rows" ws
  for rows fails ws
  by unfold_locales (auto simp: endpoint_ok_def table_pages_def)

lemma table_reader_reads: "object_reader (table_reader fails rows) (\<lambda>e. map item_of (filter stored_ok (rows e)))"
  unfolding table_reader_def by (rule tables.object_reader_axioms)

lemma table_reader_eval:
  assumes "plain_query q" "ValidateQuery (\<lambda>_. None) q" "\<not> fails (query_input_of q)"
  shows "table_reader fails rows q = Inr (selected q (map item_of (filter stored_ok (rows (q_entity q)))))"
  using driver_selects [OF tables.keeps [where rows = rows and fails = fails] _ assms(1,2)] assms(3)
  by (auto simp: table_reader_def table_pages_def)

section \<open>Properties\<close>

text \<open>
  C5. The driver answers what the contract selects: over an endpoint that keeps its
  documentation, a valid query either fails, and then some request failed, or returns exactly
  the items of its partition that its key predicate and filter select, in key order, cut to
  its limit and projection, wherever the endpoint breaks its pages.
\<close>

theorem query_refines_contract:
  assumes "endpoint_ok rows pages" and "\<And>e st. st \<in> set (rows e) \<Longrightarrow> stored_ok st"
    and "plain_query q" and "ValidateQuery ws q"
  shows "QueryItems ws pages q = Inl Fault \<and> None \<in> set (pages (query_input_of q))
    \<or> QueryItems ws pages q = Inr (selected q (map item_of (rows (q_entity q))))"
  by (rule driver_selects [OF assms])

text \<open>An endpoint that answers one item per page, over a folder tree.\<close>

definition tree_rows :: "string \<Rightarrow> stored list" where
  [go_defs]: "tree_rows e = map (\<lambda>f. (\<lparr>Partition = ''routd'', Sort = f\<rparr>, [(''open'', ''1'')]))
     [''acme/eng'', ''acme'', ''acmecorp'', ''acme/eng/sre'']"

definition single_pages :: "query_input \<Rightarrow> raw_item list option list" where
  [go_defs]: "single_pages i = map (\<lambda>raw. Some [raw]) (wire_answer (tree_rows (in_table i)) i)"

definition subtree_query :: Query where
  [go_defs]: "subtree_query = (query0 ''groups'' ''routd'')
     \<lparr>q_key := \<lparr>p_op = PrefixKey, p_value = ''acme'', p_sep = ''/''\<rparr>, q_limit := 2\<rparr>"

lemma single_pages_ok: "endpoint_ok tree_rows single_pages"
proof -
  have t: "answered (map (\<lambda>raw. Some [raw]) w) = map (\<lambda>raw. Some [raw]) w" for w :: "raw_item list"
    by (induction w) simp_all
  have c: "concat (map the (map (\<lambda>raw. Some [raw]) w)) = w" for w :: "raw_item list"
    by (induction w) simp_all
  show ?thesis
    unfolding endpoint_ok_def single_pages_def t c by (intro allI exI [of _ "[]"]) simp
qed

lemma query_refines_contract_witness:
  "map (\<lambda>it. Sort (i_key it)) (selected subtree_query (map item_of (tree_rows ''groups''))) = [''acme'', ''acme/eng'']
   \<and> QueryItems (\<lambda>_. None) single_pages subtree_query
      = Inr (selected subtree_query (map item_of (tree_rows ''groups'')))"
proof -
  have "stored_ok st" if "st \<in> set (tree_rows e)" for e st
    using that by (auto simp: tree_rows_def stored_ok_def partAttr_def sortAttr_def)
  moreover have "plain_query subtree_query" "ValidateQuery (\<lambda>_. None) subtree_query" by code_simp+
  moreover have "None \<notin> set (single_pages (query_input_of subtree_query))" by (auto simp: single_pages_def)
  ultimately have "QueryItems (\<lambda>_. None) single_pages subtree_query
      = Inr (selected subtree_query (map item_of (tree_rows (q_entity subtree_query))))"
    using query_refines_contract [OF single_pages_ok] by blast
  moreover have "q_entity subtree_query = ''groups''" by code_simp
  moreover have "map (\<lambda>it. Sort (i_key it)) (selected subtree_query (map item_of (tree_rows ''groups''))) = [''acme'', ''acme/eng'']"
    by code_simp
  ultimately show ?thesis by simp
qed

end
