(* ===== verification/Acl_Store.thy ===== *)
theory Acl_Store
  imports Store_Contract
begin

text \<open>
  store/acl.go: the grants. One item per grant, addressed by the six fields that are the
  grant; this theory has the coordinate and its reading, the actions a writer accepts, the
  one write every writer renders, and the reads the evaluator makes. A read handle is a
  function from queries to answers (store's \<open>EntityQuerier\<close>): one decision reads through one
  handle, which may answer any query with an error. The clock is an argument. The
  coordinate is read back exactly, a writer accepts only what an evaluator reads, and no
  read drops an item it cannot read.
\<close>

record ACLRow =
  Principal :: string
  Action :: string
  Scope :: string
  Params :: string
  Predicate :: string
  Effect :: string
  GrantedBy :: string
  GrantedAt :: string
  GrantOption :: bool

type_synonym reader = "Query \<Rightarrow> store_error + Item list"

abbreviation KeySep :: char where "KeySep \<equiv> CHR 0x1F"

definition OwnerRoutd :: string where [go_defs]: "OwnerRoutd = ''routd''"
definition ACL :: string where [go_defs]: "ACL = ''acl''"

definition attrACLGrantedBy :: string where [go_defs]: "attrACLGrantedBy = ''granted_by''"
definition attrACLGrantedAt :: string where [go_defs]: "attrACLGrantedAt = ''granted_at''"
definition attrACLGrantOption :: string where [go_defs]: "attrACLGrantOption = ''grant_option''"

definition EffectAllow :: string where [go_defs]: "EffectAllow = ''allow''"
definition EffectDeny :: string where [go_defs]: "EffectDeny = ''deny''"
definition HoldPrefix :: string where [go_defs]: "HoldPrefix = ''hold:mcp:''"
definition ShellEnvPrefix :: string where [go_defs]: "ShellEnvPrefix = ''shell:env:''"

section \<open>The coordinate\<close>

definition row_parts :: "ACLRow \<Rightarrow> string list" where
  [go_defs]: "row_parts r = [Principal r, Action r, Scope r, Params r, Predicate r, Effect r]"

definition aclKey :: "ACLRow \<Rightarrow> store_error + Key" where
  [go_defs]: "aclKey r =
     (if list_ex (\<lambda>v. KeySep \<in> set v) (row_parts r) then Inl Invalid
      else if Principal r = [] \<or> Action r = [] \<or> Scope r = [] then Inl Invalid
      else Inr \<lparr>Partition = OwnerRoutd, Sort = join [KeySep] (row_parts r)\<rparr>)"

text \<open>A Go map lookup answers the empty string for an attribute that is not there.\<close>

definition attr :: "attrs \<Rightarrow> string \<Rightarrow> string" where
  [go_defs]: "attr m a = (case m a of None \<Rightarrow> [] | Some v \<Rightarrow> v)"

definition aclRowFrom :: "Item \<Rightarrow> store_error + ACLRow" where
  [go_defs]: "aclRowFrom it =
     (let parts = split_on KeySep (Sort (i_key it))
      in if length parts \<noteq> 6 then Inl BadData
         else Inr \<lparr>Principal = parts ! 0, Action = parts ! 1, Scope = parts ! 2, Params = parts ! 3,
                  Predicate = parts ! 4, Effect = parts ! 5,
                  GrantedBy = attr (i_attrs it) attrACLGrantedBy,
                  GrantedAt = attr (i_attrs it) attrACLGrantedAt,
                  GrantOption = (attr (i_attrs it) attrACLGrantOption = ''1'')\<rparr>)"

definition setAttr :: "attr_list \<Rightarrow> string \<Rightarrow> string \<Rightarrow> attr_list" where
  [go_defs]: "setAttr attrs name v = (if v \<noteq> [] then AList.update name v attrs else attrs)"

definition aclAttrs :: "ACLRow \<Rightarrow> attr_list" where
  [go_defs]: "aclAttrs r =
     (let attrs = [(attrACLGrantOption, ''0'')];
          attrs = (if GrantOption r then AList.update attrACLGrantOption ''1'' attrs else attrs)
      in setAttr (setAttr attrs attrACLGrantedBy (GrantedBy r)) attrACLGrantedAt (GrantedAt r))"

text \<open>The item a grant is stored as.\<close>

definition acl_item :: "Key \<Rightarrow> ACLRow \<Rightarrow> Item" where
  [go_defs]: "acl_item k r = \<lparr>i_key = k, i_attrs = map_of (aclAttrs r)\<rparr>"

lemma row_key_split:
  assumes "aclKey r = Inr k"
  shows "split_on KeySep (Sort k) = row_parts r" "Partition k = OwnerRoutd"
proof -
  have k: "k = \<lparr>Partition = OwnerRoutd, Sort = join [KeySep] (row_parts r)\<rparr>"
    and ns: "\<forall>v \<in> set (row_parts r). KeySep \<notin> set v"
    using assms by (auto simp: aclKey_def list_ex_iff split: if_splits)
  show "split_on KeySep (Sort k) = row_parts r"
    unfolding k using ns by (simp add: split_join row_parts_def)
  show "Partition k = OwnerRoutd" using k by simp
qed

text \<open>The attribute names are distinct, whatever the row.\<close>

lemma acl_attr_names [simp]:
  "attrACLGrantOption \<noteq> attrACLGrantedBy" "attrACLGrantOption \<noteq> attrACLGrantedAt"
  "attrACLGrantedBy \<noteq> attrACLGrantedAt" "attrACLGrantedBy \<noteq> attrACLGrantOption"
  "attrACLGrantedAt \<noteq> attrACLGrantOption" "attrACLGrantedAt \<noteq> attrACLGrantedBy"
  by (simp_all add: attrACLGrantOption_def attrACLGrantedBy_def attrACLGrantedAt_def)

lemma acl_attrs_of:
  "map_of (aclAttrs r) attrACLGrantOption = Some (if GrantOption r then ''1'' else ''0'')"
  "attr (map_of (aclAttrs r)) attrACLGrantedBy = GrantedBy r"
  "attr (map_of (aclAttrs r)) attrACLGrantedAt = GrantedAt r"
  by (auto simp: aclAttrs_def attr_def setAttr_def update_conv Let_def)

lemma aclRowFrom_item: "aclKey r = Inr k \<Longrightarrow> aclRowFrom (acl_item k r) = Inr r"
  using row_key_split [of r k] acl_attrs_of [of r]
  by (cases r) (simp add: aclRowFrom_def acl_item_def attr_def row_parts_def)

text \<open>Two grants at one coordinate are one grant: they differ in who granted it, never in what.\<close>

lemma aclKey_inj:
  assumes "aclKey r = Inr k" "aclKey r' = Inr k"
  shows "row_parts r = row_parts r'"
  using row_key_split [OF assms(1)] row_key_split [OF assms(2)] by simp

section \<open>What a writer accepts\<close>

definition EffectAllowed :: "string \<Rightarrow> bool" where
  [go_defs]: "EffectAllowed e = (e = EffectAllow \<or> e = EffectDeny)"

definition ACLActionChoices :: "string list" where
  [go_defs]: "ACLActionChoices =
     [''admin'', ''*'', ''interact'', ''egress'', ''web:publish'', ''gh:write'', ''codex'',
      ''mcp:*'', ShellEnvPrefix @ ''*'', HoldPrefix @ ''*'']"

definition ValidateACLAction :: "string \<Rightarrow> bool" where
  [go_defs]: "ValidateACLAction action =
     (if action \<in> set ACLActionChoices \<or> has_prefix action ''mcp:''
         \<or> has_prefix action ShellEnvPrefix \<or> has_prefix action ''ext:''
         \<or> has_prefix action HoldPrefix \<or> CHR ''.'' \<in> set action then True
      else case cut colon action of (resource, verb, ok) \<Rightarrow>
        if ok \<and> resource \<noteq> [] \<and> verb \<noteq> [] then True else False)"

definition aclPut :: "ACLRow \<Rightarrow> store_error + Write" where
  [go_defs]: "aclPut r =
     (if \<not> EffectAllowed (Effect r) then Inl Invalid
      else if Predicate r \<noteq> [] \<and> has_prefix (Action r) ShellEnvPrefix then Inl Invalid
      else case aclKey r of
        Inl e \<Rightarrow> Inl e
      | Inr key \<Rightarrow>
          if \<not> ValidateACLAction (Action r) then Inl Invalid
          else Inr ((write0 Merge ACL key)\<lparr>w_init := aclAttrs r\<rparr>))"

definition aclDefaults :: "string \<Rightarrow> ACLRow \<Rightarrow> ACLRow" where
  [go_defs]: "aclDefaults now r =
     (let r = (if Effect r = [] then r\<lparr>Effect := EffectAllow\<rparr> else r)
      in if GrantedAt r = [] then r\<lparr>GrantedAt := now\<rparr> else r)"

definition ACLGrantWrite :: "string \<Rightarrow> ACLRow \<Rightarrow> store_error + Write" where
  [go_defs]: "ACLGrantWrite now row = aclPut (aclDefaults now row)"

definition empty_row :: ACLRow where
  [go_defs]: "empty_row = \<lparr>Principal = [], Action = [], Scope = [], Params = [], Predicate = [],
     Effect = [], GrantedBy = [], GrantedAt = [], GrantOption = False\<rparr>"

definition AdminGrantWrite :: "string \<Rightarrow> string \<Rightarrow> string \<Rightarrow> string \<Rightarrow> store_error + Write" where
  [go_defs]: "AdminGrantWrite now who folder grantedBy =
     ACLGrantWrite now (empty_row\<lparr>Principal := who, Action := ''admin'',
       Scope := folder @ ''/**'', Effect := EffectAllow, GrantedBy := grantedBy\<rparr>)"

definition GrantDefaults :: "ACLRow \<Rightarrow> ACLRow" where
  [go_defs]: "GrantDefaults row =
     (let row = (if Action row = [] then row\<lparr>Action := ''admin''\<rparr> else row)
      in if Effect row = [] then row\<lparr>Effect := EffectAllow\<rparr> else row)"

section \<open>Reads\<close>

fun rows_from :: "Item list \<Rightarrow> store_error + ACLRow list" where
  "rows_from [] = Inr []"
| "rows_from (it # its) =
     (case aclRowFrom it of
        Inl e \<Rightarrow> Inl e
      | Inr r \<Rightarrow> and_then (rows_from its) (\<lambda>rs. Inr (r # rs)))"

definition aclItems :: "reader \<Rightarrow> Query \<Rightarrow> store_error + ACLRow list" where
  [go_defs]: "aclItems rd q = (case rd q of Inl e \<Rightarrow> Inl e | Inr its \<Rightarrow> rows_from its)"

definition aclAll :: "reader \<Rightarrow> store_error + ACLRow list" where
  [go_defs]: "aclAll rd = aclItems rd (query0 ACL OwnerRoutd)"

definition prefix_query :: "string \<Rightarrow> string \<Rightarrow> string \<Rightarrow> Query" where
  [go_defs]: "prefix_query ent part v = (query0 ent part)\<lparr>q_key := \<lparr>p_op = PrefixKey, p_value = v, p_sep = []\<rparr>\<rparr>"

text \<open>\<open>aclOrder\<close>: by the coordinate the row's parts make.\<close>

definition aclOrder :: "ACLRow list \<Rightarrow> ACLRow list" where
  [go_defs]: "aclOrder rows = sort_key (\<lambda>r. join [KeySep] (row_parts r)) rows"

fun read_principals :: "reader \<Rightarrow> string list \<Rightarrow> store_error + ACLRow list" where
  "read_principals rd [] = Inr []"
| "read_principals rd (p # ps) =
     (case aclItems rd (prefix_query ACL OwnerRoutd (p @ [KeySep])) of
        Inl e \<Rightarrow> Inl e
      | Inr rows \<Rightarrow> and_then (read_principals rd ps) (\<lambda>out. Inr (rows @ out)))"

definition ACLRowsFor :: "reader \<Rightarrow> string list \<Rightarrow> store_error + ACLRow list" where
  [go_defs]: "ACLRowsFor rd principals =
     (if principals = [] then Inr []
      else case read_principals rd principals of
        Inl e \<Rightarrow> Inl e
      | Inr out \<Rightarrow> Inr (aclOrder out))"

definition ListACLByScope :: "reader \<Rightarrow> string \<Rightarrow> store_error + ACLRow list" where
  [go_defs]: "ListACLByScope rd scope =
     and_then (aclAll rd) (\<lambda>all. Inr (filter (\<lambda>r. Scope r = scope) all))"

definition ListACL :: "reader \<Rightarrow> string \<Rightarrow> store_error + ACLRow list" where
  [go_defs]: "ListACL rd who =
     (if who \<noteq> [] then ACLRowsFor rd [who] else aclAll rd)"

definition ACLWildcardRows :: "reader \<Rightarrow> store_error + ACLRow list" where
  [go_defs]: "ACLWildcardRows rd =
     and_then (aclAll rd) (\<lambda>all. Inr (filter (\<lambda>r. star \<in> set (Principal r)) all))"

section \<open>What the reads answer\<close>

lemma rows_from_set:
  "rows_from its = Inr rs \<Longrightarrow> set rs = {r. \<exists>it \<in> set its. aclRowFrom it = Inr r}"
  by (induction its arbitrary: rs) (auto simp: and_then_Inr split: sum.splits)

lemma rows_from_reads:
  "(\<exists>rs. rows_from its = Inr rs) \<longleftrightarrow> (\<forall>it \<in> set its. \<exists>r. aclRowFrom it = Inr r)"
proof (induction its)
  case (Cons it its)
  then show ?case by (cases "aclRowFrom it"; cases "rows_from its") auto
qed simp

text \<open>The principal leads the coordinate, so one prefix reads one principal's rows.\<close>

lemma principal_prefix:
  assumes "aclRowFrom it = Inr r" "KeySep \<notin> set p"
  shows "has_prefix (Sort (i_key it)) (p @ [KeySep]) \<longleftrightarrow> Principal r = p"
proof -
  obtain a b ts where sp: "split_on KeySep (Sort (i_key it)) = a # b # ts" and pr: "Principal r = a"
    using assms(1) unfolding aclRowFrom_def Let_def
    by (cases "split_on KeySep (Sort (i_key it))"; cases "tl (split_on KeySep (Sort (i_key it)))")
      (auto split: if_splits)
  have "Sort (i_key it) = a @ KeySep # join [KeySep] (b # ts)"
    using join_split [of KeySep "Sort (i_key it)"] sp by simp
  moreover have "KeySep \<notin> set a" using sp split_on_parts [of a KeySep "Sort (i_key it)"] by simp
  ultimately show ?thesis using assms(2) pr by (auto simp: prefix_split_on sep_eq)
qed

text \<open>The rows an entity's items hold, those that split into six.\<close>

definition rows_in :: "Item list \<Rightarrow> ACLRow set" where
  "rows_in its = {r. \<exists>it \<in> set its. Partition (i_key it) = OwnerRoutd \<and> aclRowFrom it = Inr r}"

definition rows_readable :: "Item list \<Rightarrow> bool" where
  "rows_readable its \<longleftrightarrow>
     (\<forall>it \<in> set its. Partition (i_key it) = OwnerRoutd \<longrightarrow> (\<exists>r. aclRowFrom it = Inr r))"

context object_reader
begin

lemma acl_prefix_rows:
  assumes "aclItems rd (prefix_query ACL OwnerRoutd (p @ [KeySep])) = Inr rs" "KeySep \<notin> set p"
  shows "set rs = {r \<in> rows_in (rows ACL). Principal r = p}"
proof -
  obtain its where its: "rd (prefix_query ACL OwnerRoutd (p @ [KeySep])) = Inr its" "rows_from its = Inr rs"
    using assms(1) by (auto simp: aclItems_def split: sum.splits)
  show ?thesis
    unfolding rows_from_set [OF its(2)] reads_prefix [OF its(1) [unfolded prefix_query_def]] rows_in_def
    using principal_prefix [OF _ assms(2)] by auto
qed

lemma acl_all_rows: "aclAll rd = Inr rs \<Longrightarrow> set rs = rows_in (rows ACL)"
  using reads_partition [of ACL OwnerRoutd] rows_from_set
  by (fastforce simp: aclAll_def aclItems_def rows_in_def split: sum.splits)

lemma read_principals_rows:
  "read_principals rd ps = Inr rs \<Longrightarrow> \<forall>p \<in> set ps. KeySep \<notin> set p \<Longrightarrow>
   set rs = {r \<in> rows_in (rows ACL). Principal r \<in> set ps}"
proof (induction ps arbitrary: rs)
  case Nil
  then show ?case by simp
next
  case (Cons p ps)
  then obtain xs out where "aclItems rd (prefix_query ACL OwnerRoutd (p @ [KeySep])) = Inr xs"
    "read_principals rd ps = Inr out" "rs = xs @ out"
    by (auto simp: and_then_Inr split: sum.splits)
  then show ?case using acl_prefix_rows [of p xs] Cons by auto
qed

lemma ACLRowsFor_rows:
  "ACLRowsFor rd ps = Inr rs \<Longrightarrow> \<forall>p \<in> set ps. KeySep \<notin> set p \<Longrightarrow>
   set rs = {r \<in> rows_in (rows ACL). Principal r \<in> set ps}"
  using read_principals_rows [of ps]
  by (auto simp: ACLRowsFor_def aclOrder_def split: if_splits sum.splits)

lemma ACLWildcardRows_rows:
  "ACLWildcardRows rd = Inr rs \<Longrightarrow> set rs = {r \<in> rows_in (rows ACL). star \<in> set (Principal r)}"
  using acl_all_rows by (auto simp: ACLWildcardRows_def and_then_Inr)

text \<open>A reader that answers reads every row, when every item splits.\<close>

lemma acl_answers:
  assumes ans: "\<And>q. plain_query q \<Longrightarrow> ValidateQuery (\<lambda>_. None) q \<Longrightarrow> \<exists>its. rd q = Inr its"
    and ok: "rows_readable (rows ACL)"
  shows "\<exists>rs. aclAll rd = Inr rs" "\<exists>rs. aclItems rd (prefix_query ACL OwnerRoutd v) = Inr rs"
proof -
  have q0: "plain_query (query0 ACL OwnerRoutd)" "ValidateQuery (\<lambda>_. None) (query0 ACL OwnerRoutd)"
    by (simp_all add: plain_query_def ValidateQuery_def query0_def ACL_def OwnerRoutd_def any_key_def
        checkOrderedSort_def)
  have q1: "plain_query (prefix_query ACL OwnerRoutd v)" "ValidateQuery (\<lambda>_. None) (prefix_query ACL OwnerRoutd v)"
    by (simp_all add: plain_query_def ValidateQuery_def query0_def ACL_def OwnerRoutd_def prefix_query_def
        checkOrderedSort_def)
  have rf: "\<exists>rs. rows_from its = Inr rs"
    if "set its \<subseteq> {it \<in> set (rows ACL). Partition (i_key it) = OwnerRoutd}" for its
    using that ok by (auto simp: rows_from_reads rows_readable_def)
  obtain i0 where i0: "rd (query0 ACL OwnerRoutd) = Inr i0" using ans [OF q0] by blast
  obtain i1 where i1: "rd (prefix_query ACL OwnerRoutd v) = Inr i1" using ans [OF q1] by blast
  show "\<exists>rs. aclAll rd = Inr rs"
    using rf [of i0] reads_partition [OF i0] i0 by (auto simp: aclAll_def aclItems_def)
  show "\<exists>rs. aclItems rd (prefix_query ACL OwnerRoutd v) = Inr rs"
    using rf [of i1] reads_prefix [OF i1 [unfolded prefix_query_def]] i1 by (auto simp: aclItems_def)
qed

end

end
