(* ===== verification/Membership.thy ===== *)
theory Membership
  imports Acl_Store Store_Contract Reach
begin

text \<open>
  store/membership.go: the membership graph. An edge is an item addressed by child and
  parent; this theory has the coordinate, the writes, the reads of one node's parents and
  of a node's members, the ancestor walk the evaluator expands a principal with, and the
  cycle test. A store is its tables and the requests the endpoint fails; it is read through
  the driver. The ancestor walk ends on every store and answers exactly the nodes above,
  unless a read fails, when it answers none.
\<close>

record store =
  tables :: "string \<Rightarrow> stored list"
  fails :: "query_input \<Rightarrow> bool"

definition reader_of :: "store \<Rightarrow> reader" where
  [go_defs]: "reader_of s = table_reader (fails s) (tables s)"

definition rows_of :: "store \<Rightarrow> string \<Rightarrow> Item list" where
  [go_defs]: "rows_of s e = map item_of (filter stored_ok (tables s e))"

interpretation st: object_reader "reader_of s" "rows_of s" for s
  unfolding reader_of_def rows_of_def by (rule table_reader_reads)

definition ACLMembership :: string where [go_defs]: "ACLMembership = ''acl_membership''"
definition attrMemAddedBy :: string where [go_defs]: "attrMemAddedBy = ''added_by''"
definition attrMemAddedAt :: string where [go_defs]: "attrMemAddedAt = ''added_at''"

section \<open>The edge\<close>

definition membershipKey :: "string \<Rightarrow> string \<Rightarrow> store_error + Key" where
  [go_defs]: "membershipKey child parent =
     (if child = [] \<or> parent = [] then Inl Invalid
      else if KeySep \<in> set child \<or> KeySep \<in> set parent then Inl Invalid
      else Inr \<lparr>Partition = OwnerRoutd, Sort = child @ [KeySep] @ parent\<rparr>)"

definition membershipEdgeOf :: "Item \<Rightarrow> store_error + string \<times> string" where
  [go_defs]: "membershipEdgeOf it =
     (case cut KeySep (Sort (i_key it)) of (child, parent, ok) \<Rightarrow>
        if \<not> ok then Inl BadData else Inr (child, parent))"

definition membershipPut :: "string \<Rightarrow> string \<Rightarrow> string \<Rightarrow> string \<Rightarrow> store_error + Write" where
  [go_defs]: "membershipPut now child parent addedBy =
     (case membershipKey child parent of
        Inl e \<Rightarrow> Inl e
      | Inr key \<Rightarrow> Inr ((write0 Merge ACLMembership key)
          \<lparr>w_init := [(attrMemAddedBy, addedBy), (attrMemAddedAt, now)]\<rparr>))"

lemma edge_of_iff:
  "membershipEdgeOf it = Inr (c, p) \<longleftrightarrow> Sort (i_key it) = c @ KeySep # p \<and> KeySep \<notin> set c"
  unfolding membershipEdgeOf_def cut_found [symmetric] by (auto split: prod.splits if_splits)

lemma membership_edge_key:
  assumes "membershipKey c p = Inr k" "i_key it = k"
  shows "membershipEdgeOf it = Inr (c, p)"
proof -
  have "Sort k = c @ KeySep # p" "KeySep \<notin> set c"
    using assms(1) by (auto simp: membershipKey_def split: if_splits)
  then show ?thesis using assms(2) by (simp add: edge_of_iff)
qed

section \<open>Reads\<close>

fun edges_list :: "Item list \<Rightarrow> store_error + (string \<times> string) list" where
  "edges_list [] = Inr []"
| "edges_list (it # its) =
     (case membershipEdgeOf it of
        Inl e \<Rightarrow> Inl e
      | Inr e \<Rightarrow> and_then (edges_list its) (\<lambda>es. Inr (e # es)))"

definition MembershipParents :: "store \<Rightarrow> string \<Rightarrow> store_error + string list" where
  [go_defs]: "MembershipParents s node =
     (case reader_of s (prefix_query ACLMembership OwnerRoutd (node @ [KeySep])) of
        Inl e \<Rightarrow> Inl e
      | Inr its \<Rightarrow> and_then (edges_list its) (\<lambda>es. Inr (map snd es)))"

definition MembershipWouldCycle :: "store \<Rightarrow> string \<Rightarrow> string \<Rightarrow> store_error + bool" where
  [go_defs]: "MembershipWouldCycle s child parent = Reachable (MembershipParents s) parent child"

record MembershipEdge =
  Child :: string
  Parent :: string
  AddedBy :: string
  AddedAt :: string

fun edgesFrom :: "Item list \<Rightarrow> store_error + MembershipEdge list" where
  "edgesFrom [] = Inr []"
| "edgesFrom (it # its) =
     (case membershipEdgeOf it of
        Inl e \<Rightarrow> Inl e
      | Inr (c, p) \<Rightarrow> and_then (edgesFrom its) (\<lambda>out.
          Inr (\<lparr>Child = c, Parent = p, AddedBy = attr (i_attrs it) attrMemAddedBy,
                AddedAt = attr (i_attrs it) attrMemAddedAt\<rparr> # out)))"

definition MemberEdges :: "store \<Rightarrow> string \<Rightarrow> store_error + MembershipEdge list" where
  [go_defs]: "MemberEdges s parent =
     (case reader_of s (query0 ACLMembership OwnerRoutd) of
        Inl e \<Rightarrow> Inl e
      | Inr its \<Rightarrow> and_then (edgesFrom its) (\<lambda>all.
          Inr (sort_key Child (filter (\<lambda>e. Parent e = parent) all))))"

definition ParentEdges :: "store \<Rightarrow> string \<Rightarrow> store_error + MembershipEdge list" where
  [go_defs]: "ParentEdges s child =
     (case reader_of s (prefix_query ACLMembership OwnerRoutd (child @ [KeySep])) of
        Inl e \<Rightarrow> Inl e
      | Inr its \<Rightarrow> edgesFrom its)"

definition Members :: "store \<Rightarrow> string \<Rightarrow> string list" where
  [go_defs]: "Members s parent = (case MemberEdges s parent of Inl _ \<Rightarrow> [] | Inr es \<Rightarrow> map Child es)"

section \<open>The graph of a store\<close>

definition graph :: "store \<Rightarrow> (string \<times> string) set" where
  "graph s = {(c, p). \<exists>it \<in> set (rows_of s ACLMembership).
     Partition (i_key it) = OwnerRoutd \<and> membershipEdgeOf it = Inr (c, p)}"

lemma edges_list_set: "edges_list its = Inr es \<Longrightarrow> set es = {e. \<exists>it \<in> set its. membershipEdgeOf it = Inr e}"
  by (induction its arbitrary: es) (auto simp: and_then_Inr split: sum.splits)

lemma finite_graph: "finite (graph s)"
proof -
  have "graph s \<subseteq> (\<lambda>it. case membershipEdgeOf it of Inr e \<Rightarrow> e | Inl _ \<Rightarrow> ([], [])) ` set (rows_of s ACLMembership)"
    by (force simp: graph_def)
  then show ?thesis by (rule finite_subset) simp
qed

text \<open>One node's parents are its edges in the graph, when the node's name is separator-free.\<close>

lemma parents_graph:
  assumes "MembershipParents s node = Inr up"
  shows "set up \<subseteq> snd ` graph s" and "KeySep \<notin> set node \<Longrightarrow> set up = graph s `` {node}"
proof -
  obtain its es where its: "reader_of s (prefix_query ACLMembership OwnerRoutd (node @ [KeySep])) = Inr its"
    and es: "edges_list its = Inr es" "up = map snd es"
    using assms by (auto simp: MembershipParents_def and_then_Inr split: sum.splits)
  have s: "set its = {it \<in> set (rows_of s ACLMembership). Partition (i_key it) = OwnerRoutd
      \<and> has_prefix (Sort (i_key it)) (node @ [KeySep])}"
    using st.reads_prefix [OF its [unfolded prefix_query_def]] .
  show "set up \<subseteq> snd ` graph s"
    using edges_list_set [OF es(1)] es(2) s by (force simp: graph_def)
  assume node: "KeySep \<notin> set node"
  have pre: "has_prefix (Sort (i_key it)) (node @ [KeySep]) \<longleftrightarrow> (\<exists>p. membershipEdgeOf it = Inr (node, p))" for it
    using node by (simp add: edge_of_iff prefix_split_on)
  show "set up = graph s `` {node}"
  proof (intro set_eqI iffI)
    fix p assume "p \<in> set up"
    then obtain c it where "it \<in> set its" "membershipEdgeOf it = Inr (c, p)"
      using edges_list_set [OF es(1)] es(2) by auto
    moreover from this have "c = node" using s pre by fastforce
    ultimately show "p \<in> graph s `` {node}" using s by (auto simp: graph_def)
  next
    fix p assume "p \<in> graph s `` {node}"
    then obtain it where it: "it \<in> set (rows_of s ACLMembership)" "Partition (i_key it) = OwnerRoutd"
      "membershipEdgeOf it = Inr (node, p)"
      by (auto simp: graph_def)
    then have "it \<in> set its" using s pre by blast
    then have "(node, p) \<in> set es" using edges_list_set [OF es(1)] it(3) by blast
    then show "p \<in> set up" using es(2) by force
  qed
qed

section \<open>Ancestors\<close>

fun anc_visit :: "string list \<Rightarrow> string list \<Rightarrow> string list \<Rightarrow> string list \<Rightarrow> string list \<times> string list \<times> string list" where
  "anc_visit [] seen frontier out = (seen, frontier, out)"
| "anc_visit (p # up) seen frontier out =
     (if p \<in> set seen then anc_visit up seen frontier out
      else anc_visit up (p # seen) (p # frontier) (out @ [p]))"

lemma anc_visit_size:
  assumes U: "finite U"
  shows "set up \<subseteq> U \<Longrightarrow> anc_visit up seen frontier out = (seen', frontier', out') \<Longrightarrow>
   2 * card (U - set seen') + length frontier' \<le> 2 * card (U - set seen) + length frontier"
proof (induction up arbitrary: seen frontier out)
  case Nil
  then show ?case by simp
next
  case (Cons p up)
  show ?case
  proof (cases "p \<in> set seen")
    case True
    then show ?thesis using Cons by simp
  next
    case False
    then have le: "2 * card (U - set (p # seen)) + length (p # frontier) \<ge>
        2 * card (U - set seen') + length frontier'"
      using Cons.prems Cons.IH [of "p # seen" "p # frontier" "out @ [p]"] by simp
    have "p \<in> U - set seen" using Cons.prems(1) False by simp
    moreover have "U - set (p # seen) = (U - set seen) - {p}" by auto
    ultimately have "Suc (card (U - set (p # seen))) = card (U - set seen)"
      using U card_Suc_Diff1 [of "U - set seen" p] by simp
    then show ?thesis using le by simp
  qed
qed

function anc_loop :: "store \<Rightarrow> string list \<Rightarrow> string list \<Rightarrow> string list \<Rightarrow> string list option" where
  "anc_loop s seen [] out = Some out"
| "anc_loop s seen (node # rest) out =
     (case MembershipParents s node of
        Inl _ \<Rightarrow> None
      | Inr up \<Rightarrow>
          (case anc_visit up seen rest out of (seen', frontier', out') \<Rightarrow> anc_loop s seen' frontier' out'))"
  by pat_completeness auto
termination
proof (relation "measure (\<lambda>(s, seen, frontier, out). 2 * card (snd ` graph s - set seen) + length frontier)",
    goal_cases)
  case 1
  show ?case by simp
next
  case (2 s seen node rest out up seen' y frontier' out')
  then have "anc_visit up seen rest out = (seen', frontier', out')" by simp
  moreover have "set up \<subseteq> snd ` graph s" using parents_graph(1) [OF 2(1)] .
  ultimately have "2 * card (snd ` graph s - set seen') + length frontier'
      \<le> 2 * card (snd ` graph s - set seen) + length rest"
    using anc_visit_size finite_graph by blast
  then show ?case by simp
qed

definition Ancestors :: "store \<Rightarrow> string \<Rightarrow> string list" where
  [go_defs]: "Ancestors s child = (case anc_loop s [child] [child] [] of None \<Rightarrow> [] | Some out \<Rightarrow> sort out)"

text \<open>What a writer refuses to store: a parent whose name carries the separator.\<close>

definition clean_graph :: "store \<Rightarrow> bool" where
  "clean_graph s \<longleftrightarrow> (\<forall>(c, p) \<in> graph s. KeySep \<notin> set p)"

definition anc_inv :: "store \<Rightarrow> string \<Rightarrow> string list \<Rightarrow> string list \<Rightarrow> string list \<Rightarrow> bool" where
  "anc_inv s c seen frontier out \<longleftrightarrow>
     c \<in> set seen \<and> set frontier \<subseteq> set seen \<and> set out = set seen - {c} \<and> distinct out \<and>
     (\<forall>n \<in> set seen. (c, n) \<in> (graph s)\<^sup>* \<and> KeySep \<notin> set n) \<and>
     (\<forall>n \<in> set seen - set frontier. graph s `` {n} \<subseteq> set seen)"

lemma anc_visit_sets:
  "anc_visit up seen frontier out = (seen', frontier', out') \<Longrightarrow> set out \<subseteq> set seen \<Longrightarrow> distinct out \<Longrightarrow>
   set seen' = set seen \<union> set up \<and> set frontier' = set frontier \<union> (set up - set seen)
   \<and> set out' = set out \<union> (set up - set seen) \<and> distinct out'"
proof (induction up arbitrary: seen frontier out)
  case Nil
  then show ?case by simp
next
  case (Cons p up)
  show ?case
  proof (cases "p \<in> set seen")
    case True
    then show ?thesis using Cons by auto
  next
    case False
    have "set (out @ [p]) \<subseteq> set (p # seen)" "distinct (out @ [p])"
      using Cons.prems False by auto
    then show ?thesis using Cons.IH [of "p # seen" "p # frontier" "out @ [p]"] Cons.prems False
      by auto
  qed
qed

lemma anc_inv_step:
  assumes inv: "anc_inv s c seen (node # rest) out" and cg: "clean_graph s"
    and up: "MembershipParents s node = Inr up"
    and v: "anc_visit up seen rest out = (seen', frontier', out')"
  shows "anc_inv s c seen' frontier' out'"
proof -
  have node: "node \<in> set seen" "KeySep \<notin> set node" "(c, node) \<in> (graph s)\<^sup>*"
    using inv by (auto simp: anc_inv_def)
  have us: "set up = graph s `` {node}" using parents_graph(2) [OF up node(2)] .
  have "set out \<subseteq> set seen" "distinct out" using inv by (auto simp: anc_inv_def)
  note sets = anc_visit_sets [OF v this]
  have new: "(c, n) \<in> (graph s)\<^sup>* \<and> KeySep \<notin> set n" if "n \<in> set up" for n
    using that us node(3) cg by (auto simp: clean_graph_def intro: rtrancl_into_rtrancl)
  have c: "c \<in> set seen" using inv by (simp add: anc_inv_def)
  have "graph s `` {n} \<subseteq> set seen'" if n: "n \<in> set seen' - set frontier'" for n
  proof (cases "n = node")
    case True
    then show ?thesis using us sets by auto
  next
    case False
    then have "n \<in> set seen - set (node # rest)" using n sets by auto
    then show ?thesis using inv sets by (auto simp: anc_inv_def)
  qed
  moreover have "set out' = set seen' - {c}" using inv sets c by (auto simp: anc_inv_def)
  moreover have "set frontier' \<subseteq> set seen'" using inv sets by (auto simp: anc_inv_def)
  moreover have "\<forall>n \<in> set seen'. (c, n) \<in> (graph s)\<^sup>* \<and> KeySep \<notin> set n"
    using inv sets new by (auto simp: anc_inv_def)
  ultimately show ?thesis using sets c by (simp add: anc_inv_def)
qed

lemma anc_loop_spec:
  "anc_inv s c seen frontier out \<Longrightarrow> clean_graph s \<Longrightarrow> anc_loop s seen frontier out = Some r \<Longrightarrow>
   set r = (graph s)\<^sup>* `` {c} - {c} \<and> distinct r"
proof (induction s seen frontier out rule: anc_loop.induct)
  case (1 s seen out)
  have "n \<in> set seen" if "(c, n) \<in> (graph s)\<^sup>*" for n
    using that 1(1) by (induction rule: rtrancl_induct) (auto simp: anc_inv_def)
  then show ?case using 1 by (auto simp: anc_inv_def)
next
  case (2 s seen node rest out)
  obtain up where up: "MembershipParents s node = Inr up"
    using "2.prems" by (auto split: sum.splits)
  obtain seen' frontier' out' where v: "anc_visit up seen rest out = (seen', frontier', out')"
    by (metis prod_cases3)
  show ?case
    using "2.IH" [OF up v [symmetric] refl anc_inv_step [OF "2.prems"(1,2) up v] "2.prems"(2)]
      "2.prems"(3) up v by simp
qed

lemma anc_loop_reads:
  "(\<And>n. \<exists>up. MembershipParents s n = Inr up) \<Longrightarrow> \<exists>r. anc_loop s seen frontier out = Some r"
proof (induction s seen frontier out rule: anc_loop.induct)
  case (1 s seen out)
  then show ?case by simp
next
  case (2 s seen node rest out)
  obtain up where up: "MembershipParents s node = Inr up" using "2.prems" by blast
  obtain seen' frontier' out' where v: "anc_visit up seen rest out = (seen', frontier', out')"
    by (metis prod_cases3)
  show ?case using "2.IH" [OF up v [symmetric] refl "2.prems"] up v by simp
qed

text \<open>The ancestors of a principal are the nodes above it, each once and in order.\<close>

lemma Ancestors_exact:
  assumes "clean_graph s" "KeySep \<notin> set c" "\<And>n. \<exists>up. MembershipParents s n = Inr up"
  shows "set (Ancestors s c) = (graph s)\<^sup>* `` {c} - {c}" "distinct (Ancestors s c)"
    "sorted (Ancestors s c)"
proof -
  obtain r where r: "anc_loop s [c] [c] [] = Some r" using anc_loop_reads [OF assms(3)] by blast
  have "anc_inv s c [c] [c] []" using assms(2) by (simp add: anc_inv_def)
  from anc_loop_spec [OF this assms(1) r] r
  show "set (Ancestors s c) = (graph s)\<^sup>* `` {c} - {c}" "distinct (Ancestors s c)"
    "sorted (Ancestors s c)"
    by (simp_all add: Ancestors_def)
qed

text \<open>Under any failures the walk answers nodes that are above, or none.\<close>

lemma Ancestors_sound:
  assumes "clean_graph s" "KeySep \<notin> set c"
  shows "set (Ancestors s c) \<subseteq> (graph s)\<^sup>* `` {c}"
proof -
  have "anc_inv s c [c] [c] []" using assms(2) by (simp add: anc_inv_def)
  from anc_loop_spec [OF this assms(1)] show ?thesis
    by (auto simp: Ancestors_def split: option.splits)
qed

section \<open>Properties\<close>

text \<open>
  The ancestor walk ends on every store and lists exactly the principals above a node in
  the membership graph, each once and in order, when every read answers; under any failing
  reads it lists only nodes that are above.
\<close>

theorem ancestors_exact:
  assumes "clean_graph s" and "KeySep \<notin> set c"
  shows "set (Ancestors s c) \<subseteq> (graph s)\<^sup>* `` {c} \<and>
    ((\<forall>n. \<exists>up. MembershipParents s n = Inr up) \<longrightarrow>
      set (Ancestors s c) = (graph s)\<^sup>* `` {c} - {c} \<and> distinct (Ancestors s c) \<and> sorted (Ancestors s c))"
  using Ancestors_sound [OF assms] Ancestors_exact [OF assms] by blast

definition ring_store :: store where
  [go_defs]: "ring_store =
     \<lparr>tables = (\<lambda>e. map (\<lambda>(c, p). (\<lparr>Partition = OwnerRoutd, Sort = c @ [KeySep] @ p\<rparr>, []))
        [(''a'', ''b''), (''b'', ''c''), (''c'', ''a'')]),
      fails = (\<lambda>_. False)\<rparr>"

lemma ring_graph: "graph ring_store \<subseteq> {(''a'', ''b''), (''b'', ''c''), (''c'', ''a'')}"
  by (auto simp: graph_def rows_of_def ring_store_def item_of_def edge_of_iff Cons_eq_append_conv
      append_eq_Cons_conv split: if_splits)

lemma ancestors_exact_witness: "(''a'', ''c'') \<in> (graph ring_store)\<^sup>*"
proof -
  have "clean_graph ring_store" using ring_graph by (auto simp: clean_graph_def)
  moreover have "''c'' \<in> set (Ancestors ring_store ''a'')" by code_simp
  ultimately show ?thesis using ancestors_exact [of ring_store "''a''"] by auto
qed

end
