(* ===== verification/Path_Match.thy ===== *)
theory Path_Match
  imports Prelude
begin

text \<open>
  Go's \<open>path.Match\<close>, on which every pattern of the program rests: access rows, scope
  prefixes, routes and egress hosts. The functions follow the library's: \<open>scanChunk\<close>
  cuts a pattern at its stars, \<open>matchChunk\<close> matches a star-free piece at the front of a
  name and keeps checking its syntax once it has failed, \<open>getEsc\<close> reads one character
  of a class. A malformed pattern is \<open>None\<close> (\<open>ErrBadPattern\<close>).
\<close>

section \<open>UTF-8\<close>

definition byte :: "char \<Rightarrow> nat" where
  [go_defs]: "byte c = of_char c"

definition cont :: "nat \<Rightarrow> nat \<Rightarrow> char \<Rightarrow> bool" where
  [go_defs]: "cont lo hi c = (lo \<le> byte c \<and> byte c \<le> hi)"

text \<open>\<open>utf8.DecodeRuneInString\<close>: the rune and its width; \<open>RuneError\<close> of width 1 where the bytes are no rune.\<close>

definition rune_error :: nat where [go_defs]: "rune_error = 65533"

definition decode_rune :: "string \<Rightarrow> nat \<times> nat" where
  [go_defs]: "decode_rune s =
     (case s of
        [] \<Rightarrow> (rune_error, 0)
      | a # t \<Rightarrow>
        if byte a < 128 then (byte a, 1)
        else if 194 \<le> byte a \<and> byte a \<le> 223 then
          (case t of b # _ \<Rightarrow>
             if cont 128 191 b then ((byte a - 192) * 64 + (byte b - 128), 2) else (rune_error, 1)
           | _ \<Rightarrow> (rune_error, 1))
        else if 224 \<le> byte a \<and> byte a \<le> 239 then
          (case t of b # c # _ \<Rightarrow>
             if cont (if byte a = 224 then 160 else 128) (if byte a = 237 then 159 else 191) b
                \<and> cont 128 191 c
             then ((byte a - 224) * 4096 + (byte b - 128) * 64 + (byte c - 128), 3)
             else (rune_error, 1)
           | _ \<Rightarrow> (rune_error, 1))
        else if 240 \<le> byte a \<and> byte a \<le> 244 then
          (case t of b # c # d # _ \<Rightarrow>
             if cont (if byte a = 240 then 144 else 128) (if byte a = 244 then 143 else 191) b
                \<and> cont 128 191 c \<and> cont 128 191 d
             then ((byte a - 240) * 262144 + (byte b - 128) * 4096 + (byte c - 128) * 64
                   + (byte d - 128), 4)
             else (rune_error, 1)
           | _ \<Rightarrow> (rune_error, 1))
        else (rune_error, 1))"

lemma decode_rune_width: "s \<noteq> [] \<Longrightarrow> 0 < snd (decode_rune s)"
  by (cases s) (auto simp: decode_rune_def split: list.splits)

section \<open>Pieces of a pattern\<close>

definition get_esc :: "string \<Rightarrow> (nat \<times> string) option" where
  [go_defs]: "get_esc chunk =
     (let c = (case chunk of [] \<Rightarrow> []
               | x # t \<Rightarrow> if x = CHR ''-'' \<or> x = CHR '']'' then []
                         else if x = backslash then t else chunk)
      in if c = [] then None
         else case decode_rune c of (r, n) \<Rightarrow>
           if r = rune_error \<and> n = 1 then None
           else if drop n c = [] then None
           else Some (r, drop n c))"

lemma get_esc_shorter:
  assumes "get_esc chunk = Some (r, rest)"
  shows "length rest < length chunk" "rest \<noteq> []"
proof -
  define c where "c = (case chunk of [] \<Rightarrow> []
               | x # t \<Rightarrow> if x = CHR ''-'' \<or> x = CHR '']'' then []
                         else if x = backslash then t else chunk)"
  have c: "c \<noteq> []" and rest: "rest = drop (snd (decode_rune c)) c" "rest \<noteq> []"
    using assms unfolding get_esc_def c_def [symmetric] Let_def
    by (auto split: if_splits prod.splits)
  have "length c \<le> length chunk"
    unfolding c_def by (cases chunk) auto
  moreover have "length rest < length c"
    using c rest decode_rune_width [OF c] by simp
  ultimately show "length rest < length chunk" "rest \<noteq> []" using rest by auto
qed

datatype chunk_result = Bad | No_Match | Match string

text \<open>
  The ranges of a class: \<open>r\<close> is the rune to look for, \<open>seen\<close> says a range was read,
  \<open>m\<close> that one of them held the rune. The rest of the chunk is what follows the \<open>]\<close>.
\<close>

function class_loop :: "string \<Rightarrow> nat \<Rightarrow> bool \<Rightarrow> bool \<Rightarrow> (bool \<times> string) option" where
  "class_loop chunk r seen m =
     (if seen \<and> chunk \<noteq> [] \<and> hd chunk = CHR '']'' then Some (m, tl chunk)
      else case get_esc chunk of
        None \<Rightarrow> None
      | Some (lo, rest) \<Rightarrow>
          if hd rest = CHR ''-'' then
            (case get_esc (tl rest) of
               None \<Rightarrow> None
             | Some (hi, rest') \<Rightarrow> class_loop rest' r True (m \<or> (lo \<le> r \<and> r \<le> hi)))
          else class_loop rest r True (m \<or> lo = r))"
  by pat_completeness auto
termination
proof (relation "measure (\<lambda>(chunk, _). length chunk)", goal_cases)
  case 1
  show ?case by simp
next
  case (2 chunk r seen m p lo rest q hi rest')
  then have "length rest < length chunk" "length rest' < length (tl rest)"
    using get_esc_shorter by blast+
  then show ?case by simp
next
  case (3 chunk r seen m p lo rest)
  then have "length rest < length chunk"
    using get_esc_shorter by blast
  then show ?case by simp
qed

declare class_loop.simps [simp del]

lemma class_loop_shorter: "class_loop chunk r seen m = Some (m', rest) \<Longrightarrow> length rest < length chunk"
proof (induction chunk r seen m rule: class_loop.induct)
  case (1 chunk r seen m)
  show ?case
  proof (cases "seen \<and> chunk \<noteq> [] \<and> hd chunk = CHR '']''")
    case True
    then show ?thesis using "1.prems" by (auto simp: class_loop.simps [of chunk])
  next
    case n: False
    then obtain lo r1 where g: "get_esc chunk = Some (lo, r1)"
      using "1.prems" by (auto simp: class_loop.simps [of chunk] split: option.splits)
    have l1: "length r1 < length chunk" using get_esc_shorter(1) [OF g] .
    show ?thesis
    proof (cases "hd r1 = CHR ''-''")
      case True
      then obtain hi r2 where h: "get_esc (tl r1) = Some (hi, r2)"
        and e: "class_loop r2 r True (m \<or> (lo \<le> r \<and> r \<le> hi)) = Some (m', rest)"
        using "1.prems" n g
        by (simp add: class_loop.simps [of chunk] split: option.splits prod.splits)
      have "length r2 < length (tl r1)" using get_esc_shorter(1) [OF h] .
      moreover have "length rest < length r2" using "1.IH"(1) [OF n g _ True h] e by simp
      ultimately show ?thesis using l1 by simp
    next
      case False
      then have "class_loop r1 r True (m \<or> lo = r) = Some (m', rest)"
        using "1.prems" n g
        by (simp add: class_loop.simps [of chunk])
      then have "length rest < length r1" using "1.IH"(2) [OF n g _ False] by simp
      then show ?thesis using l1 by simp
    qed
  qed
qed

text \<open>\<open>matchChunk\<close>. The flag is its \<open>failed\<close>; a failed match only goes on to check the syntax.\<close>

function match_chunk :: "bool \<Rightarrow> string \<Rightarrow> string \<Rightarrow> chunk_result" where
  "match_chunk failed [] s = (if failed then No_Match else Match s)"
| "match_chunk failed (c # chunk) s =
     (let failed = (failed \<or> s = [])
      in if c = CHR ''['' then
           (let (r, n) = (if failed then (0, 0) else decode_rune s);
                negated = (chunk \<noteq> [] \<and> hd chunk = CHR 0x5E)
            in case class_loop (if negated then tl chunk else chunk) r False False of
                 None \<Rightarrow> Bad
               | Some (m, rest) \<Rightarrow> match_chunk (failed \<or> m = negated) rest (drop n s))
         else if c = CHR ''?'' then
           (if failed then match_chunk True chunk s
            else match_chunk (hd s = slash) chunk (drop (snd (decode_rune s)) s))
         else if c = backslash then
           (case chunk of
              [] \<Rightarrow> Bad
            | d # rest \<Rightarrow>
                if failed then match_chunk True rest s
                else match_chunk (d \<noteq> hd s) rest (tl s))
         else if failed then match_chunk True chunk s
         else match_chunk (c \<noteq> hd s) chunk (tl s))"
  by pat_completeness auto
termination
proof (relation "measure (\<lambda>(_, chunk, _). length chunk)", goal_cases)
  case (2 failed c chunk s f p r n negated q m rest)
  then have "length rest < length (if negated then tl chunk else chunk)"
    using class_loop_shorter by metis
  then show ?case by (auto split: if_splits)
qed auto

declare match_chunk.simps(2) [simp del]

text \<open>\<open>scanChunk\<close>: whether the pattern starts with stars, the piece up to the next star, the rest.\<close>

fun scan :: "bool \<Rightarrow> string \<Rightarrow> string \<times> string" where
  "scan inrange [] = ([], [])"
| "scan inrange (c # cs) =
     (if c = backslash then
        (case cs of
           [] \<Rightarrow> ([c], [])
         | d # ds \<Rightarrow> (case scan inrange ds of (a, b) \<Rightarrow> (c # d # a, b)))
      else if c = star \<and> \<not> inrange then ([], c # cs)
      else case scan (if c = CHR ''['' then True else if c = CHR '']'' then False else inrange) cs of
        (a, b) \<Rightarrow> (c # a, b))"

definition scan_chunk :: "string \<Rightarrow> bool \<times> string \<times> string" where
  [go_defs]: "scan_chunk p =
     (p \<noteq> [] \<and> hd p = star, scan False (dropWhile (\<lambda>c. c = star) p))"

text \<open>
  A chunk after a star, tried after each byte of the name that is no slash:
  \<open>None\<close> for a malformed chunk, \<open>Some None\<close> for no match.
\<close>

fun star_loop :: "string \<Rightarrow> bool \<Rightarrow> string \<Rightarrow> string option option" where
  "star_loop chunk fin [] = Some None"
| "star_loop chunk fin (c # name) =
     (if c = slash then Some None
      else case match_chunk False chunk name of
        Bad \<Rightarrow> None
      | Match t \<Rightarrow> if fin \<and> t \<noteq> [] then star_loop chunk fin name else Some (Some t)
      | No_Match \<Rightarrow> star_loop chunk fin name)"

lemma scan_parts: "scan b p = (x, y) \<Longrightarrow> p = x @ y"
proof (induction b p arbitrary: x y rule: scan.induct)
  case (1 b)
  then show ?case by simp
next
  case (2 b c cs)
  then show ?case
    by (auto split: if_splits list.splits prod.splits)
qed

lemma scan_shorter: "p \<noteq> [] \<Longrightarrow> length (snd (snd (scan_chunk p))) < length p"
proof (cases p)
  case (Cons c cs)
  obtain x y where xy: "scan False (dropWhile (\<lambda>c. c = star) p) = (x, y)" by fastforce
  show ?thesis
  proof (cases "c = star")
    case True
    have "length y \<le> length (dropWhile (\<lambda>c. c = star) p)" using scan_parts [OF xy] by simp
    also have "\<dots> \<le> length cs" using True Cons length_dropWhile_le [of _ cs] by simp
    finally show ?thesis using xy Cons by (simp add: scan_chunk_def)
  next
    case False
    then have "x \<noteq> []" using xy Cons
      by (auto split: if_splits list.splits prod.splits)
    moreover have "p = x @ y" using scan_parts [OF xy] False Cons by simp
    ultimately show ?thesis using xy by (simp add: scan_chunk_def)
  qed
qed simp

text \<open>The check of what is left of the pattern, once the match has failed.\<close>

function tail_ok :: "string \<Rightarrow> bool" where
  "tail_ok p =
     (if p = [] then True
      else case scan_chunk p of (_, chunk, rest) \<Rightarrow>
        if match_chunk False chunk [] = Bad then False else tail_ok rest)"
  by pat_completeness auto
termination
proof (relation "measure length", goal_cases)
  case (2 p a b chunk rest)
  then show ?case using scan_shorter [of p] by simp (metis snd_conv)
qed simp

function path_match :: "string \<Rightarrow> string \<Rightarrow> bool option" where
  "path_match p name =
     (if p = [] then Some (name = [])
      else case scan_chunk p of (st, chunk, rest) \<Rightarrow>
        if st \<and> chunk = [] then Some (slash \<notin> set name)
        else let first = match_chunk False chunk name in
          if (case first of Match t \<Rightarrow> t = [] \<or> rest \<noteq> [] | _ \<Rightarrow> False)
          then path_match rest (case first of Match t \<Rightarrow> t | _ \<Rightarrow> [])
          else if first = Bad then None
          else case (if st then star_loop chunk (rest = []) name else Some None) of
            None \<Rightarrow> None
          | Some (Some t) \<Rightarrow> path_match rest t
          | Some None \<Rightarrow> if tail_ok rest then Some False else None)"
  by pat_completeness auto
termination
proof (relation "measure (\<lambda>(p, _). length p)", goal_cases)
  case 1
  show ?case by simp
next
  case (2 p name st q chunk rest first)
  then show ?case using scan_shorter [of p] by simp (metis snd_conv)
next
  case (3 p name st q chunk rest first)
  then show ?case using scan_shorter [of p] by simp (metis snd_conv)
qed

declare tail_ok.simps [simp del] path_match.simps [simp del]

section \<open>Patterns without special characters\<close>

definition literal :: "string \<Rightarrow> bool" where
  [go_defs]: "literal p = (\<not> contains_any p [star, CHR ''?'', CHR ''['', backslash])"

lemma literal_set:
  "literal p \<longleftrightarrow> star \<notin> set p \<and> CHR ''?'' \<notin> set p \<and> CHR ''['' \<notin> set p \<and> backslash \<notin> set p"
  by (auto simp: literal_def contains_any_def list_ex_iff)

lemma literal_Cons:
  "literal (c # p) \<longleftrightarrow> c \<noteq> star \<and> c \<noteq> CHR ''?'' \<and> c \<noteq> CHR ''['' \<and> c \<noteq> backslash \<and> literal p"
  by (auto simp: literal_set)

lemma literal_Nil [simp]: "literal []"
  by (simp add: literal_set)

lemma literal_append: "literal (p @ q) \<longleftrightarrow> literal p \<and> literal q"
  by (auto simp: literal_set)

lemma scan_literal: "literal p \<Longrightarrow> scan False (p @ q) = (p @ fst (scan False q), snd (scan False q))"
  by (induction p) (auto simp: literal_Cons split: prod.splits)

lemma match_chunk_failed_literal: "literal p \<Longrightarrow> match_chunk True p s = No_Match"
  by (induction p) (auto simp: literal_Cons match_chunk.simps(2))

lemma match_chunk_literal:
  "literal p \<Longrightarrow>
   match_chunk False p s = (if has_prefix s p then Match (drop (length p) s) else No_Match)"
proof (induction p arbitrary: s)
  case Nil
  show ?case by simp
next
  case (Cons c p)
  then have c: "c \<noteq> CHR ''?''" "c \<noteq> CHR ''[''" "c \<noteq> backslash" "literal p"
    by (simp_all add: literal_Cons)
  then show ?case
    using Cons.IH match_chunk_failed_literal [OF c(4)]
    by (cases s; cases "c = hd s") (auto simp: match_chunk.simps(2))
qed

lemma path_match_Nil [simp]: "path_match [] n = Some (n = [])"
  by (simp add: path_match.simps)

theorem path_match_literal:
  assumes "literal p"
  shows "path_match p n = Some (p = n)"
proof (cases p)
  case Nil
  then show ?thesis by (simp add: eq_commute)
next
  case (Cons c cs)
  then have c: "c \<noteq> star" using assms by (simp add: literal_Cons)
  then have sc: "scan_chunk p = (False, p, [])"
    using Cons scan_literal [OF assms, of "[]"] by (simp add: scan_chunk_def)
  have "p \<noteq> []" using Cons by simp
  then show ?thesis
    using match_chunk_literal [OF assms, of n] sc
    by (cases "has_prefix n p")
      (auto simp: path_match.simps [of p] tail_ok.simps prefix_def Let_def)
qed

lemma path_match_star [simp]: "path_match [star] n = Some (slash \<notin> set n)"
  by (simp add: path_match.simps scan_chunk_def)

text \<open>A literal followed by a star matches what starts with it and has no further slash.\<close>

theorem path_match_prefix:
  assumes "literal p"
  shows "path_match (p @ [star]) n = Some (\<exists>t. n = p @ t \<and> slash \<notin> set t)"
proof (cases p)
  case Nil
  then show ?thesis by simp
next
  case (Cons c cs)
  then have c: "c \<noteq> star" using assms by (simp add: literal_Cons)
  have sc: "scan_chunk (p @ [star]) = (False, p, [star])"
    using c Cons scan_literal [OF assms, of "[star]"] by (simp add: scan_chunk_def)
  have t: "tail_ok [star]" by (simp add: tail_ok.simps scan_chunk_def)
  have m: "match_chunk False p n = (if has_prefix n p then Match (drop (length p) n) else No_Match)"
    by (rule match_chunk_literal [OF assms])
  show ?thesis
    using sc m t
    by (cases "has_prefix n p") (auto simp: path_match.simps [of "p @ [star]"] prefix_def Let_def)
qed

end
