(* ===== verification/Acl_Match.thy ===== *)
theory Acl_Match
  imports Path_Match
begin

text \<open>
  auth/acl.go and auth/scope.go: folder patterns and token scopes. A pattern is matched to
  a path segment by segment, \<open>**\<close> standing for any number of segments; a malformed glob
  denies. \<open>glob\<close> is the language of patterns without it being code: the properties state
  the matcher against it.
\<close>

definition dstar :: string where [go_defs]: "dstar = ''**''"

section \<open>Patterns\<close>

text \<open>
  \<open>matchSegments\<close>; \<open>None\<close> is a malformed segment. Trying the rest of a \<open>**\<close> pattern at the
  next offset is trying the pattern one segment further on.
\<close>

fun matchSegments :: "string list \<Rightarrow> string list \<Rightarrow> bool option" where
  "matchSegments [] inp = Some (inp = [])"
| "matchSegments (seg # rest) inp =
     (if seg = dstar then
        (if rest = [] then Some True
         else case matchSegments rest inp of
           None \<Rightarrow> None
         | Some True \<Rightarrow> Some True
         | Some False \<Rightarrow> (case inp of [] \<Rightarrow> Some False | _ # more \<Rightarrow> matchSegments (seg # rest) more))
      else case inp of
        [] \<Rightarrow> Some False
      | s # more \<Rightarrow>
          (case path_match seg s of
             None \<Rightarrow> None
           | Some ok \<Rightarrow> if \<not> ok then Some False else matchSegments rest more))"

definition matchPattern :: "string \<Rightarrow> string \<Rightarrow> bool" where
  [go_defs]: "matchPattern pattern p =
     (case matchSegments (split_on slash pattern) (split_on slash p) of None \<Rightarrow> False | Some ok \<Rightarrow> ok)"

definition MatchGroups :: "string list \<Rightarrow> string \<Rightarrow> bool" where
  [go_defs]: "MatchGroups allowed folder = list_ex (\<lambda>p. if p = dstar then True else matchPattern p folder) allowed"

text \<open>\<open>strings.Trim\<close> of one byte.\<close>

definition trim_byte :: "char \<Rightarrow> string \<Rightarrow> string" where
  [go_defs]: "trim_byte c s = rev (dropWhile (\<lambda>x. x = c) (rev (dropWhile (\<lambda>x. x = c) s)))"

definition MatchSlot :: "string list \<Rightarrow> string \<Rightarrow> bool" where
  [go_defs]: "MatchSlot allowed slotPath =
     (let slotPath = trim_byte slash slotPath
      in if slotPath = [] then False
         else let segs = split_on slash slotPath
              in list_ex (\<lambda>i. MatchGroups allowed (join [slash] (take i segs))) [1..<length segs + 1])"

section \<open>Scopes\<close>

definition splitScope :: "string \<Rightarrow> (string \<times> string) option" where
  [go_defs]: "splitScope s =
     (case cut colon s of (r, v, ok) \<Rightarrow> if \<not> ok \<or> r = [] \<or> v = [] then None else Some (r, v))"

definition scopeMatches :: "string \<Rightarrow> string \<Rightarrow> bool" where
  [go_defs]: "scopeMatches held want =
     (if held = ''*:*'' \<or> held = ''*'' then False
      else if held = want then True
      else case splitScope held of
        None \<Rightarrow> False
      | Some (hr, hv) \<Rightarrow>
          if hv \<noteq> ''*'' then False
          else case splitScope want of None \<Rightarrow> False | Some (wr, _) \<Rightarrow> hr = wr)"

definition HasScope :: "string list \<Rightarrow> string \<Rightarrow> string \<Rightarrow> bool" where
  [go_defs]: "HasScope scope resource verb =
     (let want = resource @ '':'' @ verb in list_ex (\<lambda>s. scopeMatches s want) scope)"

definition scopeCoveredBy :: "string list \<Rightarrow> string \<Rightarrow> bool" where
  [go_defs]: "scopeCoveredBy parent want = list_ex (\<lambda>p. scopeMatches p want) parent"

definition HasScopeCoveredBy :: "string list \<Rightarrow> string \<Rightarrow> bool" where
  [go_defs]: "HasScopeCoveredBy parent want = scopeCoveredBy parent want"

fun intersect_loop :: "string list \<Rightarrow> string list \<Rightarrow> string list \<Rightarrow> string list" where
  "intersect_loop grants [] out = out"
| "intersect_loop grants (r # rs) out =
     (if r \<in> set out then intersect_loop grants rs out
      else if scopeCoveredBy grants r then intersect_loop grants rs (out @ [r])
      else intersect_loop grants rs out)"

text \<open>\<open>intersectScopes\<close>: its \<open>seen\<close> holds exactly what \<open>out\<close> holds.\<close>

definition intersectScopes :: "string list \<Rightarrow> string list \<Rightarrow> string list" where
  [go_defs]: "intersectScopes requested grants = intersect_loop grants requested []"

section \<open>The language of a pattern\<close>

text \<open>The paths a pattern stands for.\<close>

inductive glob :: "string list \<Rightarrow> string list \<Rightarrow> bool" where
  glob_end: "glob [] []"
| glob_seg: "seg \<noteq> dstar \<Longrightarrow> path_match seg s = Some True \<Longrightarrow> glob pat inp \<Longrightarrow> glob (seg # pat) (s # inp)"
| glob_skip: "glob pat inp \<Longrightarrow> glob (dstar # pat) inp"
| glob_more: "glob (dstar # pat) inp \<Longrightarrow> glob (dstar # pat) (s # inp)"

inductive_cases glob_NilE [elim!]: "glob [] inp"
inductive_cases glob_segE: "glob (seg # pat) inp"

lemma glob_all: "glob [dstar] inp"
  by (induction inp) (auto intro: glob.intros)

lemma glob_split: "glob (dstar # pat) inp \<longleftrightarrow> (\<exists>xs ys. inp = xs @ ys \<and> glob pat ys)"
proof
  show "glob (dstar # pat) inp \<Longrightarrow> \<exists>xs ys. inp = xs @ ys \<and> glob pat ys"
  proof (induction "dstar # pat" inp rule: glob.induct)
    case (glob_skip inp)
    then show ?case by (metis append_Nil)
  next
    case (glob_more inp s)
    then show ?case by (metis append_Cons)
  qed simp
next
  assume "\<exists>xs ys. inp = xs @ ys \<and> glob pat ys"
  then obtain xs ys where "inp = xs @ ys" "glob pat ys" by blast
  then show "glob (dstar # pat) inp"
    by (induction xs arbitrary: inp) (auto intro: glob.intros)
qed

text \<open>A match is in the language: an error or a denial never widens it.\<close>

lemma matchSegments_glob: "matchSegments pat inp = Some True \<Longrightarrow> glob pat inp"
proof (induction pat inp rule: matchSegments.induct)
  case (1 inp)
  then show ?case by (simp add: glob_end)
next
  case (2 seg rest inp)
  show ?case
  proof (cases "seg = dstar")
    case True
    show ?thesis
    proof (cases "rest = []")
      case nil: True
      then show ?thesis using True glob_all by simp
    next
      case False
      show ?thesis
      proof (cases "matchSegments rest inp = Some True")
        case True
        then show ?thesis using 2 \<open>seg = dstar\<close> False glob_skip by blast
      next
        case no: False
        then obtain x more where m: "matchSegments rest inp = Some False" "inp = x # more"
          "matchSegments (seg # rest) more = Some True"
          using "2.prems" \<open>seg = dstar\<close> False by (auto split: option.splits bool.splits list.splits)
        then have "glob (seg # rest) more" using 2 \<open>seg = dstar\<close> False by simp
        then show ?thesis using m(2) \<open>seg = dstar\<close> glob_more by simp
      qed
    qed
  next
    case False
    then obtain s more where "inp = s # more" "path_match seg s = Some True"
      "matchSegments rest more = Some True"
      using "2.prems" by (auto split: list.splits option.splits if_splits)
    then show ?thesis using 2 False glob_seg by auto
  qed
qed

text \<open>Where every segment is well formed the match decides the language.\<close>

definition well_formed :: "string list \<Rightarrow> bool" where
  "well_formed pat \<longleftrightarrow> (\<forall>seg \<in> set pat. seg = dstar \<or> (\<forall>s. path_match seg s \<noteq> None))"

lemma matchSegments_decides:
  "well_formed pat \<Longrightarrow> matchSegments pat inp = Some (glob pat inp)"
proof (induction pat inp rule: matchSegments.induct)
  case (1 inp)
  then show ?case by (cases inp) (auto intro: glob_end)
next
  case (2 seg rest inp)
  then have wf: "well_formed rest" by (simp add: well_formed_def)
  show ?case
  proof (cases "seg = dstar")
    case True
    show ?thesis
    proof (cases "rest = []")
      case nil: True
      then show ?thesis using True glob_all by simp
    next
      case False
      have r: "matchSegments rest inp = Some (glob rest inp)" using 2 True False wf by blast
      have step: "glob (dstar # rest) inp \<longleftrightarrow>
          glob rest inp \<or> (\<exists>x more. inp = x # more \<and> glob (dstar # rest) more)"
        by (auto intro: glob.intros elim: glob_segE)
      show ?thesis
      proof (cases "glob rest inp")
        case g: True
        then show ?thesis using r True False step by simp
      next
        case ng: False
        then have "matchSegments rest inp = Some False" using r by simp
        then show ?thesis
          using 2 True False ng step by (cases inp) auto
      qed
    qed
  next
    case False
    show ?thesis
    proof (cases inp)
      case Nil
      then show ?thesis using False by (auto elim: glob_segE)
    next
      case (Cons s more)
      have "path_match seg s \<noteq> None"
        using "2.prems" False unfolding well_formed_def by (metis list.set_intros(1))
      then obtain ok where ok: "path_match seg s = Some ok" by blast
      show ?thesis
      proof (cases ok)
        case True
        then have "matchSegments rest more = Some (glob rest more)"
          using 2 False Cons ok wf by simp
        then show ?thesis using False Cons ok True
          by (auto intro: glob_seg elim: glob_segE)
      next
        case no: False
        then show ?thesis using False Cons ok by (auto elim: glob_segE)
      qed
    qed
  qed
qed

section \<open>Properties\<close>

text \<open>
  A folder pattern decides its language: when its segments are well formed it matches
  exactly the paths it stands for, and whatever it is, it never matches another path.
\<close>

theorem pattern_decides:
  "(matchPattern pattern p \<longrightarrow> glob (split_on slash pattern) (split_on slash p)) \<and>
   (well_formed (split_on slash pattern) \<longrightarrow>
      matchPattern pattern p = glob (split_on slash pattern) (split_on slash p))"
  using matchSegments_glob matchSegments_decides by (auto simp: matchPattern_def split: option.splits)

lemma literal_well_formed: "\<forall>seg \<in> set pat. seg = dstar \<or> literal seg \<Longrightarrow> well_formed pat"
  by (auto simp: well_formed_def path_match_literal)

lemma pattern_decides_witness: "glob [''acme'', dstar] [''acme'', ''eng'', ''sre'']"
proof -
  have "matchPattern ''acme/**'' ''acme/eng/sre''" by code_simp
  then show ?thesis using pattern_decides [of "''acme/**''" "''acme/eng/sre''"] by (simp add: dstar_def)
qed

lemma intersect_loop_spec:
  "distinct out \<Longrightarrow> \<forall>x \<in> set out. scopeCoveredBy grants x \<Longrightarrow>
   distinct (intersect_loop grants req out) \<and>
   set (intersect_loop grants req out) = set out \<union> {x \<in> set req. scopeCoveredBy grants x}"
  by (induction grants req out rule: intersect_loop.induct) auto

lemma intersect_loop_subseq:
  "\<exists>ys. intersect_loop grants req out = out @ ys \<and> subseq ys req"
proof (induction grants req out rule: intersect_loop.induct)
  case (1 grants out)
  then show ?case by simp
next
  case (2 grants r rs out)
  then show ?case by (auto intro: subseq_Cons2 list_emb_Cons)
qed

lemma scopeMatches_trans: "scopeMatches h w \<Longrightarrow> scopeMatches w v \<Longrightarrow> scopeMatches h v"
  by (auto simp: scopeMatches_def split: if_splits option.splits prod.splits)

text \<open>
  Downscoping confers nothing: the scopes handed out are requested ones, each once and
  in the order asked, exactly those the granted scopes cover, and a token that carries them
  has no scope the granted ones do not give.
\<close>

theorem downscope_subset:
  "set (intersectScopes req grants) = {x \<in> set req. scopeCoveredBy grants x} \<and>
   distinct (intersectScopes req grants) \<and> subseq (intersectScopes req grants) req \<and>
   (HasScope (intersectScopes req grants) resource verb \<longrightarrow> HasScope grants resource verb)"
proof -
  have s: "set (intersectScopes req grants) = {x \<in> set req. scopeCoveredBy grants x}"
    "distinct (intersectScopes req grants)"
    using intersect_loop_spec [of "[]" grants req] by (simp_all add: intersectScopes_def)
  have "HasScope (intersectScopes req grants) resource verb \<longrightarrow> HasScope grants resource verb"
    using s(1) scopeMatches_trans by (fastforce simp: HasScope_def Let_def list_ex_iff scopeCoveredBy_def)
  then show ?thesis using s intersect_loop_subseq [of grants req "[]"] by (auto simp: intersectScopes_def)
qed

lemma downscope_subset_witness: "HasScope [''tasks:*''] ''tasks'' ''read''"
proof -
  have "HasScope (intersectScopes [''tasks:read'', ''acl:write''] [''tasks:*'']) ''tasks'' ''read''"
    by code_simp
  then show ?thesis using downscope_subset by blast
qed

end
