(* ===== verification/Acl_Rules.thy ===== *)
theory Acl_Rules
  imports Acl_Match
begin

text \<open>
  auth/authorize.go, the rule language: principal globs, actions, predicates and parameter
  specs. An access row matches a request when its scope pattern, its predicate and its
  parameters all do and its action covers the requested one. \<open>wild\<close> is the language of a
  one-segment glob without it being code; \<open>segGlob\<close> is shown to decide it.
\<close>

section \<open>Globs over one segment\<close>

function segGlob :: "string \<Rightarrow> string \<Rightarrow> bool" and seg_loop :: "string \<Rightarrow> string \<Rightarrow> bool" where
  "segGlob pat s =
     (if pat = ''*'' \<or> pat = ''**'' then True
      else if pat = s then True
      else seg_loop pat s)"
| "seg_loop [] s = (s = [])"
| "seg_loop (c # pat) s =
     (if c = star then
        list_ex (\<lambda>i. segGlob (dropWhile (\<lambda>x. x = star) pat) (drop i s)) [0..<length s + 1]
      else case s of [] \<Rightarrow> False | x # xs \<Rightarrow> if c \<noteq> x then False else seg_loop pat xs)"
  by pat_completeness auto
termination
  by (relation "measure (\<lambda>a. case a of Inl (pat, _) \<Rightarrow> 2 * length pat + 1 | Inr (pat, _) \<Rightarrow> 2 * length pat)")
    (auto simp: less_Suc_eq_le intro: length_dropWhile_le)

declare segGlob.simps [simp del] seg_loop.simps(2) [simp del]

text \<open>The language of a one-segment glob: a star stands for any bytes, every other byte for itself.\<close>

inductive wild :: "string \<Rightarrow> string \<Rightarrow> bool" where
  wild_end: "wild [] []"
| wild_char: "c \<noteq> star \<Longrightarrow> wild pat s \<Longrightarrow> wild (c # pat) (c # s)"
| wild_skip: "wild pat s \<Longrightarrow> wild (star # pat) s"
| wild_more: "wild (star # pat) s \<Longrightarrow> wild (star # pat) (x # s)"

inductive_cases wild_NilE: "wild [] s"
inductive_cases wild_ConsE: "wild (c # pat) s"

lemma wild_star_all: "wild [star] s"
  by (induction s) (auto intro: wild.intros)

lemma wild_drop: "wild (star # pat) s \<longleftrightarrow> (\<exists>i \<le> length s. wild pat (drop i s))"
proof
  show "wild (star # pat) s \<Longrightarrow> \<exists>i \<le> length s. wild pat (drop i s)"
  proof (induction "star # pat" s rule: wild.induct)
    case (wild_skip s)
    then show ?case by (metis drop0 zero_le)
  next
    case (wild_more s x)
    then show ?case by (metis Suc_le_mono drop_Suc_Cons length_Cons)
  qed simp
next
  assume "\<exists>i \<le> length s. wild pat (drop i s)"
  then obtain i where "i \<le> length s" "wild pat (drop i s)" by blast
  then show "wild (star # pat) s"
  proof (induction i arbitrary: s)
    case 0
    then show ?case by (simp add: wild_skip)
  next
    case (Suc i)
    then show ?case by (cases s) (auto intro: wild.intros)
  qed
qed

lemma wild_char_iff: "c \<noteq> star \<Longrightarrow> wild (c # pat) s \<longleftrightarrow> (\<exists>xs. s = c # xs \<and> wild pat xs)"
  by (auto intro: wild_char elim: wild_ConsE)

lemma wild_star_star: "wild (star # star # pat) s \<longleftrightarrow> wild (star # pat) s"
proof
  assume "wild (star # star # pat) s"
  then obtain i where i: "i \<le> length s" "wild (star # pat) (drop i s)" by (auto simp: wild_drop [of "star # pat"])
  then obtain j where "j \<le> length (drop i s)" "wild pat (drop j (drop i s))" by (auto simp: wild_drop)
  then show "wild (star # pat) s" unfolding wild_drop [of pat]
    using i by (intro exI [of _ "i + j"]) (simp add: add.commute)
qed (rule wild_skip)

lemma wild_strip: "wild (star # dropWhile (\<lambda>x. x = star) pat) s \<longleftrightarrow> wild (star # pat) s"
  by (induction pat) (auto simp: wild_star_star)

lemma wild_self: "wild s s"
proof (induction s)
  case (Cons c s)
  then show ?case by (cases "c = star") (auto intro: wild.intros)
qed (rule wild_end)

lemma segGlob_wild: "segGlob pat s \<longleftrightarrow> wild pat s"
  and seg_loop_wild: "seg_loop pat s \<longleftrightarrow> wild pat s"
proof (induction pat s and pat s rule: segGlob_seg_loop.induct)
  case (1 pat s)
  then show ?case
    using wild_star_all [of s] wild_star_star [of "[]" s] wild_self [of s]
    by (auto simp: segGlob.simps [of pat s])
next
  case (2 s)
  then show ?case by (auto intro: wild_end elim: wild_NilE)
next
  case (3 c pat s)
  show ?case
  proof (cases "c = star")
    case True
    have "seg_loop (c # pat) s \<longleftrightarrow>
        (\<exists>i \<le> length s. segGlob (dropWhile (\<lambda>x. x = star) pat) (drop i s))"
    proof -
      have "set [0..<length s + 1] = {i. i \<le> length s}" by auto
      then show ?thesis unfolding seg_loop.simps(2) list_ex_iff if_P [OF True] by blast
    qed
    also have "\<dots> \<longleftrightarrow> (\<exists>i \<le> length s. wild (dropWhile (\<lambda>x. x = star) pat) (drop i s))"
    proof -
      have "segGlob (dropWhile (\<lambda>x. x = star) pat) (drop i s) = wild (dropWhile (\<lambda>x. x = star) pat) (drop i s)"
        if "i \<le> length s" for i
      proof -
        have "i \<in> set [0..<length s + 1]" using that by auto
        then show ?thesis by (rule "3.IH"(1) [OF True])
      qed
      then show ?thesis by blast
    qed
    finally show ?thesis using True wild_drop wild_strip by blast
  next
    case False
    then show ?thesis
      using "3.IH"(2) by (cases s) (auto simp: seg_loop.simps(2) wild_char_iff)
  qed
qed

section \<open>Principals\<close>

definition splitNs :: "string \<Rightarrow> string \<times> string" where
  [go_defs]: "splitNs s = (case cut colon s of (b, a, ok) \<Rightarrow> if ok then (b, a) else (s, []))"

definition matchPrincipal :: "string \<Rightarrow> string \<Rightarrow> bool" where
  [go_defs]: "matchPrincipal pattern p =
     (if pattern = p then True
      else if pattern = ''**'' then True
      else case splitNs pattern of (patNs, patRest) \<Rightarrow>
        case splitNs p of (pNs, pRest) \<Rightarrow>
          if \<not> segGlob patNs pNs then False
          else if patRest = [] \<and> pRest = [] then True
          else matchPattern patRest pRest)"

definition anyPrincipalMatches :: "string \<Rightarrow> string list \<Rightarrow> bool" where
  [go_defs]: "anyPrincipalMatches pattern expanded = list_ex (matchPrincipal pattern) expanded"

section \<open>Actions\<close>

definition actionCovers :: "string \<Rightarrow> string \<Rightarrow> bool" where
  [go_defs]: "actionCovers rowAction requested =
     (if rowAction = ''*'' then True
      else if rowAction = requested then True
      else if rowAction = ''admin'' then requested = ''interact'' \<or> has_prefix requested ''mcp:''
      else if rowAction = ''mcp:*'' then has_prefix requested ''mcp:''
      else False)"

definition identityCovers :: "string \<Rightarrow> string \<Rightarrow> bool" where
  [go_defs]: "identityCovers rowAction requested =
     (if rowAction = requested then True
      else case cut colon requested of (ns, _, ok) \<Rightarrow> ok \<and> rowAction = ns @ '':*'')"

text \<open>What the identity axis lets an action reach, the route axis does too; the lattice is the difference.\<close>

lemma identity_exact: "identityCovers a r \<Longrightarrow> a = r \<or> (\<exists>ns t. r = ns @ colon # t \<and> colon \<notin> set ns \<and> a = ns @ '':*'')"
  by (cases "cut colon r") (auto simp: identityCovers_def cut_found split: if_splits)

lemma identity_no_lattice: "identityCovers ''*'' r \<Longrightarrow> r = ''*''"
  by (auto simp: identityCovers_def split: if_splits prod.splits)

section \<open>Predicates and parameters\<close>

type_synonym strmap = "string \<Rightarrow> string option"

definition pred_part :: "strmap \<Rightarrow> string \<Rightarrow> bool" where
  [go_defs]: "pred_part claims part0 =
     (let part = trim_space part0
      in if part = [] then True
         else case cut equals part of (before, after, hasEq) \<Rightarrow>
           if \<not> hasEq then (case claims part of None \<Rightarrow> False | Some v \<Rightarrow> v \<noteq> [])
           else case claims (trim_space before) of
             None \<Rightarrow> False
           | Some got \<Rightarrow> segGlob (trim_space after) got)"

definition predicateMatches :: "string \<Rightarrow> strmap \<Rightarrow> bool" where
  [go_defs]: "predicateMatches predicate claims =
     (if predicate = [] then True else list_all (pred_part claims) (split_on comma predicate))"

definition param_part :: "strmap \<Rightarrow> string \<Rightarrow> bool" where
  [go_defs]: "param_part params part0 =
     (let part = trim_space part0
      in if part = [] then True
         else case cut equals part of (before, after, hasEq) \<Rightarrow>
           if \<not> hasEq then params part \<noteq> None
           else case params (trim_space before) of
             None \<Rightarrow> False
           | Some got \<Rightarrow> segGlob (trim_space after) got)"

definition paramsMatch :: "string \<Rightarrow> strmap \<Rightarrow> bool" where
  [go_defs]: "paramsMatch paramSpec params =
     (if paramSpec = [] then True else list_all (param_part params) (split_on comma paramSpec))"

fun validate_parts :: "string list \<Rightarrow> string list \<Rightarrow> bool" where
  "validate_parts seen [] = True"
| "validate_parts seen (part # parts) =
     (case cut equals part of (k, v, hasEq) \<Rightarrow>
        if k \<noteq> trim_space k \<or> (hasEq \<and> v \<noteq> trim_space v) then False
        else if k = [] then False
        else if k \<in> set seen then False
        else validate_parts (k # seen) parts)"

text \<open>\<open>ValidateParams\<close>: true where the Go function answers no error.\<close>

definition ValidateParams :: "string \<Rightarrow> bool" where
  [go_defs]: "ValidateParams spec = (if spec = [] then True else validate_parts [] (split_on comma spec))"

definition param_clause :: "string \<Rightarrow> string \<Rightarrow> string option" where
  [go_defs]: "param_clause k v =
     (if equals \<in> set k then None
      else if contains_any k '',*'' \<or> k \<noteq> trim_space k \<or> contains_any v '',*'' \<or> v \<noteq> trim_space v then None
      else Some (k @ ''='' @ v))"

fun param_clauses :: "(string \<times> string) list \<Rightarrow> string list option" where
  "param_clauses [] = Some []"
| "param_clauses ((k, v) # kvs) =
     (case param_clause k v of
        None \<Rightarrow> None
      | Some c \<Rightarrow> map_option (\<lambda>cs. c # cs) (param_clauses kvs))"

text \<open>\<open>ParamsSpec\<close> of a map given as its entries, in any order: \<open>None\<close> is a refusal.\<close>

definition ParamsSpec :: "(string \<times> string) list \<Rightarrow> string option" where
  [go_defs]: "ParamsSpec vals =
     (case param_clauses (sort_key fst vals) of
        None \<Rightarrow> None
      | Some parts \<Rightarrow>
          (let spec = join '','' parts
           in if \<not> ValidateParams spec then None
              else if \<not> paramsMatch spec (map_of vals) then None
              else Some spec))"

section \<open>A rule for exact values\<close>

lemma wild_literal: "star \<notin> set pat \<Longrightarrow> wild pat s \<longleftrightarrow> pat = s"
proof (induction pat arbitrary: s)
  case Nil
  then show ?case by (auto intro: wild_end elim: wild_NilE)
next
  case (Cons c pat)
  then have c: "c \<noteq> star" and IH: "\<And>s. wild pat s \<longleftrightarrow> pat = s" by auto
  show ?case unfolding wild_char_iff [OF c] IH by blast
qed

text \<open>What a clause can state: a name and a value the evaluator reads back as they are.\<close>

definition expressible :: "string \<Rightarrow> string \<Rightarrow> bool" where
  "expressible k v \<longleftrightarrow> k \<noteq> [] \<and> trimmed k \<and> trimmed v \<and>
     equals \<notin> set k \<and> comma \<notin> set k \<and> star \<notin> set k \<and> comma \<notin> set v \<and> star \<notin> set v"

lemma contains_comma_star: "contains_any x '',*'' \<longleftrightarrow> comma \<in> set x \<or> star \<in> set x"
  by (auto simp: contains_any_def list_ex_iff)

lemma param_clause_some:
  "k \<noteq> [] \<Longrightarrow> param_clause k v = (if expressible k v then Some (k @ equals # v) else None)"
  unfolding param_clause_def expressible_def trimmed_def [symmetric] contains_comma_star
  by auto

lemma clause_trimmed: "expressible k v \<Longrightarrow> trim_space (k @ equals # v) = k @ equals # v"
  unfolding expressible_def by (intro trim_space_around equals_not_white) simp_all

lemma param_part_clause:
  assumes "expressible k v"
  shows "param_part params (k @ equals # v) \<longleftrightarrow> params k = Some v"
proof -
  have "cut equals (k @ equals # v) = (k, v, True)" using assms by (simp add: expressible_def)
  moreover have "segGlob v got \<longleftrightarrow> v = got" for got
    using assms by (simp add: segGlob_wild wild_literal expressible_def)
  ultimately show ?thesis
    using assms clause_trimmed [OF assms]
    by (auto simp: param_part_def expressible_def split: option.splits)
qed

lemma clause_no_comma: "expressible k v \<Longrightarrow> comma \<notin> set (k @ equals # v)"
  by (simp add: expressible_def)

lemma paramsMatch_clauses:
  assumes "\<forall>(k, v) \<in> set vals. expressible k v"
  shows "paramsMatch (join '','' (map (\<lambda>(k, v). k @ equals # v) vals)) params
    \<longleftrightarrow> (\<forall>(k, v) \<in> set vals. params k = Some v)"
proof (cases "vals = []")
  case True
  then show ?thesis by (simp add: paramsMatch_def)
next
  case False
  let ?parts = "map (\<lambda>(k, v). k @ equals # v) vals"
  have nc: "\<forall>p \<in> set ?parts. comma \<notin> set p" using assms clause_no_comma by fastforce
  have sp: "split_on comma (join '','' ?parts) = ?parts"
    using False nc by (intro split_join) auto
  have "join '','' ?parts \<noteq> []"
  proof
    assume "join '','' ?parts = []"
    then have "?parts = [[]]" using sp by simp
    then show False by (auto split: prod.splits)
  qed
  then show ?thesis
    unfolding paramsMatch_def sp using assms param_part_clause
    by (fastforce simp: list_all_iff)
qed

lemma validate_clauses:
  assumes "\<forall>(k, v) \<in> set vals. expressible k v" "distinct (map fst vals)"
    "set seen \<inter> fst ` set vals = {}"
  shows "validate_parts seen (map (\<lambda>(k, v). k @ equals # v) vals)"
  using assms
proof (induction vals arbitrary: seen)
  case Nil
  then show ?case by simp
next
  case (Cons kv vals)
  obtain k v where kv: "kv = (k, v)" by fastforce
  then have e: "expressible k v" using Cons.prems by simp
  then have "cut equals (k @ equals # v) = (k, v, True)" by (simp add: expressible_def)
  moreover have "validate_parts (k # seen) (map (\<lambda>(k, v). k @ equals # v) vals)"
    by (rule Cons.IH) (use Cons.prems kv in auto)
  ultimately show ?case using e kv Cons.prems by (auto simp: expressible_def)
qed

lemma param_clauses_none:
  "\<forall>(k, v) \<in> set vals. k \<noteq> [] \<Longrightarrow>
   param_clauses vals = (if \<forall>(k, v) \<in> set vals. expressible k v
     then Some (map (\<lambda>(k, v). k @ equals # v) vals) else None)"
proof (induction vals)
  case Nil
  then show ?case by simp
next
  case (Cons kv vals)
  obtain k v where kv: "kv = (k, v)" by fastforce
  then have "k \<noteq> []" "\<forall>(k, v) \<in> set vals. k \<noteq> []" using Cons.prems by auto
  then show ?case using Cons.IH kv by (simp add: param_clause_some)
qed

text \<open>
  A rendered rule means exactly the values it was built from, and one is rendered whenever
  the values can be stated.
\<close>

lemma ParamsSpec_named:
  assumes "distinct (map fst vals)" and named: "\<forall>(k, v) \<in> set vals. k \<noteq> []"
  shows "ParamsSpec vals = (if \<forall>(k, v) \<in> set vals. expressible k v
    then Some (join '','' (map (\<lambda>(k, v). k @ equals # v) (sort_key fst vals))) else None)"
proof (cases "\<forall>(k, v) \<in> set vals. expressible k v")
  case True
  let ?vs = "sort_key fst vals"
  let ?parts = "map (\<lambda>(k, v). k @ equals # v) ?vs"
  have e: "\<forall>(k, v) \<in> set ?vs. expressible k v" and n: "\<forall>(k, v) \<in> set ?vs. k \<noteq> []"
    using True named by simp_all
  have d: "distinct (map fst ?vs)"
    using assms(1) by (metis distinct_map distinct_sort set_sort)
  have pc: "param_clauses ?vs = Some ?parts" using param_clauses_none [OF n] e by simp
  have "ValidateParams (join '','' ?parts)"
  proof (cases "?vs = []")
    case True
    then show ?thesis by (simp add: ValidateParams_def)
  next
    case False
    have "\<forall>p \<in> set ?parts. comma \<notin> set p" using e clause_no_comma by fastforce
    then have "split_on comma (join '','' ?parts) = ?parts"
      using False by (intro split_join) auto
    then show ?thesis using validate_clauses [OF e d, of "[]"] by (simp add: ValidateParams_def)
  qed
  moreover have "paramsMatch (join '','' ?parts) (map_of vals)"
    using paramsMatch_clauses [OF e] assms(1) by auto
  ultimately show ?thesis using True pc by (simp add: ParamsSpec_def)
next
  case False
  then have "param_clauses (sort_key fst vals) = None"
    using param_clauses_none [of "sort_key fst vals"] named by simp
  then show ?thesis unfolding ParamsSpec_def if_not_P [OF False] by simp
qed

lemma ParamsSpec_means:
  assumes "distinct (map fst vals)" "\<forall>(k, v) \<in> set vals. k \<noteq> []" "ParamsSpec vals = Some spec"
  shows "paramsMatch spec params \<longleftrightarrow> (\<forall>(k, v) \<in> set vals. params k = Some v)"
proof -
  have e: "\<forall>(k, v) \<in> set vals. expressible k v"
    and s: "spec = join '','' (map (\<lambda>(k, v). k @ equals # v) (sort_key fst vals))"
    using assms ParamsSpec_named [OF assms(1,2)] by (simp_all split: if_splits)
  then show ?thesis using paramsMatch_clauses [of "sort_key fst vals" params] by simp
qed

section \<open>Properties\<close>

text \<open>
  The one-segment glob the rules are written in decides its language: a star stands for
  any bytes, every other byte for itself.
\<close>

theorem segGlob_decides: "segGlob pat s = wild pat s"
  by (rule segGlob_wild)

text \<open>
  C39. A standing rule rendered from the arguments of a call matches the calls that carry
  exactly those values and no others, and a rule is rendered exactly when every name and
  value can be written so that the evaluator reads it back.
\<close>

theorem params_spec_exact:
  assumes "distinct (map fst vals)" and "\<forall>(k, v) \<in> set vals. k \<noteq> []"
  shows "case ParamsSpec vals of
      None \<Rightarrow> \<not> (\<forall>(k, v) \<in> set vals. expressible k v)
    | Some spec \<Rightarrow> (\<forall>params. paramsMatch spec params \<longleftrightarrow> (\<forall>(k, v) \<in> set vals. params k = Some v))"
  using ParamsSpec_named [OF assms] ParamsSpec_means [OF assms]
  by (auto split: option.splits if_splits)

lemma params_spec_exact_witness:
  "paramsMatch ''channel=ops,to=bob'' [''to'' \<mapsto> ''bob'', ''channel'' \<mapsto> ''ops'', ''n'' \<mapsto> ''1'']"
proof -
  have "ParamsSpec [(''to'', ''bob''), (''channel'', ''ops'')] = Some ''channel=ops,to=bob''" by code_simp
  then show ?thesis
    using params_spec_exact [of "[(''to'', ''bob''), (''channel'', ''ops'')]"] by simp
qed

end
