(* ===== verification/Authorize.thy ===== *)
theory Authorize
  imports Acl_Rules Membership Groupfolder
begin

text \<open>
  auth/authorize.go, the evaluator: a caller's principals are expanded through the
  membership graph, the rows of those principals are read, and a request is allowed when
  some row allows it and none denies it. A caller may carry a route, the folder a request
  was routed to: then an allow row the sender alone holds counts inside that folder's
  subtree only. A store is an option, as the Go pointer may be nil. The two other readers of
  the same rows, \<open>CheckHold\<close> and \<open>ShellEnvKeys\<close>, match the action exactly.
\<close>

record Caller =
  c_principal :: string
  c_claims :: strmap
  c_extra :: "string list"
  c_route :: string

definition FolderPrincipal :: "string \<Rightarrow> string" where
  [go_defs]: "FolderPrincipal folder = ''folder:'' @ folder"

section \<open>The rows of a caller\<close>

definition routePrincipals :: "store \<Rightarrow> Caller \<Rightarrow> string list" where
  [go_defs]: "routePrincipals s caller =
     (if c_route caller = [] then []
      else let p = FolderPrincipal (c_route caller) in p # Ancestors s p)"

text \<open>\<open>add\<close>: a principal once, in order, the empty one never.\<close>

definition add_principal :: "string list \<Rightarrow> string \<Rightarrow> string list" where
  [go_defs]: "add_principal out p = (if p = [] \<or> p \<in> set out then out else out @ [p])"

definition frontier_of :: "Caller \<Rightarrow> string list" where
  [go_defs]: "frontier_of caller =
     (c_principal caller # c_extra caller)
       @ (if c_route caller \<noteq> [] then [FolderPrincipal (c_route caller)] else [])"

definition expandPrincipals :: "store \<Rightarrow> Caller \<Rightarrow> string list" where
  [go_defs]: "expandPrincipals s caller =
     (let frontier = frontier_of caller;
          out = foldl add_principal [] frontier
      in foldl (\<lambda>out p. foldl add_principal out (Ancestors s p)) out frontier)"

definition policyRows :: "store \<Rightarrow> string list \<Rightarrow> store_error + ACLRow list" where
  [go_defs]: "policyRows s expanded =
     (case ACLRowsFor (reader_of s) expanded of
        Inl e \<Rightarrow> Inl e
      | Inr rows \<Rightarrow>
          (case ACLWildcardRows (reader_of s) of
             Inl e \<Rightarrow> Inl e
           | Inr wilds \<Rightarrow> Inr (rows @ filter (\<lambda>r. anyPrincipalMatches (Principal r) expanded) wilds)))"

section \<open>Authorize\<close>

definition withinSubtree :: "string \<Rightarrow> string \<Rightarrow> bool" where
  [go_defs]: "withinSubtree folder scope =
     (if folder = [] \<or> scope = [] \<or> contains_any scope ''*?['' then False
      else scope = folder \<or> has_prefix scope (folder @ ''/''))"

text \<open>A row that speaks to the request at all: scope, predicate and parameters.\<close>

definition row_applies :: "Caller \<Rightarrow> string \<Rightarrow> strmap \<Rightarrow> ACLRow \<Rightarrow> bool" where
  [go_defs]: "row_applies caller scope params r =
     (if \<not> matchPattern (Scope r) scope then False
      else if \<not> predicateMatches (Predicate r) (c_claims caller) then False
      else if \<not> paramsMatch (Params r) params then False
      else True)"

definition judge_row ::
  "Caller \<Rightarrow> string \<Rightarrow> string \<Rightarrow> strmap \<Rightarrow> string list \<Rightarrow> bool \<times> bool \<Rightarrow> ACLRow \<Rightarrow> bool \<times> bool" where
  [go_defs]: "judge_row caller action scope params route verdict r =
     (case verdict of (allowed, denied) \<Rightarrow>
        if \<not> row_applies caller scope params r then (allowed, denied)
        else if Effect r = EffectDeny then
          (if actionCovers (Action r) action then (allowed, True) else (allowed, denied))
        else if c_route caller = [] \<or> anyPrincipalMatches (Principal r) route then
          (if actionCovers (Action r) action then (True, denied) else (allowed, denied))
        else if withinSubtree (c_route caller) scope \<and> identityCovers (Action r) action then
          (True, denied)
        else (allowed, denied))"

definition Authorize :: "store option \<Rightarrow> Caller \<Rightarrow> string \<Rightarrow> string \<Rightarrow> strmap \<Rightarrow> bool" where
  [go_defs]: "Authorize so caller action scope params =
     (case so of
        None \<Rightarrow> False
      | Some s \<Rightarrow>
          if action = [] \<or> (c_principal caller = [] \<and> c_route caller = []) then False
          else case policyRows s (expandPrincipals s caller) of
            Inl _ \<Rightarrow> False
          | Inr rows \<Rightarrow>
              (let route = routePrincipals s caller
               in case foldl (judge_row caller action scope params route) (False, False) rows of
                    (allowed, denied) \<Rightarrow> if denied then False else allowed))"

section \<open>The other readers\<close>

definition visible_row :: "Caller \<Rightarrow> string list \<Rightarrow> bool \<times> string list \<Rightarrow> ACLRow \<Rightarrow> bool \<times> string list" where
  [go_defs]: "visible_row caller route st r =
     (case st of (lattice, held) \<Rightarrow>
        if Effect r = EffectDeny then (lattice, held)
        else if c_route caller \<noteq> [] \<and> \<not> anyPrincipalMatches (Principal r) route then
          (if Action r = ''*'' \<or> Action r = ''admin'' then (lattice, held)
           else if Action r = ''mcp:*'' then (True, held)
           else (lattice, Action r # held))
        else if Action r = ''*'' \<or> Action r = ''mcp:*'' \<or> Action r = ''admin'' then (True, held)
        else (lattice, Action r # held))"

definition EffectiveActions :: "store option \<Rightarrow> Caller \<Rightarrow> string \<Rightarrow> bool" where
  [go_defs]: "EffectiveActions so caller action =
     (case so of
        None \<Rightarrow> False
      | Some s \<Rightarrow>
          if c_principal caller = [] \<and> c_route caller = [] then False
          else case policyRows s (expandPrincipals s caller) of
            Inl _ \<Rightarrow> False
          | Inr rows \<Rightarrow>
              (case foldl (visible_row caller (routePrincipals s caller)) (False, []) rows of
                 (lattice, held) \<Rightarrow> if lattice then has_prefix action ''mcp:'' else action \<in> set held))"

definition single_axis :: "string \<Rightarrow> Caller" where
  [go_defs]: "single_axis sub = \<lparr>c_principal = sub, c_claims = (\<lambda>_. None), c_extra = [], c_route = []\<rparr>"

definition scope_step :: "string list \<Rightarrow> ACLRow \<Rightarrow> string list" where
  [go_defs]: "scope_step out r =
     (if Effect r = EffectDeny \<or> Scope r = [] \<or> Scope r \<in> set out then out else out @ [Scope r])"

definition UserScopes :: "store option \<Rightarrow> string \<Rightarrow> store_error + string list" where
  [go_defs]: "UserScopes so sub =
     (case so of
        None \<Rightarrow> Inr []
      | Some s \<Rightarrow>
          if sub = [] then Inr []
          else case policyRows s (expandPrincipals s (single_axis sub)) of
            Inl e \<Rightarrow> Inl e
          | Inr rows \<Rightarrow> Inr (sort (foldl scope_step [] rows)))"

text \<open>Deny is spelled \<open>EffectSkipApproval\<close> on a namespaced row; it is the same value.\<close>

definition namespaced_row ::
  "string \<Rightarrow> string \<Rightarrow> string \<Rightarrow> strmap \<Rightarrow> strmap \<Rightarrow> bool \<times> bool \<Rightarrow> ACLRow \<Rightarrow> bool \<times> bool" where
  [go_defs]: "namespaced_row pre name scope claims params verdict r =
     (case verdict of (allowed, denied) \<Rightarrow>
        if Action r \<noteq> pre @ name \<and> Action r \<noteq> pre @ ''*'' then (allowed, denied)
        else if \<not> matchPattern (Scope r) scope then (allowed, denied)
        else if \<not> predicateMatches (Predicate r) claims then (allowed, denied)
        else if \<not> paramsMatch (Params r) params then (allowed, denied)
        else if Effect r = EffectDeny then (allowed, True)
        else (True, denied))"

definition namespacedAllows :: "ACLRow list \<Rightarrow> string \<Rightarrow> string \<Rightarrow> string \<Rightarrow> strmap \<Rightarrow> strmap \<Rightarrow> bool" where
  [go_defs]: "namespacedAllows rows pre name scope claims params =
     (case foldl (namespaced_row pre name scope claims params) (False, False) rows of
        (allowed, denied) \<Rightarrow> allowed \<and> \<not> denied)"

definition CheckHold :: "store option \<Rightarrow> Caller \<Rightarrow> string \<Rightarrow> string \<Rightarrow> strmap \<Rightarrow> bool" where
  [go_defs]: "CheckHold so caller tool scope params =
     (case so of
        None \<Rightarrow> False
      | Some s \<Rightarrow>
          if c_principal caller = [] \<or> tool = [] then False
          else case policyRows s (expandPrincipals s caller) of
            Inl _ \<Rightarrow> False
          | Inr rows \<Rightarrow> namespacedAllows rows HoldPrefix tool scope (c_claims caller) params)"

definition ShellEnvKeys :: "store option \<Rightarrow> Caller \<Rightarrow> string \<Rightarrow> string list \<Rightarrow> string list" where
  [go_defs]: "ShellEnvKeys so caller scope keys =
     (case so of
        None \<Rightarrow> []
      | Some s \<Rightarrow>
          if c_principal caller = [] \<or> keys = [] then []
          else case policyRows s (expandPrincipals s caller) of
            Inl _ \<Rightarrow> []
          | Inr rows \<Rightarrow>
              sort (filter (\<lambda>k. namespacedAllows rows ShellEnvPrefix k scope (c_claims caller) (\<lambda>_. None)) keys))"

section \<open>The verdict as a set of rows\<close>

text \<open>A row that denies, and one that allows, a request.\<close>

definition denies :: "Caller \<Rightarrow> string \<Rightarrow> string \<Rightarrow> strmap \<Rightarrow> ACLRow \<Rightarrow> bool" where
  "denies caller action scope params r \<longleftrightarrow>
     row_applies caller scope params r \<and> Effect r = EffectDeny \<and> actionCovers (Action r) action"

definition allows :: "Caller \<Rightarrow> string \<Rightarrow> string \<Rightarrow> strmap \<Rightarrow> string list \<Rightarrow> ACLRow \<Rightarrow> bool" where
  "allows caller action scope params route r \<longleftrightarrow>
     row_applies caller scope params r \<and> Effect r \<noteq> EffectDeny \<and>
     (if c_route caller = [] \<or> anyPrincipalMatches (Principal r) route
      then actionCovers (Action r) action
      else withinSubtree (c_route caller) scope \<and> identityCovers (Action r) action)"

lemma judge_fold:
  "foldl (judge_row caller action scope params route) (a, d) rows =
   (a \<or> (\<exists>r \<in> set rows. allows caller action scope params route r),
    d \<or> (\<exists>r \<in> set rows. denies caller action scope params r))"
proof (induction rows arbitrary: a d)
  case Nil
  then show ?case by simp
next
  case (Cons r rows)
  have "judge_row caller action scope params route (a, d) r =
      (a \<or> allows caller action scope params route r, d \<or> denies caller action scope params r)"
    by (auto simp: judge_row_def allows_def denies_def)
  then show ?case using Cons by auto
qed

lemma Authorize_rows:
  "Authorize (Some s) caller action scope params \<longleftrightarrow>
   action \<noteq> [] \<and> \<not> (c_principal caller = [] \<and> c_route caller = []) \<and>
   (\<exists>rows. policyRows s (expandPrincipals s caller) = Inr rows \<and>
      (\<exists>r \<in> set rows. allows caller action scope params (routePrincipals s caller) r) \<and>
      \<not> (\<exists>r \<in> set rows. denies caller action scope params r))"
  by (auto simp: Authorize_def judge_fold Let_def split: sum.splits)

text \<open>The row a namespaced rule rests on, and the rows that take it away.\<close>

definition ns_speaks :: "string \<Rightarrow> string \<Rightarrow> string \<Rightarrow> strmap \<Rightarrow> strmap \<Rightarrow> ACLRow \<Rightarrow> bool" where
  "ns_speaks pre name scope claims params r \<longleftrightarrow>
     (Action r = pre @ name \<or> Action r = pre @ ''*'') \<and> matchPattern (Scope r) scope \<and>
     predicateMatches (Predicate r) claims \<and> paramsMatch (Params r) params"

lemma namespaced_fold:
  "foldl (namespaced_row pre name scope claims params) (a, d) rows =
   (a \<or> (\<exists>r \<in> set rows. ns_speaks pre name scope claims params r \<and> Effect r \<noteq> EffectDeny),
    d \<or> (\<exists>r \<in> set rows. ns_speaks pre name scope claims params r \<and> Effect r = EffectDeny))"
proof (induction rows arbitrary: a d)
  case Nil
  then show ?case by simp
next
  case (Cons r rows)
  have "namespaced_row pre name scope claims params (a, d) r =
      (a \<or> ns_speaks pre name scope claims params r \<and> Effect r \<noteq> EffectDeny,
       d \<or> ns_speaks pre name scope claims params r \<and> Effect r = EffectDeny)"
    by (auto simp: namespaced_row_def ns_speaks_def)
  then show ?case using Cons by auto
qed

lemma namespacedAllows_rows:
  "namespacedAllows rows pre name scope claims params \<longleftrightarrow>
   (\<exists>r \<in> set rows. ns_speaks pre name scope claims params r \<and> Effect r \<noteq> EffectDeny) \<and>
   \<not> (\<exists>r \<in> set rows. ns_speaks pre name scope claims params r \<and> Effect r = EffectDeny)"
  by (simp add: namespacedAllows_def namespaced_fold)

section \<open>A store that answers\<close>

text \<open>Every request answered, every stored grant and edge in the shape its writer gives it.\<close>

definition healthy :: "store \<Rightarrow> bool" where
  "healthy s \<longleftrightarrow> (\<forall>i. \<not> fails s i) \<and> rows_readable (rows_of s ACL) \<and> clean_graph s \<and>
     (\<forall>it \<in> set (rows_of s ACLMembership). Partition (i_key it) = OwnerRoutd \<longrightarrow>
        (\<exists>e. membershipEdgeOf it = Inr e))"

text \<open>The principals of a caller: what its frontier reaches in the membership graph.\<close>

definition reached :: "store \<Rightarrow> string list \<Rightarrow> string set" where
  "reached s qs = {p. p \<noteq> [] \<and> (\<exists>q \<in> set qs. (q, p) \<in> (graph s)\<^sup>*)}"

definition no_sep :: "string list \<Rightarrow> bool" where
  [go_defs]: "no_sep qs = list_all (\<lambda>q. KeySep \<notin> set q) qs"

text \<open>The grants of a set of principals: by name, or by a wildcard principal that matches one.\<close>

definition granted :: "store \<Rightarrow> string set \<Rightarrow> ACLRow set" where
  "granted s ps = {r \<in> rows_in (rows_of s ACL).
     Principal r \<in> ps \<or> star \<in> set (Principal r) \<and> (\<exists>p \<in> ps. matchPrincipal (Principal r) p)}"

lemma healthy_answers:
  assumes "healthy s" "plain_query q" "ValidateQuery (\<lambda>_. None) q"
  shows "\<exists>its. reader_of s q = Inr its"
  using table_reader_eval [OF assms(2,3), of "fails s" "tables s"] assms(1)
  by (auto simp: healthy_def reader_of_def)

lemma edges_list_reads: "\<forall>it \<in> set its. \<exists>e. membershipEdgeOf it = Inr e \<Longrightarrow> \<exists>es. edges_list its = Inr es"
proof (induction its)
  case (Cons it its)
  then obtain e es where "membershipEdgeOf it = Inr e" "edges_list its = Inr es" by auto
  then show ?case by simp
qed simp

lemma healthy_parents:
  assumes "healthy s"
  shows "\<exists>up. MembershipParents s n = Inr up"
proof -
  let ?q = "prefix_query ACLMembership OwnerRoutd (n @ [KeySep])"
  have "plain_query ?q" "ValidateQuery (\<lambda>_. None) ?q"
    by (simp_all add: plain_query_def ValidateQuery_def query0_def ACLMembership_def OwnerRoutd_def
        prefix_query_def checkOrderedSort_def)
  then obtain its where its: "reader_of s ?q = Inr its" using healthy_answers [OF assms] by blast
  have "\<exists>es. edges_list its = Inr es"
    by (rule edges_list_reads)
      (use assms st.reads_prefix [OF its [unfolded prefix_query_def]] in \<open>auto simp: healthy_def\<close>)
  then show ?thesis using its by (auto simp: MembershipParents_def)
qed

lemma add_principals_set: "set (foldl add_principal out ps) = set out \<union> (set ps - {[]})"
  by (induction ps arbitrary: out) (auto simp: add_principal_def)

lemma add_ancestors_set:
  "set (foldl (\<lambda>out p. foldl add_principal out (f p)) out ps) = set out \<union> (\<Union>p \<in> set ps. set (f p) - {[]})"
  by (induction ps arbitrary: out) (auto simp: add_principals_set)

lemma expandPrincipals_reached:
  assumes "healthy s" "no_sep (frontier_of caller)"
  shows "set (expandPrincipals s caller) = reached s (frontier_of caller)"
proof -
  have anc: "set (Ancestors s q) = (graph s)\<^sup>* `` {q} - {q}" if "q \<in> set (frontier_of caller)" for q
    by (rule Ancestors_exact(1))
      (use assms that healthy_parents [OF assms(1)] in \<open>auto simp: healthy_def no_sep_def list_all_iff\<close>)
  have "set (expandPrincipals s caller) = (set (frontier_of caller) - {[]}) \<union>
      (\<Union>q \<in> set (frontier_of caller). ((graph s)\<^sup>* `` {q} - {q}) - {[]})"
    by (simp add: expandPrincipals_def Let_def add_principals_set add_ancestors_set anc)
  also have "\<dots> = reached s (frontier_of caller)" by (auto simp: reached_def)
  finally show ?thesis .
qed

lemma routePrincipals_reached:
  assumes "healthy s" "KeySep \<notin> set (c_route caller)" "c_route caller \<noteq> []" "\<forall>(c, p) \<in> graph s. p \<noteq> []"
  shows "set (routePrincipals s caller) = reached s [FolderPrincipal (c_route caller)]"
proof -
  let ?p = "FolderPrincipal (c_route caller)"
  have "KeySep \<notin> set ?p" using assms(2) by (simp add: FolderPrincipal_def)
  then have "set (Ancestors s ?p) = (graph s)\<^sup>* `` {?p} - {?p}"
    using Ancestors_exact(1) assms(1) healthy_parents [OF assms(1)] by (auto simp: healthy_def)
  moreover have "?p \<noteq> []" by (simp add: FolderPrincipal_def)
  moreover have "p \<noteq> []" if "(?p, p) \<in> (graph s)\<^sup>*" for p
    using that \<open>?p \<noteq> []\<close> assms(4) by (auto elim: rtranclE)
  ultimately show ?thesis
    using assms(3) by (auto simp: routePrincipals_def Let_def reached_def)
qed

lemma reached_no_sep:
  assumes "healthy s" "no_sep qs"
  shows "\<forall>p \<in> reached s qs. KeySep \<notin> set p"
proof
  fix p assume "p \<in> reached s qs"
  then obtain q where "q \<in> set qs" "(q, p) \<in> (graph s)\<^sup>*" by (auto simp: reached_def)
  then show "KeySep \<notin> set p"
    using assms by (auto simp: healthy_def clean_graph_def no_sep_def list_all_iff elim: rtranclE)
qed

lemma policyRows_granted:
  assumes "policyRows s ps = Inr rows" "\<forall>p \<in> set ps. KeySep \<notin> set p"
  shows "set rows = granted s (set ps)"
proof -
  obtain xs wilds where "ACLRowsFor (reader_of s) ps = Inr xs" "ACLWildcardRows (reader_of s) = Inr wilds"
    "rows = xs @ filter (\<lambda>r. anyPrincipalMatches (Principal r) ps) wilds"
    using assms(1) by (auto simp: policyRows_def split: sum.splits)
  then show ?thesis
    using st.ACLRowsFor_rows [of s ps xs] st.ACLWildcardRows_rows [of s wilds] assms(2)
    by (auto simp: granted_def anyPrincipalMatches_def list_ex_iff)
qed

lemma policyRows_answers:
  assumes "healthy s"
  shows "\<exists>rows. policyRows s ps = Inr rows"
proof -
  have ok: "rows_readable (rows_of s ACL)" using assms by (simp add: healthy_def)
  note ans = st.acl_answers [where s = s, OF healthy_answers [OF assms] ok]
  have "\<exists>rs. read_principals (reader_of s) ps = Inr rs"
  proof (induction ps)
    case (Cons p ps)
    then show ?case using ans(2) [of "p @ [KeySep]"] by auto
  qed simp
  then have "\<exists>rs. ACLRowsFor (reader_of s) ps = Inr rs" by (auto simp: ACLRowsFor_def)
  moreover have "\<exists>rs. ACLWildcardRows (reader_of s) = Inr rs" using ans(1) by (auto simp: ACLWildcardRows_def)
  ultimately show ?thesis by (auto simp: policyRows_def)
qed

lemma policyRows_healthy:
  assumes "healthy s" "no_sep (frontier_of caller)"
  shows "\<exists>rows. policyRows s (expandPrincipals s caller) = Inr rows \<and>
    set rows = granted s (reached s (frontier_of caller))"
proof -
  obtain rows where r: "policyRows s (expandPrincipals s caller) = Inr rows"
    using policyRows_answers [OF assms(1)] by blast
  then show ?thesis
    using policyRows_granted [OF r] reached_no_sep [OF assms] expandPrincipals_reached [OF assms] by auto
qed

section \<open>Principal globs without a star\<close>

text \<open>A stored principal that either has a star or is a plain name \<open>ns:rest\<close>.\<close>

definition plain_principal :: "string \<Rightarrow> bool" where
  "plain_principal p \<longleftrightarrow>
     star \<in> set p \<or> literal p \<and> (\<exists>ns rest. p = ns @ colon # rest \<and> colon \<notin> set ns \<and> rest \<noteq> [])"

lemma matchSegments_literal:
  "\<forall>seg \<in> set pat. literal seg \<Longrightarrow> matchSegments pat inp = Some (pat = inp)"
proof (induction pat inp rule: matchSegments.induct)
  case (1 inp)
  then show ?case by auto
next
  case (2 seg rest inp)
  have "seg \<noteq> dstar" using "2.prems" by (auto simp: dstar_def literal_set)
  then show ?case
    using 2 by (cases inp) (auto simp: path_match_literal)
qed

lemma literal_split: "literal p \<Longrightarrow> \<forall>seg \<in> set (split_on c p). literal seg"
proof (induction p)
  case Nil
  then show ?case by simp
next
  case (Cons x p)
  then show ?case by (auto simp: literal_Cons split: list.splits)
qed

lemma matchPattern_literal: "literal p \<Longrightarrow> matchPattern p q \<longleftrightarrow> p = q"
  unfolding matchPattern_def using matchSegments_literal [OF literal_split, of p slash]
  by (auto dest: split_on_inj)

lemma matchPrincipal_plain:
  assumes "plain_principal p" "star \<notin> set p" "matchPrincipal p q"
  shows "p = q"
proof -
  obtain ns rest where p: "p = ns @ colon # rest" "colon \<notin> set ns" "rest \<noteq> []" "literal p"
    using assms(1,2) by (auto simp: plain_principal_def)
  have lit: "literal rest" "star \<notin> set ns" using p by (auto simp: literal_append literal_Cons literal_set)
  obtain b a ok where c: "cut colon q = (b, a, ok)" by (metis prod_cases3)
  have "colon \<in> set p" using p(1) by simp
  then have nd: "p \<noteq> ''**''" by auto
  show ?thesis
  proof (rule ccontr)
    assume ne: "p \<noteq> q"
    have "segGlob ns (fst (splitNs q))" "matchPattern rest (snd (splitNs q))"
      using assms(3) ne nd p by (auto simp: matchPrincipal_def splitNs_def split: if_splits prod.splits)
    then have e: "ns = fst (splitNs q)" "rest = snd (splitNs q)"
      using lit by (simp_all add: segGlob_wild wild_literal matchPattern_literal)
    then have ok using c p(3) by (auto simp: splitNs_def split: if_splits)
    then have "q = ns @ colon # rest" using e c cut_found [of colon q b a] by (auto simp: splitNs_def)
    then show False using ne p(1) by simp
  qed
qed

lemma Authorize_granted:
  assumes "healthy s" and "no_sep (frontier_of caller)"
  shows "Authorize (Some s) caller action scope params \<longleftrightarrow>
    action \<noteq> [] \<and> \<not> (c_principal caller = [] \<and> c_route caller = []) \<and>
    (\<exists>r \<in> granted s (reached s (frontier_of caller)).
        allows caller action scope params (routePrincipals s caller) r) \<and>
    \<not> (\<exists>r \<in> granted s (reached s (frontier_of caller)). denies caller action scope params r)"
  using policyRows_healthy [OF assms] by (auto simp: Authorize_rows)

section \<open>Properties\<close>

text \<open>
  C1. On a store that answers, the verdict is the rule the program states: some grant of a
  principal the caller reaches allows the request (confined when only the sender holds it),
  and no grant of any principal it reaches denies it.
\<close>

theorem authorize_decides:
  assumes "healthy s" and "no_sep (frontier_of caller)"
  shows "Authorize (Some s) caller action scope params \<longleftrightarrow>
    action \<noteq> [] \<and> \<not> (c_principal caller = [] \<and> c_route caller = []) \<and>
    (\<exists>r \<in> granted s (reached s (frontier_of caller)).
        allows caller action scope params (routePrincipals s caller) r) \<and>
    \<not> (\<exists>r \<in> granted s (reached s (frontier_of caller)). denies caller action scope params r)"
  by (rule Authorize_granted [OF assms])

text \<open>
  C2. Confinement: outside the route's own subtree (the folder itself and what lies below it;
  a pattern or no scope at all is outside) a request that carries a sender is
  allowed only if the folder it was routed to would be allowed alone. The stored principals
  are plain names or have a star.
\<close>

theorem identity_confined:
  assumes h: "healthy s" "no_sep (frontier_of caller)" "\<forall>(c, p) \<in> graph s. p \<noteq> []"
    and plain: "\<forall>r \<in> rows_in (rows_of s ACL). plain_principal (Principal r)"
    and nr: "c_route caller \<noteq> []"
    and out: "scope = [] \<or> contains_any scope ''*?['' \<or> \<not> (scope = c_route caller \<or> has_prefix scope (c_route caller @ ''/''))"
    and ok: "Authorize (Some s) caller action scope params"
  shows "Authorize (Some s)
    (caller\<lparr>c_principal := FolderPrincipal (c_route caller), c_extra := [], c_route := []\<rparr>)
    action scope params"
proof -
  have route: "c_route caller \<noteq> []" "\<not> withinSubtree (c_route caller) scope"
    using nr out by (auto simp: withinSubtree_def)
  let ?p = "FolderPrincipal (c_route caller)"
  let ?c = "caller\<lparr>c_principal := ?p, c_extra := [], c_route := []\<rparr>"
  have f: "frontier_of ?c = [?p]" "?p \<in> set (frontier_of caller)"
    using route(1) by (simp_all add: frontier_of_def)
  have ns: "no_sep (frontier_of ?c)" "KeySep \<notin> set (c_route caller)"
    using h(2) f route(1) by (auto simp: no_sep_def list_all_iff FolderPrincipal_def)
  have sub: "reached s [?p] \<subseteq> reached s (frontier_of caller)" using f(2) by (auto simp: reached_def)
  have rp: "set (routePrincipals s caller) = reached s [?p]"
    by (rule routePrincipals_reached [OF h(1) ns(2) route(1) h(3)])
  have applies: "row_applies ?c scope params r = row_applies caller scope params r" for r
    by (simp add: row_applies_def)
  obtain r where r: "r \<in> granted s (reached s (frontier_of caller))"
    "allows caller action scope params (routePrincipals s caller) r" "action \<noteq> []"
    and nod: "\<not> (\<exists>r \<in> granted s (reached s (frontier_of caller)). denies caller action scope params r)"
    using ok unfolding Authorize_granted [OF h(1,2)] by (elim conjE bexE)
  have any: "anyPrincipalMatches (Principal r) (routePrincipals s caller)"
    and cov: "row_applies caller scope params r" "Effect r \<noteq> EffectDeny" "actionCovers (Action r) action"
    using r(2) route by (auto simp: allows_def split: if_splits)
  then obtain q where q: "q \<in> reached s [?p]" "matchPrincipal (Principal r) q"
    using rp by (auto simp: anyPrincipalMatches_def list_ex_iff)
  have rin: "r \<in> rows_in (rows_of s ACL)" using r(1) by (simp add: granted_def)
  have "r \<in> granted s (reached s [?p])"
  proof (cases "star \<in> set (Principal r)")
    case True
    then show ?thesis using q rin by (auto simp: granted_def)
  next
    case False
    then have "Principal r = q" using matchPrincipal_plain plain rin q(2) by blast
    then show ?thesis using q rin by (simp add: granted_def)
  qed
  moreover have "allows ?c action scope params (routePrincipals s ?c) r"
    using cov applies by (simp add: allows_def)
  moreover have "\<not> (\<exists>r \<in> granted s (reached s [?p]). denies ?c action scope params r)"
    using nod sub applies by (auto simp: granted_def denies_def)
  moreover have "c_principal ?c \<noteq> []" by (simp add: FolderPrincipal_def)
  ultimately show ?thesis using Authorize_granted [OF h(1) ns(1)] r(3) f(1) by auto
qed

text \<open>
  A store that cannot answer for the policy refuses: when the rows of the caller cannot
  be read, no request is allowed, no tool is shown, nothing is held and no key is given.
\<close>

theorem unreadable_policy_refuses:
  assumes "policyRows s (expandPrincipals s caller) = Inl e"
  shows "\<not> Authorize (Some s) caller action scope params \<and>
    \<not> EffectiveActions (Some s) caller action \<and>
    \<not> CheckHold (Some s) caller tool scope params \<and>
    ShellEnvKeys (Some s) caller scope keys = []"
  using assms by (simp add: Authorize_def EffectiveActions_def CheckHold_def ShellEnvKeys_def)

text \<open>
  Holds and shell keys rest on rows that name them exactly (or the namespace's own
  star): no row of another action, \<open>*\<close> and \<open>admin\<close> included, makes a call wait or hands out
  a key; a matching denial takes either away.
\<close>

theorem namespaced_exact:
  assumes "healthy s" and "no_sep (frontier_of caller)"
  shows "(CheckHold (Some s) caller tool scope params \<longleftrightarrow>
      c_principal caller \<noteq> [] \<and> tool \<noteq> [] \<and>
      (\<exists>r \<in> granted s (reached s (frontier_of caller)).
         ns_speaks HoldPrefix tool scope (c_claims caller) params r \<and> Effect r \<noteq> EffectDeny) \<and>
      \<not> (\<exists>r \<in> granted s (reached s (frontier_of caller)).
         ns_speaks HoldPrefix tool scope (c_claims caller) params r \<and> Effect r = EffectDeny)) \<and>
    (key \<in> set (ShellEnvKeys (Some s) caller scope keys) \<longleftrightarrow>
      c_principal caller \<noteq> [] \<and> key \<in> set keys \<and>
      (\<exists>r \<in> granted s (reached s (frontier_of caller)).
         ns_speaks ShellEnvPrefix key scope (c_claims caller) (\<lambda>_. None) r \<and> Effect r \<noteq> EffectDeny) \<and>
      \<not> (\<exists>r \<in> granted s (reached s (frontier_of caller)).
         ns_speaks ShellEnvPrefix key scope (c_claims caller) (\<lambda>_. None) r \<and> Effect r = EffectDeny))"
proof -
  obtain rows where "policyRows s (expandPrincipals s caller) = Inr rows"
    "set rows = granted s (reached s (frontier_of caller))"
    using policyRows_healthy [OF assms] by blast
  then show ?thesis
    by (auto simp: CheckHold_def ShellEnvKeys_def namespacedAllows_rows)
qed

text \<open>A row is accounted for in the list of shown tools.\<close>

definition shown :: "Caller \<Rightarrow> string list \<Rightarrow> bool \<times> string list \<Rightarrow> ACLRow \<Rightarrow> bool" where
  "shown caller route st r \<longleftrightarrow>
     Effect r = EffectDeny \<or>
     (Action r = ''mcp:*'' \<and> fst st) \<or>
     (Action r = ''*'' \<or> Action r = ''admin'') \<and>
       (c_route caller \<noteq> [] \<and> \<not> anyPrincipalMatches (Principal r) route \<or> fst st) \<or>
     Action r \<notin> {''*'', ''admin'', ''mcp:*''} \<and> Action r \<in> set (snd st)"

lemma shown_mono: "shown caller route (l, h) r \<Longrightarrow> (l \<longrightarrow> l') \<Longrightarrow> set h \<subseteq> set h' \<Longrightarrow> shown caller route (l', h') r"
  by (auto simp: shown_def)

lemma shown_step:
  assumes "visible_row caller route (l, h) r = (l', h')"
  shows "shown caller route (l', h') r" "l \<longrightarrow> l'" "set h \<subseteq> set h'"
  using assms by (auto simp: visible_row_def shown_def split: if_splits)

lemma visible_fold:
  "foldl (visible_row caller route) (l, h) rows = (l', h') \<Longrightarrow>
   (l \<longrightarrow> l') \<and> set h \<subseteq> set h' \<and> (\<forall>r \<in> set rows. shown caller route (l', h') r)"
proof (induction rows arbitrary: l h)
  case Nil
  then show ?case by simp
next
  case (Cons r rows)
  obtain l1 h1 where st: "visible_row caller route (l, h) r = (l1, h1)" by fastforce
  then have "foldl (visible_row caller route) (l1, h1) rows = (l', h')" using Cons.prems by simp
  then have IH: "l1 \<longrightarrow> l'" "set h1 \<subseteq> set h'" "\<forall>r \<in> set rows. shown caller route (l', h') r"
    using Cons.IH by blast+
  have "shown caller route (l', h') r" by (rule shown_mono [OF shown_step(1) [OF st] IH(1,2)])
  then show ?case using IH shown_step(2,3) [OF st] by auto
qed

text \<open>
  Whatever a caller may call, it is shown: a tool some target of which the evaluator
  allows is in the list of tools advertised to the same caller. It holds on every store,
  one that fails reads included.
\<close>

theorem callable_visible:
  assumes "Authorize (Some s) caller (''mcp:'' @ tool) scope params"
  shows "EffectiveActions (Some s) caller (''mcp:'' @ tool)"
proof -
  let ?a = "''mcp:'' @ tool"
  obtain rows r where rows: "policyRows s (expandPrincipals s caller) = Inr rows" "r \<in> set rows"
    and al: "allows caller ?a scope params (routePrincipals s caller) r"
    and pr: "\<not> (c_principal caller = [] \<and> c_route caller = [])"
    using assms by (auto simp: Authorize_rows)
  obtain l h where f: "foldl (visible_row caller (routePrincipals s caller)) (False, []) rows = (l, h)"
    by fastforce
  have v: "shown caller (routePrincipals s caller) (l, h) r" using visible_fold [OF f] rows(2) by blast
  have cutm: "cut colon ?a = (''mcp'', tool, True)" by (simp add: cut_found)
  have cov: "actionCovers a ?a \<Longrightarrow> a \<in> {''*'', ''admin'', ''mcp:*''} \<or> a = ?a" for a
    by (auto simp: actionCovers_def split: if_splits)
  have idc: "identityCovers a ?a \<Longrightarrow> a = ''mcp:*'' \<or> a = ?a" for a
    unfolding identityCovers_def cutm by (simp split: if_splits)
  have nl: "?a \<notin> {''*'', ''admin''}" by simp
  have "l \<or> ?a \<in> set h"
  proof (cases "c_route caller = [] \<or> anyPrincipalMatches (Principal r) (routePrincipals s caller)")
    case True
    then have "actionCovers (Action r) ?a" "Effect r \<noteq> EffectDeny"
      using al by (auto simp: allows_def)
    then show ?thesis using v cov [of "Action r"] nl True by (auto simp: shown_def)
  next
    case False
    then have "identityCovers (Action r) ?a" "Effect r \<noteq> EffectDeny"
      using al by (auto simp: allows_def)
    then show ?thesis using v idc [of "Action r"] nl False by (auto simp: shown_def)
  qed
  then show ?thesis using rows(1) pr f by (auto simp: EffectiveActions_def)
qed

lemma scope_step_set:
  "set (foldl scope_step out rows) = set out \<union> {Scope r | r. r \<in> set rows \<and> Effect r \<noteq> EffectDeny \<and> Scope r \<noteq> []}"
  by (induction rows arbitrary: out) (auto simp: scope_step_def)

text \<open>
  The scopes listed for a user are enough to cover every folder the evaluator lets that
  user act on: a request it allows lies under one of the listed patterns.
\<close>

theorem user_scopes_cover:
  assumes "UserScopes (Some s) sub = Inr ps" and "scope \<noteq> []"
    and "Authorize (Some s) (single_axis sub) action scope params"
  shows "MatchGroups ps scope"
proof -
  have sub: "sub \<noteq> []" using assms(3) by (auto simp: Authorize_def single_axis_def)
  then obtain rows r where rows: "policyRows s (expandPrincipals s (single_axis sub)) = Inr rows" "r \<in> set rows"
    and m: "matchPattern (Scope r) scope" "Effect r \<noteq> EffectDeny"
    using assms(3) by (auto simp: Authorize_rows allows_def row_applies_def split: if_splits)
  have "Scope r \<noteq> []"
  proof
    assume "Scope r = []"
    then have "matchPattern [] scope" using m(1) by simp
    then show False using matchPattern_literal [of "[]" scope] assms(2) by simp
  qed
  then have "Scope r \<in> set ps"
    using assms(1) sub rows m(2) by (auto simp: UserScopes_def scope_step_set)
  then show ?thesis using m(1) by (auto simp: MatchGroups_def list_ex_iff)
qed

end
