(* ===== verification/Authorize_Cases.thy ===== *)
theory Authorize_Cases
  imports Authorize
begin

text \<open>
  Concrete stores for the evaluator: a small organisation with grants, a denial and role
  edges, on which the properties of \<open>Authorize\<close> are instantiated; and the store on which one
  failed membership read lifts a denial.
\<close>

definition grant :: "string \<Rightarrow> string \<Rightarrow> string \<Rightarrow> string \<Rightarrow> ACLRow" where
  [go_defs]: "grant who act scp eff = empty_row\<lparr>Principal := who, Action := act, Scope := scp, Effect := eff\<rparr>"

definition acl_stored :: "ACLRow \<Rightarrow> stored" where
  [go_defs]: "acl_stored r = (\<lparr>Partition = OwnerRoutd, Sort = join [KeySep] (row_parts r)\<rparr>, aclAttrs r)"

definition edge_stored :: "string \<times> string \<Rightarrow> stored" where
  [go_defs]: "edge_stored e = (\<lparr>Partition = OwnerRoutd, Sort = fst e @ [KeySep] @ snd e\<rparr>, [(attrMemAddedBy, ''root'')])"

definition org :: "ACLRow list \<Rightarrow> (string \<times> string) list \<Rightarrow> (query_input \<Rightarrow> bool) \<Rightarrow> store" where
  [go_defs]: "org grants edges down =
     \<lparr>tables = (\<lambda>e. if e = ACL then map acl_stored grants
                   else if e = ACLMembership then map edge_stored edges else []),
      fails = down\<rparr>"

definition ann :: Caller where
  [go_defs]: "ann = \<lparr>c_principal = ''google:ann'', c_claims = (\<lambda>_. None), c_extra = [], c_route = []\<rparr>"

definition demo_rows :: "ACLRow list" where
  [go_defs]: "demo_rows =
     [grant ''google:ann'' ''mcp:send'' ''acme/**'' EffectAllow,
      grant ''role:blocked'' ''mcp:send'' ''acme/eng'' EffectDeny]"

definition demo_edges :: "(string \<times> string) list" where
  [go_defs]: "demo_edges = [(''google:ann'', ''role:blocked'')]"

section \<open>What these stores hold\<close>

text \<open>Grants and edges in the shape the writers give them: no part carries the separator.\<close>

definition org_ok :: "ACLRow list \<Rightarrow> (string \<times> string) list \<Rightarrow> bool" where
  [go_defs]: "org_ok grants edges =
     (list_all (\<lambda>r. list_all (\<lambda>v. KeySep \<notin> set v) (row_parts r)) grants \<and>
      list_all (\<lambda>e. KeySep \<notin> set (fst e) \<and> KeySep \<notin> set (snd e)) edges)"

lemma stored_ok_acl: "stored_ok (acl_stored r)"
  by (cases "GrantOption r"; cases "GrantedBy r = []"; cases "GrantedAt r = []")
    (simp_all add: stored_ok_def acl_stored_def aclAttrs_def setAttr_def attrACLGrantedBy_def
      attrACLGrantedAt_def attrACLGrantOption_def partAttr_def sortAttr_def)

lemma stored_ok_edge: "stored_ok (edge_stored e)"
  by (simp add: stored_ok_def edge_stored_def attrMemAddedBy_def partAttr_def sortAttr_def)

lemma org_rows:
  "rows_of (org grants edges down) ACL = map (\<lambda>r. item_of (acl_stored r)) grants"
  "rows_of (org grants edges down) ACLMembership = map (\<lambda>e. item_of (edge_stored e)) edges"
proof -
  have "ACL \<noteq> ACLMembership" by (simp add: ACL_def ACLMembership_def)
  then show "rows_of (org grants edges down) ACL = map (\<lambda>r. item_of (acl_stored r)) grants"
    "rows_of (org grants edges down) ACLMembership = map (\<lambda>e. item_of (edge_stored e)) edges"
    by (simp_all add: rows_of_def org_def filter_map comp_def stored_ok_acl stored_ok_edge)
qed

lemma row_of_stored:
  assumes "\<forall>v \<in> set (row_parts r). KeySep \<notin> set v"
  shows "aclRowFrom (item_of (acl_stored r)) = Inr r"
proof -
  have "split_on KeySep (join [KeySep] (row_parts r)) = row_parts r"
    using assms by (simp add: split_join row_parts_def)
  then show ?thesis
    using acl_attrs_of [of r]
    by (cases r) (simp add: aclRowFrom_def item_of_def acl_stored_def attr_def row_parts_def)
qed

lemma edge_of_stored:
  "KeySep \<notin> set (fst e) \<Longrightarrow> membershipEdgeOf (item_of (edge_stored e)) = Inr e"
  by (cases e) (simp add: edge_of_iff item_of_def edge_stored_def)

lemma org_grants:
  assumes "org_ok grants edges"
  shows "rows_in (rows_of (org grants edges down) ACL) = set grants"
  using assms row_of_stored
  by (fastforce simp: rows_in_def org_rows item_of_def acl_stored_def org_ok_def list_all_iff)

lemma org_graph:
  assumes "org_ok grants edges"
  shows "graph (org grants edges down) = set edges"
  using assms edge_of_stored
  by (fastforce simp: graph_def org_rows org_ok_def list_all_iff item_of_def edge_stored_def)

lemma org_healthy:
  assumes "org_ok grants edges"
  shows "healthy (org grants edges (\<lambda>_. False))"
proof -
  have "rows_readable (rows_of (org grants edges (\<lambda>_. False)) ACL)"
    using assms row_of_stored by (fastforce simp: rows_readable_def org_rows org_ok_def list_all_iff)
  moreover have "clean_graph (org grants edges (\<lambda>_. False))"
    using assms by (auto simp: clean_graph_def org_graph org_ok_def list_all_iff)
  moreover have "fails (org grants edges (\<lambda>_. False)) = (\<lambda>_. False)" by (simp add: org_def)
  ultimately show ?thesis
    using assms edge_of_stored
    by (auto simp: healthy_def org_rows org_ok_def list_all_iff)
qed

section \<open>A failed membership read lifts a denial\<close>

text \<open>The same store where every request on the membership table fails, and no other fails that did not.\<close>

definition blind :: "store \<Rightarrow> store" where
  [go_defs]: "blind s = s\<lparr>fails := (\<lambda>i. fails s i \<or> in_table i = ACLMembership)\<rparr>"

text \<open>The principals and the route of a caller without its memberships.\<close>

definition own :: "Caller \<Rightarrow> string list" where
  [go_defs]: "own caller = foldl add_principal [] (frontier_of caller)"

definition own_route :: "Caller \<Rightarrow> string list" where
  [go_defs]: "own_route caller = (if c_route caller = [] then [] else [FolderPrincipal (c_route caller)])"

lemma blind_rows [simp]: "rows_of (blind s) = rows_of s" "granted (blind s) = granted s"
  by (simp_all add: fun_eq_iff rows_of_def granted_def blind_def)

lemma blind_reads:
  assumes "plain_query q" "ValidateQuery (\<lambda>_. None) q" "q_entity q \<noteq> ACLMembership" "\<forall>i. \<not> fails s i"
  shows "reader_of (blind s) q = reader_of s q"
proof -
  have "\<not> fails (blind s) (query_input_of q)" using assms(3,4) by (simp add: blind_def query_input_of_def)
  then have "reader_of (blind s) q = Inr (selected q (map item_of (filter stored_ok (tables (blind s) (q_entity q)))))"
    unfolding reader_of_def by (rule table_reader_eval [OF assms(1,2)])
  moreover have "reader_of s q = Inr (selected q (map item_of (filter stored_ok (tables s (q_entity q)))))"
    unfolding reader_of_def using assms(4) by (intro table_reader_eval [OF assms(1,2)]) simp
  ultimately show ?thesis by (simp add: blind_def)
qed

lemma acl_apart: "ACL \<noteq> ACLMembership"
  by (simp add: ACL_def ACLMembership_def)

lemma blind_policy:
  assumes "\<forall>i. \<not> fails s i"
  shows "policyRows (blind s) ps = policyRows s ps"
proof -
  have q: "aclItems (reader_of (blind s)) q = aclItems (reader_of s) q"
    if "q = query0 ACL OwnerRoutd \<or> q = prefix_query ACL OwnerRoutd v" for q v
  proof -
    have "plain_query q" "ValidateQuery (\<lambda>_. None) q" "q_entity q \<noteq> ACLMembership"
      using that acl_apart
      by (auto simp: plain_query_def ValidateQuery_def query0_def ACL_def ACLMembership_def OwnerRoutd_def
          prefix_query_def checkOrderedSort_def keyBounds_def any_key_def)
    then show ?thesis using blind_reads assms by (simp add: aclItems_def)
  qed
  note each = q [OF disjI1 [OF refl]] q [OF disjI2 [OF refl]]
  have c: "read_principals (reader_of (blind s)) ps = read_principals (reader_of s) ps"
    by (induction ps) (auto simp: each split: sum.split)
  have d: "ACLWildcardRows (reader_of (blind s)) = ACLWildcardRows (reader_of s)"
    by (simp add: ACLWildcardRows_def aclAll_def each)
  show ?thesis unfolding policyRows_def ACLRowsFor_def c d ..
qed

lemma blind_ancestors: "Ancestors (blind s) n = []"
proof -
  let ?q = "prefix_query ACLMembership OwnerRoutd (n @ [KeySep])"
  have "table_pages (fails (blind s)) (tables (blind s)) (query_input_of ?q) = [None]"
    by (simp add: table_pages_def blind_def query_input_of_def prefix_query_def query0_def)
  then have "\<exists>e. reader_of (blind s) ?q = Inl e"
    by (simp add: reader_of_def table_reader_def QueryItems_def)
  then have "\<exists>e. MembershipParents (blind s) n = Inl e" by (auto simp: MembershipParents_def)
  then show ?thesis by (auto simp: Ancestors_def)
qed

lemma blind_principals: "expandPrincipals (blind s) caller = own caller" "routePrincipals (blind s) caller = own_route caller"
proof -
  have "foldl (\<lambda>out p. foldl add_principal out (Ancestors (blind s) p)) out ps = out" for out ps
    by (induction ps arbitrary: out) (simp_all add: blind_ancestors)
  then show "expandPrincipals (blind s) caller = own caller" by (simp add: expandPrincipals_def own_def Let_def)
  show "routePrincipals (blind s) caller = own_route caller" by (simp add: routePrincipals_def own_route_def blind_ancestors Let_def)
qed

text \<open>With its memberships unread, a caller is judged by the rows of its own names.\<close>

lemma blind_verdict:
  assumes "healthy s" and "no_sep (frontier_of caller)"
  shows "Authorize (Some (blind s)) caller action scope params \<longleftrightarrow>
    action \<noteq> [] \<and> \<not> (c_principal caller = [] \<and> c_route caller = []) \<and>
    (\<exists>r \<in> granted s (set (own caller)). allows caller action scope params (own_route caller) r) \<and>
    \<not> (\<exists>r \<in> granted s (set (own caller)). denies caller action scope params r)"
proof -
  have f: "\<forall>i. \<not> fails s i" using assms(1) by (simp add: healthy_def)
  obtain rows where r: "policyRows s (own caller) = Inr rows" using policyRows_answers [OF assms(1)] by blast
  have "\<forall>p \<in> set (own caller). KeySep \<notin> set p"
    using assms(2) by (auto simp: own_def add_principals_set no_sep_def list_all_iff)
  then have "set rows = granted s (set (own caller))" by (rule policyRows_granted [OF r])
  then show ?thesis using r by (auto simp: Authorize_rows blind_policy [OF f] blind_principals)
qed

text \<open>
  C40. What a failed membership read does to a verdict, for every store, caller and request: \<open>Ancestors\<close> answers it with no ancestors,
  so a request the store refuses is allowed while the reads of the membership table fail and every grant is still read, exactly when a
  row of the caller's own names allows it and none denies it. The refusal that is lifted is then a
  denial a role or a group carries, or the roles of the route leave no row that allows the request.
\<close>

theorem membership_fault_lifts_denial:
  assumes "healthy s" and "no_sep (frontier_of caller)"
  shows "\<not> Authorize (Some s) caller action scope params \<and> Authorize (Some (blind s)) caller action scope params \<longleftrightarrow>
    action \<noteq> [] \<and> \<not> (c_principal caller = [] \<and> c_route caller = []) \<and>
    (\<exists>r \<in> granted s (set (own caller)). allows caller action scope params (own_route caller) r) \<and>
    \<not> (\<exists>r \<in> granted s (set (own caller)). denies caller action scope params r) \<and>
    ((\<exists>r \<in> granted s (reached s (frontier_of caller)). denies caller action scope params r) \<or>
     \<not> (\<exists>r \<in> granted s (reached s (frontier_of caller)). allows caller action scope params (routePrincipals s caller) r))"
  unfolding blind_verdict [OF assms] Authorize_granted [OF assms] by blast

section \<open>The properties at these stores\<close>

definition calm :: store where
  [go_defs]: "calm = org demo_rows demo_edges (\<lambda>_. False)"

definition team :: store where
  [go_defs]: "team = org
     [grant ''folder:acme'' ''mcp:send'' ''**'' EffectAllow,
      grant ''role:owner'' ''*'' ''**'' EffectAllow,
      grant ''google:ann'' ''hold:mcp:send'' ''acme/**'' EffectAllow]
     [(''google:ann'', ''role:owner'')] (\<lambda>_. False)"

definition ann_in_acme :: Caller where
  [go_defs]: "ann_in_acme = \<lparr>c_principal = ''google:ann'', c_claims = (\<lambda>_. None), c_extra = [], c_route = ''acme''\<rparr>"

lemma calm_healthy: "healthy calm"
  unfolding calm_def by (rule org_healthy) code_simp

lemma team_healthy: "healthy team"
  unfolding team_def by (rule org_healthy) code_simp

lemma ann_no_sep: "no_sep (frontier_of ann)" "no_sep (frontier_of ann_in_acme)"
  by code_simp+

lemma authorize_decides_witness:
  "\<exists>r \<in> granted calm (reached calm (frontier_of ann)). denies ann ''mcp:send'' ''acme/eng'' (\<lambda>_. None) r"
proof -
  have "\<not> Authorize (Some calm) ann ''mcp:send'' ''acme/eng'' (\<lambda>_. None)" by code_simp
  moreover have "Authorize (Some (org demo_rows [] (\<lambda>_. False))) ann ''mcp:send'' ''acme/eng'' (\<lambda>_. None)"
    by code_simp
  moreover have "grant ''google:ann'' ''mcp:send'' ''acme/**'' EffectAllow \<in> granted calm (reached calm (frontier_of ann))"
    unfolding granted_def calm_def
    by (subst org_grants) (code_simp, simp add: demo_rows_def reached_def frontier_of_def ann_def grant_def empty_row_def)
  moreover have "allows ann ''mcp:send'' ''acme/eng'' (\<lambda>_. None) (routePrincipals calm ann)
      (grant ''google:ann'' ''mcp:send'' ''acme/**'' EffectAllow)"
    unfolding allows_def by code_simp
  ultimately show ?thesis
    using authorize_decides [OF calm_healthy ann_no_sep(1), of "''mcp:send''" "''acme/eng''" "\<lambda>_. None"]
    by (auto simp: ann_def)
qed

lemma membership_fault_lifts_denial_witness:
  "\<not> Authorize (Some calm) ann ''mcp:send'' ''acme/eng'' (\<lambda>_. None) \<and>
   Authorize (Some (blind calm)) ann ''mcp:send'' ''acme/eng'' (\<lambda>_. None) \<and>
   (\<exists>r \<in> granted calm (set (own ann)). allows ann ''mcp:send'' ''acme/eng'' (\<lambda>_. None) (own_route ann) r) \<and>
   \<not> (\<exists>r \<in> granted calm (set (own ann)). denies ann ''mcp:send'' ''acme/eng'' (\<lambda>_. None) r)"
proof -
  have "\<not> Authorize (Some calm) ann ''mcp:send'' ''acme/eng'' (\<lambda>_. None)"
    "Authorize (Some (blind calm)) ann ''mcp:send'' ''acme/eng'' (\<lambda>_. None)" by code_simp+
  then show ?thesis
    using membership_fault_lifts_denial [OF calm_healthy ann_no_sep(1), of "''mcp:send''" "''acme/eng''" "\<lambda>_. None"] by blast
qed

lemma team_plain:
  "\<forall>(c, p) \<in> graph team. p \<noteq> []"
  "\<forall>r \<in> rows_in (rows_of team ACL). plain_principal (Principal r)"
proof -
  have ok: "org_ok [grant ''folder:acme'' ''mcp:send'' ''**'' EffectAllow,
      grant ''role:owner'' ''*'' ''**'' EffectAllow,
      grant ''google:ann'' ''hold:mcp:send'' ''acme/**'' EffectAllow]
     [(''google:ann'', ''role:owner'')]" by code_simp
  show "\<forall>(c, p) \<in> graph team. p \<noteq> []" unfolding team_def org_graph [OF ok] by simp
  have "plain_principal ''folder:acme''" "plain_principal ''role:owner''" "plain_principal ''google:ann''"
    unfolding plain_principal_def
    by (intro disjI2 conjI, code_simp, rule exI [of _ "''folder''"], rule exI [of _ "''acme''"], simp,
        intro disjI2 conjI, code_simp, rule exI [of _ "''role''"], rule exI [of _ "''owner''"], simp,
        intro disjI2 conjI, code_simp, rule exI [of _ "''google''"], rule exI [of _ "''ann''"], simp)
  then show "\<forall>r \<in> rows_in (rows_of team ACL). plain_principal (Principal r)"
    unfolding team_def org_grants [OF ok] by (simp add: grant_def)
qed

lemma identity_confined_witness:
  "Authorize (Some team)
    (ann_in_acme\<lparr>c_principal := FolderPrincipal (c_route ann_in_acme), c_extra := [], c_route := []\<rparr>)
    ''mcp:send'' ''globex'' (\<lambda>_. None)"
  by (rule identity_confined [OF team_healthy ann_no_sep(2) team_plain]) code_simp+

lemma unreadable_policy_refuses_witness:
  "\<not> Authorize (Some (org demo_rows demo_edges (\<lambda>i. in_table i = ACL))) ann ''mcp:send'' ''acme'' (\<lambda>_. None) \<and>
   \<not> EffectiveActions (Some (org demo_rows demo_edges (\<lambda>i. in_table i = ACL))) ann ''mcp:send'' \<and>
   \<not> CheckHold (Some (org demo_rows demo_edges (\<lambda>i. in_table i = ACL))) ann ''send'' ''acme'' (\<lambda>_. None) \<and>
   ShellEnvKeys (Some (org demo_rows demo_edges (\<lambda>i. in_table i = ACL))) ann ''acme'' [''KEY''] = []"
  by (rule unreadable_policy_refuses [of _ _ Fault]) code_simp

lemma namespaced_exact_witness:
  "\<exists>r \<in> granted team (reached team (frontier_of ann)).
     ns_speaks HoldPrefix ''send'' ''acme/eng'' (c_claims ann) (\<lambda>_. None) r \<and> Effect r \<noteq> EffectDeny"
proof -
  have "CheckHold (Some team) ann ''send'' ''acme/eng'' (\<lambda>_. None)" by code_simp
  then show ?thesis using namespaced_exact [OF team_healthy ann_no_sep(1)] by blast
qed

lemma callable_visible_witness: "EffectiveActions (Some team) ann_in_acme (''mcp:'' @ ''send'')"
  by (rule callable_visible [of _ _ _ "''globex''" "\<lambda>_. None"]) code_simp

lemma user_scopes_cover_witness: "MatchGroups [''**'', ''acme/**''] ''acme/eng''"
  by (rule user_scopes_cover [of team "''google:ann''" _ _ "''admin''" "\<lambda>_. None"]) code_simp+

end
