(* ===== verification/Delegate.thy ===== *)
theory Delegate
  imports Authorize
begin

text \<open>
  auth/delegate.go: granting onward. A principal may grant a row when a row it holds with
  the grant option covers it and no denial it holds overlaps it. The cover test on scopes is
  shown sound for the matcher, the overlap test complete for it, and together: what
  \<open>Delegate\<close> lets through confers nothing its granter does not hold, and nothing the granter
  is denied.
\<close>

section \<open>Scopes\<close>

definition has_glob :: "string \<Rightarrow> bool" where
  [go_defs]: "has_glob s = contains_any s [star, CHR ''?'', CHR ''['', backslash]"

definition scopeCovers :: "string \<Rightarrow> string \<Rightarrow> bool" where
  [go_defs]: "scopeCovers held want =
     (if held = want \<or> held = dstar then True
      else case cut_suffix held ''/**'' of
        Some base \<Rightarrow> Contains base want
      | None \<Rightarrow> if has_glob want then False else matchPattern held want)"

text \<open>The loop over both globs; \<open>fin\<close> is its answer when one of them runs out.\<close>

fun meet_loop :: "bool \<Rightarrow> string list \<Rightarrow> string list \<Rightarrow> bool" where
  "meet_loop fin (a # as) (b # bs) =
     (if a = dstar \<or> b = dstar then True
      else if \<not> has_glob a \<and> \<not> has_glob b \<and> a \<noteq> b then False
      else meet_loop fin as bs)"
| "meet_loop fin [] bs = fin"
| "meet_loop fin (a # as) [] = fin"

definition mayMeet :: "string \<Rightarrow> string \<Rightarrow> bool" where
  [go_defs]: "mayMeet a b =
     (let as = split_on slash a; bs = split_on slash b
      in meet_loop (length as = length bs \<or> dstar \<in> set as \<or> dstar \<in> set bs) as bs)"

definition paramsCover :: "string \<Rightarrow> string \<Rightarrow> bool" where
  [go_defs]: "paramsCover held want = (held = [] \<or> held = want)"

section \<open>Delegate\<close>

definition blockedByDeny :: "ACLRow list \<Rightarrow> ACLRow \<Rightarrow> bool" where
  [go_defs]: "blockedByDeny denied want =
     list_ex (\<lambda>d. if \<not> actionCovers (Action d) (Action want) \<and> \<not> actionCovers (Action want) (Action d)
                  then False else mayMeet (Scope d) (Scope want)) denied"

definition coveredByGrantable :: "ACLRow list \<Rightarrow> ACLRow \<Rightarrow> bool" where
  [go_defs]: "coveredByGrantable held want =
     list_ex (\<lambda>h. if \<not> actionCovers (Action h) (Action want) then False
                  else if \<not> scopeCovers (Scope h) (Scope want) then False
                  else if \<not> paramsCover (Params h) (Params want) then False
                  else True) held"

definition policyFor :: "store \<Rightarrow> string \<Rightarrow> store_error + ACLRow list" where
  [go_defs]: "policyFor s granter = policyRows s (expandPrincipals s (single_axis granter))"

definition denyRows :: "store \<Rightarrow> string \<Rightarrow> store_error + ACLRow list" where
  [go_defs]: "denyRows s granter =
     (case policyFor s granter of
        Inl e \<Rightarrow> Inl e
      | Inr all \<Rightarrow> Inr (filter (\<lambda>r. Effect r = EffectDeny) all))"

definition grantableRows :: "store \<Rightarrow> string \<Rightarrow> store_error + ACLRow list" where
  [go_defs]: "grantableRows s granter =
     (case policyFor s granter of
        Inl e \<Rightarrow> Inl e
      | Inr all \<Rightarrow> Inr (filter (\<lambda>r. GrantOption r \<and> Predicate r = [] \<and>
                             (Effect r = [] \<or> Effect r = EffectAllow)) all))"

datatype refusal = Unreadable store_error | Deny_Row | Wildcard_Principal | Not_Held | Own_Deny

fun check_wanted :: "ACLRow list \<Rightarrow> ACLRow list \<Rightarrow> ACLRow list \<Rightarrow> refusal option" where
  "check_wanted held denied [] = None"
| "check_wanted held denied (r # want) =
     (if Effect r = EffectDeny then Some Deny_Row
      else if star \<in> set (Principal r) then Some Wildcard_Principal
      else if \<not> coveredByGrantable held r then Some Not_Held
      else if blockedByDeny denied r then Some Own_Deny
      else check_wanted held denied want)"

text \<open>\<open>Delegate\<close>: \<open>None\<close> is the nil error.\<close>

definition Delegate :: "store \<Rightarrow> string \<Rightarrow> ACLRow list \<Rightarrow> refusal option" where
  [go_defs]: "Delegate s granter want =
     (case grantableRows s granter of
        Inl e \<Rightarrow> Some (Unreadable e)
      | Inr held \<Rightarrow>
          (case denyRows s granter of
             Inl e \<Rightarrow> Some (Unreadable e)
           | Inr denied \<Rightarrow> check_wanted held denied want))"

section \<open>Covering is sound\<close>

lemma has_glob_literal: "has_glob s \<longleftrightarrow> \<not> literal s"
  by (simp add: has_glob_def literal_def)

text \<open>A pattern cut after some of its segments and ended by \<open>**\<close> errs less and matches more.\<close>

lemma matchSegments_tail:
  "matchSegments (bs @ x) inp = Some ok \<Longrightarrow>
   \<exists>ok'. matchSegments (bs @ [dstar]) inp = Some ok' \<and> (ok \<longrightarrow> ok')"
proof (induction bs arbitrary: inp ok)
  case Nil
  have "matchSegments [dstar] inp = Some True" by simp
  then show ?case by auto
next
  case (Cons seg rest)
  note outer = Cons.IH
  show ?case
  proof (cases "seg = dstar")
    case seg: True
    show ?thesis
    proof (cases "rest @ x = []")
      case True
      then show ?thesis using seg by (auto intro!: exI [of _ True])
    next
      case ne: False
      show ?thesis using Cons.prems
      proof (induction inp arbitrary: ok)
        case Nil
        then obtain r where r: "matchSegments (rest @ x) [] = Some r" "ok = r"
          using seg ne by (auto split: option.splits bool.splits)
        then show ?case using outer [OF r(1)] seg by (auto split: bool.splits)
      next
        case (Cons y more)
        obtain r where r: "matchSegments (rest @ x) (y # more) = Some r"
          "\<not> r \<longrightarrow> matchSegments (dstar # rest @ x) more = Some ok" "r \<longrightarrow> ok"
          using Cons.prems seg ne by (auto split: option.splits bool.splits)
        obtain r' where r': "matchSegments (rest @ [dstar]) (y # more) = Some r'" "r \<longrightarrow> r'"
          using outer [OF r(1)] by blast
        show ?case
        proof (cases r')
          case True
          then show ?thesis using r' seg by (auto intro!: exI [of _ True])
        next
          case False
          then have "matchSegments (seg # rest @ x) more = Some ok" using r r' seg by simp
          then show ?thesis using Cons.IH [of ok] r' False seg by simp
        qed
      qed
    qed
  next
    case False
    then show ?thesis
      using Cons.prems outer by (auto split: list.splits option.splits if_splits)
  qed
qed

lemma split_suffix_dstar: "split_on slash (base @ ''/**'') = split_on slash base @ [dstar]"
proof -
  have "split_on slash (base @ slash # ''**'') = split_on slash base @ split_on slash ''**''"
    by (rule split_on_append)
  then show ?thesis by (simp add: dstar_def)
qed

text \<open>What the cover test accepts, the matcher extends: every path of the wanted glob is one of the held.\<close>

lemma scopeCovers_sound:
  assumes "scopeCovers held want" "matchPattern want p"
  shows "matchPattern held p"
proof -
  consider "held = want" | "held = dstar"
    | base where "cut_suffix held ''/**'' = Some base" "Contains base want"
    | "literal want" "matchPattern held want"
    using assms(1) by (auto simp: scopeCovers_def has_glob_literal split: if_splits option.splits)
  then show ?thesis
  proof cases
    case 1
    then show ?thesis using assms(2) by simp
  next
    case 2
    have "split_on slash dstar = [dstar]" by (simp add: dstar_def)
    then have "matchSegments (split_on slash held) (split_on slash p) = Some True"
      using 2 by simp
    then show ?thesis by (simp add: matchPattern_def)
  next
    case 3
    then have h: "held = base @ ''/**''"
      by (auto simp: cut_suffix_def suffix_def split: if_splits)
    obtain x where x: "split_on slash want = split_on slash base @ x"
      using 3 by (auto simp: Contains_split prefix_def)
    have "matchSegments (split_on slash base @ x) (split_on slash p) = Some True"
      using assms(2) x by (auto simp: matchPattern_def split: option.splits)
    then show ?thesis
      using matchSegments_tail [of "split_on slash base" x "split_on slash p" True]
      unfolding matchPattern_def h split_suffix_dstar by auto
  next
    case 4
    then show ?thesis using assms(2) by (simp add: matchPattern_literal [OF 4(1)])
  qed
qed

section \<open>Meeting is complete\<close>

lemma glob_cons:
  "seg \<noteq> dstar \<Longrightarrow> glob (seg # pat) inp \<Longrightarrow>
   \<exists>x more. inp = x # more \<and> path_match seg x = Some True \<and> glob pat more"
  by (auto elim: glob_segE)

lemma meet_loop_sound:
  "glob as ps \<Longrightarrow> glob bs ps \<Longrightarrow> \<not> meet_loop fin as bs \<Longrightarrow>
   \<not> fin \<and> (length as = length bs \<or> dstar \<in> set as \<or> dstar \<in> set bs)"
proof (induction fin as bs arbitrary: ps rule: meet_loop.induct)
  case (1 fin a as b bs)
  have ab: "a \<noteq> dstar" "b \<noteq> dstar" using "1.prems"(3) by auto
  obtain x more where x: "ps = x # more" "path_match a x = Some True" "glob as more"
    using glob_cons [OF ab(1) "1.prems"(1)] by blast
  obtain y more' where y: "ps = y # more'" "path_match b y = Some True" "glob bs more'"
    using glob_cons [OF ab(2) "1.prems"(2)] by blast
  have nd: "\<not> (a = dstar \<or> b = dstar)" using ab by simp
  have same: "\<not> (\<not> has_glob a \<and> \<not> has_glob b \<and> a \<noteq> b)"
    using x(1,2) y(1,2) by (auto simp: has_glob_literal path_match_literal)
  have "\<not> meet_loop fin as bs"
    using "1.prems"(3) unfolding meet_loop.simps(1) if_not_P [OF nd] if_not_P [OF same] .
  then show ?case using "1.IH" [OF nd same x(3)] x(1) y(1,3) by auto
next
  case (2 fin bs)
  then have "ps = []" by (auto elim: glob_NilE)
  then show ?case using 2 by (cases bs) (auto elim: glob_segE)
next
  case (3 fin a as)
  then have "ps = []" by (auto elim: glob_NilE)
  then show ?case using 3 by (auto elim: glob_segE)
qed

lemma matchPattern_glob: "matchPattern pattern p \<Longrightarrow> glob (split_on slash pattern) (split_on slash p)"
  by (auto simp: matchPattern_def intro: matchSegments_glob split: option.splits)

text \<open>Scopes said to be apart have no path in common.\<close>

lemma mayMeet_complete:
  assumes "matchPattern a p" "matchPattern b p"
  shows "mayMeet a b"
  using meet_loop_sound [OF matchPattern_glob [OF assms(1)] matchPattern_glob [OF assms(2)]]
  by (auto simp: mayMeet_def Let_def)

section \<open>Actions\<close>

lemma mcp_not_prefix: "has_prefix requested ''mcp:'' \<Longrightarrow> requested \<noteq> ''interact'' \<and> requested \<noteq> ''admin'' \<and> requested \<noteq> ''*''"
  by auto

lemma actionCovers_trans: "actionCovers h w \<Longrightarrow> actionCovers w a \<Longrightarrow> actionCovers h a"
  unfolding actionCovers_def by (auto split: if_splits)

lemma actionCovers_meet:
  "actionCovers d a \<Longrightarrow> actionCovers w a \<Longrightarrow> actionCovers d w \<or> actionCovers w d"
  unfolding actionCovers_def by (auto split: if_splits)

section \<open>What a delegation may confer\<close>

lemma check_wanted_ok:
  "check_wanted held denied want = None \<Longrightarrow> r \<in> set want \<Longrightarrow>
   Effect r \<noteq> EffectDeny \<and> star \<notin> set (Principal r) \<and> coveredByGrantable held r \<and> \<not> blockedByDeny denied r"
  by (induction want) (auto split: if_splits)

lemma covered_row:
  assumes "coveredByGrantable held r"
  shows "\<exists>h \<in> set held. \<forall>action scope params.
    actionCovers (Action r) action \<and> matchPattern (Scope r) scope \<and> paramsMatch (Params r) params \<longrightarrow>
    actionCovers (Action h) action \<and> matchPattern (Scope h) scope \<and> paramsMatch (Params h) params"
proof -
  obtain h where h: "h \<in> set held" "actionCovers (Action h) (Action r)" "scopeCovers (Scope h) (Scope r)"
    "paramsCover (Params h) (Params r)"
    using assms by (auto simp: coveredByGrantable_def list_ex_iff split: if_splits)
  have "paramsMatch (Params r) params \<Longrightarrow> paramsMatch (Params h) params" for params
    using h(4) by (auto simp: paramsCover_def paramsMatch_def)
  then show ?thesis using h actionCovers_trans scopeCovers_sound by blast
qed

lemma not_blocked_row:
  assumes "\<not> blockedByDeny denied r" "d \<in> set denied"
  shows "\<not> (actionCovers (Action d) action \<and> actionCovers (Action r) action
    \<and> matchPattern (Scope d) scope \<and> matchPattern (Scope r) scope)"
proof -
  have "\<not> (if \<not> actionCovers (Action d) (Action r) \<and> \<not> actionCovers (Action r) (Action d)
           then False else mayMeet (Scope d) (Scope r))"
    using assms unfolding blockedByDeny_def list_ex_iff by blast
  then have "\<not> mayMeet (Scope d) (Scope r) \<or>
      \<not> actionCovers (Action d) (Action r) \<and> \<not> actionCovers (Action r) (Action d)"
    by (simp split: if_splits)
  then show ?thesis
    using actionCovers_meet [of "Action d" action "Action r"]
      mayMeet_complete [of "Scope d" scope "Scope r"] by blast
qed

text \<open>
  C3. A delegation confers only what its granter holds to give: every row it lets through
  names no wildcard principal and denies nothing, each request the row covers is covered by a
  row the granter holds with the grant option and without a condition, and no denial the
  granter holds speaks to any request the row covers.
\<close>

theorem delegate_subset:
  assumes "Delegate s granter want = None" and "r \<in> set want"
  shows "Effect r \<noteq> EffectDeny \<and> star \<notin> set (Principal r) \<and>
    (\<exists>rows. policyFor s granter = Inr rows \<and>
      (\<exists>h \<in> set rows. GrantOption h \<and> Predicate h = [] \<and> Effect h \<noteq> EffectDeny \<and>
        (\<forall>action scope params.
          actionCovers (Action r) action \<and> matchPattern (Scope r) scope \<and> paramsMatch (Params r) params \<longrightarrow>
          actionCovers (Action h) action \<and> matchPattern (Scope h) scope \<and> paramsMatch (Params h) params)) \<and>
      (\<forall>d \<in> set rows. Effect d = EffectDeny \<longrightarrow>
        (\<forall>action scope. \<not> (actionCovers (Action d) action \<and> actionCovers (Action r) action
          \<and> matchPattern (Scope d) scope \<and> matchPattern (Scope r) scope))))"
proof -
  obtain rows where rows: "policyFor s granter = Inr rows"
    and chk: "check_wanted (filter (\<lambda>r. GrantOption r \<and> Predicate r = [] \<and> (Effect r = [] \<or> Effect r = EffectAllow)) rows)
      (filter (\<lambda>r. Effect r = EffectDeny) rows) want = None"
    using assms(1) by (auto simp: Delegate_def grantableRows_def denyRows_def split: sum.splits)
  note ok = check_wanted_ok [OF chk assms(2)]
  have nd: "Effect h = [] \<or> Effect h = EffectAllow \<Longrightarrow> Effect h \<noteq> EffectDeny" for h :: ACLRow
    by (auto simp: EffectAllow_def EffectDeny_def)
  obtain h where "h \<in> set rows" "GrantOption h" "Predicate h = []" "Effect h \<noteq> EffectDeny"
    "\<forall>action scope params.
      actionCovers (Action r) action \<and> matchPattern (Scope r) scope \<and> paramsMatch (Params r) params \<longrightarrow>
      actionCovers (Action h) action \<and> matchPattern (Scope h) scope \<and> paramsMatch (Params h) params"
    using covered_row [OF ok [THEN conjunct2, THEN conjunct2, THEN conjunct1]] nd by auto
  moreover have "\<forall>d \<in> set rows. Effect d = EffectDeny \<longrightarrow>
      (\<forall>action scope. \<not> (actionCovers (Action d) action \<and> actionCovers (Action r) action
        \<and> matchPattern (Scope d) scope \<and> matchPattern (Scope r) scope))"
    using not_blocked_row ok by fastforce
  ultimately show ?thesis using rows ok by blast
qed

text \<open>
  The two scope tests of a delegation mean what they are used for: a scope said to cover
  another matches every path the other does, and two scopes that match one common path are
  never said to be apart.
\<close>

theorem scope_tests_exact:
  "(scopeCovers held want \<longrightarrow> matchPattern want p \<longrightarrow> matchPattern held p) \<and>
   (matchPattern held p \<longrightarrow> matchPattern want p \<longrightarrow> mayMeet held want)"
  using scopeCovers_sound mayMeet_complete by blast

lemma scope_tests_exact_witness:
  "matchPattern ''acme/**'' ''acme/eng/sre'' \<and> mayMeet ''acme/**'' ''acme/*/sre''"
proof -
  have "scopeCovers ''acme/**'' ''acme/*/sre''" "matchPattern ''acme/*/sre'' ''acme/eng/sre''"
    by code_simp+
  then show ?thesis using scope_tests_exact [of "''acme/**''" "''acme/*/sre''" "''acme/eng/sre''"] by blast
qed

text \<open>A store on which a lead holds a subtree with the grant option.\<close>

definition lead_store :: store where
  [go_defs]: "lead_store =
     \<lparr>tables = (\<lambda>e. if e = ACL then
         [(\<lparr>Partition = OwnerRoutd, Sort = join [KeySep] [''google:lee'', ''admin'', ''acme/**'', [], [], ''allow'']\<rparr>,
           [(attrACLGrantOption, ''1'')])] else []),
      fails = (\<lambda>_. False)\<rparr>"

definition wanted_row :: ACLRow where
  [go_defs]: "wanted_row = empty_row\<lparr>Principal := ''google:ann'', Action := ''mcp:send'',
     Scope := ''acme/eng'', Effect := EffectAllow\<rparr>"

lemma delegate_subset_witness:
  "star \<notin> set (Principal wanted_row) \<and> (\<exists>rows. policyFor lead_store ''google:lee'' = Inr rows \<and> rows \<noteq> [])"
proof -
  have "Delegate lead_store ''google:lee'' [wanted_row] = None" by code_simp
  then show ?thesis using delegate_subset [of lead_store "''google:lee''" "[wanted_row]" wanted_row] by fastforce
qed

end
