(* ===== verification/Group_Queue.thy ===== *)
theory Group_Queue
  imports Prelude
begin

text \<open>The dispatch queue of routd (queue/queue.go): it admits at most a fixed number of runs, at
  most one at a time for a folder, parks the chats that have to wait and starts them when a run
  ends. The state is the struct's fields under its mutex; every critical section is one operation
  that returns the new state and what it does outside the mutex: the goroutines it starts, the
  chats it reports as parked and the level at which it reports an unreachable execution plane.

  Two things are not the queue's: the folder a chat dispatches to, which is asked of the function
  set by SetFolderForJidFn at each decision and may differ from one call to the next, and the
  outcome of processing a chat. Both are arguments of the operations. A system state pairs the
  queue with the list of the runs in flight, and the step relation interleaves arrivals, ends of
  runs and the shutdown in any order.\<close>

section \<open>State\<close>

record groupState =
  active :: bool
  consecutiveFailures :: int

record group_queue =
  groups :: "string \<rightharpoonup> groupState"
  activeCount :: int
  activeFolders :: "string \<rightharpoonup> string"
  maxConcurrent :: int
  waitingGroups :: "string list"
  shuttingDown :: bool
  depDownSince :: "int option"
  depDownLoud :: bool

text \<open>What processing a chat ended in: no error, an error that wraps ErrDependencyDown, any
  other error.\<close>

datatype outcome = Clean | DependencyDown | Failed

datatype level = Warn | Error

datatype effect = Started string | Parked string | Outage level

definition circuitBreakerThreshold :: int where
  "circuitBreakerThreshold = 3"

text \<open>Sixty seconds, in nanoseconds.\<close>

definition dependencyDownGrace :: int where
  "dependencyDownGrace = 60000000000"

definition New :: "int \<Rightarrow> group_queue" where
  "New n = \<lparr>groups = Map.empty, activeCount = 0, activeFolders = Map.empty, maxConcurrent = n,
     waitingGroups = [], shuttingDown = False, depDownSince = None, depDownLoud = False\<rparr>"

section \<open>Operations\<close>

text \<open>The entry of a chat, made when it is missing.\<close>

definition getGroup :: "string \<Rightarrow> group_queue \<Rightarrow> groupState \<times> group_queue" where
  "getGroup jid q =
     (case groups q jid of
        Some s \<Rightarrow> (s, q)
      | None \<Rightarrow>
          (let s = \<lparr>active = False, consecutiveFailures = 0\<rparr>
           in (s, q\<lparr>groups := (groups q)(jid \<mapsto> s)\<rparr>)))"

definition activateLocked :: "string \<Rightarrow> string \<Rightarrow> group_queue \<Rightarrow> group_queue" where
  "activateLocked jid folder q =
     (let (s, q) = getGroup jid q
      in q\<lparr>groups := (groups q)(jid \<mapsto> s\<lparr>active := True\<rparr>),
           activeCount := activeCount q + 1,
           activeFolders :=
             (if folder \<noteq> '''' then (activeFolders q)(folder \<mapsto> jid) else activeFolders q)\<rparr>)"

definition held_by_other :: "group_queue \<Rightarrow> string \<Rightarrow> string \<Rightarrow> bool" where
  "held_by_other q folder jid =
     (folder \<noteq> '''' \<and>
      (case activeFolders q folder of None \<Rightarrow> False | Some other \<Rightarrow> other \<noteq> jid))"

definition park :: "string \<Rightarrow> group_queue \<Rightarrow> group_queue" where
  "park jid q =
     (if jid \<in> set (waitingGroups q) then q
      else q\<lparr>waitingGroups := waitingGroups q @ [jid]\<rparr>)"

definition EnqueueMessageCheck ::
  "(string \<Rightarrow> string) \<Rightarrow> string \<Rightarrow> group_queue \<Rightarrow> group_queue \<times> effect list" where
  "EnqueueMessageCheck folderForJid jid q =
     (if shuttingDown q then (q, [])
      else
        let (s, q) = getGroup jid q;
            s = (if consecutiveFailures s \<ge> circuitBreakerThreshold
                 then s\<lparr>consecutiveFailures := 0\<rparr> else s);
            q = q\<lparr>groups := (groups q)(jid \<mapsto> s)\<rparr>
        in if active s then (q, [])
           else
             let folder = folderForJid jid
             in if held_by_other q folder jid then (park jid q, [Parked jid])
                else if activeCount q \<ge> maxConcurrent q then (park jid q, [Parked jid])
                else (activateLocked jid folder q, [Started jid]))"

definition Shutdown :: "group_queue \<Rightarrow> group_queue" where
  "Shutdown q = q\<lparr>shuttingDown := True\<rparr>"

definition logDependencyDown :: "int \<Rightarrow> group_queue \<Rightarrow> group_queue \<times> effect list" where
  "logDependencyDown now q =
     (let since = (case depDownSince q of None \<Rightarrow> now | Some t \<Rightarrow> t);
          q = q\<lparr>depDownSince := Some since\<rparr>;
          down = now - since
      in if down < dependencyDownGrace then (q, [Outage Warn])
         else if \<not> depDownLoud q then (q\<lparr>depDownLoud := True\<rparr>, [Outage Error])
         else (q, [Outage Warn]))"

definition clearDependencyDown :: "group_queue \<Rightarrow> group_queue" where
  "clearDependencyDown q = q\<lparr>depDownSince := None, depDownLoud := False\<rparr>"

text \<open>The drain of the parked chats: an index runs over the list, a chat whose folder is held
  stays and the others are taken out and started until the cap is reached.\<close>

function drainWaitingLocked ::
  "(string \<Rightarrow> string) \<Rightarrow> nat \<Rightarrow> group_queue \<Rightarrow> group_queue \<times> effect list" where
  "drainWaitingLocked folderForJid i q =
     (if i < length (waitingGroups q) \<and> activeCount q < maxConcurrent q then
        let jid = waitingGroups q ! i;
            folder = folderForJid jid
        in if held_by_other q folder jid then drainWaitingLocked folderForJid (i + 1) q
           else
             let q = q\<lparr>waitingGroups := take i (waitingGroups q) @ drop (i + 1) (waitingGroups q)\<rparr>;
                 (q, effects) = drainWaitingLocked folderForJid i (activateLocked jid folder q)
             in (q, Started jid # effects)
      else (q, []))"
  by pat_completeness auto

lemma activate_fields [simp]:
  "waitingGroups (activateLocked jid folder q) = waitingGroups q"
  "maxConcurrent (activateLocked jid folder q) = maxConcurrent q"
  "shuttingDown (activateLocked jid folder q) = shuttingDown q"
  "activeCount (activateLocked jid folder q) = activeCount q + 1"
  by (auto simp: activateLocked_def getGroup_def Let_def split: option.splits)

termination drainWaitingLocked
  by (relation "measure (\<lambda>(_, i, q). length (waitingGroups q) - i)") auto

declare drainWaitingLocked.simps [simp del]

text \<open>A run releases its folder: the first entry the map's iteration meets whose owner is the
  chat is deleted. The iteration order of a Go map is arbitrary, so it is an argument.\<close>

definition release :: "string list \<Rightarrow> string \<Rightarrow> (string \<rightharpoonup> string) \<Rightarrow> (string \<rightharpoonup> string)" where
  "release order jid m =
     (case List.find (\<lambda>f. m f = Some jid) order of None \<Rightarrow> m | Some f \<Rightarrow> m(f := None))"

text \<open>The end of a run: its outcome moves the streak and the outage, then the slot and the folder
  are freed and the parked chats are drained.\<close>

definition settle ::
  "string \<Rightarrow> outcome \<Rightarrow> int \<Rightarrow> group_queue \<Rightarrow> group_queue \<times> effect list" where
  "settle jid result now q =
     (let (s, q) = getGroup jid q
      in case result of
           Clean \<Rightarrow>
             (clearDependencyDown (q\<lparr>groups := (groups q)(jid \<mapsto> s\<lparr>consecutiveFailures := 0\<rparr>)\<rparr>), [])
         | DependencyDown \<Rightarrow> logDependencyDown now q
         | Failed \<Rightarrow>
             ((clearDependencyDown q)\<lparr>groups :=
                (groups q)(jid \<mapsto> s\<lparr>consecutiveFailures := consecutiveFailures s + 1\<rparr>)\<rparr>, []))"

definition runForGroup ::
  "(string \<Rightarrow> string) \<Rightarrow> string list \<Rightarrow> string \<Rightarrow> outcome \<Rightarrow> int \<Rightarrow> group_queue \<Rightarrow> group_queue \<times> effect list"
where
  "runForGroup folderForJid order jid result now q =
     (let (q, logged) = settle jid result now q;
          (s, q) = getGroup jid q;
          q = q\<lparr>groups := (groups q)(jid \<mapsto> s\<lparr>active := False\<rparr>),
                activeCount := activeCount q - 1,
                activeFolders := release order jid (activeFolders q)\<rparr>
      in if shuttingDown q then (q, logged)
         else let (q, effects) = drainWaitingLocked folderForJid 0 q
              in (q, logged @ effects))"

definition ActiveCount :: "group_queue \<Rightarrow> int" where
  "ActiveCount q = activeCount q"

section \<open>Interleavings\<close>

fun started :: "effect list \<Rightarrow> string list" where
  "started [] = []"
| "started (Started j # es) = j # started es"
| "started (Parked j # es) = started es"
| "started (Outage l # es) = started es"

text \<open>A system is the queue with the chats of the runs in flight, one entry for each goroutine.
  Every step may see another folder function of the set \<open>Fs\<close>.\<close>

type_synonym system = "group_queue \<times> string list"

inductive queue_step :: "(string \<Rightarrow> string) set \<Rightarrow> system \<Rightarrow> system \<Rightarrow> bool" for Fs where
  message:
    "F \<in> Fs \<Longrightarrow> EnqueueMessageCheck F j q = (q', es) \<Longrightarrow>
     queue_step Fs (q, run) (q', run @ started es)"
| finish:
    "F \<in> Fs \<Longrightarrow> j \<in> set run \<Longrightarrow> set order = dom (activeFolders q) \<Longrightarrow>
     runForGroup F order j result now q = (q', es) \<Longrightarrow>
     queue_step Fs (q, run) (q', remove1 j run @ started es)"
| shutdown: "queue_step Fs (q, run) (Shutdown q, run)"

inductive queue_reach :: "(string \<Rightarrow> string) set \<Rightarrow> int \<Rightarrow> system \<Rightarrow> bool" for Fs n where
  start: "queue_reach Fs n (New n, [])"
| step: "queue_reach Fs n x \<Longrightarrow> queue_step Fs x y \<Longrightarrow> queue_reach Fs n y"

inductive_cases queue_stepE: "queue_step Fs x y"

section \<open>What the pieces leave alone\<close>

lemma started_append [simp]: "started (es @ fs) = started es @ started fs"
  by (induction es rule: started.induct) auto

lemma getGroup_fields [simp]:
  "activeCount (snd (getGroup j q)) = activeCount q"
  "maxConcurrent (snd (getGroup j q)) = maxConcurrent q"
  "waitingGroups (snd (getGroup j q)) = waitingGroups q"
  "activeFolders (snd (getGroup j q)) = activeFolders q"
  "shuttingDown (snd (getGroup j q)) = shuttingDown q"
  "depDownSince (snd (getGroup j q)) = depDownSince q"
  "depDownLoud (snd (getGroup j q)) = depDownLoud q"
  by (auto simp: getGroup_def Let_def split: option.splits)

lemma getGroup_groups [simp]:
  "groups (snd (getGroup j q)) k = (if k = j then Some (fst (getGroup j q)) else groups q k)"
  by (auto simp: getGroup_def Let_def split: option.splits)

definition is_active :: "group_queue \<Rightarrow> string \<Rightarrow> bool" where
  "is_active q j = (case groups q j of None \<Rightarrow> False | Some s \<Rightarrow> active s)"

definition streak :: "group_queue \<Rightarrow> string \<Rightarrow> int" where
  "streak q j = (case groups q j of None \<Rightarrow> 0 | Some s \<Rightarrow> consecutiveFailures s)"

lemma getGroup_active [simp]: "active (fst (getGroup j q)) = is_active q j"
  by (auto simp: getGroup_def is_active_def Let_def split: option.splits)

lemma getGroup_streak [simp]: "consecutiveFailures (fst (getGroup j q)) = streak q j"
  by (auto simp: getGroup_def streak_def Let_def split: option.splits)

lemma park_fields [simp]:
  "activeCount (park j q) = activeCount q"
  "maxConcurrent (park j q) = maxConcurrent q"
  "activeFolders (park j q) = activeFolders q"
  "shuttingDown (park j q) = shuttingDown q"
  "groups (park j q) = groups q"
  "set (waitingGroups (park j q)) = insert j (set (waitingGroups q))"
  "distinct (waitingGroups (park j q)) = distinct (waitingGroups q)"
  by (auto simp: park_def)

lemma activate_more [simp]:
  "is_active (activateLocked j f q) k = (k = j \<or> is_active q k)"
  "streak (activateLocked j f q) k = streak q k"
  "activeFolders (activateLocked j f q) =
     (if f \<noteq> '''' then (activeFolders q)(f \<mapsto> j) else activeFolders q)"
  by (auto simp: activateLocked_def is_active_def streak_def getGroup_def Let_def split: option.splits)

lemma settle_fields [simp]:
  "activeCount (fst (settle j r now q)) = activeCount q"
  "maxConcurrent (fst (settle j r now q)) = maxConcurrent q"
  "waitingGroups (fst (settle j r now q)) = waitingGroups q"
  "activeFolders (fst (settle j r now q)) = activeFolders q"
  "shuttingDown (fst (settle j r now q)) = shuttingDown q"
  "is_active (fst (settle j r now q)) k = is_active q k"
  "started (snd (settle j r now q)) = []"
  by (cases r; auto simp: settle_def case_prod_beta Let_def clearDependencyDown_def
        logDependencyDown_def is_active_def getGroup_active [symmetric] split: option.splits)+

text \<open>The state in which the drain starts: the slot and the folder are free again.\<close>

definition freed :: "string list \<Rightarrow> string \<Rightarrow> group_queue \<Rightarrow> group_queue" where
  "freed order j q =
     (snd (getGroup j q))\<lparr>groups := (groups (snd (getGroup j q)))(j \<mapsto> (fst (getGroup j q))\<lparr>active := False\<rparr>),
        activeCount := activeCount q - 1,
        activeFolders := release order j (activeFolders q)\<rparr>"

lemma freed_fields [simp]:
  "activeCount (freed order j q) = activeCount q - 1"
  "maxConcurrent (freed order j q) = maxConcurrent q"
  "waitingGroups (freed order j q) = waitingGroups q"
  "activeFolders (freed order j q) = release order j (activeFolders q)"
  "shuttingDown (freed order j q) = shuttingDown q"
  "is_active (freed order j q) k = (k \<noteq> j \<and> is_active q k)"
  "streak (freed order j q) k = streak q k"
  by (auto simp: freed_def is_active_def streak_def getGroup_def Let_def split: option.splits)

lemma runForGroup_alt:
  "runForGroup F order j r now q =
     (let p = freed order j (fst (settle j r now q))
      in if shuttingDown q then (p, snd (settle j r now q))
         else (fst (drainWaitingLocked F 0 p),
               snd (settle j r now q) @ snd (drainWaitingLocked F 0 p)))"
  by (simp add: runForGroup_def freed_def case_prod_beta Let_def)

section \<open>Any folder function: the cap\<close>

text \<open>The three ways the loop goes on.\<close>

definition taken :: "(string \<Rightarrow> string) \<Rightarrow> nat \<Rightarrow> group_queue \<Rightarrow> group_queue" where
  "taken F i q =
     activateLocked (waitingGroups q ! i) (F (waitingGroups q ! i))
       (q\<lparr>waitingGroups := take i (waitingGroups q) @ drop (i + 1) (waitingGroups q)\<rparr>)"

lemma drain_stop:
  "\<not> (i < length (waitingGroups q) \<and> activeCount q < maxConcurrent q) \<Longrightarrow>
   drainWaitingLocked F i q = (q, [])"
  by (subst drainWaitingLocked.simps) (simp only: if_False if_not_P)

lemma drain_skip:
  "i < length (waitingGroups q) \<Longrightarrow> activeCount q < maxConcurrent q \<Longrightarrow>
   held_by_other q (F (waitingGroups q ! i)) (waitingGroups q ! i) \<Longrightarrow>
   drainWaitingLocked F i q = drainWaitingLocked F (i + 1) q"
  by (subst drainWaitingLocked.simps) (simp add: Let_def)

lemma drain_take:
  "i < length (waitingGroups q) \<Longrightarrow> activeCount q < maxConcurrent q \<Longrightarrow>
   \<not> held_by_other q (F (waitingGroups q ! i)) (waitingGroups q ! i) \<Longrightarrow>
   drainWaitingLocked F i q =
     (fst (drainWaitingLocked F i (taken F i q)),
      Started (waitingGroups q ! i) # snd (drainWaitingLocked F i (taken F i q)))"
  by (subst drainWaitingLocked.simps) (simp add: Let_def taken_def case_prod_beta)

lemma taken_fields [simp]:
  "activeCount (taken F i q) = activeCount q + 1"
  "maxConcurrent (taken F i q) = maxConcurrent q"
  "shuttingDown (taken F i q) = shuttingDown q"
  "waitingGroups (taken F i q) = take i (waitingGroups q) @ drop (Suc i) (waitingGroups q)"
  by (simp_all add: taken_def)

lemma drain_induct [case_names Stop Skip Take]:
  assumes "\<And>i q. \<not> (i < length (waitingGroups q) \<and> activeCount q < maxConcurrent q) \<Longrightarrow> P i q"
    and "\<And>i q. i < length (waitingGroups q) \<Longrightarrow> activeCount q < maxConcurrent q \<Longrightarrow>
      held_by_other q (F (waitingGroups q ! i)) (waitingGroups q ! i) \<Longrightarrow> P (i + 1) q \<Longrightarrow> P i q"
    and "\<And>i q. i < length (waitingGroups q) \<Longrightarrow> activeCount q < maxConcurrent q \<Longrightarrow>
      \<not> held_by_other q (F (waitingGroups q ! i)) (waitingGroups q ! i) \<Longrightarrow>
      P i (taken F i q) \<Longrightarrow> P i q"
  shows "P i q"
proof (induction "length (waitingGroups q) - i" arbitrary: i q rule: less_induct)
  case less
  show ?case
  proof (cases "i < length (waitingGroups q) \<and> activeCount q < maxConcurrent q")
    case True
    then show ?thesis
      using assms(2) [of i q] assms(3) [of i q] less [of q "i + 1"] less [of "taken F i q" i] by force
  qed (rule assms(1))
qed

lemma drain_count:
  "activeCount (fst (drainWaitingLocked F i q)) =
     activeCount q + int (length (started (snd (drainWaitingLocked F i q)))) \<and>
   (activeCount q \<le> k \<and> maxConcurrent q \<le> k \<longrightarrow> activeCount (fst (drainWaitingLocked F i q)) \<le> k) \<and>
   maxConcurrent (fst (drainWaitingLocked F i q)) = maxConcurrent q \<and>
   shuttingDown (fst (drainWaitingLocked F i q)) = shuttingDown q"
proof (induction i q rule: drain_induct [where F = F])
  case (Take i q)
  then show ?case by (auto simp: drain_take)
next
  case (Skip i q)
  show ?case unfolding drain_skip [where F = F and i = i and q = q, OF Skip(1-3)] by (rule Skip(4))
qed (simp_all add: drain_stop)

text \<open>The facts every interleaving keeps, whatever the folders do.\<close>

definition counted :: "int \<Rightarrow> system \<Rightarrow> bool" where
  "counted n x =
     (case x of (q, run) \<Rightarrow>
        activeCount q = int (length run) \<and> activeCount q \<le> max 0 n \<and> maxConcurrent q = n)"

text \<open>The chat's entry with its streak reset, as an arrival leaves it.\<close>

definition noticed :: "string \<Rightarrow> group_queue \<Rightarrow> group_queue" where
  "noticed j q =
     (let s = fst (getGroup j q)
      in (snd (getGroup j q))\<lparr>groups := (groups (snd (getGroup j q)))(j \<mapsto>
           (if consecutiveFailures s \<ge> circuitBreakerThreshold
            then s\<lparr>consecutiveFailures := 0\<rparr> else s))\<rparr>)"

lemma noticed_fields [simp]:
  "activeCount (noticed j q) = activeCount q"
  "maxConcurrent (noticed j q) = maxConcurrent q"
  "waitingGroups (noticed j q) = waitingGroups q"
  "activeFolders (noticed j q) = activeFolders q"
  "shuttingDown (noticed j q) = shuttingDown q"
  "is_active (noticed j q) k = is_active q k"
  by (auto simp: noticed_def is_active_def getGroup_active [symmetric] Let_def split: option.splits)

definition blocked :: "(string \<Rightarrow> string) \<Rightarrow> group_queue \<Rightarrow> string \<Rightarrow> bool" where
  "blocked F q j = (held_by_other q (F j) j \<or> maxConcurrent q \<le> activeCount q)"

lemma held_by_other_cong: "activeFolders p = activeFolders q \<Longrightarrow> held_by_other p = held_by_other q"
  by (simp add: held_by_other_def fun_eq_iff)

lemma blocked_noticed [simp]: "blocked F (noticed j q) k = blocked F q k"
  by (simp add: blocked_def held_by_other_cong [of "noticed j q" q])

lemma blocked_park [simp]: "blocked F (park j q) k = blocked F q k"
  by (simp add: blocked_def held_by_other_cong [of "park j q" q])

lemma enqueue_alt:
  "EnqueueMessageCheck F j q =
     (if shuttingDown q then (q, [])
      else if is_active q j then (noticed j q, [])
      else if blocked F q j then (park j (noticed j q), [Parked j])
      else (activateLocked j (F j) (noticed j q), [Started j]))"
proof -
  have s: "active (if b then s\<lparr>consecutiveFailures := 0\<rparr> else s) = active s" for b s by simp
  have n: "(snd (getGroup j q))\<lparr>groups := (groups (snd (getGroup j q)))(j \<mapsto>
      (if consecutiveFailures (fst (getGroup j q)) \<ge> circuitBreakerThreshold
       then (fst (getGroup j q))\<lparr>consecutiveFailures := 0\<rparr> else fst (getGroup j q)))\<rparr> = noticed j q"
    by (simp only: noticed_def Let_def)
  show ?thesis
    unfolding EnqueueMessageCheck_def Let_def case_prod_beta n s getGroup_active blocked_def
    by (simp add: held_by_other_cong [of "noticed j q" q])
qed

lemma counted_step:
  assumes "counted n x" "queue_step Fs x y"
  shows "counted n y"
  using assms(2,1)
proof (cases rule: queue_step.cases)
  case (message F j q q' es run)
  then show ?thesis using assms(1)
    by (auto simp: counted_def enqueue_alt blocked_def split: if_splits)
next
  case (finish F j run order q result now q' es)
  let ?p = "freed order j (fst (settle j result now q))"
  have "length run = Suc (length (remove1 j run))"
    using finish(4) length_pos_if_in_set [OF finish(4)] by (simp add: length_remove1)
  then show ?thesis
    using finish assms(1) drain_count [of F 0 ?p "max 0 n"]
    by (auto simp: counted_def runForGroup_alt Let_def split: if_splits)
qed (use assms(1) in \<open>simp add: counted_def Shutdown_def\<close>)

lemma counted_reach: "queue_reach Fs n x \<Longrightarrow> counted n x"
proof (induction rule: queue_reach.induct)
  case start
  then show ?case by (simp add: counted_def New_def)
qed (rule counted_step)

section \<open>A fixed folder function: exclusion and wake-ups\<close>

definition exclusive :: "(string \<Rightarrow> string) \<Rightarrow> group_queue \<Rightarrow> string list \<Rightarrow> bool" where
  "exclusive F q run =
     (distinct run \<and> (\<forall>j. is_active q j = (j \<in> set run)) \<and>
      (\<forall>f j. (activeFolders q f = Some j) = (f \<noteq> '''' \<and> j \<in> set run \<and> F j = f)) \<and>
      distinct (waitingGroups q) \<and> set (waitingGroups q) \<inter> set run = {})"

lemma held_exclusive:
  "exclusive F q run \<Longrightarrow>
   held_by_other q (F j) j = (F j \<noteq> '''' \<and> (\<exists>k \<in> set run. k \<noteq> j \<and> F k = F j))"
proof -
  assume e: "exclusive F q run"
  have h: "(activeFolders q (F j) = Some k) = (F j \<noteq> '''' \<and> k \<in> set run \<and> F k = F j)" for k
    using e by (simp add: exclusive_def)
  show ?thesis
    unfolding held_by_other_def using h by (cases "activeFolders q (F j)") (simp, metis option.inject)+
qed

lemma activate_exclusive:
  assumes "exclusive F q run" "j \<notin> set run" "j \<notin> set (waitingGroups q)" "\<not> held_by_other q (F j) j"
  shows "exclusive F (activateLocked j (F j) q) (run @ [j])"
  using assms unfolding held_exclusive [OF assms(1)] exclusive_def by auto

lemma drop_waiting_exclusive:
  assumes "exclusive F q run" "set ws \<subseteq> set (waitingGroups q)" "distinct ws"
  shows "exclusive F (q\<lparr>waitingGroups := ws\<rparr>) run"
  using assms unfolding exclusive_def by (auto simp: is_active_def)

lemma taken_exclusive:
  assumes "exclusive F q run" "i < length (waitingGroups q)"
    "\<not> held_by_other q (F (waitingGroups q ! i)) (waitingGroups q ! i)"
  shows "exclusive F (taken F i q) (run @ [waitingGroups q ! i])"
proof -
  let ?ws = "take i (waitingGroups q) @ drop (Suc i) (waitingGroups q)"
  have d: "distinct (take i (waitingGroups q) @ waitingGroups q ! i # drop (Suc i) (waitingGroups q))"
    and m: "set ?ws \<subseteq> set (waitingGroups q)" "waitingGroups q ! i \<in> set (waitingGroups q)"
    using assms(1,2) by (auto simp: exclusive_def id_take_nth_drop [symmetric]
        dest: in_set_takeD in_set_dropD)
  have "exclusive F (q\<lparr>waitingGroups := ?ws\<rparr>) run"
    using drop_waiting_exclusive [OF assms(1) m(1)] d by simp
  moreover have "held_by_other (q\<lparr>waitingGroups := ?ws\<rparr>) = held_by_other q"
    by (rule held_by_other_cong) simp
  ultimately show ?thesis
    unfolding taken_def Suc_eq_plus1 [symmetric] using d m(2) assms(1,3)
    by (intro activate_exclusive) (auto simp: exclusive_def)
qed

lemma taken_blocked:
  assumes "exclusive F q run" "k \<noteq> waitingGroups q ! i" "blocked F q k"
  shows "blocked F (taken F i q) k"
  using assms by (auto simp: blocked_def taken_def held_by_other_def split: option.splits)

lemma drain_exclusive:
  "exclusive F q run \<Longrightarrow> \<forall>k \<in> set (take i (waitingGroups q)). blocked F q k \<Longrightarrow>
   exclusive F (fst (drainWaitingLocked F i q)) (run @ started (snd (drainWaitingLocked F i q))) \<and>
   (\<forall>k \<in> set (waitingGroups (fst (drainWaitingLocked F i q))).
      blocked F (fst (drainWaitingLocked F i q)) k)"
proof (induction i q arbitrary: run rule: drain_induct [where F = F])
  case (Stop i q)
  then show ?case by (auto simp: drain_stop blocked_def)
next
  case (Skip i q)
  then have "\<forall>k \<in> set (take (i + 1) (waitingGroups q)). blocked F q k"
    by (auto simp: take_Suc_conv_app_nth blocked_def)
  then show ?case unfolding drain_skip [where F = F and i = i and q = q, OF Skip(1-3)] by (rule Skip(4) [OF Skip(5)])
next
  case (Take i q)
  have "waitingGroups q ! i \<notin> set (take i (waitingGroups q))"
    using Take(1,5) by (auto simp: exclusive_def in_set_conv_nth nth_eq_iff_index_eq)
  then have "\<forall>k \<in> set (take i (waitingGroups (taken F i q))). blocked F (taken F i q) k"
    using Take(1,5,6) by (auto intro!: taken_blocked)
  then show ?case
    using Take(4) [OF taken_exclusive [OF Take(5,1,3)]] by (simp add: drain_take Take(1-3))
qed

lemma release_owner:
  assumes "set order = dom m" "\<And>f g. m f = Some j \<Longrightarrow> m g = Some j \<Longrightarrow> f = g"
  shows "release order j m f = (if m f = Some j then None else m f)"
proof (cases "List.find (\<lambda>f. m f = Some j) order")
  case None
  then have "m f \<noteq> Some j" using assms(1) unfolding find_None_iff by auto
  then show ?thesis using None by (simp add: release_def)
next
  case (Some g)
  then have "m g = Some j" by (auto simp: find_Some_iff)
  then show ?thesis using Some assms(2) by (auto simp: release_def)
qed

lemma folder_unique:
  assumes "exclusive F q run" "i \<in> set run" "j \<in> set run" "F i = F j" "F i \<noteq> ''''"
  shows "i = j"
proof -
  have "activeFolders q (F i) = Some i" "activeFolders q (F i) = Some j"
    using assms by (simp_all add: exclusive_def)
  then show ?thesis by simp
qed

lemma freed_exclusive:
  assumes "exclusive F q run" "j \<in> set run" "set order = dom (activeFolders q)"
  shows "exclusive F (freed order j (fst (settle j r now q))) (remove1 j run)"
proof -
  have o: "release order j (activeFolders q) f =
      (if activeFolders q f = Some j then None else activeFolders q f)" for f
    using assms by (intro release_owner) (auto simp: exclusive_def)
  have u: "\<And>i. i \<in> set run \<Longrightarrow> F i = F j \<Longrightarrow> F j \<noteq> '''' \<Longrightarrow> i = j"
    using folder_unique [OF assms(1) _ assms(2)] by simp
  show ?thesis using assms(1,2) u by (auto simp: exclusive_def o)
qed

definition steady :: "(string \<Rightarrow> string) \<Rightarrow> system \<Rightarrow> bool" where
  "steady F x =
     (case x of (q, run) \<Rightarrow>
        exclusive F q run \<and> (shuttingDown q \<or> (\<forall>j \<in> set (waitingGroups q). blocked F q j)))"

lemma exclusive_noticed [simp]: "exclusive F (noticed j q) run = exclusive F q run"
  by (simp add: exclusive_def)

lemma exclusive_park: "exclusive F q run \<Longrightarrow> j \<notin> set run \<Longrightarrow> exclusive F (park j q) run"
  by (simp add: exclusive_def is_active_def)

lemma activate_blocked:
  "j \<noteq> k \<Longrightarrow> blocked F q k \<Longrightarrow> blocked F (activateLocked j (F j) q) k"
  by (auto simp: blocked_def held_by_other_def split: option.splits)

lemma steady_step:
  assumes "steady F x" "queue_step {F} x y"
  shows "steady F y"
  using assms(2,1)
proof (cases rule: queue_step.cases)
  case (message F' j q q' es run)
  have e: "exclusive F q run" and b: "shuttingDown q \<or> (\<forall>j \<in> set (waitingGroups q). blocked F q j)"
    and r: "is_active q j = (j \<in> set run)"
    using assms(1) message by (auto simp: steady_def exclusive_def)
  show ?thesis
  proof (cases "shuttingDown q \<or> is_active q j \<or> blocked F q j")
    case True
    then show ?thesis using message e b r
      by (auto simp: enqueue_alt steady_def intro: exclusive_park split: if_splits)
  next
    case False
    then have w: "j \<notin> set (waitingGroups q)" using b by blast
    have h: "\<not> held_by_other (noticed j q) (F j) j"
      using False blocked_noticed [of F j q j] unfolding blocked_def by blast
    have "exclusive F (activateLocked j (F j) (noticed j q)) (run @ [j])"
      using activate_exclusive [of F "noticed j q" run j] e r w h False by simp
    then show ?thesis using message False b w
      by (auto simp: enqueue_alt steady_def intro!: activate_blocked)
  qed
next
  case (finish F' j run order q result now q' es)
  have e: "exclusive F (freed order j (fst (settle j result now q))) (remove1 j run)"
    using freed_exclusive [of F q run j order] finish assms(1) by (simp add: steady_def)
  then show ?thesis
    using drain_exclusive [OF e, of 0] finish
    by (auto simp: steady_def runForGroup_alt Let_def split: if_splits)
next
  case (shutdown q run)
  then show ?thesis using assms(1) by (simp add: steady_def Shutdown_def exclusive_def is_active_def)
qed

lemma steady_reach: "queue_reach {F} n x \<Longrightarrow> steady F x"
proof (induction rule: queue_reach.induct)
  case start
  then show ?case by (simp add: steady_def exclusive_def New_def is_active_def)
qed (rule steady_step)

section \<open>Properties\<close>

text \<open>C7. However arrivals, ends of runs and the shutdown interleave, and whatever the folder function
  answers at each decision, the counter of active runs is the number of runs in flight and never
  exceeds the configured cap (none runs when the cap is not positive).\<close>

theorem queue_never_overcommits:
  assumes "queue_reach Fs n (q, run)"
  shows "ActiveCount q = int (length run) \<and> int (length run) \<le> max 0 n"
  using counted_reach [OF assms] by (auto simp: counted_def ActiveCount_def)

text \<open>C6. While the folder of a chat stays what it is, no chat has two runs in flight, no two
  runs share a folder, the folder table names exactly the runs in flight that hold one, and a chat
  waits only while it must: unless the queue is shutting down, every parked chat (never one that
  runs) finds the cap reached or its folder held by a run of another chat. So no chat is left
  waiting when nothing runs.\<close>

theorem queue_exclusive_prompt:
  assumes "queue_reach {F} n (q, run)"
  shows "distinct run \<and>
    (\<forall>i j. i \<in> set run \<and> j \<in> set run \<and> F i = F j \<and> F i \<noteq> '''' \<longrightarrow> i = j) \<and>
    (\<forall>f j. (activeFolders q f = Some j) = (f \<noteq> '''' \<and> j \<in> set run \<and> F j = f)) \<and>
    (\<forall>j \<in> set (waitingGroups q). j \<notin> set run \<and>
       (shuttingDown q \<or> int (length run) \<ge> n \<or> (\<exists>k \<in> set run. k \<noteq> j \<and> F k = F j)))"
proof (intro conjI)
  have s: "exclusive F q run" "shuttingDown q \<or> (\<forall>j \<in> set (waitingGroups q). blocked F q j)"
    using steady_reach [OF assms] by (auto simp: steady_def)
  show "distinct run"
    "\<forall>f j. (activeFolders q f = Some j) = (f \<noteq> '''' \<and> j \<in> set run \<and> F j = f)"
    using s(1) by (auto simp: exclusive_def)
  show "\<forall>i j. i \<in> set run \<and> j \<in> set run \<and> F i = F j \<and> F i \<noteq> '''' \<longrightarrow> i = j"
    using folder_unique [OF s(1)] by blast
  show "\<forall>j \<in> set (waitingGroups q). j \<notin> set run \<and>
       (shuttingDown q \<or> int (length run) \<ge> n \<or> (\<exists>k \<in> set run. k \<noteq> j \<and> F k = F j))"
    using s counted_reach [OF assms]
    by (fastforce simp: exclusive_def counted_def blocked_def held_exclusive [OF s(1)])
qed

lemma drain_streak: "streak (fst (drainWaitingLocked F i q)) k = streak q k"
proof (induction i q rule: drain_induct [where F = F])
  case (Skip i q)
  show ?case unfolding drain_skip [where F = F and i = i and q = q, OF Skip(1-3)] by (rule Skip(4))
next
  case (Take i q)
  have "streak (taken F i q) k = streak q k"
    by (simp add: taken_def) (simp add: streak_def)
  then show ?case using Take(4) by (simp add: drain_take Take(1-3))
qed (simp add: drain_stop)

lemma settle_streak:
  "streak (fst (settle j r now q)) k =
     (if k = j then (case r of Clean \<Rightarrow> 0 | DependencyDown \<Rightarrow> streak q j | Failed \<Rightarrow> streak q j + 1)
      else streak q k)"
  by (cases r; auto simp: settle_def case_prod_beta Let_def clearDependencyDown_def
        logDependencyDown_def streak_def getGroup_streak [symmetric] split: option.splits)

lemma noticed_streak:
  "streak (noticed j q) k =
     (if k = j \<and> streak q j \<ge> circuitBreakerThreshold then 0 else streak q k)"
  by (auto simp: noticed_def streak_def Let_def getGroup_streak [symmetric] split: option.splits)

text \<open>A run's end moves only the streak of its own chat: a clean return ends it, an unreachable
  execution plane leaves it and any other error lengthens it by one. The streak gates nothing: an
  arrival is started or parked in the same way whatever the streaks are (\<open>p\<close> is \<open>q\<close> with
  any other streaks), and a streak that had reached the threshold is forgotten on the way.\<close>

theorem breaker_gates_nothing:
  "streak (fst (runForGroup F order j r now q)) k =
     (if k = j then (case r of Clean \<Rightarrow> 0 | DependencyDown \<Rightarrow> streak q j | Failed \<Rightarrow> streak q j + 1)
      else streak q k) \<and>
   snd (EnqueueMessageCheck F j
     (q\<lparr>groups := \<lambda>k. map_option (\<lambda>s. s\<lparr>consecutiveFailures := n k\<rparr>) (groups q k)\<rparr>)) =
   snd (EnqueueMessageCheck F j q) \<and>
   streak (fst (EnqueueMessageCheck F j (q\<lparr>shuttingDown := False\<rparr>))) j =
     (if streak q j \<ge> circuitBreakerThreshold then 0 else streak q j)"
proof (intro conjI)
  show "streak (fst (runForGroup F order j r now q)) k =
     (if k = j then (case r of Clean \<Rightarrow> 0 | DependencyDown \<Rightarrow> streak q j | Failed \<Rightarrow> streak q j + 1)
      else streak q k)"
    by (simp add: runForGroup_alt Let_def drain_streak settle_streak)
  let ?p = "q\<lparr>groups := \<lambda>k. map_option (\<lambda>s. s\<lparr>consecutiveFailures := n k\<rparr>) (groups q k)\<rparr>"
  have "is_active ?p j = is_active q j" by (simp add: is_active_def split: option.splits)
  moreover have "blocked F ?p j = blocked F q j"
    by (simp add: blocked_def held_by_other_cong [of ?p q])
  ultimately show "snd (EnqueueMessageCheck F j ?p) = snd (EnqueueMessageCheck F j q)"
    by (simp add: enqueue_alt)
  have "streak (q\<lparr>shuttingDown := False\<rparr>) j = streak q j" by (simp add: streak_def)
  moreover have "streak (park j x) = streak x" for x by (simp add: streak_def fun_eq_iff)
  ultimately show "streak (fst (EnqueueMessageCheck F j (q\<lparr>shuttingDown := False\<rparr>))) j =
     (if streak q j \<ge> circuitBreakerThreshold then 0 else streak q j)"
    by (simp add: enqueue_alt noticed_streak)
qed

text \<open>What a row of runs that all found the plane unreachable reports, in the order of their ends.\<close>

fun outage :: "(string \<times> int) list \<Rightarrow> group_queue \<Rightarrow> effect list" where
  "outage [] q = []"
| "outage ((j, now) # rest) q =
     (let (q, es) = settle j DependencyDown now q in es @ outage rest q)"

lemma outage_going:
  assumes "depDownSince q = Some t"
  shows "outage rest q =
    map (\<lambda>i. Outage (if \<not> depDownLoud q \<and> snd (rest ! i) - t \<ge> dependencyDownGrace \<and>
        (\<forall>k < i. snd (rest ! k) - t < dependencyDownGrace) then Error else Warn)) [0..<length rest]"
  using assms
proof (induction rest arbitrary: q)
  case (Cons e rest)
  obtain j now where e: "e = (j, now)" by force
  have map_Suc: "map f [0..<length (e # rest)] = f 0 # map (\<lambda>i. f (Suc i)) [0..<length rest]" for f
    by (simp add: upt_conv_Cons map_Suc_upt [symmetric] del: upt_Suc)
  let ?q = "fst (settle j DependencyDown now q)"
  have s: "depDownSince ?q = Some t"
    "depDownLoud ?q = (depDownLoud q \<or> now - t \<ge> dependencyDownGrace)"
    "snd (settle j DependencyDown now q) =
       [Outage (if \<not> depDownLoud q \<and> now - t \<ge> dependencyDownGrace then Error else Warn)]"
    using Cons.prems by (auto simp: settle_def logDependencyDown_def case_prod_beta Let_def)
  show ?case
    unfolding e outage.simps case_prod_beta Let_def s(3) Cons.IH [OF s(1)] map_Suc [unfolded e]
    by (auto simp: s(2) All_less_Suc2)
qed simp

text \<open>An outage of the execution plane is reported at the error level at most once, by the
  first run that finds it still down a whole restart window after it was first seen; every other
  run only warns, the first one always, and an answered run starts the count afresh.\<close>

theorem outage_reported_once:
  assumes "i < length runs"
  shows "outage runs (clearDependencyDown q) ! i =
    Outage (if snd (runs ! i) - snd (runs ! 0) \<ge> dependencyDownGrace \<and>
        (\<forall>k < i. snd (runs ! k) - snd (runs ! 0) < dependencyDownGrace) then Error else Warn)"
proof -
  obtain j now rest where r: "runs = (j, now) # rest" using assms by (cases runs) auto
  let ?q = "fst (settle j DependencyDown now (clearDependencyDown q))"
  have s: "depDownSince ?q = Some now" "\<not> depDownLoud ?q"
    "snd (settle j DependencyDown now (clearDependencyDown q)) = [Outage Warn]"
    by (auto simp: settle_def logDependencyDown_def clearDependencyDown_def case_prod_beta Let_def
        dependencyDownGrace_def)
  show ?thesis
    using assms unfolding r outage.simps case_prod_beta Let_def s(3) outage_going [OF s(1)]
    by (cases i) (auto simp: s(2) dependencyDownGrace_def All_less_Suc2)
qed

section \<open>A chat whose folder changes while it waits\<close>

text \<open>Two chats of one folder; then the first is routed elsewhere.\<close>

definition before_change :: "string \<Rightarrow> string" where
  "before_change j = ''eng''"

definition after_change :: "string \<Rightarrow> string" where
  "after_change j = (if j = ''a'' then ''sales'' else ''eng'')"

definition idle :: groupState where
  "idle = \<lparr>active = False, consecutiveFailures = 0\<rparr>"

definition one_running :: group_queue where
  "one_running = (New 3)\<lparr>groups := [''b'' \<mapsto> idle\<lparr>active := True\<rparr>], activeCount := 1,
     activeFolders := [''eng'' \<mapsto> ''b'']\<rparr>"

definition one_parked :: group_queue where
  "one_parked = one_running\<lparr>groups := [''b'' \<mapsto> idle\<lparr>active := True\<rparr>, ''a'' \<mapsto> idle],
     waitingGroups := [''a'']\<rparr>"

lemmas enqueue_code = EnqueueMessageCheck_def New_def getGroup_def idle_def Let_def
  circuitBreakerThreshold_def held_by_other_def before_change_def after_change_def
  activateLocked_def park_def

lemma one_running_step:
  "EnqueueMessageCheck before_change ''b'' (New 3) = (one_running, [Started ''b''])"
  by (simp add: enqueue_code one_running_def)

lemma one_parked_step:
  "EnqueueMessageCheck before_change ''a'' one_running = (one_parked, [Parked ''a''])"
  by (simp add: enqueue_code one_running_def one_parked_def)

lemma one_parked_reach:
  assumes "before_change \<in> Fs"
  shows "queue_reach Fs 3 (one_parked, [''b''])"
proof -
  have "queue_reach Fs 3 (one_running, [''b''])"
    using queue_reach.step [OF queue_reach.start queue_step.message [OF assms one_running_step]] by simp
  from queue_reach.step [OF this queue_step.message [OF assms one_parked_step]]
  show ?thesis by simp
qed

lemma queue_never_overcommits_witness:
  "ActiveCount one_parked = int (length [''b'']) \<and> int (length [''b'']) \<le> max 0 3"
  by (rule queue_never_overcommits [OF one_parked_reach [where Fs = UNIV]]) simp

lemma queue_exclusive_prompt_witness:
  "''a'' \<in> set (waitingGroups one_parked) \<and>
   (int (length [''b'']) \<ge> 3 \<or>
    (\<exists>k \<in> set [''b'']. k \<noteq> ''a'' \<and> before_change k = before_change ''a''))"
  using queue_exclusive_prompt [OF one_parked_reach [where Fs = "{before_change}"]]
  by (simp add: one_parked_def one_running_def New_def)

lemma outage_reported_once_witness:
  "outage [(''a'', 0), (''b'', 59999999999), (''c'', 60000000000), (''a'', 90000000000)]
     (clearDependencyDown (New 3)) ! 2 = Outage Error"
  using outage_reported_once
    [of 2 "[(''a'', 0), (''b'', 59999999999), (''c'', 60000000000), (''a'', 90000000000)]" "New 3"]
  by (simp add: dependencyDownGrace_def numeral_2_eq_2 All_less_Suc)

text \<open>C8. The exclusion needs the folders to stay: a chat parked behind a folder that is
  then routed to a free one is started by its next message and stays in the waiting list, so the end
  of any other run starts it a second time. Two runs of one chat are in flight, in one folder.\<close>

theorem rerouted_chat_runs_twice:
  "\<exists>q. queue_reach {before_change, after_change} 3 (q, [''a'', ''a''])"
proof -
  let ?Fs = "{before_change, after_change}"
  let ?run = "EnqueueMessageCheck after_change ''a'' one_parked"
  have "snd ?run = [Started ''a'']"
    by (simp add: enqueue_code one_running_def one_parked_def)
  then have "?run = (fst ?run, [Started ''a''])" by (metis prod.collapse)
  from queue_reach.step [OF one_parked_reach [where Fs = ?Fs] queue_step.message [OF _ this]]
  have 1: "queue_reach ?Fs 3 (fst ?run, [''b'', ''a''])" by simp
  have q: "fst ?run = one_parked\<lparr>groups := [''b'' \<mapsto> idle\<lparr>active := True\<rparr>, ''a'' \<mapsto> idle\<lparr>active := True\<rparr>],
      activeCount := 2, activeFolders := [''eng'' \<mapsto> ''b'', ''sales'' \<mapsto> ''a'']\<rparr>"
    by (simp add: enqueue_code one_running_def one_parked_def)
  let ?fin = "runForGroup after_change [''eng'', ''sales''] ''b'' Clean 0 (fst ?run)"
  have d: "set [''eng'', ''sales''] = dom (activeFolders (fst ?run))"
    unfolding q by auto
  have "snd ?fin = [Started ''a'']"
    unfolding q
    by (simp add: runForGroup_def settle_def clearDependencyDown_def enqueue_code
        one_parked_def one_running_def release_def drainWaitingLocked.simps)
  then have "?fin = (fst ?fin, [Started ''a''])" by (metis prod.collapse)
  from queue_reach.step [OF 1 queue_step.finish [OF _ _ d this]]
  show ?thesis by auto
qed

end
