(* ===== verification/Go_Strings.thy ===== *)
theory Go_Strings
  imports File_Path
begin

text \<open>
  More of Go's \<open>strings\<close> and \<open>strconv\<close>: \<open>Fields\<close>, \<open>ReplaceAll\<close>,
  \<open>Contains\<close>, a single-byte \<open>Replacer\<close>, decimal numerals, and the calendar
  date of an instant in UTC.
\<close>

section \<open>Fields\<close>

fun take_word :: "string \<Rightarrow> string \<times> string" where
  "take_word [] = ([], [])"
| "take_word (c # s) =
     (if space_at white_runes (c # s) > 0 then ([], c # s)
      else (case take_word s of (w, r) \<Rightarrow> (c # w, r)))"

lemma take_word_append: "fst (take_word s) @ snd (take_word s) = s"
  by (induction s) (auto simp: case_prod_beta)

lemma take_word_shorter: "length (snd (take_word s)) \<le> length s"
  by (metis take_word_append length_append le_add2)

function Fields :: "string \<Rightarrow> string list" where
  "Fields s =
     (let s = drop_white white_runes s
      in if s = [] then [] else fst (take_word s) # Fields (snd (take_word s)))"
  by pat_completeness auto
termination
proof (relation "measure length", simp, simp)
  fix s assume ne: "drop_white white_runes s \<noteq> []"
  let ?t = "drop_white white_runes s"
  have "space_at white_runes ?t = 0" using drop_white_stop [of white_runes s] ne by blast
  then have "fst (take_word ?t) \<noteq> []" using ne by (cases ?t) (auto simp: case_prod_beta)
  then have "length (snd (take_word ?t)) < length ?t"
    using take_word_append [of ?t] by (metis length_append less_add_same_cancel2 length_greater_0_conv)
  moreover have "length ?t \<le> length s" using drop_white_suffix suffix_length_le by blast
  ultimately show "length (snd (take_word ?t)) < length s" by simp
qed

declare Fields.simps [simp del]

section \<open>Contains, ReplaceAll, Replacer\<close>

definition contains :: "string \<Rightarrow> string \<Rightarrow> bool" where
  [go_defs]: "contains s p = sublist p s"

lemma contains_char: "contains s [c] \<longleftrightarrow> c \<in> set s"
  by (auto simp: contains_def sublist_def in_set_conv_decomp)

lemma split_on_many: "c \<in> set s \<longleftrightarrow> 2 \<le> length (split_on c s)"
proof
  assume "c \<in> set s"
  then obtain a b where "s = a @ c # b" by (auto simp: in_set_conv_decomp)
  then have "length (split_on c s) = length (split_on c a) + length (split_on c b)" by simp
  moreover have "length (split_on c x) \<noteq> 0" for x by simp
  ultimately show "2 \<le> length (split_on c s)" by (metis One_nat_def Suc_1 Suc_leI add_mono less_one not_less one_add_one)
next
  assume "2 \<le> length (split_on c s)"
  then show "c \<in> set s" by (rule contrapos_pp) simp
qed

text \<open>\<open>strings.ReplaceAll\<close> of a pattern that is not empty: left to right, no overlap.\<close>

function replace_all :: "string \<Rightarrow> string \<Rightarrow> string \<Rightarrow> string" where
  "replace_all old new [] = []"
| "replace_all old new (c # s) =
     (if old \<noteq> [] \<and> has_prefix (c # s) old then new @ replace_all old new (drop (length old) (c # s))
      else c # replace_all old new s)"
  by pat_completeness auto
termination
  by (relation "measure (\<lambda>(_, _, s). length s)") (auto simp: le_imp_less_Suc)

text \<open>A \<open>strings.Replacer\<close> whose old strings are single bytes: each byte by itself.\<close>

definition replace_bytes :: "(char \<times> string) list \<Rightarrow> string \<Rightarrow> string" where
  [go_defs]: "replace_bytes table s =
     concat (map (\<lambda>c. case map_of table c of None \<Rightarrow> [c] | Some r \<Rightarrow> r) s)"

section \<open>Decimal numerals\<close>

definition digits :: string where
  "digits = ''0123456789''"

text \<open>The digits of a natural number, as \<open>strconv.Itoa\<close> and the verb \<open>%d\<close> print it.\<close>

function decimal :: "nat \<Rightarrow> string" where
  "decimal n = (if n < 10 then [digits ! n] else decimal (n div 10) @ [digits ! (n mod 10)])"
  by pat_completeness auto
termination
  by (relation "measure id") auto

declare decimal.simps [simp del]

definition itoa :: "int \<Rightarrow> string" where
  [go_defs]: "itoa n = (if n < 0 then CHR ''-'' # decimal (nat (- n)) else decimal (nat n))"

text \<open>A numeral of at least \<open>w\<close> digits, filled with zeros.\<close>

definition padded :: "nat \<Rightarrow> int \<Rightarrow> string" where
  [go_defs]: "padded w n =
     (let d = decimal (nat n) in replicate (w - length d) (CHR ''0'') @ d)"

section \<open>Calendar dates\<close>

text \<open>The proleptic Gregorian date of a day counted from 1970-01-01, by eras of 400 years.\<close>

definition civil :: "int \<Rightarrow> int \<times> int \<times> int" where
  "civil days =
     (let z = days + 719468;
          era = z div 146097;
          doe = z mod 146097;
          yoe = (doe - doe div 1460 + doe div 36524 - doe div 146096) div 365;
          doy = doe - (365 * yoe + yoe div 4 - yoe div 100);
          mp = (5 * doy + 2) div 153;
          d = doy - (153 * mp + 2) div 5 + 1;
          m = (if mp < 10 then mp + 3 else mp - 9)
      in (yoe + era * 400 + (if m \<le> 2 then 1 else 0), m, d))"

text \<open>An instant in Unix nanoseconds, printed as \<open>2006-01-02T15:04:05Z\<close> (years 0 to 9999).\<close>

definition format_utc :: "int \<Rightarrow> string" where
  "format_utc t =
     (let secs = t div 1000000000;
          (y, m, d) = civil (secs div 86400);
          s = secs mod 86400
      in padded 4 y @ ''-'' @ padded 2 m @ ''-'' @ padded 2 d @ ''T'' @
         padded 2 (s div 3600) @ '':'' @ padded 2 (s div 60 mod 60) @ '':'' @ padded 2 (s mod 60) @ ''Z'')"

lemma decimal_digits: "set (decimal n) \<subseteq> set digits"
proof (induction n rule: decimal.induct)
  case (1 n)
  have d: "k < 10 \<Longrightarrow> digits ! k \<in> set digits" for k :: nat
    by (rule nth_mem) (simp add: digits_def)
  show ?case
    using "1.IH" d [of n] d [of "n mod 10"] by (auto simp: decimal.simps [of n])
qed

section \<open>strconv.Atoi\<close>

fun numeral_value :: "nat \<Rightarrow> string \<Rightarrow> nat option" where
  "numeral_value n [] = Some n"
| "numeral_value n (c # cs) =
     (if c \<in> set digits then numeral_value (10 * n + (of_char c - 48)) cs else None)"

definition Atoi :: "string \<Rightarrow> int option" where
  [go_defs]: "Atoi s =
     (let (neg, ds) = (case s of [] \<Rightarrow> (False, [])
          | c # cs \<Rightarrow> if c = CHR ''-'' then (True, cs) else if c = CHR ''+'' then (False, cs) else (False, s))
      in if ds = [] then None
         else case numeral_value 0 ds of
           None \<Rightarrow> None
         | Some n \<Rightarrow>
             if neg then (if int n \<le> 2 ^ 63 then Some (- int n) else None)
             else if int n < 2 ^ 63 then Some (int n) else None)"

lemma numeral_value_app: "numeral_value n (xs @ [c]) =
    (case numeral_value n xs of None \<Rightarrow> None
     | Some m \<Rightarrow> if c \<in> set digits then Some (10 * m + (of_char c - 48)) else None)"
  by (induction n xs rule: numeral_value.induct) auto

lemma digit_nth: "k < 10 \<Longrightarrow> digits ! k \<in> set digits \<and> of_char (digits ! k) - 48 = k" for k :: nat
proof -
  assume "k < 10"
  then have "k \<in> set [0..<10]" by simp
  moreover have "list_all (\<lambda>k. digits ! k \<in> set digits \<and> of_char (digits ! k) - 48 = k) [0..<10 :: nat]"
    by code_simp
  ultimately show ?thesis unfolding list_all_iff by blast
qed

lemma numeral_decimal: "numeral_value 0 (decimal n) = Some n"
proof (induction n rule: decimal.induct)
  case (1 n)
  have "10 * (n div 10) + n mod 10 = n" by simp
  then show ?case
    using "1.IH" digit_nth [of n] digit_nth [of "n mod 10"]
    by (cases "n < 10") (simp_all add: decimal.simps [of n] numeral_value_app)
qed

lemma decimal_head: "\<exists>c cs. decimal n = c # cs \<and> c \<noteq> CHR ''-'' \<and> c \<noteq> CHR ''+''"
proof (cases "decimal n")
  case Nil
  then show ?thesis by (simp add: decimal.simps [of n] split: if_splits)
next
  case (Cons c cs)
  then show ?thesis using decimal_digits [of n] by (auto simp: digits_def)
qed

lemma Atoi_itoa: "- (2 ^ 63) \<le> n \<Longrightarrow> n < 2 ^ 63 \<Longrightarrow> Atoi (itoa n) = Some n"
  using decimal_head [of "nat n"] decimal_head [of "nat (- n)"] numeral_decimal [of "nat n"]
    numeral_decimal [of "nat (- n)"]
  by (auto simp: Atoi_def itoa_def)

end
