(* ===== verification/Core_Types.thy ===== *)
theory Core_Types
  imports Go_Strings
begin

text \<open>The shared data of the daemons (core/types.go): the message, the route, the target a route
  names and its textual form, the parts of a chat identifier, the senders of scheduled runs and
  the accepted instance names. Instants are Unix nanoseconds in UTC.\<close>

record message =
  ID :: string
  ChatJID :: string
  Sender :: string
  Name :: string
  Content :: string
  Timestamp :: int
  FromMe :: bool
  BotMsg :: bool
  ForwardedFrom :: string
  ReplyToID :: string
  ReplyToText :: string
  ReplyToSender :: string
  PlatformID :: string
  Topic :: string
  RoutedTo :: string
  Verb :: string
  Attachments :: string
  Source :: string
  Errored :: bool
  TurnID :: string
  ChatName :: string
  LinkContext :: string

definition AddressesBot :: "message \<Rightarrow> bool" where
  [go_defs]: "AddressesBot m = (BotMsg m \<or> Verb m = ''mention'')"

definition IsolatedSenderPrefix :: string where [go_defs]: "IsolatedSenderPrefix = ''timed-isolated:''"

definition IsIsolatedSender :: "string \<Rightarrow> bool" where
  [go_defs]: "IsIsolatedSender s = has_prefix s IsolatedSenderPrefix"

definition ScheduledSender :: string where [go_defs]: "ScheduledSender = ''timed''"

definition IsScheduledSender :: "string \<Rightarrow> bool" where
  [go_defs]: "IsScheduledSender s = (s = ScheduledSender \<or> IsIsolatedSender s)"

record route =
  RouteID :: int
  Seq :: int
  Match :: string
  Target :: string
  ObserveWindowMessages :: int
  ObserveWindowChars :: int

section \<open>Route targets\<close>

record route_target =
  Folder :: string
  TargetTopic :: string
  Mode :: string
  Announce :: bool
  Issues :: bool

definition ParseRouteTarget :: "string \<Rightarrow> route_target" where
  [go_defs]: "ParseRouteTarget s =
     (let (before, after, ok) = cut hash s;
          rt = \<lparr>Folder = before, TargetTopic = '''', Mode = '''', Announce = False, Issues = False\<rparr>
      in if \<not> ok then rt\<lparr>Folder := s\<rparr>
         else if after = ''observe'' then rt\<lparr>Mode := after\<rparr>
         else if after = ''engaged'' then rt\<lparr>Mode := after\<rparr>
         else if after = ''announce'' then rt\<lparr>Announce := True\<rparr>
         else if after = ''issues'' then rt\<lparr>Issues := True\<rparr>
         else rt\<lparr>TargetTopic := after\<rparr>)"

definition target_string :: "route_target \<Rightarrow> string" where
  [go_defs]: "target_string rt =
     (if Mode rt \<noteq> '''' then Folder rt @ [hash] @ Mode rt
      else if Announce rt then Folder rt @ [hash] @ ''announce''
      else if Issues rt then Folder rt @ [hash] @ ''issues''
      else if TargetTopic rt \<noteq> '''' then Folder rt @ [hash] @ TargetTopic rt
      else Folder rt)"

section \<open>Chat identifiers\<close>

definition JidRoom :: "string \<Rightarrow> string" where
  [go_defs]: "JidRoom jid = (case cut colon jid of (_, after, ok) \<Rightarrow> if ok then after else jid)"

definition JidPlatform :: "string \<Rightarrow> string" where
  [go_defs]: "JidPlatform jid = (case cut colon jid of (before, _, ok) \<Rightarrow> if ok then before else '''')"

section \<open>Instance names\<close>

definition ascii_word :: "char \<Rightarrow> bool" where
  [go_defs]: "ascii_word c =
     ((CHR ''A'' \<le> c \<and> c \<le> CHR ''Z'') \<or> (CHR ''a'' \<le> c \<and> c \<le> CHR ''z'') \<or>
      (CHR ''0'' \<le> c \<and> c \<le> CHR ''9'') \<or> c = CHR ''_'')"

definition SanitizeInstance :: "string \<Rightarrow> string option" where
  [go_defs]: "SanitizeInstance name =
     (if name = '''' then None
      else if length name > 32 then None
      else if \<not> (ascii_word (hd name) \<and> list_all (\<lambda>c. ascii_word c \<or> c = CHR ''-'') (tl name)) then None
      else Some name)"

section \<open>Properties\<close>

definition target_ok :: "route_target \<Rightarrow> bool" where
  "target_ok rt =
     (hash \<notin> set (Folder rt) \<and>
      (if Mode rt \<noteq> '''' then Mode rt \<in> {''observe'', ''engaged''} \<and> TargetTopic rt = '''' \<and> \<not> Announce rt \<and> \<not> Issues rt
       else if Announce rt \<or> Issues rt then TargetTopic rt = '''' \<and> Announce rt \<noteq> Issues rt
       else TargetTopic rt \<notin> {''observe'', ''engaged'', ''announce'', ''issues''}))"

lemma parse_plain: "hash \<notin> set f \<Longrightarrow> ParseRouteTarget f =
    \<lparr>Folder = f, TargetTopic = '''', Mode = '''', Announce = False, Issues = False\<rparr>"
  by (simp add: ParseRouteTarget_def)

lemma parse_fragment: "hash \<notin> set f \<Longrightarrow> ParseRouteTarget (f @ hash # t) =
    \<lparr>Folder = f,
     TargetTopic = (if t \<in> {''observe'', ''engaged'', ''announce'', ''issues''} then '''' else t),
     Mode = (if t \<in> {''observe'', ''engaged''} then t else ''''),
     Announce = (t = ''announce''), Issues = (t = ''issues'')\<rparr>"
  by (simp add: ParseRouteTarget_def Let_def)

lemma target_texts:
  obtains (plain) "hash \<notin> set s"
  | (fragment) f t where "s = f @ hash # t" "hash \<notin> set f"
  by (metis split_list_first)

text \<open>The textual form of a route target and its parse are inverse: printing what was parsed
  gives the text back, save that a text with nothing after its only hash sign loses the sign; every
  parsed target is well formed; and parsing what was printed gives the target back exactly when it is
  well formed: a folder without a hash sign and at most one of a known mode, a flag and a
  topic that is not a reserved word (a topic spelt like a mode would be read as the mode).\<close>

theorem route_target_roundtrip:
  "target_string (ParseRouteTarget s) =
     (if s \<noteq> [] \<and> last s = hash \<and> hash \<notin> set (butlast s) then butlast s else s) \<and>
   target_ok (ParseRouteTarget s) \<and>
   (ParseRouteTarget (target_string rt) = rt) = target_ok rt"
proof (intro conjI)
  show "target_string (ParseRouteTarget s) =
     (if s \<noteq> [] \<and> last s = hash \<and> hash \<notin> set (butlast s) then butlast s else s)"
  proof (cases s rule: target_texts)
    case plain
    then have "s \<noteq> [] \<Longrightarrow> last s \<noteq> hash" by (metis last_in_set)
    with plain show ?thesis by (auto simp: parse_plain target_string_def)
  next
    case (fragment f t)
    then show ?thesis
      by (cases "t = []") (auto simp: parse_fragment target_string_def butlast_append)
  qed
  show ok: "target_ok (ParseRouteTarget s)" for s
  proof (cases s rule: target_texts)
    case plain
    then show ?thesis by (simp add: parse_plain target_ok_def)
  next
    case (fragment f t)
    then show ?thesis by (auto simp: parse_fragment target_ok_def)
  qed
  have "target_ok rt \<Longrightarrow> ParseRouteTarget (target_string rt) = rt"
    by (cases rt) (auto simp: target_ok_def target_string_def parse_plain parse_fragment
        split: if_splits)
  then show "(ParseRouteTarget (target_string rt) = rt) = target_ok rt"
    using ok by metis
qed

text \<open>An accepted instance name is returned as it is and is safe to paste: 1 to 32
  characters, letters, digits, underscores and dashes only, no dash first; every such name is accepted.\<close>

theorem sanitize_exact:
  "SanitizeInstance name =
     (if 1 \<le> length name \<and> length name \<le> 32 \<and> hd name \<noteq> CHR ''-'' \<and>
         set name \<subseteq> {c. ascii_word c} \<union> {CHR ''-''}
      then Some name else None)"
proof (cases name)
  case (Cons c cs)
  have "\<not> ascii_word (CHR ''-'')" by (simp add: ascii_word_def less_eq_char_def)
  then show ?thesis using Cons by (auto simp: SanitizeInstance_def list_all_iff)
qed (simp add: SanitizeInstance_def)

end
