(* ===== verification/Resolution.thy ===== *)
theory Resolution
  imports Router Groupfolder
begin

text \<open>The resolution of a chat's messages to folders (routd/loop.go, with the readers of the
  leading name in routd/steer.go): a direct address, then the route table, then engagement, with
  the leading \<open>@name\<close> that selects a group nearby. What the store answers is a record of
  reads, fixed while one batch is resolved. The engagement facts one batch has read are
  kept in a record that is passed along, as the code keeps them.\<close>

section \<open>Text a person typed\<close>

fun cut_str :: "string \<Rightarrow> string \<Rightarrow> (string \<times> string) option" where
  "cut_str sep [] = (if sep = [] then Some ([], []) else None)"
| "cut_str sep (c # s) =
     (if has_prefix (c # s) sep then Some ([], drop (length sep) (c # s))
      else map_option (\<lambda>(b, a). (c # b, a)) (cut_str sep s))"

definition fence :: string where [go_defs]: "fence = replicate 3 (CHR 0x60)"

definition typedText :: "string \<Rightarrow> string \<times> string" where
  [go_defs]: "typedText raw =
     (let t = trim_space raw
      in if \<not> has_prefix t ''[github '' then ('''', t)
         else
           case cut CHR '']'' t of (_, a, ok) \<Rightarrow>
             if \<not> ok then ('''', t)
             else
               let typed = trim_space a;
                   typed =
                     (if has_prefix typed fence then
                        (case cut_str (newline # fence) typed of
                           None \<Rightarrow> typed | Some (_, rest) \<Rightarrow> trim_space rest)
                      else typed)
               in (trim_space (case cut_suffix t typed of None \<Rightarrow> t | Some e \<Rightarrow> e), typed))"

definition cmdText :: "string \<Rightarrow> string" where
  [go_defs]: "cmdText raw =
     (let (envelope, t) = typedText raw;
          t = (if envelope = '''' \<and> has_prefix t ''['' then
                 (case cut CHR '']'' t of (_, a, ok) \<Rightarrow> if ok then trim_space a else t) else t)
      in if has_prefix t ''@'' then
           (case cut space t of (_, a, ok) \<Rightarrow> if ok then trim_space a else '''')
         else t)"

definition lookupCommand :: "string \<Rightarrow> string \<times> string" where
  [go_defs]: "lookupCommand raw =
     (let t = cmdText raw;
          t = (if has_prefix t [backslash] then ''/'' @ tl t else t)
      in if \<not> has_prefix t ''/'' then ('''', '''')
         else
           let (h, a, _) = cut space t;
               (h, _, _) = cut CHR ''@'' (to_lower h)
           in (h, a))"

text \<open>The leading name and the message without it.\<close>

definition leadingAt :: "string \<Rightarrow> (string \<times> string) option" where
  [go_defs]: "leadingAt content =
     (let (envelope, typed) = typedText content
      in case prefix_at typed of
           None \<Rightarrow> None
         | Some name \<Rightarrow>
             let rest = trim_space (drop (Suc (length name))
                   (dropWhile (\<lambda>c. c \<in> {CHR 0x09, CHR 0x0A, CHR 0x0C, CHR 0x0D, CHR '' ''}) typed))
             in Some (name, if envelope \<noteq> '''' then envelope @ [newline, newline] @ rest else rest))"

definition isSystemTrigger :: "string \<Rightarrow> bool" where
  [go_defs]: "isSystemTrigger trigger =
     (trigger = '''' \<or> trigger = ''timed'' \<or> has_prefix trigger ''timed-'' \<or> has_prefix trigger ''system'')"

section \<open>What the store answers\<close>

record reads =
  GroupExists :: "string \<Rightarrow> bool"
  Routes :: "route list option"
  RouteTokenTarget :: "string \<Rightarrow> string"
  StickyTopic :: "string \<Rightarrow> string"
  MessageByID :: "string \<Rightarrow> string \<Rightarrow> message option"
  Engaged :: "string \<Rightarrow> string \<Rightarrow> string option"
  ThreadDisengaged :: "string \<Rightarrow> string \<Rightarrow> bool option"

text \<open>The nearest group of a name, walking up from a folder. The walk goes on while the folder has
  a slash, so it may not end: no result is \<open>None\<close>, the empty string is the answer that there is no
  such group.\<close>

partial_function (option) findNamedGroup :: "(string \<Rightarrow> bool) \<Rightarrow> string \<Rightarrow> string \<Rightarrow> string option" where
  "findNamedGroup exists cur name =
     (if cur = '''' \<or> cur = ''.'' then Some ''''
      else if exists (cur @ ''/'' @ name) then Some (cur @ ''/'' @ name)
      else if slash \<notin> set cur then Some ''''
      else findNamedGroup exists (dir_name cur) name)"

declare findNamedGroup.simps [code]

section \<open>Engagement facts of one chat, read once\<close>

record chat_reads =
  pin :: "string option"
  folders :: "string \<rightharpoonup> string"

definition fresh_reads :: chat_reads where
  [go_defs]: "fresh_reads = \<lparr>pin = None, folders = Map.empty\<rparr>"

definition effectiveTopic :: "reads \<Rightarrow> string \<Rightarrow> string \<Rightarrow> chat_reads \<Rightarrow> string \<times> chat_reads" where
  [go_defs]: "effectiveTopic db jid msgTopic r =
     (let r = (if pin r = None then r\<lparr>pin := Some (StickyTopic db jid)\<rparr> else r);
          p = the (pin r)
      in (if p \<noteq> '''' then p else msgTopic, r))"

definition remember :: "string \<Rightarrow> string \<Rightarrow> chat_reads \<Rightarrow> chat_reads" where
  [go_defs]: "remember topic folder r = r\<lparr>folders := (folders r)(topic \<mapsto> folder)\<rparr>"

text \<open>The folder a topic is engaged for, empty when none is. The inner call asks for the root
  window, which falls back no further.\<close>

definition engagedRoot :: "reads \<Rightarrow> string \<Rightarrow> chat_reads \<Rightarrow> string \<times> chat_reads" where
  [go_defs]: "engagedRoot db jid r =
     (case folders r '''' of
        Some folder \<Rightarrow> (folder, r)
      | None \<Rightarrow>
          (let folder = (case Engaged db jid '''' of None \<Rightarrow> '''' | Some f \<Rightarrow> f)
           in (folder, remember '''' folder r)))"

definition engagedFolder :: "reads \<Rightarrow> string \<Rightarrow> string \<Rightarrow> chat_reads \<Rightarrow> string \<times> chat_reads" where
  [go_defs]: "engagedFolder db jid topic r =
     (if topic = '''' then engagedRoot db jid r
      else
        case folders r topic of
          Some folder \<Rightarrow> (folder, r)
        | None \<Rightarrow>
            (case Engaged db jid topic of
               Some folder \<Rightarrow> (folder, remember topic folder r)
             | None \<Rightarrow>
                 (case ThreadDisengaged db jid topic of
                    None \<Rightarrow> ('''', remember topic '''' r)
                  | Some True \<Rightarrow> ('''', remember topic '''' r)
                  | Some False \<Rightarrow>
                      (let (folder, r) = engagedRoot db jid r
                       in (folder, remember topic folder r)))))"

definition engaged :: "reads \<Rightarrow> string \<Rightarrow> string \<Rightarrow> message \<Rightarrow> chat_reads \<Rightarrow> string \<times> chat_reads" where
  [go_defs]: "engaged db jid topic m r =
     (if Verb m \<noteq> '''' \<and> Verb m \<noteq> ''message'' \<and> Verb m \<noteq> ''mention'' then ('''', r)
      else if Verb m \<noteq> ''mention'' \<and> ReplyToID m \<noteq> '''' \<and>
        (case MessageByID db jid (ReplyToID m) of None \<Rightarrow> False | Some parent \<Rightarrow> \<not> AddressesBot parent)
      then ('''', r)
      else engagedFolder db jid topic r)"

section \<open>Resolution\<close>

record resolution =
  ResFolder :: string
  ResTopic :: string
  Observe :: string
  Addressed :: bool
  AtName :: bool
  ok :: bool

definition no_resolution :: resolution where
  [go_defs]: "no_resolution = \<lparr>ResFolder = '''', ResTopic = '''', Observe = '''',
     Addressed = False, AtName = False, ok = False\<rparr>"

definition directFolder :: "reads \<Rightarrow> string \<Rightarrow> string" where
  [go_defs]: "directFolder db jid =
     (let folder = JidFolder jid
      in if folder \<noteq> '''' then
           (if RouteTokenTarget db jid \<noteq> '''' then RouteTokenTarget db jid else folder)
         else if colon \<notin> set jid then jid
         else '''')"

definition routedFolder ::
  "reads \<Rightarrow> string \<Rightarrow> message \<Rightarrow> route_target \<Rightarrow> chat_reads \<Rightarrow> resolution \<times> chat_reads" where
  [go_defs]: "routedFolder db jid m rt r =
     (let (engTopic, r) = effectiveTopic db jid (Topic m) r
      in if Folder rt \<noteq> '''' then
           (if Mode rt = ''engaged'' then
              (let (folder, r) = engagedFolder db jid engTopic r
               in (if folder \<noteq> '''' then no_resolution\<lparr>ResFolder := folder, ok := True\<rparr>
                   else no_resolution\<lparr>Observe := Folder rt\<rparr>, r))
            else
              (let (folder, r) = engaged db jid engTopic m r
               in (if folder \<noteq> '''' then
                     no_resolution\<lparr>ResFolder := folder, ok := True, Addressed := (Mode rt \<noteq> ''observe'')\<rparr>
                   else if Mode rt = ''observe'' then no_resolution\<lparr>Observe := Folder rt\<rparr>
                   else no_resolution\<lparr>ResFolder := Folder rt, ResTopic := TargetTopic rt, ok := True,
                     Addressed := True\<rparr>, r)))
         else
           (let (folder, r) = engaged db jid engTopic m r
            in (if folder \<noteq> '''' then no_resolution\<lparr>ResFolder := folder, ok := True\<rparr>
                else no_resolution, r)))"

definition resolveFolder ::
  "reads \<Rightarrow> string \<Rightarrow> message \<Rightarrow> route list option \<Rightarrow> chat_reads \<Rightarrow> (resolution \<times> chat_reads) option"
where
  [go_defs]: "resolveFolder db jid m routes r =
     (let probe = m\<lparr>Content := snd (typedText (Content m))\<rparr>;
          row = (case routes of None \<Rightarrow> None | Some rs \<Rightarrow> MatchRoute probe rs);
          rt = ParseRouteTarget (case row of None \<Rightarrow> '''' | Some (_, target) \<Rightarrow> target);
          hasAt = (leadingAt (Content m) \<noteq> None \<and> \<not> BotMsg m \<and> \<not> isSystemTrigger (Sender m));
          atRow = (case row of None \<Rightarrow> False | Some (x, _) \<Rightarrow> HasAt x)
      in if hasAt \<and> atRow \<and> Folder rt \<noteq> '''' \<and> Mode rt = '''' then
           Some (no_resolution\<lparr>ResFolder := Folder rt, ResTopic := TargetTopic rt, ok := True,
             Addressed := True, AtName := True\<rparr>, r)
         else
           let (res, r) = routedFolder db jid m rt r
           in if hasAt \<and> \<not> atRow then
                let base = (if ResFolder res = '''' then Observe res else ResFolder res)
                in case findNamedGroup (GroupExists db) base (fst (the (leadingAt (Content m)))) of
                     None \<Rightarrow> None
                   | Some t \<Rightarrow>
                       Some (if base \<noteq> '''' \<and> t \<noteq> '''' then
                           no_resolution\<lparr>ResFolder := t, ok := True, Addressed := True, AtName := True\<rparr>
                         else res, r)
              else Some (res, r))"

definition is_direct :: "reads \<Rightarrow> string \<Rightarrow> bool" where
  [go_defs]: "is_direct db jid = (directFolder db jid \<noteq> '''' \<and> GroupExists db (directFolder db jid))"

definition resolve_row ::
  "reads \<Rightarrow> string \<Rightarrow> message \<Rightarrow> chat_reads \<Rightarrow> (resolution \<times> chat_reads) option" where
  [go_defs]: "resolve_row db jid m r =
     map_option (\<lambda>(res, r). (if isSystemTrigger (Sender m) then res\<lparr>Addressed := False\<rparr> else res, r))
       (if is_direct db jid then
          Some (no_resolution\<lparr>ResFolder := directFolder db jid, ok := True,
            Addressed := (JidPlatform jid = ''web'')\<rparr>, r)
        else resolveFolder db jid m (Routes db) r)"

fun resolve_loop ::
  "reads \<Rightarrow> string \<Rightarrow> message list \<Rightarrow> chat_reads \<Rightarrow> resolution list option" where
  "resolve_loop db jid [] r = Some []"
| "resolve_loop db jid (m # ms) r =
     (case resolve_row db jid m r of
        None \<Rightarrow> None
      | Some (res, r) \<Rightarrow> map_option (\<lambda>out. res # out) (resolve_loop db jid ms r))"

definition resolveRows :: "reads \<Rightarrow> string \<Rightarrow> message list \<Rightarrow> resolution list option" where
  [go_defs]: "resolveRows db jid rows = resolve_loop db jid rows fresh_reads"

section \<open>A batch\<close>

text \<open>The decision on a batch with the rows' own resolutions; a bot row's is the empty one. The
  batch takes the newest user row that dispatches, else the newest user row.\<close>

fun place :: "message list \<Rightarrow> resolution list \<Rightarrow> resolution list" where
  "place [] rows = []"
| "place (m # ms) rows =
     (if BotMsg m then no_resolution # place ms rows
      else hd rows # place ms (tl rows))"

definition resolveBatch ::
  "reads \<Rightarrow> string \<Rightarrow> message list \<Rightarrow> (resolution \<times> resolution list) option" where
  [go_defs]: "resolveBatch db jid msgs =
     map_option (\<lambda>rows.
         (case find ok (rev rows) of Some r \<Rightarrow> r | None \<Rightarrow> last rows, place msgs rows))
       (resolveRows db jid (filter (\<lambda>m. \<not> BotMsg m) msgs))"

section \<open>The walk up from a folder\<close>

definition weight :: "string list \<Rightarrow> nat" where
  "weight xs = sum_list (map (\<lambda>x. Suc (length x)) xs)"

lemma weight_simps [simp]:
  "weight [] = 0"
  "weight (x # xs) = Suc (length x) + weight xs"
  "weight (xs @ ys) = weight xs + weight ys"
  "weight (rev xs) = weight xs"
  by (simp_all add: weight_def rev_map [symmetric])

lemma clean_loop_weight: "weight (clean_loop r st xs) \<le> weight st + weight xs"
proof (induction xs arbitrary: st)
  case Nil
  show ?case by simp
next
  case (Cons x xs)
  consider "x = [] \<or> x = dot" | "x = dotdot" | "x \<noteq> []" "x \<noteq> dot" "x \<noteq> dotdot" by blast
  then show ?case
  proof cases
    case 1
    then show ?thesis using Cons.IH [of st] by (simp add: clean_loop_skip)
  next
    case 2
    show ?thesis
    proof (cases st)
      case Nil
      then show ?thesis using Cons.IH [of "if r then [] else [dotdot]"] 2
        by (auto simp: clean_loop_up)
    next
      case (Cons y ys)
      then show ?thesis
        using Cons.IH [of "if y = dotdot then dotdot # st else ys"] 2 by (auto simp: clean_loop_up)
    qed
  next
    case 3
    then show ?thesis using Cons.IH [of "x # st"] by (simp add: clean_loop_push)
  qed
qed

lemma split_weight: "weight (split_on c s) = Suc (length s)"
  by (induction s) (auto split: list.splits simp: weight_def)

lemma join_weight: "xs \<noteq> [] \<Longrightarrow> Suc (length (join [c] xs)) = weight xs"
  by (induction "[c]" xs rule: join.induct) auto

lemma dir_name_shorter:
  assumes "\<not> is_abs p" "slash \<in> set p"
  shows "length (dir_name p) < length p \<and> \<not> is_abs (dir_name p)"
proof -
  obtain b a where s: "cut_last slash p = (b, a, True)"
    using assms(2) cut_last_not_found [of slash p] by (cases "cut_last slash p") auto
  then have p: "p = b @ slash # a" using cut_last_found by blast
  with assms(1) have b: "b \<noteq> []" "\<not> is_abs b" by (cases b; auto simp: is_abs_def)+
  have na: "\<not> is_abs (b @ [slash])" using b by (cases b) (auto simp: is_abs_def)
  have "path_segs (b @ [slash]) = clean_loop False [] (split_on slash b @ [[]])"
    using na split_on_append [of slash b "[]"] by (simp add: path_segs_def)
  also have "\<dots> = clean_loop False (rev (clean_loop False [] (split_on slash b))) [[]]"
    by (rule clean_loop_then)
  finally have seg: "path_segs (b @ [slash]) = clean_loop False [] (split_on slash b)"
    by (simp add: clean_loop_skip)
  have "length (clean (b @ [slash])) \<le> length b"
  proof (cases "path_segs (b @ [slash]) = []")
    case True
    then show ?thesis using na b by (cases b) (simp_all add: clean_def dot_def)
  next
    case False
    then have "Suc (length (clean (b @ [slash]))) = weight (path_segs (b @ [slash]))"
      using na by (simp add: clean_def join_weight)
    also have "\<dots> \<le> Suc (length b)"
      using clean_loop_weight [of False "[]" "split_on slash b"] by (simp add: seg split_weight)
    finally show ?thesis by simp
  qed
  moreover have "\<not> is_abs (clean (b @ [slash]))" using na is_abs_clean by blast
  ultimately show ?thesis using s p by (simp add: dir_name_def)
qed

lemma walk_ends: "\<not> is_abs folder \<Longrightarrow> findNamedGroup exists folder name \<noteq> None"
proof (induction "length folder" arbitrary: folder rule: less_induct)
  case less
  show ?case
    using less dir_name_shorter [OF less.prems] by (subst findNamedGroup.simps) auto
qed

lemma abs_dir: "is_abs p \<Longrightarrow> is_abs (dir_name p)"
proof -
  assume a: "is_abs p"
  then have "slash \<in> set p" by (cases p) (auto simp: is_abs_def)
  then obtain b r where s: "cut_last slash p = (b, r, True)"
    using cut_last_not_found [of slash p] by (cases "cut_last slash p") auto
  then have "p = b @ slash # r" using cut_last_found by blast
  with a have "is_abs (b @ [slash])" by (cases b) (auto simp: is_abs_def)
  then show ?thesis using s is_abs_clean by (simp add: dir_name_def)
qed

lemma walk_returns:
  "findNamedGroup exists folder name = Some t \<Longrightarrow> \<not> (exists = (\<lambda>_. False) \<and> is_abs folder)"
proof -
  let ?P = "\<lambda>exists folder name t. \<not> (exists = (\<lambda>_. False) \<and> is_abs folder)"
  assume r: "findNamedGroup exists folder name = Some t"
  show ?thesis
  proof (rule findNamedGroup.raw_induct [where P = ?P, OF _ r], rule notI)
    fix walk cur and exists :: "string \<Rightarrow> bool" and name t
    assume 1: "\<And>exists cur name t. walk exists cur name = Some t \<Longrightarrow> ?P exists cur name t"
      and 2: "(if cur = [] \<or> cur = ''.'' then Some []
        else if exists (cur @ ''/'' @ name) then Some (cur @ ''/'' @ name)
        else if slash \<notin> set cur then Some [] else walk exists (dir_name cur) name) = Some t"
      and a: "exists = (\<lambda>_. False) \<and> is_abs cur"
    have "cur \<noteq> []" "cur \<noteq> ''.''" "slash \<in> set cur" using a by (cases cur; auto simp: is_abs_def)+
    then have "walk exists (dir_name cur) name = Some t" using 2 a by simp
    then show False using 1 a abs_dir by blast
  qed
qed

text \<open>Up the elements of a folder that is spelt plainly.\<close>

definition named :: "string \<Rightarrow> bool" where
  "named x = (x \<noteq> [] \<and> x \<noteq> dot \<and> x \<noteq> dotdot \<and> slash \<notin> set x)"

lemma join_snoc: "xs \<noteq> [] \<Longrightarrow> join [c] (xs @ [x]) = join [c] xs @ c # x"
  by (induction "[c]" xs rule: join.induct) auto

lemma named_not_abs: "\<forall>x \<in> set xs. named x \<Longrightarrow> xs \<noteq> [] \<Longrightarrow> \<not> is_abs (join [slash] xs) \<and> join [slash] xs \<noteq> []"
  by (cases xs; cases "hd xs") (auto simp: is_abs_def named_def join_Cons)

lemma dir_name_named:
  assumes "\<forall>x \<in> set (xs @ [x]). named x" "xs \<noteq> []"
  shows "dir_name (join [slash] (xs @ [x])) = join [slash] xs"
proof -
  have "cut_last slash (join [slash] (xs @ [x])) = (join [slash] xs, x, True)"
    using assms by (simp add: join_snoc cut_last_found named_def)
  moreover have "split_on slash (join [slash] xs @ [slash]) = xs @ [[]]"
    using split_on_append [of slash "join [slash] xs" "[]"] split_join [of xs slash] assms
    by (simp add: named_def)
  moreover have "\<not> is_abs (join [slash] xs @ [slash])"
    using named_not_abs [of xs] assms by (cases "join [slash] xs") (auto simp: is_abs_def)
  moreover have "clean_loop False [] (xs @ [[]]) = xs"
    using clean_loop_plain [of "xs @ [[]]" False "[]"] assms
    by (auto simp: named_def intro!: filter_True)
  ultimately show ?thesis using assms by (simp add: dir_name_def clean_def path_segs_def)
qed

definition ancestors_named :: "string list \<Rightarrow> string \<Rightarrow> string list" where
  "ancestors_named segs name =
     map (\<lambda>k. join [slash] (take k segs @ [name])) (rev [1..<Suc (length segs)])"

lemma ancestors_named_snoc:
  "ancestors_named (xs @ [x]) name = join [slash] (xs @ [x, name]) # ancestors_named xs name"
  by (auto simp: ancestors_named_def intro!: arg_cong [of _ _ "join [slash]"])

lemma walk_named:
  "\<forall>x \<in> set segs. named x \<Longrightarrow>
   findNamedGroup exists (join [slash] segs) name =
     Some (case find exists (ancestors_named segs name) of None \<Rightarrow> '''' | Some t \<Rightarrow> t)"
proof (induction segs rule: rev_induct)
  case Nil
  then show ?case by (simp add: findNamedGroup.simps [of exists "[]"] ancestors_named_def)
next
  case (snoc x xs)
  have ne: "join [slash] (xs @ [x]) \<noteq> []" using named_not_abs [OF snoc.prems] by simp
  have c: "join [slash] (xs @ [x]) @ ''/'' @ name = join [slash] (xs @ [x, name])"
    using join_snoc [of "xs @ [x]" slash name] by simp
  have d: "join [slash] (xs @ [x]) \<noteq> ''.''"
  proof (cases "xs = []")
    case True
    then show ?thesis using snoc.prems by (simp add: named_def dot_def)
  next
    case False
    then have "slash \<in> set (join [slash] (xs @ [x]))" by (simp add: join_snoc)
    then show ?thesis by auto
  qed
  show ?case
  proof (cases "xs = []")
    case True
    then have "slash \<notin> set (join [slash] (xs @ [x]))" using snoc.prems by (simp add: named_def)
    moreover have "ancestors_named [] name = []" by (simp add: ancestors_named_def)
    ultimately show ?thesis using ne c d True
      unfolding ancestors_named_snoc by (subst findNamedGroup.simps) (simp del: append.simps)
  next
    case False
    then have "slash \<in> set (join [slash] (xs @ [x]))" by (simp add: join_snoc)
    then show ?thesis using ne c d snoc.IH snoc.prems dir_name_named [OF snoc.prems False]
      unfolding ancestors_named_snoc by (subst findNamedGroup.simps) (simp del: append.simps)
  qed
qed

section \<open>The cache changes no answer\<close>

definition consistent :: "reads \<Rightarrow> string \<Rightarrow> chat_reads \<Rightarrow> bool" where
  "consistent db jid r =
     ((pin r = None \<or> pin r = Some (StickyTopic db jid)) \<and>
      (\<forall>t f. folders r t = Some f \<longrightarrow> f = fst (engagedFolder db jid t fresh_reads)))"

lemma consistent_fresh [simp]: "consistent db jid fresh_reads"
  by (simp add: consistent_def fresh_reads_def)

lemma effectiveTopic_cached:
  "consistent db jid r \<Longrightarrow> effectiveTopic db jid t r =
     (if StickyTopic db jid \<noteq> '''' then StickyTopic db jid else t, r\<lparr>pin := Some (StickyTopic db jid)\<rparr>) \<and>
   consistent db jid (r\<lparr>pin := Some (StickyTopic db jid)\<rparr>)"
  by (auto simp: effectiveTopic_def consistent_def Let_def)

lemma engagedRoot_cached:
  assumes "consistent db jid r"
  shows "fst (engagedRoot db jid r) = fst (engagedFolder db jid '''' fresh_reads) \<and>
    consistent db jid (snd (engagedRoot db jid r))"
proof -
  have v: "fst (engagedFolder db jid '''' fresh_reads) = (case Engaged db jid '''' of None \<Rightarrow> '''' | Some f \<Rightarrow> f)"
    by (simp add: engagedFolder_def engagedRoot_def fresh_reads_def Let_def)
  show ?thesis
  proof (cases "folders r ''''")
    case None
    then show ?thesis using assms v
      by (auto simp: engagedRoot_def Let_def consistent_def remember_def)
  next
    case (Some f)
    then show ?thesis using assms by (simp add: engagedRoot_def consistent_def)
  qed
qed

lemma engagedFolder_cached:
  assumes "consistent db jid r"
  shows "fst (engagedFolder db jid t r) = fst (engagedFolder db jid t fresh_reads) \<and>
    consistent db jid (snd (engagedFolder db jid t r))"
proof (cases "t = '''' \<or> folders r t \<noteq> None")
  case True
  show ?thesis
  proof (cases "t = ''''")
    case True
    have "engagedFolder db jid t r = engagedRoot db jid r" using True by (simp add: engagedFolder_def)
    then show ?thesis using engagedRoot_cached [OF assms] True by simp
  next
    case False
    then obtain f where f: "folders r t = Some f" using True by blast
    then have "engagedFolder db jid t r = (f, r)" using False by (simp add: engagedFolder_def)
    moreover have "f = fst (engagedFolder db jid t fresh_reads)"
      using assms f unfolding consistent_def by blast
    ultimately show ?thesis using assms by simp
  qed
next
  case False
  then have n: "t \<noteq> ''''" "folders r t = None" "folders fresh_reads t = None"
    by (auto simp: fresh_reads_def)
  note root = engagedRoot_cached [OF assms] engagedRoot_cached [of db jid fresh_reads, simplified]
  have k: "consistent db jid (remember t (fst (engagedFolder db jid t fresh_reads)) c)" if "consistent db jid c" for c
    using that by (simp add: consistent_def remember_def)
  show ?thesis
  proof (cases "Engaged db jid t = None \<and> ThreadDisengaged db jid t = Some False")
    case True
    have "engagedFolder db jid t c = (fst (engagedRoot db jid c), remember t (fst (engagedRoot db jid c)) (snd (engagedRoot db jid c)))"
      if "folders c t = None" for c
      using True n(1) that by (simp add: engagedFolder_def case_prod_beta)
    from this [OF n(2)] this [OF n(3)] show ?thesis using root k by simp
  next
    case False
    define f where "f = (case Engaged db jid t of None \<Rightarrow> '''' | Some f \<Rightarrow> f)"
    have "engagedFolder db jid t c = (f, remember t f c)" if "folders c t = None" for c
      using False n(1) that
      by (cases "Engaged db jid t"; cases "ThreadDisengaged db jid t") (simp_all add: engagedFolder_def f_def)
    from this [OF n(2)] this [OF n(3)] show ?thesis using k [OF assms] by simp
  qed
qed

text \<open>Whether a row may ride the engagement of its chat.\<close>

definition rides :: "reads \<Rightarrow> string \<Rightarrow> message \<Rightarrow> bool" where
  [go_defs]: "rides db jid m =
     (if Verb m \<noteq> '''' \<and> Verb m \<noteq> ''message'' \<and> Verb m \<noteq> ''mention'' then False
      else \<not> (Verb m \<noteq> ''mention'' \<and> ReplyToID m \<noteq> '''' \<and>
        (case MessageByID db jid (ReplyToID m) of None \<Rightarrow> False | Some parent \<Rightarrow> \<not> AddressesBot parent)))"

lemma engaged_alt:
  "engaged db jid t m r = (if rides db jid m then engagedFolder db jid t r else ('''', r))"
proof -
  have "(if a then x else if b then x else y) = (if (if a then False else \<not> b) then y else x)" for a b and x y :: 'a
    by simp
  then show ?thesis unfolding engaged_def rides_def .
qed

lemma engaged_cached:
  "consistent db jid r \<Longrightarrow>
   fst (engaged db jid t m r) = fst (engaged db jid t m fresh_reads) \<and>
   consistent db jid (snd (engaged db jid t m r))"
  unfolding engaged_alt using engagedFolder_cached [of db jid r t] by (cases "rides db jid m") simp_all

text \<open>How the matched target and the folder that is engaged decide.\<close>

definition routed_choice :: "route_target \<Rightarrow> string \<Rightarrow> resolution" where
  "routed_choice rt folder =
     (if Folder rt = '''' then
        (if folder \<noteq> '''' then no_resolution\<lparr>ResFolder := folder, ok := True\<rparr> else no_resolution)
      else if Mode rt = ''engaged'' then
        (if folder \<noteq> '''' then no_resolution\<lparr>ResFolder := folder, ok := True\<rparr>
         else no_resolution\<lparr>Observe := Folder rt\<rparr>)
      else if folder \<noteq> '''' then
        no_resolution\<lparr>ResFolder := folder, ok := True, Addressed := (Mode rt \<noteq> ''observe'')\<rparr>
      else if Mode rt = ''observe'' then no_resolution\<lparr>Observe := Folder rt\<rparr>
      else no_resolution\<lparr>ResFolder := Folder rt, ResTopic := TargetTopic rt, ok := True, Addressed := True\<rparr>)"

definition routed_engagement ::
  "reads \<Rightarrow> string \<Rightarrow> message \<Rightarrow> route_target \<Rightarrow> string \<Rightarrow> chat_reads \<Rightarrow> string \<times> chat_reads" where
  "routed_engagement db jid m rt t c =
     (if Folder rt \<noteq> '''' \<and> Mode rt = ''engaged'' then engagedFolder db jid t c else engaged db jid t m c)"

lemma routedFolder_alt:
  "routedFolder db jid m rt r =
     (let (t, c) = effectiveTopic db jid (Topic m) r; (folder, c) = routed_engagement db jid m rt t c
      in (routed_choice rt folder, c))"
  unfolding routedFolder_def routed_choice_def routed_engagement_def Let_def case_prod_beta
  by (cases "Folder rt = ''''"; cases "Mode rt = ''engaged''")
    (simp_all only: simp_thms if_True if_False)

lemma routedFolder_cached:
  assumes "consistent db jid r"
  shows "fst (routedFolder db jid m rt r) = fst (routedFolder db jid m rt fresh_reads) \<and>
    consistent db jid (snd (routedFolder db jid m rt r))"
proof -
  let ?t = "if StickyTopic db jid \<noteq> '''' then StickyTopic db jid else Topic m"
  let ?pin = "\<lambda>c. c\<lparr>pin := Some (StickyTopic db jid)\<rparr>"
  have e: "effectiveTopic db jid (Topic m) c = (?t, ?pin c)" "consistent db jid (?pin c)"
    if "consistent db jid c" for c
    using effectiveTopic_cached [OF that, of "Topic m"] by simp_all
  have g: "fst (routed_engagement db jid m rt ?t (?pin c)) = fst (routed_engagement db jid m rt ?t fresh_reads) \<and>
      consistent db jid (snd (routed_engagement db jid m rt ?t (?pin c)))" if "consistent db jid c" for c
    unfolding routed_engagement_def
    using engagedFolder_cached [OF e(2) [OF that], of ?t] engaged_cached [OF e(2) [OF that], of ?t m]
    by (cases "Folder rt \<noteq> '''' \<and> Mode rt = ''engaged''") (simp_all only: if_True if_False simp_thms)
  show ?thesis
    unfolding routedFolder_alt e(1) [OF assms] e(1) [OF consistent_fresh] Let_def case_prod_beta fst_conv snd_conv
    using g [OF assms] g [OF consistent_fresh] by (simp only: simp_thms)
qed

definition at_choice :: "reads \<Rightarrow> message \<Rightarrow> bool \<Rightarrow> resolution \<Rightarrow> resolution option" where
  "at_choice db m b res =
     (if b then
        map_option (\<lambda>t. if (if ResFolder res = '''' then Observe res else ResFolder res) \<noteq> '''' \<and> t \<noteq> '''' then
            no_resolution\<lparr>ResFolder := t, ok := True, Addressed := True, AtName := True\<rparr> else res)
          (findNamedGroup (GroupExists db) (if ResFolder res = '''' then Observe res else ResFolder res)
             (fst (the (leadingAt (Content m)))))
      else Some res)"

lemma resolveFolder_alt:
  obtains A X rt b where "\<And>r. resolveFolder db jid m routes r =
    (if A then Some (X, r)
     else map_option (\<lambda>res. (res, snd (routedFolder db jid m rt r)))
       (at_choice db m b (fst (routedFolder db jid m rt r))))"
proof -
  define row where "row = (case routes of None \<Rightarrow> None
      | Some rs \<Rightarrow> MatchRoute (m\<lparr>Content := snd (typedText (Content m))\<rparr>) rs)"
  define rt where "rt = ParseRouteTarget (case row of None \<Rightarrow> [] | Some (_, target) \<Rightarrow> target)"
  define hasAt where "hasAt = (leadingAt (Content m) \<noteq> None \<and> \<not> BotMsg m \<and> \<not> isSystemTrigger (Sender m))"
  define atRow where "atRow = (case row of None \<Rightarrow> False | Some (x, _) \<Rightarrow> HasAt x)"
  define X where "X = no_resolution\<lparr>ResFolder := Folder rt, ResTopic := TargetTopic rt, ok := True,
    Addressed := True, AtName := True\<rparr>"
  have "resolveFolder db jid m routes r =
    (if hasAt \<and> atRow \<and> Folder rt \<noteq> [] \<and> Mode rt = [] then Some (X, r)
     else map_option (\<lambda>res. (res, snd (routedFolder db jid m rt r)))
       (at_choice db m (hasAt \<and> \<not> atRow) (fst (routedFolder db jid m rt r))))" for r
  proof -
    obtain res r' where q: "routedFolder db jid m rt r = (res, r')" by force
    show ?thesis
      unfolding resolveFolder_def Let_def row_def [symmetric] rt_def [symmetric] hasAt_def [symmetric]
        atRow_def [symmetric] X_def [symmetric] q prod.case at_choice_def fst_conv snd_conv
      by (cases "findNamedGroup (GroupExists db) (if ResFolder res = [] then Observe res else ResFolder res)
            (fst (the (leadingAt (Content m))))") simp_all
  qed
  then show thesis by (rule that)
qed

lemma resolve_row_cached:
  assumes "consistent db jid r"
  shows "map_option fst (resolve_row db jid m r) = map_option fst (resolve_row db jid m fresh_reads) \<and>
    (\<forall>res r'. resolve_row db jid m r = Some (res, r') \<longrightarrow> consistent db jid r')"
proof (cases "is_direct db jid")
  case True
  then show ?thesis using assms by (simp add: resolve_row_def)
next
  case False
  obtain A X rt b where f: "\<And>r. resolveFolder db jid m (Routes db) r =
    (if A then Some (X, r)
     else map_option (\<lambda>res. (res, snd (routedFolder db jid m rt r)))
       (at_choice db m b (fst (routedFolder db jid m rt r))))"
    using resolveFolder_alt by blast
  note c = routedFolder_cached [OF assms, of m rt]
  show ?thesis
  proof (cases A)
    case True
    then show ?thesis using assms False by (simp add: resolve_row_def f)
  next
    case na: False
    show ?thesis
    proof (cases "at_choice db m b (fst (routedFolder db jid m rt fresh_reads))")
      case None
      then show ?thesis using c na False by (simp add: resolve_row_def f)
    next
      case (Some res)
      then show ?thesis using c na False by (simp add: resolve_row_def f)
    qed
  qed
qed

text \<open>A row resolved with nothing read before.\<close>

definition resolve :: "reads \<Rightarrow> string \<Rightarrow> message \<Rightarrow> resolution option" where
  [go_defs]: "resolve db jid m = map_option hd (resolveRows db jid [m])"

lemma resolve_alone: "resolve db jid m = map_option fst (resolve_row db jid m fresh_reads)"
  by (auto simp: resolve_def resolveRows_def split: option.splits)

lemma resolve_loop_cached:
  "consistent db jid r \<Longrightarrow> resolve_loop db jid ms r = those (map (resolve db jid) ms)"
proof (induction ms arbitrary: r)
  case (Cons m ms)
  note c = resolve_row_cached [OF Cons.prems, of m]
  show ?case
  proof (cases "resolve_row db jid m r")
    case None
    then show ?thesis using c by (simp add: resolve_alone split: option.splits)
  next
    case (Some x)
    then obtain res r' where x: "resolve_row db jid m r = Some (res, r')" by (cases x) auto
    then have "resolve db jid m = Some res" "consistent db jid r'"
      using c by (auto simp: resolve_alone)
    then show ?thesis using x Cons.IH [of r'] by simp
  qed
qed simp

section \<open>Rows and batches\<close>

lemma place_length: "length (place msgs rows) = length msgs"
  by (induction msgs arbitrary: rows) auto

lemma place_map:
  "place msgs (map f (filter (\<lambda>m. \<not> BotMsg m) msgs)) = map (\<lambda>m. if BotMsg m then no_resolution else f m) msgs"
  by (induction msgs) auto

lemma those_map: "those (map f xs) = Some ys \<longleftrightarrow> (\<forall>x \<in> set xs. f x \<noteq> None) \<and> ys = map (\<lambda>x. the (f x)) xs"
  by (induction xs arbitrary: ys) (auto split: option.splits)

lemma resolveRows_alone: "resolveRows db jid rows = those (map (resolve db jid) rows)"
  by (simp add: resolveRows_def resolve_loop_cached)

lemma find_rev_split:
  "\<forall>z \<in> set zs. \<not> P z \<Longrightarrow> P x \<Longrightarrow> find P (rev (ys @ x # zs)) = Some x"
proof -
  assume n: "\<forall>z \<in> set zs. \<not> P z" "P x"
  have "find P (us @ x # vs) = Some x" if "\<forall>z \<in> set us. \<not> P z" for us vs
    using that n(2) by (induction us) auto
  then show ?thesis using n(1) by simp
qed

lemma filter_split:
  assumes "filter P xs = ys @ x # zs"
  obtains us vs where "xs = us @ x # vs" "P x" "filter P vs = zs"
  using assms
proof (induction ys arbitrary: xs thesis)
  case Nil
  then obtain us vs where "xs = us @ x # vs" "P x" "zs = filter P vs"
    by (auto simp: filter_eq_Cons_iff)
  then show ?case using Nil by blast
next
  case (Cons y ys)
  then obtain us vs where u: "xs = us @ y # vs" "filter P vs = ys @ x # zs"
    by (auto simp: filter_eq_Cons_iff)
  obtain as bs where "vs = as @ x # bs" "P x" "filter P bs = zs" using Cons.IH [OF _ u(2)] by blast
  then show ?case using Cons.prems(1) [of "us @ y # as" bs] u(1) by simp
qed

text \<open>What a batch takes: the newest of the user rows that dispatch, or with none the newest of all.\<close>

lemma batch_pick:
  assumes "\<exists>m \<in> set msgs. \<not> BotMsg m"
  obtains earlier m later where "msgs = earlier @ m # later" "\<not> BotMsg m"
    "(case find P (rev (map f (filter (\<lambda>m. \<not> BotMsg m) msgs))) of Some r \<Rightarrow> r
      | None \<Rightarrow> last (map f (filter (\<lambda>m. \<not> BotMsg m) msgs))) = f m"
    "\<forall>x \<in> set later. BotMsg x \<or> (P (f m) \<and> \<not> P (f x))"
    "P (f m) = (\<exists>x \<in> set msgs. \<not> BotMsg x \<and> P (f x))"
proof -
  let ?users = "filter (\<lambda>m. \<not> BotMsg m) msgs"
  show thesis
  proof (cases "\<exists>x \<in> set ?users. P (f x)")
    case True
    then obtain ys m zs where s: "?users = ys @ m # zs" "P (f m)" "\<forall>z \<in> set zs. \<not> P (f z)"
      using split_list_last_prop [of ?users "\<lambda>x. P (f x)"] by auto
    obtain us vs where v: "msgs = us @ m # vs" "\<not> BotMsg m" "filter (\<lambda>m. \<not> BotMsg m) vs = zs"
      using filter_split [OF s(1)] by blast
    have "find P (rev (map f ?users)) = Some (f m)"
      unfolding s(1) using find_rev_split [of "map f zs" P "f m" "map f ys"] s(2,3) by simp
    moreover have "\<forall>x \<in> set vs. BotMsg x \<or> (P (f m) \<and> \<not> P (f x))" using s(2,3) v(3) by auto
    moreover have "P (f m) = (\<exists>x \<in> set msgs. \<not> BotMsg x \<and> P (f x))" using s(2) v by auto
    ultimately show ?thesis using that [OF v(1,2)] by simp
  next
    case False
    have ne: "?users \<noteq> []" using assms by (auto simp: filter_empty_conv)
    then have s: "?users = butlast ?users @ last ?users # []" by simp
    obtain us vs where v: "msgs = us @ last ?users # vs" "\<not> BotMsg (last ?users)" "filter (\<lambda>m. \<not> BotMsg m) vs = []"
      using filter_split [OF s] by blast
    have "find P (rev (map f ?users)) = None" using False by (auto simp: find_None_iff)
    moreover have "\<forall>x \<in> set vs. BotMsg x \<or> (P (f (last ?users)) \<and> \<not> P (f x))"
      using v(3) by (auto simp: filter_empty_conv)
    moreover have "P (f (last ?users)) = (\<exists>x \<in> set msgs. \<not> BotMsg x \<and> P (f x))"
      using False v(2) last_in_set [OF ne] by auto
    ultimately show ?thesis using that [OF v(1,2)] ne by (simp add: last_map)
  qed
qed

section \<open>Properties\<close>

text \<open>C33. A batch is decided row by row: what one row resolves to does not depend on the other rows
  or on what was read for them (the answers kept for the batch change none), a bot row resolves to
  nothing, and the batch takes the newest user row that dispatches, or with none the newest user row.\<close>

theorem batch_decides:
  assumes "\<exists>m \<in> set msgs. \<not> BotMsg m" "resolveBatch db jid msgs = Some (b, rows)"
  shows "rows = map (\<lambda>m. if BotMsg m then no_resolution else the (resolve db jid m)) msgs \<and>
    (\<exists>earlier m later. msgs = earlier @ m # later \<and> \<not> BotMsg m \<and> resolve db jid m = Some b \<and>
       (\<forall>x \<in> set later. BotMsg x \<or> (ok b \<and> \<not> ok (the (resolve db jid x)))) \<and>
       ok b = (\<exists>x \<in> set msgs. \<not> BotMsg x \<and> ok (the (resolve db jid x))))"
proof -
  let ?users = "filter (\<lambda>m. \<not> BotMsg m) msgs" and ?f = "\<lambda>m. the (resolve db jid m)"
  have all: "\<forall>m \<in> set ?users. resolve db jid m \<noteq> None"
    and r: "rows = place msgs (map ?f ?users)"
      "b = (case find ok (rev (map ?f ?users)) of Some r \<Rightarrow> r | None \<Rightarrow> last (map ?f ?users))"
    using assms(2) by (auto simp: resolveBatch_def resolveRows_alone those_map)
  show ?thesis
  proof (rule batch_pick [OF assms(1), where P = ok and f = ?f], fold r(2))
    fix earlier m later
    assume p: "msgs = earlier @ m # later" "\<not> BotMsg m" "b = ?f m"
      "\<forall>x \<in> set later. BotMsg x \<or> (ok (?f m) \<and> \<not> ok (?f x))"
      "ok (?f m) = (\<exists>x \<in> set msgs. \<not> BotMsg x \<and> ok (?f x))"
    have "resolve db jid m = Some b" using p(1-3) all by auto
    moreover have "rows = map (\<lambda>m. if BotMsg m then no_resolution else ?f m) msgs"
      unfolding r(1) by (rule place_map)
    ultimately show ?thesis using p by blast
  qed
qed

lemma routed_choice_shape:
  assumes "res = routed_choice rt folder"
  shows "ok res = (ResFolder res \<noteq> '''') \<and> (Observe res = '''' \<or> \<not> ok res) \<and>
    (Addressed res \<longrightarrow> ok res) \<and> \<not> AtName res \<and> (ResTopic res = '''' \<or> ok res) \<and>
    (ResFolder res \<in> {'''', folder, Folder rt}) \<and> Observe res \<in> {'''', Folder rt}"
  using assms by (auto simp: routed_choice_def no_resolution_def)

lemma resolve_routed:
  "resolve db jid m =
     map_option (\<lambda>res. if isSystemTrigger (Sender m) then res\<lparr>Addressed := False\<rparr> else res)
       (if is_direct db jid then Some (no_resolution\<lparr>ResFolder := directFolder db jid, ok := True,
            Addressed := (JidPlatform jid = ''web'')\<rparr>)
        else map_option fst (resolveFolder db jid m (Routes db) fresh_reads))"
  by (cases "is_direct db jid"; cases "resolveFolder db jid m (Routes db) fresh_reads")
    (auto simp: resolve_alone resolve_row_def)

text \<open>What the two ways of deciding a row give.\<close>

lemma resolveFolder_cases:
  assumes "map_option fst (resolveFolder db jid m routes fresh_reads) = Some res"
  obtains (routed) rt folder where "res = routed_choice rt folder"
  | (named) t where "res = no_resolution\<lparr>ResFolder := t, ResTopic := ResTopic res, ok := True, Addressed := True,
      AtName := True\<rparr>" "t \<noteq> ''''" "\<not> BotMsg m" "\<not> isSystemTrigger (Sender m)"
proof -
  have r: "\<exists>rt folder. fst (routedFolder db jid m rt' fresh_reads) = routed_choice rt folder" for rt'
    unfolding routedFolder_alt by (auto simp: case_prod_beta Let_def)
  define row where "row = (case routes of None \<Rightarrow> None
      | Some rs \<Rightarrow> MatchRoute (m\<lparr>Content := snd (typedText (Content m))\<rparr>) rs)"
  define rt where "rt = ParseRouteTarget (case row of None \<Rightarrow> [] | Some (_, target) \<Rightarrow> target)"
  define hasAt where "hasAt = (leadingAt (Content m) \<noteq> None \<and> \<not> BotMsg m \<and> \<not> isSystemTrigger (Sender m))"
  define atRow where "atRow = (case row of None \<Rightarrow> False | Some (x, _) \<Rightarrow> HasAt x)"
  obtain q r' where q: "routedFolder db jid m rt fresh_reads = (q, r')" by force
  obtain rt1 f1 where q1: "q = routed_choice rt1 f1" using r [of rt] q by auto
  note u = assms [unfolded resolveFolder_def Let_def row_def [symmetric] rt_def [symmetric]
      hasAt_def [symmetric] atRow_def [symmetric] q prod.case]
  show thesis
  proof (cases "hasAt \<and> atRow \<and> Folder rt \<noteq> [] \<and> Mode rt = []")
    case True
    then have "res = no_resolution\<lparr>ResFolder := Folder rt, ResTopic := TargetTopic rt, ok := True,
        Addressed := True, AtName := True\<rparr>"
      using u by (simp add: hasAt_def)
    then show thesis using True named [of "Folder rt"] by (simp add: hasAt_def)
  next
    case False
    show thesis
    proof (cases "hasAt \<and> \<not> atRow")
      case at: True
      then obtain t where "res = (if (if ResFolder q = [] then Observe q else ResFolder q) \<noteq> [] \<and> t \<noteq> []
          then no_resolution\<lparr>ResFolder := t, ok := True, Addressed := True, AtName := True\<rparr> else q)"
        using u False by (auto split: option.splits)
      then show thesis using named [of t] routed [of rt1 f1] q1 at
        by (auto simp: hasAt_def no_resolution_def split: if_splits)
    next
      case no: False
      then have "res = q" using u False unfolding if_not_P [OF False] if_not_P [OF no] by auto
      then show thesis using routed q1 by blast
    qed
  qed
qed

text \<open>C35. What a row resolves to is well formed: it dispatches exactly when it names a folder, a row that is
  only observed does not dispatch, only a dispatched row is addressed, pins a topic or was selected by its
  leading name, and neither a bot's row nor a task's or the system's is selected by a name, the latter never addressed.\<close>

theorem resolution_shape:
  assumes "resolve db jid m = Some r"
  shows "ok r = (ResFolder r \<noteq> '''') \<and> (Observe r = '''' \<or> \<not> ok r) \<and>
    (Addressed r \<longrightarrow> ok r \<and> \<not> isSystemTrigger (Sender m)) \<and>
    (ResTopic r = '''' \<or> ok r) \<and>
    (AtName r \<longrightarrow> ok r \<and> \<not> BotMsg m \<and> \<not> isSystemTrigger (Sender m))"
proof (cases "is_direct db jid")
  case True
  then show ?thesis using assms
    by (cases "isSystemTrigger (Sender m)") (auto simp: resolve_routed is_direct_def no_resolution_def)
next
  case False
  then obtain res where res: "map_option fst (resolveFolder db jid m (Routes db) fresh_reads) = Some res"
    "r = (if isSystemTrigger (Sender m) then res\<lparr>Addressed := False\<rparr> else res)"
    using assms by (auto simp: resolve_routed)
  from res(1) show ?thesis
  proof (cases rule: resolveFolder_cases)
    case (routed rt folder)
    then show ?thesis using routed_choice_shape [OF routed] res(2) by auto
  next
    case (named t)
    have "ok res \<and> ResFolder res = t \<and> Observe res = [] \<and> Addressed res"
      by (subst (1 2 3 4) named(1)) (simp add: no_resolution_def)
    then show ?thesis using res(2) named(2-4) by simp
  qed
qed

lemma engagedFolder_values:
  "fst (engagedFolder db jid t r0) = f \<Longrightarrow> r0 = fresh_reads\<lparr>pin := p\<rparr> \<Longrightarrow> f = '''' \<or> (\<exists>t. Engaged db jid t = Some f)"
proof -
  assume a: "fst (engagedFolder db jid t r0) = f" and r: "r0 = fresh_reads\<lparr>pin := p\<rparr>"
  have root: "fst (engagedRoot db jid r0) = '''' \<or> (\<exists>t. Engaged db jid t = Some (fst (engagedRoot db jid r0)))"
    unfolding r by (cases "Engaged db jid ''''") (auto simp: engagedRoot_def fresh_reads_def)
  show ?thesis
  proof (cases "t = ''''")
    case True
    then show ?thesis using a root by (simp add: engagedFolder_def)
  next
    case False
    then show ?thesis
      using a root unfolding engagedFolder_def r
      by (cases "Engaged db jid t"; cases "ThreadDisengaged db jid t")
        (auto simp: fresh_reads_def case_prod_beta split: if_splits bool.splits)
  qed
qed

lemma routed_engagement_values:
  "fst (routed_engagement db jid m rt t (fresh_reads\<lparr>pin := p\<rparr>)) = f \<Longrightarrow>
   f = '''' \<or> (\<exists>t. Engaged db jid t = Some f)"
  unfolding routed_engagement_def engaged_alt using engagedFolder_values [OF _ refl]
  by (auto split: if_splits)

lemma parse_folder_rel: "\<not> is_abs s \<Longrightarrow> \<not> is_abs (Folder (ParseRouteTarget s))"
proof (cases s rule: target_texts)
  case (fragment f t)
  assume "\<not> is_abs s"
  then have "\<not> is_abs f" using fragment(1) by (cases f) (auto simp: is_abs_def)
  then show ?thesis by (simp add: fragment(1) parse_fragment [OF fragment(2)])
qed (simp add: parse_plain)

text \<open>C34. Resolution ends: a row of a chat is always resolved when no target the route table can
  give it and no engaged folder is an absolute path; the search for a named group then walks up the
  elements of the folder, nearest first, and stops at the first element, so a name
  never leaves the tenant it is used in.\<close>

theorem resolve_returns:
  assumes "\<forall>rs r. Routes db = Some rs \<and> r \<in> set rs \<longrightarrow> \<not> is_abs (expandTarget (Target r) m)"
    and "\<forall>t f. Engaged db jid t = Some f \<longrightarrow> \<not> is_abs f"
    and "\<forall>x \<in> set segs. named x"
  shows "resolve db jid m \<noteq> None \<and>
    findNamedGroup exists (join [slash] segs) name =
      Some (case find exists (ancestors_named segs name) of None \<Rightarrow> '''' | Some t \<Rightarrow> t)"
proof
  have e: "expandTarget t (m\<lparr>Content := c\<rparr>) = expandTarget t m" for t c
    by (simp add: expandTarget_def)
  have ends: "findNamedGroup (GroupExists db) base n \<noteq> None" if "base = '''' \<or> \<not> is_abs base" for base n
    using that walk_ends by (auto simp: findNamedGroup.simps [of _ "[]"])
  have "resolveFolder db jid m (Routes db) fresh_reads \<noteq> None"
  proof -
    define row where "row = (case Routes db of None \<Rightarrow> None
        | Some rs \<Rightarrow> MatchRoute (m\<lparr>Content := snd (typedText (Content m))\<rparr>) rs)"
    define target where "target = (case row of None \<Rightarrow> [] | Some (_, target) \<Rightarrow> target)"
    have "\<not> is_abs target"
      using assms(1) by (auto simp: target_def row_def is_abs_def MatchRoute_find e find_Some_iff split: option.splits)
    then have f: "\<not> is_abs (Folder (ParseRouteTarget target))" by (rule parse_folder_rel)
    obtain q r' where q: "routedFolder db jid m (ParseRouteTarget target) fresh_reads = (q, r')" by force
    obtain t p where "effectiveTopic db jid (Topic m) fresh_reads = (t, fresh_reads\<lparr>pin := p\<rparr>)"
      using effectiveTopic_cached [OF consistent_fresh, of db jid "Topic m"] by blast
    then have "q = routed_choice (ParseRouteTarget target)
        (fst (routed_engagement db jid m (ParseRouteTarget target) t (fresh_reads\<lparr>pin := p\<rparr>)))"
      using q unfolding routedFolder_alt by (simp add: case_prod_beta Let_def)
    then have "\<exists>g. q = routed_choice (ParseRouteTarget target) g \<and> (g = '''' \<or> (\<exists>t. Engaged db jid t = Some g))"
      using routed_engagement_values [OF refl] by blast
    then obtain g where g: "q = routed_choice (ParseRouteTarget target) g" "g = '''' \<or> (\<exists>t. Engaged db jid t = Some g)"
      by blast
    then have "ResFolder q \<in> {'''', g, Folder (ParseRouteTarget target)}" "Observe q \<in> {'''', Folder (ParseRouteTarget target)}"
      using routed_choice_shape [OF g(1)] by blast+
    moreover have "\<not> is_abs g" "\<not> is_abs ''''" using g(2) assms(2) by (auto simp: is_abs_def)
    ultimately have "\<not> is_abs (ResFolder q)" "\<not> is_abs (Observe q)" using f by auto
    then have "findNamedGroup (GroupExists db) (if ResFolder q = [] then Observe q else ResFolder q) n \<noteq> None" for n
      using ends by simp
    then obtain t where t: "findNamedGroup (GroupExists db) (if ResFolder q = [] then Observe q else ResFolder q)
        (fst (the (leadingAt (Content m)))) = Some t" by blast
    show ?thesis
      unfolding resolveFolder_def Let_def row_def [symmetric] target_def [symmetric] q prod.case t option.case(2)
      by simp
  qed
  then show "resolve db jid m \<noteq> None" by (auto simp: resolve_routed)
  show "findNamedGroup exists (join [slash] segs) name =
      Some (case find exists (ancestors_named segs name) of None \<Rightarrow> '''' | Some t \<Rightarrow> t)"
    using assms(3) by (rule walk_named)
qed

section \<open>Witnesses\<close>

text \<open>A chat with one route and no engagement; two groups of a tenant exist.\<close>

definition desk :: reads where
  "desk = \<lparr>GroupExists = (\<lambda>f. f \<in> {''acme/eng'', ''acme/ops''}),
     Routes = Some [plain_route 1 '''' ''acme/eng''], RouteTokenTarget = (\<lambda>_. ''''),
     StickyTopic = (\<lambda>_. ''''), MessageByID = (\<lambda>_ _. None), Engaged = (\<lambda>_ _. None),
     ThreadDisengaged = (\<lambda>_ _. Some False)\<rparr>"

definition at_ops :: message where
  "at_ops = sample_message\<lparr>Content := ''@ops restart''\<rparr>"

lemma resolve_returns_witness:
  "resolve desk ''telegram:group/5'' at_ops \<noteq> None \<and>
   findNamedGroup (GroupExists desk) ''acme/eng'' ''ops'' = Some ''acme/ops''"
proof -
  have "expandTarget ''acme/eng'' at_ops = ''acme/eng''" by (simp add: expandTarget_def)
  then show ?thesis
    using resolve_returns [of desk at_ops "''telegram:group/5''" "[''acme'', ''eng'']" "GroupExists desk" "''ops''"]
    by (auto simp: desk_def plain_route_def is_abs_def named_def dot_def dotdot_def ancestors_named_def)
qed

lemma desk_resolves:
  "resolve desk ''telegram:group/5'' at_ops =
     Some (no_resolution\<lparr>ResFolder := ''acme/ops'', ok := True, Addressed := True, AtName := True\<rparr>)"
  by code_simp

lemma resolution_shape_witness:
  "\<not> isSystemTrigger (Sender at_ops) \<and> \<not> BotMsg at_ops"
  using resolution_shape [OF desk_resolves] by simp

lemma batch_decides_witness:
  "\<exists>b rows. resolveBatch desk ''telegram:group/5'' [at_ops, at_ops\<lparr>BotMsg := True\<rparr>] = Some (b, rows) \<and>
     length rows = 2 \<and> rows ! 1 = no_resolution"
proof -
  let ?msgs = "[at_ops, at_ops\<lparr>BotMsg := True\<rparr>]"
  have b: "\<not> BotMsg at_ops" by code_simp
  have "resolveRows desk ''telegram:group/5'' [at_ops] = Some [the (resolve desk ''telegram:group/5'' at_ops)]"
    by (simp add: resolveRows_alone desk_resolves)
  then obtain x rows where x: "resolveBatch desk ''telegram:group/5'' ?msgs = Some (x, rows)"
    using b by (simp add: resolveBatch_def)
  have "rows = map (\<lambda>m. if BotMsg m then no_resolution else the (resolve desk ''telegram:group/5'' m)) ?msgs"
    using batch_decides [OF _ x] b by auto
  then show ?thesis using x by auto
qed

text \<open>C36. A row whose target is an absolute path makes the search for a named group run for ever:
  the parent of the root directory is the root directory. A message that leads with a name then never resolves.\<close>

theorem absolute_target_hangs:
  "findNamedGroup (\<lambda>_. False) ''/acme'' name = None \<and>
   resolve (desk\<lparr>GroupExists := \<lambda>_. False, Routes := Some [plain_route 1 '''' ''/acme'']\<rparr>)
     ''telegram:group/5'' at_ops = None"
proof
  have w: "findNamedGroup (\<lambda>_. False) ''/acme'' n = None" for n
  proof (rule ccontr)
    assume "findNamedGroup (\<lambda>_. False) ''/acme'' n \<noteq> None"
    then show False using walk_returns [of "\<lambda>_. False" "''/acme''" n] by (auto simp: is_abs_def)
  qed
  then show "findNamedGroup (\<lambda>_. False) ''/acme'' name = None" .
  let ?db = "desk\<lparr>GroupExists := \<lambda>_. False, Routes := Some [plain_route 1 '''' ''/acme'']\<rparr>"
  have "\<not> is_direct ?db ''telegram:group/5''" by code_simp
  moreover have "Routes ?db = Some [plain_route 1 '''' ''/acme'']" "GroupExists ?db = (\<lambda>_. False)" by simp_all
  moreover have "MatchRoute (at_ops\<lparr>Content := snd (typedText (Content at_ops))\<rparr>) [plain_route 1 '''' ''/acme''] =
      Some (plain_route 1 '''' ''/acme'', ''/acme'')" by code_simp
  moreover have "leadingAt (Content at_ops) \<noteq> None" "\<not> HasAt (plain_route 1 '''' ''/acme'')"
    "\<not> BotMsg at_ops" "\<not> isSystemTrigger (Sender at_ops)" by code_simp+
  moreover have "(let res = fst (routedFolder ?db ''telegram:group/5'' at_ops (ParseRouteTarget ''/acme'') fresh_reads)
      in if ResFolder res = '''' then Observe res else ResFolder res) = ''/acme''" by code_simp
  ultimately show "resolve ?db ''telegram:group/5'' at_ops = None"
    unfolding resolve_routed resolveFolder_def Let_def case_prod_beta
    by (simp only: option.case prod.case snd_conv fst_conv w if_False if_True simp_thms option.map)
qed

end
