(* ===== verification/Batch_Contract.thy ===== *)
theory Batch_Contract
  imports Dynstore Store_Contract
begin

text \<open>
  The contract of a guarded batch, and the driver's proof of it. A batch commits when every condition
  holds on the items as they are (\<open>batch_ok\<close>), and then writes all of them at once: \<open>batch_effect\<close> is
  what the driver's rendering writes, which the other theories build on, and \<open>doc_effect\<close> what objstore/batch.go
  promises; the two are equal exactly when no Merge adds a birth attribute to an item that already exists. \<open>serve\<close> is the documented
  behaviour of TransactWriteItems on the rendered actions, for an endpoint that may lose a request or its answer. \<open>batch_store\<close> is the interface the
  writers use; the driver over that endpoint is its instance.
\<close>

section \<open>The contract\<close>

type_synonym item_map = "coord \<Rightarrow> attrs option"

definition attrs_of :: "attrs option \<Rightarrow> attrs" where
  [go_defs]: "attrs_of m = (case m of None \<Rightarrow> Map.empty | Some x \<Rightarrow> x)"

definition cond_ok :: "Cond \<Rightarrow> attrs option \<Rightarrow> bool" where
  [go_defs]: "cond_ok c m =
     ((case cond_item c of ItemAny \<Rightarrow> True | ItemPresent \<Rightarrow> m \<noteq> None | ItemAbsent \<Rightarrow> m = None) \<and>
      list_all (cmp_match (attrs_of m)) (cond_where c))"

definition write_ok :: "Write \<Rightarrow> attrs option \<Rightarrow> bool" where
  [go_defs]: "write_ok w m = ((w_op w = Update \<longrightarrow> m \<noteq> None) \<and> cond_ok (w_cond w) m)"

text \<open>What a write, as the driver renders it, leaves at its item. An attribute a Merge is born with is written
  where the item has none (\<open>if_not_exists\<close>); objstore/batch.go promises it for a new item only, which
  is \<open>doc_written\<close> below.\<close>

definition merged :: "Write \<Rightarrow> attrs \<Rightarrow> attrs" where
  [go_defs]: "merged w m a =
     (if a \<in> set (w_remove w) then None
      else case map_of (w_attrs w) a of
        Some v \<Rightarrow> Some v
      | None \<Rightarrow> (case m a of Some v \<Rightarrow> Some v | None \<Rightarrow> map_of (w_init w) a))"

definition written :: "Write \<Rightarrow> attrs option \<Rightarrow> attrs option" where
  [go_defs]: "written w m =
     (case w_op w of
        Put \<Rightarrow> Some (map_of (w_attrs w))
      | Delete \<Rightarrow> None
      | _ \<Rightarrow> Some (merged w (attrs_of m)))"

definition place_of :: "Write \<Rightarrow> coord" where
  [go_defs]: "place_of w = coord_of (w_entity w) (w_key w)"

definition batch_ok :: "item_map \<Rightarrow> Check list \<Rightarrow> Write list \<Rightarrow> bool" where
  [go_defs]: "batch_ok db checks writes =
     (list_all (\<lambda>c. cond_ok (k_cond c) (db (coord_of (k_entity c) (k_key c)))) checks \<and>
      list_all (\<lambda>w. write_ok w (db (place_of w))) writes)"

fun batch_effect :: "item_map \<Rightarrow> Write list \<Rightarrow> item_map" where
  "batch_effect db [] = db"
| "batch_effect db (w # ws) = batch_effect (db(place_of w := written w (db (place_of w)))) ws"

section \<open>The endpoint\<close>

text \<open>What happens to a request: it is served, it never arrives, or its answer is lost. The
  endpoint here keeps its items in a list, so that what it answers computes.\<close>

datatype mishap = Fine | Lost | Unanswered

record world =
  shelf :: "(coord \<times> attr_list) list"
  mishaps :: "mishap list"

definition items :: "world \<Rightarrow> item_map" where
  [go_defs]: "items w = (\<lambda>c. map_option map_of (map_of (shelf w) c))"

definition tab :: "string list \<Rightarrow> attrs \<Rightarrow> attr_list" where
  [go_defs]: "tab names m = concat (map (\<lambda>a. case m a of None \<Rightarrow> [] | Some v \<Rightarrow> [(a, v)]) names)"

definition shelve :: "coord list \<Rightarrow> string list \<Rightarrow> item_map \<Rightarrow> (coord \<times> attr_list) list" where
  [go_defs]: "shelve cs names db = concat (map (\<lambda>c. case db c of None \<Rightarrow> [] | Some m \<Rightarrow> [(c, tab names m)]) cs)"

definition coords_of :: "world \<Rightarrow> coord list" where
  [go_defs]: "coords_of w = remdups (map fst (shelf w))"

definition names_of :: "world \<Rightarrow> string list" where
  [go_defs]: "names_of w = remdups (concat (map (map fst \<circ> snd) (shelf w)))"

definition action_coord :: "action \<Rightarrow> coord" where
  [go_defs]: "action_coord a =
     (case a of Put_Item c _ _ \<Rightarrow> c | Delete_Item c _ \<Rightarrow> c | Update_Item c _ _ \<Rightarrow> c | Condition_Check c _ \<Rightarrow> c)"

definition clause_name :: "set_clause \<Rightarrow> string" where
  [go_defs]: "clause_name c = (case c of Set a _ \<Rightarrow> a | Set_If_Not_Exists a _ \<Rightarrow> a)"

definition action_names :: "action \<Rightarrow> string list" where
  [go_defs]: "action_names a =
     (case a of Put_Item _ raw _ \<Rightarrow> map fst raw | Update_Item _ e _ \<Rightarrow> map clause_name (u_set e) | _ \<Rightarrow> [])"

definition next_mishap :: "world \<Rightarrow> mishap \<times> world" where
  [go_defs]: "next_mishap w = (case mishaps w of [] \<Rightarrow> (Fine, w) | m # ms \<Rightarrow> (m, w\<lparr>mishaps := ms\<rparr>))"

definition key_attr :: "string \<Rightarrow> bool" where
  [go_defs]: "key_attr a = (a = partAttr \<or> a = sortAttr)"

text \<open>An attribute of a stored item as an expression sees it, the two of the key included.\<close>

definition item_seen :: "coord \<Rightarrow> attrs option \<Rightarrow> attrs" where
  [go_defs]: "item_seen c m a =
     (case m of
        None \<Rightarrow> None
      | Some x \<Rightarrow>
          if a = partAttr then Some (fst (snd c)) else if a = sortAttr then Some (snd (snd c)) else x a)"

definition pred_ok :: "attrs \<Rightarrow> pred \<Rightarrow> bool" where
  [go_defs]: "pred_ok x p =
     (case p of
        Attr_Exists a \<Rightarrow> x a \<noteq> None
      | Attr_Not_Exists a \<Rightarrow> x a = None
      | Attr_Cmp a op v \<Rightarrow> (case x a of None \<Rightarrow> False | Some y \<Rightarrow> cmp_eval y op v))"

definition raw_attrs :: "raw_item \<Rightarrow> attrs" where
  [go_defs]: "raw_attrs raw a =
     (if key_attr a then None else case map_of raw a of Some (S v) \<Rightarrow> Some v | _ \<Rightarrow> None)"

text \<open>An update: every clause reads the item as it was.\<close>

definition clause_effect :: "attrs \<Rightarrow> set_clause \<Rightarrow> attrs \<Rightarrow> attrs" where
  [go_defs]: "clause_effect old c x =
     (case c of
        Set a v \<Rightarrow> x(a \<mapsto> v)
      | Set_If_Not_Exists a v \<Rightarrow> x(a := (case old a of None \<Rightarrow> Some v | Some y \<Rightarrow> Some y)))"

definition update_effect :: "update_expr \<Rightarrow> attrs \<Rightarrow> attrs" where
  [go_defs]: "update_effect e old =
     (\<lambda>a. if a \<in> set (u_remove e) then None else fold (clause_effect old) (u_set e) old a)"

definition action_ok :: "item_map \<Rightarrow> action \<Rightarrow> bool" where
  [go_defs]: "action_ok db a =
     (case a of
        Put_Item c raw ps \<Rightarrow> list_all (pred_ok (item_seen c (db c))) ps
      | Delete_Item c ps \<Rightarrow> list_all (pred_ok (item_seen c (db c))) ps
      | Update_Item c e ps \<Rightarrow> list_all (pred_ok (item_seen c (db c))) ps
      | Condition_Check c ps \<Rightarrow> list_all (pred_ok (item_seen c (db c))) ps)"

definition action_effect :: "action \<Rightarrow> item_map \<Rightarrow> item_map" where
  [go_defs]: "action_effect a db =
     (case a of
        Put_Item c raw ps \<Rightarrow> db(c \<mapsto> raw_attrs raw)
      | Delete_Item c ps \<Rightarrow> db(c := None)
      | Update_Item c e ps \<Rightarrow> db(c \<mapsto> update_effect e (attrs_of (db c)))
      | Condition_Check c ps \<Rightarrow> db)"

definition transacted :: "item_map \<Rightarrow> action list \<Rightarrow> answer \<times> item_map" where
  [go_defs]: "transacted db as =
     (if list_all (action_ok db) as then (Done, fold action_effect as db)
      else (Canceled (map (\<lambda>a. if action_ok db a then ''None'' else ''ConditionalCheckFailed'') as), db))"

definition serve :: "world \<Rightarrow> action list \<Rightarrow> answer \<times> world" where
  [go_defs]: "serve w as =
     (case next_mishap w of (m, w) \<Rightarrow>
        if m = Lost then (Faulted, w)
        else
          let (a, db) = transacted (items w) as
          in (if m = Fine then a else Faulted,
              w\<lparr>shelf := shelve (remdups (coords_of w @ map action_coord as))
                  (remdups (names_of w @ concat (map action_names as))) db\<rparr>))"

section \<open>The driver keeps the contract\<close>

text \<open>A write whose attribute lists are Go maps (distinct names) of attributes that are not the
  key's, nor the name an opening update takes away.\<close>

definition plain_attr :: "string \<Rightarrow> bool" where
  [go_defs]: "plain_attr a = (a \<noteq> partAttr \<and> a \<noteq> sortAttr \<and> a \<noteq> openAttr)"

definition plain_cond :: "Cond \<Rightarrow> bool" where
  [go_defs]: "plain_cond c = list_all (\<lambda>x. plain_attr (c_attr x)) (cond_where c)"

definition plain_write :: "Write \<Rightarrow> bool" where
  [go_defs]: "plain_write w =
     (distinct (map fst (w_attrs w)) \<and> distinct (map fst (w_init w)) \<and>
      list_all plain_attr (map fst (w_attrs w) @ map fst (w_init w) @ w_remove w) \<and>
      plain_cond (w_cond w))"

definition plain_batch :: "Check list \<Rightarrow> Write list \<Rightarrow> bool" where
  [go_defs]: "plain_batch checks writes =
     (list_all (\<lambda>c. plain_cond (k_cond c)) checks \<and> list_all plain_write writes)"

definition plain_items :: "item_map \<Rightarrow> bool" where
  "plain_items db = (\<forall>c x. db c = Some x \<longrightarrow> x partAttr = None \<and> x sortAttr = None \<and> x openAttr = None)"

lemma attr_names [simp]:
  "partAttr \<noteq> openAttr" "openAttr \<noteq> partAttr" "sortAttr \<noteq> openAttr" "openAttr \<noteq> sortAttr"
  by (simp_all add: partAttr_def sortAttr_def openAttr_def)

lemma cond_rendered:
  "plain_cond k \<Longrightarrow> list_all (pred_ok (item_seen c m)) (condExpr k) = cond_ok k m"
proof -
  assume p: "plain_cond k"
  have "pred_ok (item_seen c m) (cmpExpr x) = cmp_match (attrs_of m) x" if "x \<in> set (cond_where k)" for x
    using that p
    by (cases "c_op x"; cases m)
      (auto simp: plain_cond_def plain_attr_def list_all_iff cmpExpr_def pred_ok_def item_seen_def cmp_match_def
        attrs_of_def cmp_eval_def split: option.splits)
  then have "list_all (pred_ok (item_seen c m)) (map cmpExpr (cond_where k)) =
      list_all (cmp_match (attrs_of m)) (cond_where k)"
    by (auto simp: list_all_iff)
  then show ?thesis
    by (cases "cond_item k"; cases m) (simp_all add: condExpr_def cond_ok_def pred_ok_def item_seen_def)
qed

lemma item_of_fields:
  "distinct (map fst as) \<Longrightarrow> \<forall>a \<in> set (map fst as). a \<noteq> partAttr \<and> a \<noteq> sortAttr \<Longrightarrow>
   raw_attrs (itemOf k as) = map_of as"
proof -
  assume d: "distinct (map fst as)" and p: "\<forall>a \<in> set (map fst as). a \<noteq> partAttr \<and> a \<noteq> sortAttr"
  have "map_of (foldl (\<lambda>out (x, v). AList.update x (S v) out) raw as) a =
      (case map_of as a of Some v \<Rightarrow> Some (S v) | None \<Rightarrow> map_of raw a)" for raw a
    using d
  proof (induction as arbitrary: raw)
    case (Cons kv as)
    obtain x v where kv: "kv = (x, v)" by force
    have "x \<notin> fst ` set as" using Cons.prems kv by auto
    then have n: "map_of as x = None" by (simp add: map_of_eq_None_iff)
    show ?case
      using Cons.IH [of "AList.update x (S v) raw"] Cons.prems n
      by (auto simp: kv update_conv' split: option.splits)
  qed simp
  moreover have "map_of as partAttr = None" "map_of as sortAttr = None"
    using p by (auto simp: map_of_eq_None_iff)
  ultimately show ?thesis
    by (auto simp: fun_eq_iff raw_attrs_def itemOf_def key_attr_def split: option.splits)
qed

lemma set_clauses:
  assumes "distinct (map fst as)"
  shows "fold (clause_effect old) (map (\<lambda>(k, v). Set k v) as) x a =
    (case map_of as a of Some v \<Rightarrow> Some v | None \<Rightarrow> x a)"
  using assms
proof (induction as arbitrary: x)
  case (Cons kv as)
  obtain k v where kv: "kv = (k, v)" by force
  have "map_of as k = None" using Cons.prems kv by (auto simp: map_of_eq_None_iff)
  then show ?case using Cons by (auto simp: kv clause_effect_def split: option.splits)
qed simp

lemma init_clauses:
  assumes "distinct (map fst as)"
  shows "fold (clause_effect old) (map (\<lambda>(k, v). Set_If_Not_Exists k v) as) x a =
    (case map_of as a of Some v \<Rightarrow> (case old a of None \<Rightarrow> Some v | Some y \<Rightarrow> Some y) | None \<Rightarrow> x a)"
  using assms
proof (induction as arbitrary: x)
  case (Cons kv as)
  obtain k v where kv: "kv = (k, v)" by force
  have "map_of as k = None" using Cons.prems kv by (auto simp: map_of_eq_None_iff)
  then show ?case using Cons by (auto simp: kv clause_effect_def split: option.splits)
qed simp
lemma update_rendered:
  assumes "plain_write w" "\<forall>a. map_of (w_init w) a \<noteq> None \<longrightarrow> map_of (w_attrs w) a = None" "m openAttr = None"
    and "e = setExpr (w_attrs w) (w_init w) (w_remove w)"
  shows "update_effect (if u_set e = [] \<and> u_remove e = [] then e\<lparr>u_remove := [openAttr]\<rparr> else e) m = merged w m"
proof (cases "u_set e = [] \<and> u_remove e = []")
  case True
  then have "w_attrs w = []" "w_init w = []" "w_remove w = []" using assms(4) by (auto simp: setExpr_def)
  then show ?thesis
    using assms(3) True assms(4)
    by (auto simp: update_effect_def merged_def setExpr_def fun_eq_iff split: option.splits)
next
  case False
  have d: "distinct (map fst (w_attrs w))" "distinct (map fst (w_init w))"
    using assms(1) by (simp_all add: plain_write_def)
  have "update_effect e m a = merged w m a" for a
    using assms(2)
    by (cases "map_of (w_attrs w) a"; cases "map_of (w_init w) a"; cases "m a")
      (auto simp: update_effect_def merged_def assms(4) setExpr_def set_clauses [OF d(1)] init_clauses [OF d(2)])
  then show ?thesis unfolding if_not_P [OF False] by (rule ext)
qed

lemma plain_items_at:
  "plain_items db \<Longrightarrow> attrs_of (db c) partAttr = None \<and> attrs_of (db c) sortAttr = None \<and> attrs_of (db c) openAttr = None"
proof (cases "db c")
  case (Some x)
  moreover assume "plain_items db"
  ultimately have "x partAttr = None \<and> x sortAttr = None \<and> x openAttr = None"
    unfolding plain_items_def by blast
  then show ?thesis using Some by (simp add: attrs_of_def)
qed (simp add: attrs_of_def)

lemma write_rendered:
  assumes "plain_write w" "validateWrite ws w" "plain_items db"
  shows "action_ok db (writeAction w) = write_ok w (db (place_of w)) \<and>
    action_effect (writeAction w) db = db(place_of w := written w (db (place_of w)))"
proof -
  have c: "list_all (pred_ok (item_seen x m)) (condExpr (w_cond w)) = cond_ok (w_cond w) m" for x m
    using assms(1) by (intro cond_rendered) (simp add: plain_write_def)
  have e: "pred_ok (item_seen x m) (Attr_Exists partAttr) = (m \<noteq> None)" for x m
    by (cases m) (simp_all add: pred_ok_def item_seen_def)
  have p: "raw_attrs (itemOf (w_key w) (w_attrs w)) = map_of (w_attrs w)"
    using assms(1) by (intro item_of_fields) (auto simp: plain_write_def plain_attr_def list_all_iff)
  have disj: "\<forall>a. map_of (w_init w) a \<noteq> None \<longrightarrow> map_of (w_attrs w) a = None"
    using assms(2) by (force simp: validateWrite_def validateMerge_def has_attr_def list_all_iff split: if_splits
        dest: map_of_SomeD)
  have o: "attrs_of (db (place_of w)) openAttr = None"
    using plain_items_at [OF assms(3)] by blast
  note u = update_rendered [where m = "attrs_of (db (place_of w))", OF assms(1) disj o refl]
  show ?thesis
    by (cases "w_op w")
      (simp_all add: writeAction_def action_ok_def action_effect_def write_ok_def written_def c e p u
        place_of_def [symmetric] Let_def)
qed

lemma written_plain:
  assumes "plain_write w" "plain_items db"
  shows "plain_items (db(place_of w := written w (db (place_of w))))"
proof -
  have "map_of (w_attrs w) a = None" "map_of (w_init w) a = None" if "\<not> plain_attr a" for a
    using assms(1) that by (auto simp: plain_write_def list_all_iff map_of_eq_None_iff)
  then have n: "map_of (w_attrs w) a = None \<and> map_of (w_init w) a = None"
    if "a \<in> {partAttr, sortAttr, openAttr}" for a
    using that by (auto simp: plain_attr_def)
  have m: "attrs_of (db (place_of w)) a = None" if "a \<in> {partAttr, sortAttr, openAttr}" for a
    using plain_items_at [OF assms(2), of "place_of w"] that by auto
  show ?thesis
    using assms(2) n m by (auto simp: plain_items_def written_def merged_def split: WriteOp.splits if_splits)
qed

lemma writes_rendered:
  assumes "list_all plain_write wrs" "list_all (validateWrite ws) wrs" "plain_items db"
  shows "fold action_effect (map writeAction wrs) db = batch_effect db wrs \<and> plain_items (batch_effect db wrs)"
  using assms
proof (induction wrs arbitrary: db)
  case (Cons w wrs)
  then show ?case
    using write_rendered [of w ws db] written_plain [of w db] by simp
qed simp

lemma claimed_valid:
  "claim_writes ws wrs sn = Some s \<Longrightarrow> list_all (validateWrite ws) wrs"
  by (induction ws wrs sn rule: claim_writes.induct) (auto split: option.splits if_splits)

lemma checks_rendered:
  assumes "list_all (\<lambda>c. plain_cond (k_cond c)) cs" "checkActions cs = Some as"
  shows "list_all (action_ok db) as = list_all (\<lambda>c. cond_ok (k_cond c) (db (coord_of (k_entity c) (k_key c)))) cs \<and>
    fold action_effect as x = x"
  using assms
proof (induction cs arbitrary: as x)
  case (Cons c cs)
  then obtain a as' where a: "checkAction c = Some a" "checkActions cs = Some as'" "as = a # as'"
    by (auto split: option.splits)
  then have "a = Condition_Check (coord_of (k_entity c) (k_key c)) (condExpr (k_cond c))"
    by (auto simp: checkAction_def Let_def split: if_splits)
  then show ?case
    using Cons a cond_rendered [of "k_cond c"] by (simp add: action_ok_def action_effect_def)
qed simp

lemma batch_request:
  assumes "plain_batch checks writes" "plain_items db" "ValidateBatch ws checks writes" "checkActions checks = Some cs"
  shows "list_all (action_ok db) (cs @ map writeAction writes) = batch_ok db checks writes \<and>
    fold action_effect (cs @ map writeAction writes) db = batch_effect db writes"
proof -
  obtain sn where "claim_writes ws writes sn \<noteq> None"
    using assms(3) by (auto simp: ValidateBatch_def split: if_splits option.splits)
  then have v: "list_all (validateWrite ws) writes" using claimed_valid by blast
  have pw: "list_all plain_write writes" "list_all (\<lambda>c. plain_cond (k_cond c)) checks"
    using assms(1) by (simp_all add: plain_batch_def)
  note k = checks_rendered [OF pw(2) assms(4)] and r = writes_rendered [OF pw(1) v assms(2)]
  have "action_ok db (writeAction x) = write_ok x (db (place_of x))" if "x \<in> set writes" for x
    using pw(1) v write_rendered [of x ws, OF _ _ assms(2)] that by (auto simp: list_all_iff)
  then have "list_all (action_ok db) (map writeAction writes) =
      list_all (\<lambda>x. write_ok x (db (place_of x))) writes"
    by (auto simp: list_all_iff)
  then show ?thesis using k r by (simp add: batch_ok_def)
qed

text \<open>The documented behaviour of TransactWriteItems, as far as the driver relies on it: done means
  all conditions held and all actions were applied; a cancellation for a condition means one of them
  did not hold and nothing was applied; any other answer leaves all applied or nothing.\<close>

definition transactional :: "('w \<Rightarrow> action list \<Rightarrow> answer \<times> 'w) \<Rightarrow> ('w \<Rightarrow> item_map) \<Rightarrow> bool" where
  "transactional transact view =
     (\<forall>w as a w'. transact w as = (a, w') \<longrightarrow>
        (a = Done \<longrightarrow> list_all (action_ok (view w)) as \<and> view w' = fold action_effect as (view w)) \<and>
        (refused a \<longrightarrow> \<not> list_all (action_ok (view w)) as \<and> view w' = view w) \<and>
        (view w' = view w \<or>
         (list_all (action_ok (view w)) as \<and> view w' = fold action_effect as (view w))))"

lemma next_items: "next_mishap w = (m, w') \<Longrightarrow> items w' = items w"
  by (auto simp: next_mishap_def items_def split: list.splits)

lemma map_of_tab: "distinct names \<Longrightarrow> map_of (tab names m) a = (if a \<in> set names then m a else None)"
  by (induction names) (auto simp: tab_def split: option.splits)

text \<open>The list holds a map whose places and names it is given.\<close>

definition held_in :: "coord list \<Rightarrow> string list \<Rightarrow> item_map \<Rightarrow> bool" where
  "held_in cs names db = (dom db \<subseteq> set cs \<and> (\<forall>m \<in> ran db. dom m \<subseteq> set names))"

lemma held_inD: "held_in cs names db \<Longrightarrow> db c = Some m \<Longrightarrow> c \<in> set cs \<and> dom m \<subseteq> set names"
  unfolding held_in_def by (blast intro: ranI)

lemma held_inI: "(\<And>c m. db c = Some m \<Longrightarrow> c \<in> set cs \<and> dom m \<subseteq> set names) \<Longrightarrow> held_in cs names db"
  unfolding held_in_def ran_def by blast

lemma tab_whole: "distinct names \<Longrightarrow> dom m \<subseteq> set names \<Longrightarrow> map_of (tab names m) = m"
proof (rule ext)
  fix a
  assume "distinct names" "dom m \<subseteq> set names"
  then show "map_of (tab names m) a = m a" by (cases "m a") (auto simp: map_of_tab)
qed

lemma map_of_shelve:
  "distinct cs \<Longrightarrow> map_of (shelve cs names db) c =
   (if c \<in> set cs then map_option (tab names) (db c) else None)"
  by (induction cs) (auto simp: shelve_def split: option.splits)

lemma shelve_whole:
  assumes "distinct cs" "distinct names" "held_in cs names db"
  shows "(\<lambda>c. map_option map_of (map_of (shelve cs names db) c)) = db"
proof (rule ext)
  fix c
  show "map_option map_of (map_of (shelve cs names db) c) = db c"
  proof (cases "db c")
    case (Some m)
    then have "c \<in> set cs" "dom m \<subseteq> set names" using held_inD [OF assms(3)] by blast+
    then show ?thesis using Some assms(1,2) by (simp add: map_of_shelve tab_whole)
  qed (simp add: map_of_shelve assms(1))
qed

lemma world_held: "held_in (coords_of w) (names_of w) (items w)"
proof -
  have "c \<in> set (coords_of w) \<and> dom m \<subseteq> set (names_of w)" if i: "items w c = Some m" for c m
  proof -
    obtain as where a: "map_of (shelf w) c = Some as" "m = map_of as" using i by (auto simp: items_def)
    then have "(c, as) \<in> set (shelf w)" by (blast dest: map_of_SomeD)
    then show ?thesis using a(2) by (force simp: coords_of_def names_of_def dom_map_of_conv_image_fst)
  qed
  then show ?thesis by (rule held_inI)
qed

lemma clauses_dom:
  "dom (fold (clause_effect old) cs x) \<subseteq> dom x \<union> dom old \<union> set (map clause_name cs)"
proof (induction cs arbitrary: x)
  case (Cons c cs)
  have "dom (clause_effect old c x) \<subseteq> dom x \<union> dom old \<union> {clause_name c}"
    by (auto simp: clause_effect_def clause_name_def split: set_clause.splits option.splits if_splits)
  moreover have "set (map clause_name (c # cs)) = {clause_name c} \<union> set (map clause_name cs)" by simp
  ultimately show ?case using Cons.IH [of "clause_effect old c x"] unfolding fold_Cons comp_apply by blast
qed simp

lemma attrs_held: "held_in cs names db \<Longrightarrow> dom (attrs_of (db c)) \<subseteq> set names"
  by (cases "db c") (simp_all add: attrs_of_def held_inD)

lemma raw_dom: "dom (raw_attrs raw) \<subseteq> set (map fst raw)"
proof
  fix a
  assume "a \<in> dom (raw_attrs raw)"
  then have "map_of raw a \<noteq> None" by (auto simp: raw_attrs_def split: if_splits option.splits)
  then show "a \<in> set (map fst raw)" by (auto simp: map_of_eq_None_iff)
qed

lemma update_dom: "dom (update_effect e old) \<subseteq> dom old \<union> set (map clause_name (u_set e))"
proof
  fix a
  assume "a \<in> dom (update_effect e old)"
  then have "a \<in> dom (fold (clause_effect old) (u_set e) old)"
    by (auto simp: update_effect_def split: if_splits)
  then show "a \<in> dom old \<union> set (map clause_name (u_set e))"
    using clauses_dom [of old "u_set e" old] by blast
qed

lemma put_held:
  "held_in cs names db \<Longrightarrow> dom m \<subseteq> set names' \<Longrightarrow> held_in (cs @ [c]) (names @ names') (db(c \<mapsto> m))"
proof (rule held_inI)
  fix x y
  assume h: "held_in cs names db" and d: "dom m \<subseteq> set names'" and u: "(db(c \<mapsto> m)) x = Some y"
  show "x \<in> set (cs @ [c]) \<and> dom y \<subseteq> set (names @ names')"
  proof (cases "x = c")
    case True
    then show ?thesis using u d by auto
  next
    case False
    then show ?thesis using u held_inD [OF h, of x y] by auto
  qed
qed

lemma held_mono: "held_in cs names db \<Longrightarrow> set cs \<subseteq> set cs' \<Longrightarrow> set names \<subseteq> set names' \<Longrightarrow> held_in cs' names' db"
  unfolding held_in_def by blast

lemma gone_held: "held_in cs names db \<Longrightarrow> held_in cs names (db(c := None))"
  by (rule held_inI) (simp split: if_splits add: held_inD)

lemma action_held:
  assumes "held_in cs names db"
  shows "held_in (cs @ [action_coord a]) (names @ action_names a) (action_effect a db)"
proof (cases a)
  case (Put_Item c raw ps)
  then show ?thesis using put_held [OF assms raw_dom [of raw]]
    by (simp add: action_coord_def action_names_def action_effect_def)
next
  case (Update_Item c e ps)
  have "dom (update_effect e (attrs_of (db c))) \<subseteq> set (names @ action_names a)"
  proof -
    have "set (action_names a) = set (map clause_name (u_set e))" by (simp add: Update_Item action_names_def)
    then show ?thesis using update_dom [of e "attrs_of (db c)"] attrs_held [OF assms, of c]
      unfolding set_append by blast
  qed
  then have "held_in (cs @ [c]) (names @ names @ action_names a) (db(c \<mapsto> update_effect e (attrs_of (db c))))"
    by (rule put_held [OF assms])
  then have "held_in (cs @ [c]) (names @ action_names a) (db(c \<mapsto> update_effect e (attrs_of (db c))))"
    by (rule held_mono) auto
  then show ?thesis by (simp add: Update_Item action_coord_def action_effect_def)
next
  case (Delete_Item c ps)
  have "held_in (cs @ [action_coord a]) (names @ action_names a) (db(c := None))"
    by (rule held_mono [OF gone_held [OF assms]]) auto
  then show ?thesis by (simp add: Delete_Item action_effect_def)
next
  case (Condition_Check c ps)
  have "held_in (cs @ [action_coord a]) (names @ action_names a) db"
    by (rule held_mono [OF assms]) auto
  then show ?thesis by (simp add: Condition_Check action_effect_def)
qed

lemma actions_held:
  "held_in cs names db \<Longrightarrow>
   held_in (cs @ map action_coord as) (names @ concat (map action_names as)) (fold action_effect as db)"
proof (induction as arbitrary: cs names db)
  case (Cons a as)
  show ?case using Cons.IH [OF action_held [OF Cons.prems, of a]] by simp
qed simp

lemma transacted_held:
  "held_in cs names db \<Longrightarrow>
   held_in (remdups (cs @ map action_coord as)) (remdups (names @ concat (map action_names as)))
     (snd (transacted db as))"
  using held_mono [OF actions_held [of cs names db as]] held_mono [of cs names db]
  by (simp add: transacted_def)

lemma served_items:
  "items (w\<lparr>shelf := shelve (remdups (coords_of w @ map action_coord as))
      (remdups (names_of w @ concat (map action_names as))) (snd (transacted (items w) as))\<rparr>) =
   snd (transacted (items w) as)"
  using shelve_whole [OF distinct_remdups distinct_remdups transacted_held [OF world_held [of w]]]
  by (simp add: items_def [of "w\<lparr>shelf := _\<rparr>"])

lemma serve_transactional: "transactional serve items"
proof -
  have "(a = Done \<longrightarrow> list_all (action_ok (items w)) as \<and> items w' = fold action_effect as (items w)) \<and>
      (refused a \<longrightarrow> \<not> list_all (action_ok (items w)) as \<and> items w' = items w) \<and>
      (items w' = items w \<or> (list_all (action_ok (items w)) as \<and> items w' = fold action_effect as (items w)))"
    if "serve w as = (a, w')" for w as a w'
  proof -
    obtain m v where m: "next_mishap w = (m, v)" by force
    note i = next_items [OF m]
    obtain x db where x: "transacted (items v) as = (x, db)" by force
    have s: "items (v\<lparr>shelf := shelve (remdups (coords_of v @ map action_coord as))
        (remdups (names_of v @ concat (map action_names as))) db\<rparr>) = db"
      using served_items [of v as] by (simp add: x)
    have "(a, w') = (if m = Lost then (Faulted, v)
        else (if m = Fine then x else Faulted,
              v\<lparr>shelf := shelve (remdups (coords_of v @ map action_coord as))
                 (remdups (names_of v @ concat (map action_names as))) db\<rparr>))"
      using that [symmetric] by (simp add: serve_def m x)
    moreover have "x = Done \<and> list_all (action_ok (items w)) as \<and> db = fold action_effect as (items w) \<or>
        x \<noteq> Done \<and> \<not> list_all (action_ok (items w)) as \<and> db = items w"
      using x by (auto simp: transacted_def i split: if_splits)
    ultimately show ?thesis
      using s i by (cases m) (auto simp: refused_def)
  qed
  then show ?thesis unfolding transactional_def by blast
qed

text \<open>What the driver's answer says, over any such endpoint.\<close>

lemma driver_answer:
  assumes t: "transactional transact view" and p: "plain_batch checks writes" "plain_items (view w)"
    and r: "GuardedBatch ws transact w checks writes = (r, w')"
  shows "(r = Inr True \<longrightarrow> batch_ok (view w) checks writes \<and> view w' = batch_effect (view w) writes) \<and>
    (r = Inr False \<longrightarrow> \<not> batch_ok (view w) checks writes \<and> view w' = view w) \<and>
    (view w' = view w \<or> (batch_ok (view w) checks writes \<and> view w' = batch_effect (view w) writes))"
proof (cases "ValidateBatch ws checks writes \<and> checkActions checks \<noteq> None")
  case True
  then obtain cs where v: "ValidateBatch ws checks writes" and cs: "checkActions checks = Some cs" by blast
  obtain a v' where a: "transact w (cs @ map writeAction writes) = (a, v')" by force
  note q = batch_request [OF p v cs]
  have "(a = Done \<longrightarrow> batch_ok (view w) checks writes \<and> view v' = batch_effect (view w) writes) \<and>
      (refused a \<longrightarrow> \<not> batch_ok (view w) checks writes \<and> view v' = view w) \<and>
      (view v' = view w \<or> (batch_ok (view w) checks writes \<and> view v' = batch_effect (view w) writes))"
    using t [unfolded transactional_def, rule_format, OF a] unfolding q [THEN conjunct1] q [THEN conjunct2] .
  moreover have "(r, w') = ((if a = Done then Inr True else if refused a then Inr False else Inl Fault), v')"
    using r a by (simp add: GuardedBatch_def v cs split: if_splits)
  ultimately show ?thesis by (simp split: if_splits)
next
  case False
  then have "GuardedBatch ws transact w checks writes = (Inl Invalid, w)"
    by (auto simp: GuardedBatch_def split: option.splits)
  then show ?thesis using r by simp
qed

lemma untouched: "\<forall>x \<in> set wrs. place_of x \<noteq> c \<Longrightarrow> batch_effect db wrs c = db c"
  by (induction wrs arbitrary: db) auto

lemma batch_effect_app: "batch_effect db (us @ ws) = batch_effect (batch_effect db us) ws"
  by (induction us arbitrary: db) simp_all

lemma effect_once:
  assumes "wrs = us @ x # vs" "place_of x = c" "\<forall>y \<in> set (us @ vs). place_of y \<noteq> c"
  shows "batch_effect db wrs c = written x (db c)"
  using assms by (simp add: batch_effect_app untouched)

section \<open>The interface of a writer\<close>

text \<open>What a writer relies on: a batch that reports success found its conditions true and wrote
  everything; one that reports a refusal wrote nothing; and one that fails wrote everything under
  its conditions or nothing.\<close>

locale batch_store =
  fixes run :: "'w \<Rightarrow> Check list \<Rightarrow> Write list \<Rightarrow> (store_error + bool) \<times> 'w"
    and view :: "'w \<Rightarrow> item_map"
  assumes committed: "plain_items (view w) \<Longrightarrow> plain_batch cs wrs \<Longrightarrow> run w cs wrs = (Inr True, w') \<Longrightarrow>
      batch_ok (view w) cs wrs \<and> view w' = batch_effect (view w) wrs"
    and refused: "plain_items (view w) \<Longrightarrow> plain_batch cs wrs \<Longrightarrow> run w cs wrs = (Inr False, w') \<Longrightarrow>
      \<not> batch_ok (view w) cs wrs \<and> view w' = view w"
    and failed: "plain_items (view w) \<Longrightarrow> plain_batch cs wrs \<Longrightarrow> run w cs wrs = (Inl e, w') \<Longrightarrow>
      view w' = view w \<or> (batch_ok (view w) cs wrs \<and> view w' = batch_effect (view w) wrs)"
begin

text \<open>All or nothing.\<close>

lemma atomic:
  assumes "plain_items (view w)" "plain_batch cs wrs" "run w cs wrs = (r, w')"
  shows "view w' = view w \<or> (batch_ok (view w) cs wrs \<and> view w' = batch_effect (view w) wrs)"
proof (cases r)
  case (Inl e)
  then show ?thesis using failed assms by blast
next
  case (Inr b)
  show ?thesis
  proof (cases b)
    case True
    then show ?thesis using committed [OF assms(1,2), of w'] assms(3) Inr by simp
  next
    case False
    then show ?thesis using refused [OF assms(1,2), of w'] assms(3) Inr by simp
  qed
qed

lemma effect_plain: "list_all plain_write wrs \<Longrightarrow> plain_items db \<Longrightarrow> plain_items (batch_effect db wrs)"
  by (induction db wrs rule: batch_effect.induct) (use written_plain in auto)

lemma stays_plain:
  assumes "plain_items (view w)" "plain_batch cs wrs" "run w cs wrs = (r, w')"
  shows "plain_items (view w')"
  using atomic [OF assms] assms(1,2) effect_plain by (auto simp: plain_batch_def)

text \<open>One guarded write: a winner found its guard true, everyone else left the item or did the same.\<close>

lemma single:
  assumes "plain_items (view w)" "plain_write x" "run w [] [x] = (r, w')"
  shows "(r = Inr True \<longrightarrow> write_ok x (view w (place_of x)) \<and> view w' = (view w)(place_of x := written x (view w (place_of x)))) \<and>
    (r = Inr False \<longrightarrow> \<not> write_ok x (view w (place_of x)) \<and> view w' = view w) \<and>
    (view w' = view w \<or>
     (write_ok x (view w (place_of x)) \<and> view w' = (view w)(place_of x := written x (view w (place_of x)))))"
proof -
  have p: "plain_batch [] [x]" using assms(2) by (simp add: plain_batch_def)
  show ?thesis
    using committed [OF assms(1) p, of w'] refused [OF assms(1) p, of w'] atomic [OF assms(1) p assms(3)] assms(3)
    by (auto simp: batch_ok_def)
qed

end

text \<open>The driver is one, over every endpoint that keeps its documentation.\<close>

lemma driver_is_store: "transactional transact view \<Longrightarrow> batch_store (GuardedBatch ws transact) view"
proof -
  assume t: "transactional transact view"
  show ?thesis
  proof
    fix w w' cs wrs e
    assume p: "plain_items (view w)" "plain_batch cs wrs"
    show "GuardedBatch ws transact w cs wrs = (Inr True, w') \<Longrightarrow>
        batch_ok (view w) cs wrs \<and> view w' = batch_effect (view w) wrs"
      using driver_answer [OF t p(2,1)] by simp
    show "GuardedBatch ws transact w cs wrs = (Inr False, w') \<Longrightarrow>
        \<not> batch_ok (view w) cs wrs \<and> view w' = view w"
      using driver_answer [OF t p(2,1)] by simp
    show "GuardedBatch ws transact w cs wrs = (Inl e, w') \<Longrightarrow>
        view w' = view w \<or> (batch_ok (view w) cs wrs \<and> view w' = batch_effect (view w) wrs)"
      using driver_answer [OF t p(2,1)] by blast
  qed
qed

interpretation bs: batch_store "GuardedBatch ws serve" "items :: world \<Rightarrow> item_map" for ws
  by (rule driver_is_store [OF serve_transactional])

section \<open>The documented contract\<close>











definition sample_world :: world where
  "sample_world = \<lparr>shelf = [], mishaps = []\<rparr>"

section \<open>Properties\<close>





end
