(* ===== verification/Store_Client.thy ===== *)
theory Store_Client
  imports Batch_Contract
begin

text \<open>
  What a storage package relies on (objstore.Store, objstore/objstore.go): a handle with the two primitives, each of which
  may change what the program holds of the world. \<open>object_store\<close> is the contract; the driver over
  the documented endpoint is its instance. \<open>point\<close> is the read of one item every storage package
  writes for itself (chanlib/chanstore, authd/authstore).
\<close>

section \<open>The handle\<close>

record 'w Store =
  st_batch :: "'w \<Rightarrow> Check list \<Rightarrow> Write list \<Rightarrow> (store_error + bool) \<times> 'w"
  st_query :: "'w \<Rightarrow> Query \<Rightarrow> (store_error + Item list) \<times> 'w"

definition exact_query :: "string \<Rightarrow> Key \<Rightarrow> string list \<Rightarrow> Query" where
  [go_defs]: "exact_query ent k project =
     (query0 ent (Partition k))\<lparr>q_key := \<lparr>p_op = ExactKey, p_value = Sort k, p_sep = []\<rparr>, q_project := project\<rparr>"

definition point ::
  "'w Store \<Rightarrow> 'w \<Rightarrow> string \<Rightarrow> Key \<Rightarrow> string list \<Rightarrow> (store_error + Item option) \<times> 'w" where
  [go_defs]: "point st w ent k project =
     (case st_query st w (exact_query ent k project) of
        (Inl e, w') \<Rightarrow> (Inl e, w')
      | (Inr its, w') \<Rightarrow> (Inr (case its of [] \<Rightarrow> None | it # _ \<Rightarrow> Some it), w'))"

section \<open>The contract\<close>

text \<open>A list of an entity's items, each once.\<close>

definition lists :: "item_map \<Rightarrow> string \<Rightarrow> Item list \<Rightarrow> bool" where
  "lists db ent its \<longleftrightarrow> distinct (map i_key its) \<and>
     (\<forall>k m. (\<exists>it \<in> set its. i_key it = k \<and> i_attrs it = m) \<longleftrightarrow> db (coord_of ent k) = Some m)"

locale object_store = batch_store "st_batch st" view
  for st :: "'w Store" and view :: "'w \<Rightarrow> item_map" +
  assumes answers: "plain_items (view w) \<Longrightarrow> plain_query q \<Longrightarrow> st_query st w q = (Inr its, w') \<Longrightarrow>
      \<exists>rows. lists (view w) (q_entity q) rows \<and> its = selected q rows"
    and looks: "st_query st w q = (r, w') \<Longrightarrow> view w' = view w"
begin

lemma point_looks: "point st w ent k ps = (r, w') \<Longrightarrow> view w' = view w"
  by (auto simp: point_def split: prod.splits sum.splits dest: looks)

lemma point_reads:
  assumes p: "plain_items (view w)" and n: "partAttr \<notin> set ps" "sortAttr \<notin> set ps"
    and r: "point st w ent k ps = (Inr x, w')"
  shows "x = map_option (\<lambda>m. projected ps \<lparr>i_key = k, i_attrs = m\<rparr>) (view w (coord_of ent k))"
proof -
  obtain its where q: "st_query st w (exact_query ent k ps) = (Inr its, w')"
    and x: "x = (case its of [] \<Rightarrow> None | it # _ \<Rightarrow> Some it)"
    using r by (auto simp: point_def split: prod.splits sum.splits)
  have "plain_query (exact_query ent k ps)" using n by (simp add: plain_query_def exact_query_def query0_def)
  from answers [OF p this q] obtain rows where l: "lists (view w) ent rows"
    and s: "its = selected (exact_query ent k ps) rows"
    by (auto simp: exact_query_def query0_def)
  let ?here = "filter (\<lambda>it. i_key it = k) (sort_key (\<lambda>it. Sort (i_key it)) rows)"
  have "picks (exact_query ent k ps) it = (i_key it = k)" for it
    by (cases "i_key it"; cases k) (auto simp: picks_def exact_query_def query0_def key_match_def)
  then have pk: "picks (exact_query ent k ps) = (\<lambda>it. i_key it = k)" by (rule ext)
  have q: "q_limit (exact_query ent k ps) = 0" "q_project (exact_query ent k ps) = ps"
    "q_descending (exact_query ent k ps) = False"
    by (simp_all add: exact_query_def query0_def)
  have its: "its = map (projected ps) ?here"
    unfolding s selected_def limited_def ordered_def Let_def pk q by simp
  have d: "distinct (map i_key (sort_key (\<lambda>it. Sort (i_key it)) rows))"
    using l unfolding lists_def distinct_map by simp
  have one: "?here = [it]" if "it \<in> set ?here" for it
    by (rule same_key_one [where f = i_key and k = k, OF distinct_map_filter [OF d] _ that]) simp
  have mem: "(\<exists>it \<in> set ?here. i_attrs it = m) \<longleftrightarrow> view w (coord_of ent k) = Some m" for m
    using l unfolding lists_def by auto
  show ?thesis
  proof (cases "view w (coord_of ent k)")
    case None
    have "set ?here = {}" using mem None by auto
    then have "?here = []" by simp
    then show ?thesis using None its x by simp
  next
    case (Some m)
    then obtain it where it: "it \<in> set ?here" "i_attrs it = m" using mem [of m] by blast
    then have h: "?here = [it]" by (intro one)
    have "i_key it = k" using it(1) by simp
    then show ?thesis using Some x it(2) unfolding its h by (cases it) simp
  qed
qed

text \<open>A batch that answers leaves all of its effect or none; success leaves it.\<close>

lemma batch_outcome:
  assumes "plain_items (view w)" "plain_batch cs wrs" "st_batch st w cs wrs = (r, w')"
  shows "plain_items (view w') \<and>
    (view w' = view w \<and> r \<noteq> Inr True \<or> batch_ok (view w) cs wrs \<and> view w' = batch_effect (view w) wrs)"
  using atomic [OF assms] committed [OF assms(1,2), of w'] stays_plain [OF assms] assms(3) by auto

text \<open>What a batch does to the items of one entity: a batch that writes none of them, and one that writes one.\<close>

lemma none_among:
  assumes p: "plain_items (view w)" and x: "list_all plain_write wrs" "list_all (\<lambda>x. w_entity x \<noteq> ent) wrs"
    and b: "st_batch st w [] wrs = (r, w')"
  shows "plain_items (view w') \<and> (\<forall>k. view w' (coord_of ent k) = view w (coord_of ent k))"
proof -
  have "plain_batch [] wrs" using x by (simp add: plain_batch_def)
  note o = batch_outcome [OF p this b]
  have "\<forall>x\<in>set wrs. place_of x \<noteq> coord_of ent k" for k using x(2) by (auto simp: list_all_iff place_of_def coord_of_def)
  then have "batch_effect (view w) wrs (coord_of ent k) = view w (coord_of ent k)" for k
    using untouched [of wrs "coord_of ent k"] by blast
  then show ?thesis using o by auto
qed

lemma one_among:
  assumes p: "plain_items (view w)" and x: "plain_write x" "w_entity x = ent"
    and a: "list_all plain_write rest" "list_all (\<lambda>x. w_entity x \<noteq> ent) rest"
    and b: "st_batch st w [] (x # rest) = (r, w')"
  shows "plain_items (view w') \<and>
    ((\<forall>k. view w' (coord_of ent k) = view w (coord_of ent k)) \<and> r \<noteq> Inr True \<or>
     write_ok x (view w (place_of x)) \<and> view w' (place_of x) = written x (view w (place_of x)) \<and>
     (\<forall>k. coord_of ent k \<noteq> place_of x \<longrightarrow> view w' (coord_of ent k) = view w (coord_of ent k)))"
proof -
  have "plain_batch [] (x # rest)" using x a by (simp add: plain_batch_def)
  note o = batch_outcome [OF p this b]
  have far: "\<forall>y\<in>set rest. place_of y \<noteq> coord_of ent k" for k
    using a(2) by (auto simp: list_all_iff place_of_def coord_of_def)
  have at: "place_of x = coord_of ent (w_key x)" using x(2) by (simp add: place_of_def)
  have "batch_effect (view w) (x # rest) (coord_of ent k) =
      (if coord_of ent k = place_of x then written x (view w (place_of x)) else view w (coord_of ent k))" for k
    using untouched [OF far [of k]] by auto
  then show ?thesis using o unfolding at by (auto simp: batch_ok_def at)
qed

end

section \<open>The driver's handle\<close>

text \<open>The endpoint's answer to a Query request is one page of the items it holds.\<close>

definition keys_of :: "world \<Rightarrow> string \<Rightarrow> Key list" where
  [go_defs]: "keys_of w ent =
     map (\<lambda>c. \<lparr>Partition = fst (snd c), Sort = snd (snd c)\<rparr>) (filter (\<lambda>c. fst c = ent) (coords_of w))"

definition row_at :: "world \<Rightarrow> string \<Rightarrow> Key \<Rightarrow> stored list" where
  [go_defs]: "row_at w ent k =
     (case items w (coord_of ent k) of None \<Rightarrow> [] | Some m \<Rightarrow> [(k, tab (names_of w) m)])"

definition rows_of :: "world \<Rightarrow> string \<Rightarrow> stored list" where
  [go_defs]: "rows_of w ent = concat (map (row_at w ent) (keys_of w ent))"

definition ask :: "widths \<Rightarrow> world \<Rightarrow> Query \<Rightarrow> (store_error + Item list) \<times> world" where
  [go_defs]: "ask ws w q =
     (case next_mishap w of (m, w) \<Rightarrow>
        (QueryItems ws (\<lambda>i. if m = Fine then [Some (wire_answer (rows_of w (in_table i)) i)] else [None]) q, w))"

definition driver :: "widths \<Rightarrow> world Store" where
  [go_defs]: "driver ws = \<lparr>st_batch = GuardedBatch ws serve, st_query = ask ws\<rparr>"

lemma rows_of_mem:
  "((k, as) \<in> set (rows_of w ent)) = (\<exists>m. items w (coord_of ent k) = Some m \<and> as = tab (names_of w) m)"
proof -
  have "k \<in> set (keys_of w ent)" if "items w (coord_of ent k) = Some m" for m
  proof -
    have "coord_of ent k \<in> set (coords_of w)" using held_inD [OF world_held that] by simp
    then show ?thesis by (cases k) (force simp: keys_of_def coord_of_def)
  qed
  moreover have "(k, as) \<in> set (row_at w ent k') \<longleftrightarrow>
      k' = k \<and> (\<exists>m. items w (coord_of ent k) = Some m \<and> as = tab (names_of w) m)" for k'
    by (cases "items w (coord_of ent k')") (auto simp: row_at_def)
  ultimately show ?thesis by (auto simp: rows_of_def)
qed

lemma rows_of_distinct: "distinct (map fst (rows_of w ent))"
proof -
  have "inj_on (\<lambda>c. \<lparr>Partition = fst (snd c), Sort = snd (snd c)\<rparr>) {c :: coord. fst c = ent}"
    by (auto simp: inj_on_def)
  then have "distinct (keys_of w ent)"
    unfolding keys_of_def distinct_map by (auto simp: coords_of_def intro: inj_on_subset)
  moreover have "distinct ks \<Longrightarrow> distinct (map fst (concat (map (row_at w ent) ks)))" for ks
  proof (induction ks)
    case (Cons k ks)
    have at: "fst ` set (row_at w ent x) \<subseteq> {x}" for x
      by (cases "items w (coord_of ent x)") (auto simp: row_at_def)
    have "distinct (map fst (row_at w ent k))" by (simp add: row_at_def split: option.splits)
    moreover have "fst ` set (concat (map (row_at w ent) ks)) \<subseteq> set ks" using at by force
    ultimately show ?case using Cons at [of k] by fastforce
  qed simp
  ultimately show ?thesis by (simp add: rows_of_def)
qed

lemma tab_names: "fst ` set (tab names m) \<subseteq> dom m"
proof
  fix a
  assume "a \<in> fst ` set (tab names m)"
  then obtain b where "a \<in> fst ` set (case m b of None \<Rightarrow> [] | Some v \<Rightarrow> [(b, v)])" by (auto simp: tab_def)
  then show "a \<in> dom m" by (cases "m b") auto
qed

lemma tab_distinct: "distinct names \<Longrightarrow> distinct (map fst (tab names m))"
  by (induction names) (auto simp: tab_def split: option.splits)

lemma rows_listed:
  assumes "plain_items (items w)"
  shows "(st \<in> set (rows_of w ent) \<longrightarrow> stored_ok st) \<and> lists (items w) ent (map item_of (rows_of w ent))"
proof -
  have dn: "distinct (names_of w)" by (simp add: names_of_def)
  have whole: "map_of (tab (names_of w) m) = m" if "items w c = Some m" for c m
    using tab_whole [OF dn] held_inD [OF world_held that] by simp
  have "stored_ok (k, as)" if "(k, as) \<in> set (rows_of w ent)" for k as
  proof -
    obtain m where m: "items w (coord_of ent k) = Some m" "as = tab (names_of w) m"
      using \<open>(k, as) \<in> set (rows_of w ent)\<close> by (auto simp: rows_of_mem)
    then have "m partAttr = None" "m sortAttr = None" using plain_items_at [OF assms, of "coord_of ent k"]
      by (simp_all add: attrs_of_def)
    then show ?thesis using m(2) tab_names tab_distinct [OF dn] by (auto simp: stored_ok_def dest!: subsetD [OF tab_names])
  qed
  moreover have "distinct (map i_key (map item_of (rows_of w ent)))"
    using rows_of_distinct [of w ent] by (simp add: comp_def item_of_def)
  moreover have "(\<exists>it \<in> set (map item_of (rows_of w ent)). i_key it = k \<and> i_attrs it = m) \<longleftrightarrow>
      items w (coord_of ent k) = Some m" for k m
  proof -
    have "(\<exists>it \<in> set (map item_of (rows_of w ent)). i_key it = k \<and> i_attrs it = m) \<longleftrightarrow>
        (\<exists>as. (k, as) \<in> set (rows_of w ent) \<and> map_of as = m)"
      by (force simp: item_of_def)
    also have "\<dots> \<longleftrightarrow> items w (coord_of ent k) = Some m" by (auto simp: rows_of_mem whole)
    finally show ?thesis .
  qed
  ultimately show ?thesis by (cases st) (auto simp: lists_def)
qed

lemma page_documented:
  assumes "\<And>e. rows e = rows_of w e"
  shows "endpoint_ok rows (\<lambda>i. if ok then [Some (wire_answer (rows_of w (in_table i)) i)] else [None])"
  unfolding endpoint_ok_def by (cases ok) (simp_all add: assms)

interpretation ds: object_store "driver ws" items for ws
proof -
  have b: "batch_store (st_batch (driver ws)) items"
    using driver_is_store [OF serve_transactional] by (simp add: driver_def)
  have looks: "ask ws w q = (r, w') \<Longrightarrow> items w' = items w" for w q r w'
    by (auto simp: ask_def split: prod.splits dest: next_items)
  have "\<exists>rows. lists (items w) (q_entity q) rows \<and> its = selected q rows"
    if p: "plain_items (items w)" and q: "plain_query q" and a: "ask ws w q = (Inr its, w')" for w q its w'
  proof -
    obtain m v where m: "next_mishap w = (m, v)" by force
    note i = next_items [OF m]
    let ?pages = "\<lambda>i. if m = Fine then [Some (wire_answer (rows_of v (in_table i)) i)] else [None]"
    have r: "QueryItems ws ?pages q = Inr its" using a by (simp add: ask_def m)
    then have v: "ValidateQuery ws q" by (auto simp: QueryItems_def split: if_splits)
    have p': "plain_items (items v)" using p i by simp
    have "QueryItems ws ?pages q = Inl Fault \<and> None \<in> set (?pages (query_input_of q)) \<or>
        QueryItems ws ?pages q = Inr (selected q (map item_of (rows_of v (q_entity q))))"
      using rows_listed [OF p'] by (intro driver_selects page_documented q v) simp_all
    then show ?thesis using r rows_listed [OF p', of undefined "q_entity q"] i by auto
  qed
  then show "object_store (driver ws) items"
    using b looks by (intro object_store.intro object_store_axioms.intro) (simp_all add: driver_def)
qed

text \<open>The driver with no attribute of a declared width.\<close>

definition plain_driver :: "world Store" where [go_defs]: "plain_driver = driver (\<lambda>_. None)"

lemma plain_driver_store: "object_store plain_driver items"
  unfolding plain_driver_def by (rule ds.object_store_axioms)

end
