(* ===== verification/Adapter_Store.thy ===== *)
theory Adapter_Store
  imports Store_Client Go_Strings
begin

text \<open>
  An adapter's storage (chanlib/chanstore): the delivery claims, the held inbound messages, the
  attachment links and the acknowledgement marks, each operation one or two calls of the store's
  primitives. The instants an operation stamps its items with are arguments. Over them, chanlib's
  \<open>deliverOnce\<close> (dedup.go) and the sweep that re-delivers held messages (inbound.go); the
  platform call, routd's answer and JSON are arguments.
\<close>

section \<open>Instants\<close>

text \<open>An instant is a count of Unix nanoseconds; \<open>TS\<close> prints it in UTC to nine places.\<close>

definition TS :: "int \<Rightarrow> string" where
  "TS t =
     (let secs = t div 1000000000;
          (y, m, d) = civil (secs div 86400);
          s = secs mod 86400
      in padded 4 y @ ''-'' @ padded 2 m @ ''-'' @ padded 2 d @ ''T'' @
         padded 2 (s div 3600) @ '':'' @ padded 2 (s div 60 mod 60) @ '':'' @ padded 2 (s mod 60) @
         ''.'' @ padded 9 (t mod 1000000000) @ ''Z'')"

text \<open>The epoch spelled out, which examples evaluate often.\<close>

lemma TS_epoch [code]:
  "TS t = (if t = 0 then ''1970-01-01T00:00:00.000000000Z'' else
     let secs = t div 1000000000;
         (y, m, d) = civil (secs div 86400);
         s = secs mod 86400
     in padded 4 y @ ''-'' @ padded 2 m @ ''-'' @ padded 2 d @ ''T'' @
        padded 2 (s div 3600) @ '':'' @ padded 2 (s div 60 mod 60) @ '':'' @ padded 2 (s mod 60) @
        ''.'' @ padded 9 (t mod 1000000000) @ ''Z'')"
proof (cases "t = 0")
  case True
  have "TS 0 = ''1970-01-01T00:00:00.000000000Z''" by code_simp
  then show ?thesis using True by simp
next
  case False
  then show ?thesis by (simp add: TS_def)
qed

section \<open>Errors and single writes\<close>

datatype chan_error =
    Store_Failed store_error
  | Claim_Unread
  | Claim_Gone
  | Held_Gone
  | Bad_Attempts

definition one_write :: "'w Store \<Rightarrow> 'w \<Rightarrow> Write \<Rightarrow> (store_error + bool) \<times> 'w" where
  [go_defs]: "one_write st w x = st_batch st w [] [x]"

text \<open>A write whose refusal is no error.\<close>

definition settle :: "(store_error + bool) \<times> 'w \<Rightarrow> (chan_error + unit) \<times> 'w" where
  [go_defs]: "settle r = (case r of (Inl e, w) \<Rightarrow> (Inl (Store_Failed e), w) | (Inr _, w) \<Rightarrow> (Inr (), w))"

text \<open>Go's read of a missing map entry is the empty string.\<close>

definition attr :: "attrs \<Rightarrow> string \<Rightarrow> string" where
  [go_defs]: "attr m a = (case m a of None \<Rightarrow> [] | Some v \<Rightarrow> v)"

section \<open>Delivery claims\<close>

definition OutboundDedup :: string where [go_defs]: "OutboundDedup = ''outbound_dedup''"

definition attrChatJID :: string where [go_defs]: "attrChatJID = ''chat_jid''"
definition attrState :: string where [go_defs]: "attrState = ''state''"
definition attrPlatformID :: string where [go_defs]: "attrPlatformID = ''platform_id''"
definition attrCreatedAt :: string where [go_defs]: "attrCreatedAt = ''created_at''"
definition attrSettledAt :: string where [go_defs]: "attrSettledAt = ''settled_at''"

definition stateInflight :: string where [go_defs]: "stateInflight = ''inflight''"
definition stateSent :: string where [go_defs]: "stateSent = ''sent''"

definition dedupKey :: "string \<Rightarrow> Key" where
  [go_defs]: "dedupKey key = \<lparr>Partition = key, Sort = key\<rparr>"

datatype ClaimState = ClaimWon | ClaimSent | ClaimInflight

record Claim =
  cl_state :: ClaimState
  cl_platform :: string

definition claim_put :: "int \<Rightarrow> string \<Rightarrow> string \<Rightarrow> Write" where
  [go_defs]: "claim_put now key jid =
     (write0 Put OutboundDedup (dedupKey key))\<lparr>
       w_attrs := [(attrChatJID, jid), (attrState, stateInflight), (attrCreatedAt, TS now)],
       w_cond := \<lparr>cond_item = ItemAbsent, cond_where = []\<rparr>\<rparr>"

definition RecordedClaim ::
  "'w Store \<Rightarrow> 'w \<Rightarrow> string \<Rightarrow> (chan_error + Claim option) \<times> 'w" where
  [go_defs]: "RecordedClaim st w key =
     (case point st w OutboundDedup (dedupKey key) [attrState, attrPlatformID] of
        (Inl e, w) \<Rightarrow> (Inl (Store_Failed e), w)
      | (Inr None, w) \<Rightarrow> (Inr None, w)
      | (Inr (Some it), w) \<Rightarrow>
          if attr (i_attrs it) attrState = stateSent
          then (Inr (Some \<lparr>cl_state = ClaimSent, cl_platform = attr (i_attrs it) attrPlatformID\<rparr>), w)
          else (Inr (Some \<lparr>cl_state = ClaimInflight, cl_platform = []\<rparr>), w))"

definition ClaimDelivery ::
  "'w Store \<Rightarrow> int \<Rightarrow> 'w \<Rightarrow> string \<Rightarrow> string \<Rightarrow> (chan_error + Claim) \<times> 'w" where
  [go_defs]: "ClaimDelivery st now w key jid =
     (case one_write st w (claim_put now key jid) of
        (Inl e, w) \<Rightarrow> (Inl (Store_Failed e), w)
      | (Inr True, w) \<Rightarrow> (Inr \<lparr>cl_state = ClaimWon, cl_platform = []\<rparr>, w)
      | (Inr False, w) \<Rightarrow>
          (case RecordedClaim st w key of
             (Inl e, w) \<Rightarrow> (Inl e, w)
           | (Inr None, w) \<Rightarrow> (Inl Claim_Unread, w)
           | (Inr (Some c), w) \<Rightarrow> (Inr c, w)))"

definition record_update :: "int \<Rightarrow> string \<Rightarrow> string \<Rightarrow> Write" where
  [go_defs]: "record_update now key platformID =
     (write0 Update OutboundDedup (dedupKey key))\<lparr>
       w_attrs := [(attrState, stateSent), (attrPlatformID, platformID), (attrSettledAt, TS now)]\<rparr>"

definition RecordDelivered ::
  "'w Store \<Rightarrow> int \<Rightarrow> 'w \<Rightarrow> string \<Rightarrow> string \<Rightarrow> (chan_error + unit) \<times> 'w" where
  [go_defs]: "RecordDelivered st now w key platformID =
     (case one_write st w (record_update now key platformID) of
        (Inl e, w) \<Rightarrow> (Inl (Store_Failed e), w)
      | (Inr False, w) \<Rightarrow> (Inl Claim_Gone, w)
      | (Inr True, w) \<Rightarrow> (Inr (), w))"

definition release_delete :: "string \<Rightarrow> Write" where
  [go_defs]: "release_delete key =
     (write0 Delete OutboundDedup (dedupKey key))\<lparr>
       w_cond := \<lparr>cond_item = ItemAny,
                 cond_where = [\<lparr>c_attr = attrState, c_op = Eq, c_value = stateInflight\<rparr>]\<rparr>\<rparr>"

definition ReleaseUnsentClaim :: "'w Store \<Rightarrow> 'w \<Rightarrow> string \<Rightarrow> (chan_error + unit) \<times> 'w" where
  [go_defs]: "ReleaseUnsentClaim st w key = settle (one_write st w (release_delete key))"

section \<open>One delivery\<close>

text \<open>The platform's answer to a post: the families \<open>deliverOnce\<close> tells apart.\<close>

datatype post_error = ErrPermanent | ErrUnsupported | ErrInvalidRequest | ErrNotDelivered | Other_Failure

datatype delivery_error = Unclaimed chan_error | ErrDeliveryUnresolved | Post_Failed post_error

definition unsent :: "post_error \<Rightarrow> bool" where
  [go_defs]: "unsent e = (e \<noteq> Other_Failure)"

text \<open>An adapter without a store, and a post without a key, go straight to the platform.\<close>

definition deliverOnce ::
  "'w Store option \<Rightarrow> int \<Rightarrow> ('w \<Rightarrow> (post_error + string) \<times> 'w) \<Rightarrow> 'w \<Rightarrow> string \<Rightarrow> string
   \<Rightarrow> (delivery_error + string) \<times> 'w" where
  [go_defs]: "deliverOnce sto now post w key jid =
     (case (if key = [] then None else sto) of
        None \<Rightarrow> (case post w of (Inl e, w) \<Rightarrow> (Inl (Post_Failed e), w) | (Inr i, w) \<Rightarrow> (Inr i, w))
      | Some st \<Rightarrow>
          (case ClaimDelivery st now w key jid of
             (Inl e, w) \<Rightarrow> (Inl (Unclaimed e), w)
           | (Inr c, w) \<Rightarrow>
               (case cl_state c of
                  ClaimSent \<Rightarrow> (Inr (cl_platform c), w)
                | ClaimInflight \<Rightarrow> (Inl ErrDeliveryUnresolved, w)
                | ClaimWon \<Rightarrow>
                    (case post w of
                       (Inl e, w) \<Rightarrow>
                         (Inl (Post_Failed e), if unsent e then snd (ReleaseUnsentClaim st w key) else w)
                     | (Inr i, w) \<Rightarrow> (Inr i, snd (RecordDelivered st now w key i))))))"

section \<open>Attachment links\<close>

definition FileURLs :: string where [go_defs]: "FileURLs = ''file_urls''"
definition attrURL :: string where [go_defs]: "attrURL = ''url''"

definition fileURLKey :: "string \<Rightarrow> Key" where
  [go_defs]: "fileURLKey i = \<lparr>Partition = i, Sort = i\<rparr>"

definition url_put :: "int \<Rightarrow> string \<Rightarrow> string \<Rightarrow> Write" where
  [go_defs]: "url_put now i url =
     (write0 Put FileURLs (fileURLKey i))\<lparr>w_attrs := [(attrURL, url), (attrCreatedAt, TS now)]\<rparr>"

definition RecordFileURL ::
  "'w Store \<Rightarrow> int \<Rightarrow> 'w \<Rightarrow> string \<Rightarrow> string \<Rightarrow> (chan_error + unit) \<times> 'w" where
  [go_defs]: "RecordFileURL st now w i url = settle (one_write st w (url_put now i url))"

definition FileURL :: "'w Store \<Rightarrow> 'w \<Rightarrow> string \<Rightarrow> (chan_error + string option) \<times> 'w" where
  [go_defs]: "FileURL st w i =
     (case point st w FileURLs (fileURLKey i) [attrURL] of
        (Inl e, w) \<Rightarrow> (Inl (Store_Failed e), w)
      | (Inr None, w) \<Rightarrow> (Inr None, w)
      | (Inr (Some it), w) \<Rightarrow> (Inr (Some (attr (i_attrs it) attrURL)), w))"

section \<open>Acknowledgement marks\<close>

definition AckMarks :: string where [go_defs]: "AckMarks = ''ack_marks''"
definition attrMarkTarget :: string where [go_defs]: "attrMarkTarget = ''target''"
definition attrMarkHandle :: string where [go_defs]: "attrMarkHandle = ''handle''"
definition attrMarkSetAt :: string where [go_defs]: "attrMarkSetAt = ''set_at''"
definition markPartition :: string where [go_defs]: "markPartition = ''marks''"

definition markKey :: "string \<Rightarrow> Key" where
  [go_defs]: "markKey jid = \<lparr>Partition = markPartition, Sort = jid\<rparr>"

record Mark =
  mk_chat :: string
  mk_target :: string
  mk_handle :: string
  mk_set_at :: string

definition markOf :: "Item \<Rightarrow> Mark" where
  [go_defs]: "markOf it =
     \<lparr>mk_chat = Sort (i_key it), mk_target = attr (i_attrs it) attrMarkTarget,
      mk_handle = attr (i_attrs it) attrMarkHandle, mk_set_at = attr (i_attrs it) attrMarkSetAt\<rparr>"

definition mark_put :: "Mark \<Rightarrow> Write" where
  [go_defs]: "mark_put mk =
     (write0 Put AckMarks (markKey (mk_chat mk)))\<lparr>
       w_attrs := [(attrMarkTarget, mk_target mk), (attrMarkSetAt, mk_set_at mk)] @
         (if mk_handle mk = [] then [] else [(attrMarkHandle, mk_handle mk)])\<rparr>"

definition SetMark :: "'w Store \<Rightarrow> 'w \<Rightarrow> Mark \<Rightarrow> (chan_error + unit) \<times> 'w" where
  [go_defs]: "SetMark st w mk = settle (one_write st w (mark_put mk))"

definition MarkFor :: "'w Store \<Rightarrow> 'w \<Rightarrow> string \<Rightarrow> (chan_error + Mark option) \<times> 'w" where
  [go_defs]: "MarkFor st w jid =
     (case point st w AckMarks (markKey jid) [] of
        (Inl e, w) \<Rightarrow> (Inl (Store_Failed e), w)
      | (Inr x, w) \<Rightarrow> (Inr (map_option markOf x), w))"

definition Marks :: "'w Store \<Rightarrow> 'w \<Rightarrow> (chan_error + Mark list) \<times> 'w" where
  [go_defs]: "Marks st w =
     (case st_query st w (query0 AckMarks markPartition) of
        (Inl e, w) \<Rightarrow> (Inl (Store_Failed e), w)
      | (Inr its, w) \<Rightarrow> (Inr (map markOf its), w))"

definition DropMark :: "'w Store \<Rightarrow> 'w \<Rightarrow> string \<Rightarrow> (chan_error + unit) \<times> 'w" where
  [go_defs]: "DropMark st w jid = settle (one_write st w (write0 Delete AckMarks (markKey jid)))"

section \<open>Held inbound messages\<close>

definition InboundPending :: string where [go_defs]: "InboundPending = ''inbound_pending''"
definition attrPayload :: string where [go_defs]: "attrPayload = ''payload''"
definition attrAttempts :: string where [go_defs]: "attrAttempts = ''attempts''"
definition attrFirstSeenAt :: string where [go_defs]: "attrFirstSeenAt = ''first_seen_at''"
definition attrNextAttemptAt :: string where [go_defs]: "attrNextAttemptAt = ''next_attempt_at''"
definition attrLastError :: string where [go_defs]: "attrLastError = ''last_error''"
definition pendingPartition :: string where [go_defs]: "pendingPartition = ''inbound''"

definition pendingKey :: "string \<Rightarrow> Key" where
  [go_defs]: "pendingKey i = \<lparr>Partition = pendingPartition, Sort = i\<rparr>"

record Held =
  hd_id :: string
  hd_payload :: string
  hd_attempts :: int

definition retain_put :: "string \<Rightarrow> string \<Rightarrow> string \<Rightarrow> string \<Rightarrow> string \<Rightarrow> Write" where
  [go_defs]: "retain_put i payload firstSeenAt nextAttemptAt lastError =
     (write0 Put InboundPending (pendingKey i))\<lparr>
       w_attrs := [(attrPayload, payload), (attrAttempts, ''0''), (attrFirstSeenAt, firstSeenAt),
         (attrNextAttemptAt, nextAttemptAt), (attrLastError, lastError)],
       w_cond := \<lparr>cond_item = ItemAbsent, cond_where = []\<rparr>\<rparr>"

definition Retain ::
  "'w Store \<Rightarrow> 'w \<Rightarrow> string \<Rightarrow> string \<Rightarrow> string \<Rightarrow> string \<Rightarrow> string \<Rightarrow> (chan_error + unit) \<times> 'w" where
  [go_defs]: "Retain st w i payload firstSeenAt nextAttemptAt lastError =
     settle (one_write st w (retain_put i payload firstSeenAt nextAttemptAt lastError))"

fun held_items :: "Item list \<Rightarrow> chan_error + Held list" where
  "held_items [] = Inr []"
| "held_items (it # its) =
     (case Atoi (attr (i_attrs it) attrAttempts) of
        None \<Rightarrow> Inl Bad_Attempts
      | Some n \<Rightarrow>
          (case held_items its of
             Inl e \<Rightarrow> Inl e
           | Inr hs \<Rightarrow>
               Inr (\<lparr>hd_id = Sort (i_key it), hd_payload = attr (i_attrs it) attrPayload, hd_attempts = n\<rparr> # hs)))"

definition due_query :: "string \<Rightarrow> Query" where
  [go_defs]: "due_query now =
     (query0 InboundPending pendingPartition)\<lparr>
       q_where := [\<lparr>c_attr = attrNextAttemptAt, c_op = Le, c_value = now\<rparr>],
       q_project := [attrPayload, attrAttempts, attrFirstSeenAt]\<rparr>"

definition DueForRedelivery ::
  "'w Store \<Rightarrow> 'w \<Rightarrow> string \<Rightarrow> int \<Rightarrow> (chan_error + Held list) \<times> 'w" where
  [go_defs]: "DueForRedelivery st w now limit =
     (case st_query st w (due_query now) of
        (Inl e, w) \<Rightarrow> (Inl (Store_Failed e), w)
      | (Inr its, w) \<Rightarrow>
          (held_items (limited limit (sort_key (\<lambda>it. attr (i_attrs it) attrFirstSeenAt) its)), w))"

definition reschedule_update :: "string \<Rightarrow> int \<Rightarrow> string \<Rightarrow> string \<Rightarrow> Write" where
  [go_defs]: "reschedule_update i attempts nextAttemptAt lastError =
     (write0 Update InboundPending (pendingKey i))\<lparr>
       w_attrs := [(attrAttempts, itoa attempts), (attrNextAttemptAt, nextAttemptAt), (attrLastError, lastError)]\<rparr>"

definition Reschedule ::
  "'w Store \<Rightarrow> 'w \<Rightarrow> string \<Rightarrow> int \<Rightarrow> string \<Rightarrow> string \<Rightarrow> (chan_error + unit) \<times> 'w" where
  [go_defs]: "Reschedule st w i attempts nextAttemptAt lastError =
     (case one_write st w (reschedule_update i attempts nextAttemptAt lastError) of
        (Inl e, w) \<Rightarrow> (Inl (Store_Failed e), w)
      | (Inr False, w) \<Rightarrow> (Inl Held_Gone, w)
      | (Inr True, w) \<Rightarrow> (Inr (), w))"

definition Drop :: "'w Store \<Rightarrow> 'w \<Rightarrow> string \<Rightarrow> (chan_error + unit) \<times> 'w" where
  [go_defs]: "Drop st w i = settle (one_write st w (write0 Delete InboundPending (pendingKey i)))"

definition HeldCount :: "'w Store \<Rightarrow> 'w \<Rightarrow> (chan_error + int) \<times> 'w" where
  [go_defs]: "HeldCount st w =
     (case st_query st w ((query0 InboundPending pendingPartition)\<lparr>q_project := [attrAttempts]\<rparr>) of
        (Inl e, w) \<Rightarrow> (Inl (Store_Failed e), w)
      | (Inr its, w) \<Rightarrow> (Inr (int (length its)), w))"

section \<open>Retention and the sweep\<close>

text \<open>Durations are nanoseconds.\<close>

definition inboundSweepBatch :: int where [go_defs]: "inboundSweepBatch = 50"
definition inboundBackoffBase :: int where [go_defs]: "inboundBackoffBase = 30000000000"
definition inboundBackoffMax :: int where [go_defs]: "inboundBackoffMax = 900000000000"

text \<open>routd's answer to a post: taken, or an error, with the HTTP status where there is one.\<close>

datatype ingress = Taken | Not_Taken "int option" string

definition PermanentIngress :: "int option \<Rightarrow> bool" where
  [go_defs]: "PermanentIngress code =
     (case code of None \<Rightarrow> False | Some c \<Rightarrow> c \<in> {400, 403, 413, 422})"

fun backoff_loop :: "int \<Rightarrow> nat \<Rightarrow> int" where
  "backoff_loop d 0 = d"
| "backoff_loop d (Suc n) =
     (let d = 2 * d in if d \<ge> inboundBackoffMax then inboundBackoffMax else backoff_loop d n)"

definition inboundBackoff :: "int \<Rightarrow> int" where
  [go_defs]: "inboundBackoff attempts = backoff_loop inboundBackoffBase (nat attempts)"

text \<open>An inbound that routd did not take; \<open>encode\<close> is JSON's, \<open>None\<close> its error.\<close>

record inbound =
  in_id :: string
  in_chat :: string
  in_body :: string

definition retainInbound ::
  "'w Store option \<Rightarrow> (inbound \<Rightarrow> string option) \<Rightarrow> int \<Rightarrow> 'w \<Rightarrow> inbound \<Rightarrow> int option \<Rightarrow> string
   \<Rightarrow> bool \<times> 'w" where
  [go_defs]: "retainInbound sto encode now w msg code cause =
     (case sto of
        None \<Rightarrow> (True, w)
      | Some st \<Rightarrow>
          if PermanentIngress code then (False, w)
          else if in_id msg = [] then (False, w)
          else case encode msg of
            None \<Rightarrow> (False, w)
          | Some payload \<Rightarrow>
              (case Retain st w (in_id msg) payload (TS now) (TS (now + inboundBackoffBase)) cause of
                 (Inl e, w) \<Rightarrow> (False, w)
               | (Inr _, w) \<Rightarrow> (True, w)))"

text \<open>\<open>d.Attempts+1\<close> is Go's: it wraps at 64 bits.\<close>

definition next_attempt :: "int \<Rightarrow> int" where
  [go_defs]: "next_attempt n = (if n = 2 ^ 63 - 1 then - (2 ^ 63) else n + 1)"

text \<open>One due message: \<open>decode\<close> is JSON's, \<open>post\<close> the call of routd, \<open>clock\<close> the time of the world.\<close>

definition redeliver ::
  "'w Store \<Rightarrow> (string \<Rightarrow> inbound option) \<Rightarrow> ('w \<Rightarrow> inbound \<Rightarrow> ingress \<times> 'w) \<Rightarrow> ('w \<Rightarrow> int) \<Rightarrow> 'w \<Rightarrow> Held \<Rightarrow> 'w" where
  [go_defs]: "redeliver st decode post clock w d =
     (case decode (hd_payload d) of
        None \<Rightarrow> snd (Drop st w (hd_id d))
      | Some msg \<Rightarrow>
          (case post w msg of
             (Taken, w) \<Rightarrow> snd (Drop st w (hd_id d))
           | (Not_Taken code cause, w) \<Rightarrow>
               if PermanentIngress code then snd (Drop st w (hd_id d))
               else snd (Reschedule st w (hd_id d) (next_attempt (hd_attempts d))
                      (TS (clock w + inboundBackoff (next_attempt (hd_attempts d)))) cause)))"

definition SweepInboundOnce ::
  "'w Store option \<Rightarrow> (string \<Rightarrow> inbound option) \<Rightarrow> ('w \<Rightarrow> inbound \<Rightarrow> ingress \<times> 'w) \<Rightarrow> ('w \<Rightarrow> int)
   \<Rightarrow> ('w \<Rightarrow> bool) \<Rightarrow> 'w \<Rightarrow> 'w" where
  [go_defs]: "SweepInboundOnce sto decode post clock stopped w =
     (case sto of
        None \<Rightarrow> w
      | Some st \<Rightarrow>
          (case DueForRedelivery st w (TS (clock w)) inboundSweepBatch of
             (Inl e, w) \<Rightarrow> w
           | (Inr batch, w) \<Rightarrow>
               fold (\<lambda>d w. if stopped w then w else redeliver st decode post clock w d) batch w))"

definition PendingInboundCount :: "'w Store option \<Rightarrow> 'w \<Rightarrow> (chan_error + int) \<times> 'w" where
  [go_defs]: "PendingInboundCount sto w = (case sto of None \<Rightarrow> (Inr 0, w) | Some st \<Rightarrow> HeldCount st w)"

end
