(* ===== verification/Adapter_Delivery.thy ===== *)
theory Adapter_Delivery
  imports Adapter_Store
begin

text \<open>
  What an adapter's deliveries and its held messages promise. The attempts at deliveries run
  concurrently, over any store that keeps its contract: \<open>delivery_step\<close> interleaves the store
  calls and the platform calls of \<open>deliverOnce\<close>, with every crash. The sweep of held messages is
  run as a whole.
\<close>

section \<open>Single writes\<close>

context object_store
begin

lemma one_write_effect:
  assumes "plain_items (view w)" "plain_write x" "one_write st w x = (r, w')"
  shows "(r = Inr True \<longrightarrow> write_ok x (view w (place_of x)) \<and> view w' = (view w)(place_of x := written x (view w (place_of x)))) \<and>
    (r = Inr False \<longrightarrow> \<not> write_ok x (view w (place_of x)) \<and> view w' = view w) \<and>
    (view w' = view w \<or>
     (write_ok x (view w (place_of x)) \<and> view w' = (view w)(place_of x := written x (view w (place_of x)))))"
  using single [OF assms(1,2)] assms(3) by (simp add: one_write_def)

lemma one_write_plain:
  assumes "plain_items (view w)" "plain_write x" "one_write st w x = (r, w')"
  shows "plain_items (view w')"
proof (rule stays_plain [OF assms(1)])
  show "plain_batch [] [x]" using assms(2) by (simp add: plain_batch_def)
  show "st_batch st w [] [x] = (r, w')" using assms(3) by (simp add: one_write_def)
qed

lemma one_write_elsewhere:
  assumes "plain_items (view w)" "plain_write x" "one_write st w x = (r, w')" "c \<noteq> place_of x"
  shows "view w' c = view w c"
  using one_write_effect [OF assms(1-3)] assms(4) by (metis fun_upd_other)

end

lemma chan_writes_plain [simp]:
  "plain_write (claim_put now key jid)" "plain_write (record_update now key i)" "plain_write (release_delete key)"
  "plain_write (url_put now i url)" "plain_write (mark_put mk)" "plain_write (retain_put i p a b e)"
  "plain_write (reschedule_update i n b e)" "plain_write (write0 Delete ent k)"
  by (simp_all add: plain_write_def plain_attr_def plain_cond_def no_cond_def write0_def claim_put_def
      record_update_def release_delete_def url_put_def mark_put_def retain_put_def reschedule_update_def
      partAttr_def sortAttr_def openAttr_def attrChatJID_def attrState_def attrCreatedAt_def attrPlatformID_def
      attrSettledAt_def attrURL_def attrMarkTarget_def attrMarkHandle_def attrMarkSetAt_def attrPayload_def
      attrAttempts_def attrFirstSeenAt_def attrNextAttemptAt_def attrLastError_def)

abbreviation claim_at :: "string \<Rightarrow> coord" where "claim_at key \<equiv> coord_of OutboundDedup (dedupKey key)"
abbreviation held_at :: "string \<Rightarrow> coord" where "held_at i \<equiv> coord_of InboundPending (pendingKey i)"

lemma chan_places [simp]:
  "place_of (claim_put now key jid) = claim_at key" "place_of (record_update now key i) = claim_at key"
  "place_of (release_delete key) = claim_at key" "place_of (retain_put i p a b e) = held_at i"
  "place_of (reschedule_update i n b e) = held_at i" "place_of (write0 Delete ent k) = coord_of ent k"
  by (simp_all add: place_of_def write0_def claim_put_def record_update_def release_delete_def retain_put_def
      reschedule_update_def)

lemma claim_at_inj [simp]: "claim_at k = claim_at k' \<longleftrightarrow> k = k'"
  by (auto simp: coord_of_def dedupKey_def)

lemma held_at_inj [simp]: "held_at i = held_at j \<longleftrightarrow> i = j"
  by (auto simp: coord_of_def pendingKey_def)

section \<open>What the claim operations leave\<close>

context object_store
begin

lemma recorded_looks: "RecordedClaim st w key = (r, w') \<Longrightarrow> view w' = view w"
  by (auto simp: RecordedClaim_def split: prod.splits sum.splits option.splits if_splits dest: point_looks)

text \<open>A claim is written where there was none, or nothing is; only the write wins it.\<close>

lemma claim_effect:
  assumes p: "plain_items (view w)" and c: "ClaimDelivery st now w key jid = (r, w')"
  shows "plain_items (view w') \<and> (\<forall>c. c \<noteq> claim_at key \<longrightarrow> view w' c = view w c) \<and>
    (view w' (claim_at key) = None \<longrightarrow> view w (claim_at key) = None) \<and>
    (\<forall>x. r = Inr x \<and> cl_state x = ClaimWon \<longrightarrow> view w (claim_at key) = None \<and> view w' (claim_at key) \<noteq> None)"
proof -
  let ?x = "claim_put now key jid"
  obtain q v where o: "one_write st w ?x = (q, v)" by force
  note e = one_write_effect [OF p _ o] and pv = one_write_plain [OF p _ o]
  have same: "view w' = view v"
    using c o recorded_looks by (auto simp: ClaimDelivery_def split: prod.splits sum.splits bool.splits option.splits)
  have won: "q = Inr True" if "r = Inr x" "cl_state x = ClaimWon" for x
    using c o that by (auto simp: ClaimDelivery_def RecordedClaim_def split: prod.splits sum.splits bool.splits option.splits if_splits)
  have absent: "write_ok ?x m \<longleftrightarrow> m = None" for m
    by (simp add: write_ok_def cond_ok_def claim_put_def write0_def)
  have put: "written ?x m \<noteq> None" for m by (simp add: written_def claim_put_def write0_def)
  show ?thesis using e pv same won absent put by (auto simp del: split_paired_All)
qed

end

context object_store
begin

lemma record_effect:
  assumes p: "plain_items (view w)" and c: "RecordDelivered st now w key i = (r, w')"
  shows "plain_items (view w') \<and> (\<forall>c. c \<noteq> claim_at key \<longrightarrow> view w' c = view w c) \<and>
    (view w' (claim_at key) = None \<longrightarrow> view w (claim_at key) = None)"
proof -
  obtain q v where o: "one_write st w (record_update now key i) = (q, v)" by force
  have "view w' = view v"
    using c o by (auto simp: RecordDelivered_def split: prod.splits sum.splits bool.splits)
  moreover have "written (record_update now key i) (view w (claim_at key)) \<noteq> None"
    by (simp add: written_def record_update_def write0_def)
  ultimately show ?thesis
    using one_write_effect [OF p _ o] one_write_plain [OF p _ o] by (auto simp del: split_paired_All)
qed

lemma release_effect:
  assumes p: "plain_items (view w)" and c: "ReleaseUnsentClaim st w key = (r, w')"
  shows "plain_items (view w') \<and> (\<forall>c. c \<noteq> claim_at key \<longrightarrow> view w' c = view w c)"
proof -
  obtain q where o: "one_write st w (release_delete key) = (q, w')"
    using c by (auto simp: ReleaseUnsentClaim_def settle_def split: prod.splits sum.splits)
  show ?thesis
    using one_write_effect [OF p _ o] one_write_plain [OF p _ o] by (auto simp del: split_paired_All)
qed

end

section \<open>Concurrent deliveries\<close>

text \<open>Where one call of \<open>deliverOnce\<close> is.\<close>

datatype phase =
    Idle
  | Claiming string string
  | Posting string
  | Recording string string
  | Releasing string
  | Over

record 'w deliveries =
  dl_world :: 'w
  dl_phase :: "nat \<Rightarrow> phase"
  dl_posted :: "string list"

definition goes :: "'w deliveries \<Rightarrow> nat \<Rightarrow> phase \<Rightarrow> 'w deliveries" where
  [go_defs]: "goes D i p = D\<lparr>dl_phase := (dl_phase D)(i := p)\<rparr>"

definition claimed :: "string \<Rightarrow> chan_error + Claim \<Rightarrow> phase" where
  [go_defs]: "claimed key r =
     (case r of Inl e \<Rightarrow> Over | Inr c \<Rightarrow> if cl_state c = ClaimWon then Posting key else Over)"

text \<open>A step of one call. The platform accepts a post and its answer arrives, or it accepts it and
  the answer is lost; it refuses it in a way that proves that nothing was posted, or fails without
  having posted. A call may end anywhere: its process died.\<close>

inductive delivery_step :: "'w Store \<Rightarrow> 'w deliveries \<Rightarrow> 'w deliveries \<Rightarrow> bool" for st where
  begin_call: "dl_phase D i = Idle \<Longrightarrow> key \<noteq> [] \<Longrightarrow> delivery_step st D (goes D i (Claiming key jid))"
| claim_call: "dl_phase D i = Claiming key jid \<Longrightarrow>
    ClaimDelivery st now (dl_world D) key jid = (r, w) \<Longrightarrow>
    delivery_step st D ((goes D i (claimed key r))\<lparr>dl_world := w\<rparr>)"
| accepted: "dl_phase D i = Posting key \<Longrightarrow> p = Recording key x \<or> p = Over \<Longrightarrow>
    delivery_step st D ((goes D i p)\<lparr>dl_posted := key # dl_posted D\<rparr>)"
| not_posted: "dl_phase D i = Posting key \<Longrightarrow>
    delivery_step st D (goes D i (if unsent e then Releasing key else Over))"
| record_call: "dl_phase D i = Recording key x \<Longrightarrow>
    RecordDelivered st now (dl_world D) key x = (r, w) \<Longrightarrow>
    delivery_step st D ((goes D i Over)\<lparr>dl_world := w\<rparr>)"
| release_call: "dl_phase D i = Releasing key \<Longrightarrow>
    ReleaseUnsentClaim st (dl_world D) key = (r, w) \<Longrightarrow>
    delivery_step st D ((goes D i Over)\<lparr>dl_world := w\<rparr>)"
| crash: "delivery_step st D (goes D i Over)"

text \<open>A call holds a key from its claim to the platform's answer, or to the release of the claim.\<close>

definition holds_key :: "'w deliveries \<Rightarrow> string \<Rightarrow> nat \<Rightarrow> bool" where
  [go_defs]: "holds_key D key i = (dl_phase D i = Posting key \<or> dl_phase D i = Releasing key)"

definition delivery_inv :: "('w \<Rightarrow> item_map) \<Rightarrow> 'w deliveries \<Rightarrow> bool" where
  "delivery_inv view D \<longleftrightarrow> plain_items (view (dl_world D)) \<and>
     (\<forall>key.
        count_list (dl_posted D) key \<le> 1 \<and>
        (\<forall>i. holds_key D key i \<longrightarrow> count_list (dl_posted D) key = 0 \<and> view (dl_world D) (claim_at key) \<noteq> None) \<and>
        (\<forall>i j. holds_key D key i \<longrightarrow> holds_key D key j \<longrightarrow> i = j) \<and>
        (count_list (dl_posted D) key > 0 \<longrightarrow> view (dl_world D) (claim_at key) \<noteq> None))"

lemma holds_goes:
  "holds_key (goes D i p) key j =
   (if j = i then p = Posting key \<or> p = Releasing key else holds_key D key j)"
  "holds_key (D\<lparr>dl_world := w\<rparr>) key j = holds_key D key j"
  "holds_key (D\<lparr>dl_posted := ps\<rparr>) key j = holds_key D key j"
  by (simp_all add: holds_key_def goes_def)

lemma goes_rest [simp]: "dl_world (goes D i p) = dl_world D" "dl_posted (goes D i p) = dl_posted D"
  by (simp_all add: goes_def)

lemma delivery_invI:
  assumes "plain_items (view (dl_world D))"
    and "\<And>key. count_list (dl_posted D) key \<le> 1"
    and "\<And>key i. holds_key D key i \<Longrightarrow> count_list (dl_posted D) key = 0 \<and> view (dl_world D) (claim_at key) \<noteq> None"
    and "\<And>key i j. holds_key D key i \<Longrightarrow> holds_key D key j \<Longrightarrow> i = j"
    and "\<And>key. count_list (dl_posted D) key > 0 \<Longrightarrow> view (dl_world D) (claim_at key) \<noteq> None"
  shows "delivery_inv view D"
  unfolding delivery_inv_def using assms by blast

text \<open>A step that gives a call no key it did not hold and takes no claim away keeps the invariant.\<close>

lemma inv_less:
  assumes v: "delivery_inv view D" and p: "plain_items (view w)"
    and h: "\<And>key j. holds_key E key j \<Longrightarrow> holds_key D key j" and s: "dl_posted E = dl_posted D" "dl_world E = w"
    and c: "\<And>key. view w (claim_at key) = None \<Longrightarrow> view (dl_world D) (claim_at key) = None"
  shows "delivery_inv view E"
  using v unfolding delivery_inv_def s by (intro conjI allI impI p) (metis h c)+

context object_store
begin

lemma step_keeps:
  assumes s: "delivery_step st D E" and v: "delivery_inv view D"
  shows "delivery_inv view E"
  using s
proof cases
  case (begin_call i key jid)
  show ?thesis
    by (rule inv_less [OF v, of "dl_world D"]) (use v begin_call in \<open>auto simp: delivery_inv_def holds_goes split: if_splits\<close>)
next
  case (crash i)
  show ?thesis
    by (rule inv_less [OF v, of "dl_world D"]) (use v crash in \<open>auto simp: delivery_inv_def holds_goes split: if_splits\<close>)
next
  case (not_posted i key e)
  have "holds_key D key i" using not_posted by (simp add: holds_key_def)
  then show ?thesis
    by (intro inv_less [OF v, of "dl_world D"])
      (use v not_posted in \<open>auto simp: delivery_inv_def holds_goes split: if_splits\<close>)
next
  case (record_call i key x now r w)
  note e = record_effect [OF _ record_call(3)]
  have p: "plain_items (view (dl_world D))" using v by (simp add: delivery_inv_def)
  show ?thesis
  proof (rule inv_less [OF v, of w])
    show "view w (claim_at k) = None \<Longrightarrow> view (dl_world D) (claim_at k) = None" for k
      using e [OF p] by (cases "k = key") auto
  qed (use e [OF p] record_call in \<open>auto simp: holds_goes split: if_splits\<close>)
next
  case (release_call i key r w)
  have p: "plain_items (view (dl_world D))" using v by (simp add: delivery_inv_def)
  note e = release_effect [OF p release_call(3)]
  have o: "y \<noteq> key \<Longrightarrow> view w (claim_at y) = view (dl_world D) (claim_at y)" for y
      using e claim_at_inj [of y key] by blast
  have k: "holds_key D key i" using release_call by (simp add: holds_key_def)
  have n: "holds_key E x j \<longleftrightarrow> x \<noteq> key \<and> holds_key D x j" for x j
    using v k release_call by (auto simp: holds_goes delivery_inv_def) (auto simp: holds_key_def)
  show ?thesis
  proof (rule delivery_invI)
    fix x
    have "count_list (dl_posted D) key = 0" using v k unfolding delivery_inv_def by blast
    then show "count_list (dl_posted E) x > 0 \<Longrightarrow> view (dl_world E) (claim_at x) \<noteq> None"
      using v o release_call unfolding delivery_inv_def by (cases "x = key") auto
  next
    fix x j
    assume "holds_key E x j"
    then show "count_list (dl_posted E) x = 0 \<and> view (dl_world E) (claim_at x) \<noteq> None"
      using v o n release_call unfolding delivery_inv_def by auto
  qed (use v e n release_call in \<open>auto simp: delivery_inv_def\<close>)
next
  case (accepted i key p x)
  have k: "holds_key D key i" using accepted by (simp add: holds_key_def)
  have n: "holds_key E y j \<longleftrightarrow> y \<noteq> key \<and> holds_key D y j" for y j
    using v k accepted by (auto simp: holds_goes delivery_inv_def) (auto simp: holds_key_def)
  have c: "count_list (dl_posted E) y = (if y = key then 1 else count_list (dl_posted D) y)" for y
    using v k accepted unfolding delivery_inv_def by auto
  have w: "dl_world E = dl_world D" using accepted by simp
  show ?thesis
    by (rule delivery_invI) (use v k n c w in \<open>auto simp: delivery_inv_def split: if_splits\<close>)
next
  case (claim_call i key jid now r w)
  have p: "plain_items (view (dl_world D))" using v by (simp add: delivery_inv_def)
  note e = claim_effect [OF p claim_call(3)]
  show ?thesis
  proof (cases "\<exists>x. r = Inr x \<and> cl_state x = ClaimWon")
    case True
    then have f: "view (dl_world D) (claim_at key) = None" "view w (claim_at key) \<noteq> None" using e by blast+
    have n: "holds_key E y j \<longleftrightarrow> (if y = key then j = i else holds_key D y j)" for y j
      using v f(1) claim_call True unfolding delivery_inv_def
      by (auto simp: holds_goes claimed_def) (auto simp: holds_key_def)
    have z: "count_list (dl_posted D) key = 0" using v f(1) unfolding delivery_inv_def by auto
    have o: "y \<noteq> key \<Longrightarrow> view w (claim_at y) = view (dl_world D) (claim_at y)" for y
      using e claim_at_inj [of y key] by blast
    show ?thesis
    proof (rule delivery_invI)
      fix y
      show "count_list (dl_posted E) y > 0 \<Longrightarrow> view (dl_world E) (claim_at y) \<noteq> None"
        using v z o claim_call unfolding delivery_inv_def by (cases "y = key") auto
    next
      fix y j
      assume "holds_key E y j"
      then show "count_list (dl_posted E) y = 0 \<and> view (dl_world E) (claim_at y) \<noteq> None"
        using v z o f n claim_call unfolding delivery_inv_def by (cases "y = key") auto
    qed (use v e n claim_call in \<open>auto simp: delivery_inv_def split: if_splits\<close>)
  next
    case False
    then have "claimed key r = Over" by (auto simp: claimed_def split: sum.splits)
    moreover have "view w (claim_at k) = None \<Longrightarrow> view (dl_world D) (claim_at k) = None" for k
    proof (cases "k = key")
      case True
      moreover have "view w (claim_at key) = None \<Longrightarrow> view (dl_world D) (claim_at key) = None" using e by blast
      ultimately show "view w (claim_at k) = None \<Longrightarrow> view (dl_world D) (claim_at k) = None" by simp
    next
      case False
      then have "view w (claim_at k) = view (dl_world D) (claim_at k)"
        using e claim_at_inj [of k key] by blast
      then show "view w (claim_at k) = None \<Longrightarrow> view (dl_world D) (claim_at k) = None" by simp
    qed
    ultimately show ?thesis
      using claim_call e by (intro inv_less [OF v, of w]) (auto simp: holds_goes split: if_splits)
  qed
qed

end

section \<open>Properties\<close>

text \<open>C9. A message is delivered at most once: whatever calls of \<open>deliverOnce\<close> run, in whatever
  interleaving, whichever of them die at any point and whichever store requests or answers are
  lost, the platform accepts at most one message of each idempotency key.\<close>

theorem delivered_at_most_once:
  assumes "object_store st view" "plain_items (view w)"
    and "(delivery_step st)\<^sup>*\<^sup>* \<lparr>dl_world = w, dl_phase = \<lambda>_. Idle, dl_posted = []\<rparr> D"
  shows "count_list (dl_posted D) key \<le> 1"
proof -
  have "delivery_inv view D"
    using assms(3)
  proof (induction rule: rtranclp_induct)
    case base
    show ?case using assms(2) by (simp add: delivery_inv_def holds_key_def)
  next
    case (step D E)
    then show ?case using object_store.step_keeps [OF assms(1)] by blast
  qed
  then show ?thesis by (simp add: delivery_inv_def)
qed

lemma five_steps: "R a b \<Longrightarrow> R b c \<Longrightarrow> R c d \<Longrightarrow> R d e \<Longrightarrow> R e f \<Longrightarrow> R\<^sup>*\<^sup>* a f"
  by (meson converse_rtranclp_into_rtranclp rtranclp.rtrancl_refl)

text \<open>Two calls with one key, the answer of the first to routd lost after the platform took the message.\<close>

lemma delivered_at_most_once_witness:
  "\<exists>D. (delivery_step (driver (\<lambda>_. None)))\<^sup>*\<^sup>*
      \<lparr>dl_world = sample_world, dl_phase = \<lambda>_. Idle, dl_posted = []\<rparr> D \<and>
    dl_phase D 1 = Over \<and> dl_posted D = [''k1''] \<and> count_list (dl_posted D) ''k1'' \<le> 1"
proof -
  let ?st = "driver (\<lambda>_. None)"
  let ?D0 = "\<lparr>dl_world = sample_world, dl_phase = \<lambda>_. Idle, dl_posted = []\<rparr>"
  let ?D1 = "goes ?D0 0 (Claiming ''k1'' ''j'')"
  obtain r w where c: "ClaimDelivery ?st 0 sample_world ''k1'' ''j'' = (r, w)" by force
  have "fst (ClaimDelivery ?st 0 sample_world ''k1'' ''j'') = Inr \<lparr>cl_state = ClaimWon, cl_platform = []\<rparr>"
    by code_simp
  then have r: "claimed ''k1'' r = Posting ''k1''" using c by (simp add: claimed_def)
  let ?D2 = "(goes ?D1 0 (claimed ''k1'' r))\<lparr>dl_world := w\<rparr>"
  let ?D3 = "(goes ?D2 0 Over)\<lparr>dl_posted := [''k1'']\<rparr>"
  let ?D4 = "goes ?D3 1 (Claiming ''k1'' ''j'')"
  obtain r' w' where c': "ClaimDelivery ?st 0 w ''k1'' ''j'' = (r', w')" by force
  have "fst (ClaimDelivery ?st 0 (snd (ClaimDelivery ?st 0 sample_world ''k1'' ''j'')) ''k1'' ''j'') =
      Inr \<lparr>cl_state = ClaimInflight, cl_platform = []\<rparr>"
    by code_simp
  then have r': "claimed ''k1'' r' = Over" using c c' by (simp add: claimed_def)
  let ?D5 = "(goes ?D4 1 (claimed ''k1'' r'))\<lparr>dl_world := w'\<rparr>"
  have s1: "delivery_step ?st ?D0 ?D1" by (rule begin_call) simp_all
  have s2: "delivery_step ?st ?D1 ?D2" by (rule claim_call) (use c in \<open>simp_all add: goes_def\<close>)
  have s3: "delivery_step ?st ?D2 ?D3"
    using accepted [of ?D2 0 "''k1''" Over "[]" ?st] r by (simp add: goes_def)
  have s4: "delivery_step ?st ?D3 ?D4" by (rule begin_call) (simp_all add: goes_def)
  have s5: "delivery_step ?st ?D4 ?D5" by (rule claim_call) (use c' in \<open>simp_all add: goes_def\<close>)
  note run = five_steps [where R = "delivery_step ?st", OF s1 s2 s3 s4 s5]
  have "plain_items (items sample_world)" by (simp add: sample_world_def items_def plain_items_def)
  note once = delivered_at_most_once [OF ds.object_store_axioms this run, of "''k1''"]
  have "dl_phase ?D5 1 = Over" "dl_posted ?D5 = [''k1'']" using r' by (simp_all add: goes_def)
  then show ?thesis using run once by blast
qed

section \<open>Held messages\<close>

lemma backoff_loop_closed: "d > 0 \<Longrightarrow> d < inboundBackoffMax \<Longrightarrow> backoff_loop d n = min (d * 2 ^ n) inboundBackoffMax"
proof (induction n arbitrary: d)
  case (Suc n)
  have "d * 2 \<le> d * (2 * 2 ^ n)" using Suc.prems(1) by (intro mult_left_mono) simp_all
  then show ?case
  proof (cases "2 * d \<ge> inboundBackoffMax")
    case True
    then have "inboundBackoffMax \<le> d * (2 * 2 ^ n)" using \<open>d * 2 \<le> d * (2 * 2 ^ n)\<close> by linarith
    then show ?thesis using True by simp
  next
    case False
    then show ?thesis using Suc.IH [of "2 * d"] Suc.prems by (simp add: mult.assoc mult.left_commute)
  qed
qed simp

text \<open>The wait before a held message is tried again is the base doubled once per failed attempt,
  cut at the maximum: never under 30 seconds, never over 15 minutes.\<close>

theorem inbound_backoff_bounds:
  assumes "n \<ge> 0"
  shows "inboundBackoff n = min (inboundBackoffBase * 2 ^ nat n) inboundBackoffMax \<and>
    inboundBackoffBase \<le> inboundBackoff n \<and> inboundBackoff n \<le> inboundBackoffMax"
proof -
  have "inboundBackoff n = min (inboundBackoffBase * 2 ^ nat n) inboundBackoffMax"
    unfolding inboundBackoff_def
    by (rule backoff_loop_closed) (simp_all add: inboundBackoffBase_def inboundBackoffMax_def)
  moreover have "(1 :: int) \<le> 2 ^ nat n" by simp
  ultimately show ?thesis by (simp add: inboundBackoffBase_def inboundBackoffMax_def)
qed

lemma inbound_backoff_bounds_witness: "inboundBackoff 2 = 120000000000 \<and> inboundBackoff 2 \<le> inboundBackoffMax"
  using inbound_backoff_bounds [of 2] by (simp add: inboundBackoffBase_def inboundBackoffMax_def)

text \<open>A message the store holds, with its payload.\<close>

definition kept :: "item_map \<Rightarrow> string \<Rightarrow> string \<Rightarrow> bool" where
  [go_defs]: "kept db i payload = (\<exists>m. db (held_at i) = Some m \<and> m attrPayload = Some payload)"

text \<open>routd does not take the message, and does not refuse it for good.\<close>

definition turned_away ::
  "('w \<Rightarrow> inbound \<Rightarrow> ingress \<times> 'w) \<Rightarrow> inbound \<Rightarrow> bool" where
  "turned_away post msg \<longleftrightarrow>
     (\<forall>w. \<exists>code cause. fst (post w msg) = Not_Taken code cause \<and> \<not> PermanentIngress code)"

context object_store
begin

lemma drop_elsewhere:
  assumes p: "plain_items (view w)" and d: "Drop st w j = (r, w')"
  shows "plain_items (view w') \<and> (j \<noteq> i \<longrightarrow> view w' (held_at i) = view w (held_at i))"
proof -
  obtain q where o: "one_write st w (write0 Delete InboundPending (pendingKey j)) = (q, w')"
    using d by (auto simp: Drop_def settle_def split: prod.splits sum.splits)
  show ?thesis
    using one_write_plain [OF p _ o] one_write_elsewhere [OF p _ o, of "held_at i"] by auto
qed

lemma reschedule_keeps:
  assumes p: "plain_items (view w)" and d: "Reschedule st w j n nx e = (r, w')" and k: "kept (view w) i payload"
  shows "plain_items (view w') \<and> kept (view w') i payload"
proof -
  let ?x = "reschedule_update j n nx e"
  obtain q where o: "one_write st w ?x = (q, w')"
    using d by (auto simp: Reschedule_def split: prod.splits sum.splits bool.splits)
  have pl: "plain_items (view w')" using one_write_plain [OF p _ o] by simp
  show ?thesis
  proof (cases "j = i")
    case True
    obtain m where m: "view w (held_at i) = Some m" "m attrPayload = Some payload"
      using k by (auto simp: kept_def)
    have "written ?x (Some m) = Some (merged ?x m)" by (simp add: written_def reschedule_update_def write0_def attrs_of_def)
    moreover have "merged ?x m attrPayload = Some payload"
      using m(2) by (simp add: merged_def reschedule_update_def write0_def attrPayload_def attrAttempts_def
          attrNextAttemptAt_def attrLastError_def)
    ultimately have "kept ((view w)(held_at i := written ?x (view w (held_at i)))) i payload"
      using m by (simp add: kept_def)
    then show ?thesis using one_write_effect [OF p _ o] True k pl by auto
  next
    case False
    then show ?thesis using one_write_elsewhere [OF p _ o, of "held_at i"] k pl by (auto simp: kept_def)
  qed
qed

end

lemma held_items_ids:
  "held_items its = Inr hs \<Longrightarrow> d \<in> set hs \<Longrightarrow>
   \<exists>it \<in> set its. hd_id d = Sort (i_key it) \<and> hd_payload d = attr (i_attrs it) attrPayload"
  by (induction its arbitrary: hs) (auto split: option.splits sum.splits)

lemma limited_subset: "set (limited n xs) \<subseteq> set xs"
  by (auto simp: limited_def dest: in_set_takeD)

context object_store
begin

text \<open>What the sweep reads is held, with its payload.\<close>

lemma due_is_held:
  assumes p: "plain_items (view w)" and r: "DueForRedelivery st w now n = (Inr ds, w')" and d: "d \<in> set ds"
    and i: "hd_id d = i" and k: "kept (view w) i payload"
  shows "hd_payload d = payload"
proof -
  obtain its where q: "st_query st w (due_query now) = (Inr its, w')"
    and h: "held_items (limited n (sort_key (\<lambda>it. attr (i_attrs it) attrFirstSeenAt) its)) = Inr ds"
    using r by (auto simp: DueForRedelivery_def split: prod.splits sum.splits)
  obtain it where it: "it \<in> set its" "hd_id d = Sort (i_key it)" "hd_payload d = attr (i_attrs it) attrPayload"
    using held_items_ids [OF h d] limited_subset [of n "sort_key (\<lambda>it. attr (i_attrs it) attrFirstSeenAt) its"] by auto
  have pq: "plain_query (due_query now)"
    by (simp add: plain_query_def due_query_def query0_def attrNextAttemptAt_def attrPayload_def
        attrAttempts_def attrFirstSeenAt_def partAttr_def sortAttr_def)
  obtain rows where l: "lists (view w) InboundPending rows" and s: "its = selected (due_query now) rows"
    using answers [OF p pq q] by (auto simp: due_query_def query0_def)
  obtain x where x: "x \<in> set rows" "picks (due_query now) x" "it = projected (q_project (due_query now)) x"
    using it(1) s by (auto simp: selected_def limited_def ordered_def Let_def due_query_def query0_def)
  have key: "i_key x = pendingKey i"
    using x it(2) i by (cases "i_key x") (auto simp: picks_def due_query_def query0_def pendingKey_def projected_def)
  obtain m where m: "view w (held_at i) = Some m" "m attrPayload = Some payload"
    using k by (auto simp: kept_def)
  have "view w (held_at i) = Some (i_attrs x)" using l x(1) key unfolding lists_def by metis
  then have "i_attrs x attrPayload = Some payload" using m by simp
  then show ?thesis using it(3) x(3) by (simp add: projected_def due_query_def attr_def)
qed

lemma redeliver_keeps:
  assumes p: "plain_items (view w)" and k: "kept (view w) i payload"
    and d: "hd_id d = i \<longrightarrow> hd_payload d = payload" and c: "decode payload = Some msg"
    and t: "turned_away post msg" and v: "\<forall>w m. view (snd (post w m)) = view w"
  shows "plain_items (view (redeliver st decode post clock w d)) \<and>
    kept (view (redeliver st decode post clock w d)) i payload"
proof -
  have drop: "plain_items (view (snd (Drop st x (hd_id d)))) \<and> kept (view (snd (Drop st x (hd_id d)))) i payload"
    if "view x = view w" "hd_id d \<noteq> i" for x
    using drop_elsewhere [of x "hd_id d" "fst (Drop st x (hd_id d))" "snd (Drop st x (hd_id d))" i] p k that
    by (auto simp: kept_def)
  have resched: "plain_items (view (snd (Reschedule st x j n nx e))) \<and> kept (view (snd (Reschedule st x j n nx e))) i payload"
    if "view x = view w" for x j n nx e
    using reschedule_keeps [of x j n nx e "fst (Reschedule st x j n nx e)" "snd (Reschedule st x j n nx e)" i payload]
      p k that by simp
  show ?thesis
  proof (cases "decode (hd_payload d)")
    case None
    then have "hd_id d \<noteq> i" using d c by auto
    then show ?thesis using drop [of w] None by (simp add: redeliver_def)
  next
    case (Some m)
    obtain a x where a: "post w m = (a, x)" by force
    have x: "view x = view w" using spec [OF spec [OF v, of w], of m] a by simp
    have away: "\<exists>code cause. a = Not_Taken code cause \<and> \<not> PermanentIngress code" if "hd_id d = i"
    proof -
      have "m = msg" using d c Some that by simp
      then show ?thesis using t a unfolding turned_away_def by (metis fst_conv)
    qed
    show ?thesis
    proof (cases "hd_id d = i")
      case True
      then show ?thesis using away Some a resched [OF x] by (auto simp: redeliver_def)
    next
      case False
      then show ?thesis
        using Some a drop [OF x] resched [OF x] by (cases a) (simp_all add: redeliver_def)
    qed
  qed
qed

lemma sweep_keeps:
  assumes p: "plain_items (view w)" and k: "kept (view w) i payload" and c: "decode payload = Some msg"
    and t: "turned_away post msg" and v: "\<forall>w m. view (snd (post w m)) = view w"
  shows "kept (view (SweepInboundOnce (Some st) decode post clock stopped w)) i payload"
proof -
  obtain r w' where r: "DueForRedelivery st w (TS (clock w)) inboundSweepBatch = (r, w')" by force
  have w': "view w' = view w"
    using r looks by (auto simp: DueForRedelivery_def split: prod.splits sum.splits)
  show ?thesis
  proof (cases r)
    case (Inl e)
    then show ?thesis using r w' k by (simp add: SweepInboundOnce_def)
  next
    case (Inr ds)
    have ds: "\<forall>d \<in> set ds. hd_id d = i \<longrightarrow> hd_payload d = payload"
      using due_is_held [OF p r [unfolded Inr] _ _ k] by blast
    let ?go = "\<lambda>d w. if stopped w then w else redeliver st decode post clock w d"
    have "plain_items (view x) \<Longrightarrow> kept (view x) i payload \<Longrightarrow>
        plain_items (view (fold ?go ds x)) \<and> kept (view (fold ?go ds x)) i payload" for x
      using ds
    proof (induction ds arbitrary: x)
      case (Cons d ds)
      have "plain_items (view (?go d x)) \<and> kept (view (?go d x)) i payload"
        using Cons.prems redeliver_keeps [where d = d and w = x and clock = clock and post = post and decode = decode, OF Cons.prems(1,2) _ c t v] by simp
      then show ?case using Cons.IH [of "?go d x"] Cons.prems(3) by (auto split: if_splits)
    qed simp
    then show ?thesis using r Inr p k w' by (simp add: SweepInboundOnce_def)
  qed
qed

end

text \<open>C29. A held message is not lost: a sweep leaves it held, with its payload, as long as routd
  neither takes it nor refuses it for good, whatever the sweep does to the other messages and
  whichever store calls fail.\<close>

theorem held_until_settled:
  assumes "object_store st view" "plain_items (view w)" "kept (view w) i payload"
    and "decode payload = Some msg" "turned_away post msg"
    and "\<forall>w m. view (snd (post w m)) = view w"
  shows "kept (view (SweepInboundOnce (Some st) decode post clock stopped w)) i payload"
  using assms by (rule object_store.sweep_keeps)

text \<open>The message of the witness: held and due, routd down.\<close>

definition sample_inbound :: inbound where
  "sample_inbound = \<lparr>in_id = ''m1'', in_chat = ''j'', in_body = ''hi''\<rparr>"

definition held_world :: world where
  "held_world = snd (Retain (driver (\<lambda>_. None)) sample_world ''m1'' ''p'' ''t0'' ''t1'' ''down'')"

definition routd_down :: "world \<Rightarrow> inbound \<Rightarrow> ingress \<times> world" where
  "routd_down w m = (Not_Taken (Some 503) ''down'', w)"

lemma held_until_settled_witness:
  "kept (items (SweepInboundOnce (Some (driver (\<lambda>_. None))) (\<lambda>_. Some sample_inbound) routd_down (\<lambda>_. 0)
     (\<lambda>_. False) held_world)) ''m1'' ''p''"
proof (rule held_until_settled [OF ds.object_store_axioms])
  have "map (\<lambda>(c, as). (c, map_of as attrPayload, map_of as ''part'', map_of as ''sort'', map_of as ''__open''))
      (shelf held_world) = [(held_at ''m1'', Some ''p'', None, None, None)]" by code_simp
  then obtain as where s: "shelf held_world = [(held_at ''m1'', as)]" "map_of as attrPayload = Some ''p''"
    "map_of as ''part'' = None" "map_of as ''sort'' = None" "map_of as ''__open'' = None"
    by auto
  then have i: "items held_world = [held_at ''m1'' \<mapsto> map_of as]" by (auto simp: items_def fun_eq_iff)
  show "plain_items (items held_world)" unfolding i using s by (simp add: plain_items_def partAttr_def sortAttr_def openAttr_def)
  show "kept (items held_world) ''m1'' ''p''" unfolding i using s by (simp add: kept_def)
  show "turned_away routd_down sample_inbound" by (simp add: turned_away_def routd_down_def PermanentIngress_def)
qed (simp_all add: routd_down_def)

section \<open>A settled delivery\<close>

text \<open>A delivery that is recorded as sent is never made again: the call answers the platform's id
  of the recorded message, or a store fault, and never reaches the platform or changes the record.\<close>

theorem sent_is_final:
  assumes "object_store st view" "plain_items (view w)" "key \<noteq> []"
    and "view w (coord_of OutboundDedup (dedupKey key)) = Some m"
    and "m attrState = Some stateSent" "m attrPlatformID = Some i"
    and "deliverOnce (Some st) now post w key jid = (r, w')"
  shows "(r = Inr i \<or> (\<exists>e. r = Inl (Unclaimed e))) \<and> view w' = view w \<and>
    deliverOnce (Some st) now post' w key jid = (r, w')"
proof -
  note os = assms(1)
  obtain q v where o: "one_write st w (claim_put now key jid) = (q, v)" by force
  note e = object_store.one_write_effect [OF os assms(2) chan_writes_plain(1) o]
  have "\<not> write_ok (claim_put now key jid) (view w (claim_at key))"
    using assms(4) by (simp add: write_ok_def cond_ok_def claim_put_def write0_def)
  then have v: "view v = view w" "q \<noteq> Inr True" using e by auto
  obtain p u where pt: "point st v OutboundDedup (dedupKey key) [attrState, attrPlatformID] = (p, u)" by force
  have u: "view u = view w" using object_store.point_looks [OF os pt] v by simp
  have "partAttr \<notin> set [attrState, attrPlatformID]" "sortAttr \<notin> set [attrState, attrPlatformID]"
    by (simp_all add: partAttr_def sortAttr_def attrState_def attrPlatformID_def)
  note rd = object_store.point_reads [OF os _ this]
  have x: "x = Some (projected [attrState, attrPlatformID] \<lparr>i_key = dedupKey key, i_attrs = m\<rparr>)" if "p = Inr x" for x
    using rd [OF _ pt [unfolded that]] assms(2,4) v by simp
  have a: "attr (i_attrs (projected [attrState, attrPlatformID] \<lparr>i_key = dedupKey key, i_attrs = m\<rparr>)) attrState = stateSent"
    "attr (i_attrs (projected [attrState, attrPlatformID] \<lparr>i_key = dedupKey key, i_attrs = m\<rparr>)) attrPlatformID = i"
    using assms(5,6) by (simp_all add: attr_def projected_def)
  have rc: "RecordedClaim st v key =
      (case p of Inl e \<Rightarrow> Inl (Store_Failed e) | Inr _ \<Rightarrow> Inr (Some \<lparr>cl_state = ClaimSent, cl_platform = i\<rparr>), u)"
    using x a by (auto simp: RecordedClaim_def pt split: sum.splits)
  have "\<exists>y z. ClaimDelivery st now w key jid = (y, z) \<and> view z = view w \<and>
      ((\<exists>e. y = Inl e) \<or> y = Inr \<lparr>cl_state = ClaimSent, cl_platform = i\<rparr>)"
  proof (cases q)
    case (Inl e)
    then show ?thesis using v by (simp add: ClaimDelivery_def o)
  next
    case (Inr b)
    then have "q = Inr False" using v(2) by (cases b) auto
    then show ?thesis using u by (cases p) (simp_all add: ClaimDelivery_def o rc)
  qed
  then show ?thesis using assms(3,7) by (auto simp: deliverOnce_def)
qed

definition sent_world :: world where
  "sent_world = snd (deliverOnce (Some (driver (\<lambda>_. None))) 0 (\<lambda>w. (Inr ''p1'', w)) sample_world ''k1'' ''j'')"

lemma sent_is_final_witness:
  "items (snd (deliverOnce (Some (driver (\<lambda>_. None))) 1 (\<lambda>w. (Inr ''p2'', w)) sent_world ''k1'' ''j'')) =
     items sent_world \<and>
   fst (deliverOnce (Some (driver (\<lambda>_. None))) 1 (\<lambda>w. (Inr ''p2'', w)) sent_world ''k1'' ''j'') = Inr ''p1''"
proof -
  have "map (\<lambda>(c, as). (c, map_of as attrState, map_of as attrPlatformID, map_of as ''part'', map_of as ''sort'',
        map_of as ''__open''))
      (shelf sent_world) = [(claim_at ''k1'', Some stateSent, Some ''p1'', None, None, None)]" by code_simp
  then obtain as where s: "shelf sent_world = [(claim_at ''k1'', as)]" "map_of as attrState = Some stateSent"
    "map_of as attrPlatformID = Some ''p1''"
    "map_of as ''part'' = None" "map_of as ''sort'' = None" "map_of as ''__open'' = None"
    by auto
  then have i: "items sent_world = [claim_at ''k1'' \<mapsto> map_of as]" by (auto simp: items_def fun_eq_iff)
  have p: "plain_items (items sent_world)"
    unfolding i using s by (simp add: plain_items_def partAttr_def sortAttr_def openAttr_def)
  obtain r w' where d:
    "deliverOnce (Some (driver (\<lambda>_. None))) 1 (\<lambda>w. (Inr ''p2'', w)) sent_world ''k1'' ''j'' = (r, w')" by force
  have "items sent_world (claim_at ''k1'') = Some (map_of as)" by (simp add: i)
  note f = sent_is_final [OF ds.object_store_axioms p _ this s(2,3) d]
  have "fst (deliverOnce (Some (driver (\<lambda>_. None))) 1 (\<lambda>w. (Inr ''p2'', w)) sent_world ''k1'' ''j'') = Inr ''p1''"
    by code_simp
  then show ?thesis using f d by simp
qed

end
