(* ===== verification/Auth_Store.thy ===== *)
theory Auth_Store
  imports Store_Client Go_Strings
begin

text \<open>
  authd's storage (authd/authstore): the rotation lineages of logins, the signing keys and the
  slot that names the one that signs, the accounts and their linked identities. The hash of a
  secret, fresh secrets and ids, the clock, the parser of instants and the encoding of keys are arguments.
\<close>

section \<open>Coordinates and reads\<close>

definition SigningKeys :: string where [go_defs]: "SigningKeys = ''signing_keys''"
definition SigningKeySlot :: string where [go_defs]: "SigningKeySlot = ''signing_key_slot''"
definition AuthUsers :: string where [go_defs]: "AuthUsers = ''auth_users''"
definition OAuthIdentities :: string where [go_defs]: "OAuthIdentities = ''oauth_identities''"
definition RefreshTokens :: string where [go_defs]: "RefreshTokens = ''refresh_tokens''"
definition RefreshFamilies :: string where [go_defs]: "RefreshFamilies = ''refresh_families''"

definition authd_partition :: string where [go_defs]: "authd_partition = ''authd''"

definition auth_key :: "string \<Rightarrow> Key" where
  [go_defs]: "auth_key s = \<lparr>Partition = authd_partition, Sort = s\<rparr>"

definition auth_point ::
  "'w Store \<Rightarrow> 'w \<Rightarrow> string \<Rightarrow> string \<Rightarrow> string list \<Rightarrow> (store_error + Item option) \<times> 'w" where
  [go_defs]: "auth_point st w ent s project = point st w ent (auth_key s) project"

definition got :: "attrs \<Rightarrow> string \<Rightarrow> string" where
  [go_defs]: "got m a = (case m a of None \<Rightarrow> [] | Some v \<Rightarrow> v)"

text \<open>An instant in nanoseconds as \<open>time.RFC3339\<close> prints it in UTC.\<close>

abbreviation stamp :: "int \<Rightarrow> string" where "stamp \<equiv> format_utc"

datatype auth_error =
    Store_Down store_error
  | No_Randomness
  | errStartRefused
  | errNoFamily
  | errBadRotations
  | ErrRotationLost
  | Bad_Key
  | Linked_Elsewhere string
  | Link_Refused

section \<open>Refresh tokens\<close>

record RefreshToken =
  rt_family :: string
  rt_sub :: string
  rt_scope :: "string list"
  rt_aud :: string
  rt_expires :: "int option"
  rt_used :: bool
  rt_revoked :: bool

definition familyLive :: "string \<Rightarrow> Check" where
  [go_defs]: "familyLive fam =
     \<lparr>k_entity = RefreshFamilies, k_key = auth_key fam,
      k_cond = \<lparr>cond_item = ItemPresent,
               cond_where = [\<lparr>c_attr = ''revoked_at'', c_op = Absent, c_value = []\<rparr>]\<rparr>\<rparr>"

definition claimWrite :: "int \<Rightarrow> string \<Rightarrow> Write" where
  [go_defs]: "claimWrite now h =
     (write0 Update RefreshTokens (auth_key h))\<lparr>
       w_attrs := [(''used_at'', stamp now)],
       w_cond := \<lparr>cond_item = ItemAny, cond_where = [\<lparr>c_attr = ''used_at'', c_op = Absent, c_value = []\<rparr>]\<rparr>\<rparr>"

text \<open>What a token is issued with.\<close>

record grant =
  g_sub :: string
  g_scope :: "string list"
  g_aud :: string
  g_issued :: string
  g_expires :: string

definition refreshTokenPut :: "string \<Rightarrow> string \<Rightarrow> grant \<Rightarrow> Write" where
  [go_defs]: "refreshTokenPut h fam g =
     (write0 Put RefreshTokens (auth_key h))\<lparr>
       w_attrs := [(''family_id'', fam), (''sub'', g_sub g), (''scope'', join [comma] (g_scope g)),
         (''aud'', g_aud g), (''issued_at'', g_issued g), (''expires_at'', g_expires g)],
       w_cond := \<lparr>cond_item = ItemAbsent, cond_where = []\<rparr>\<rparr>"

definition start_writes :: "string \<Rightarrow> string \<Rightarrow> grant \<Rightarrow> Write list" where
  [go_defs]: "start_writes h fam g =
     [(write0 Put RefreshFamilies (auth_key fam))\<lparr>
        w_attrs := [(''sub'', g_sub g), (''scope'', join [comma] (g_scope g)), (''aud'', g_aud g),
          (''started_at'', g_issued g), (''renewed_at'', g_issued g), (''expires_at'', g_expires g),
          (''rotations'', ''1'')],
        w_cond := \<lparr>cond_item = ItemAbsent, cond_where = []\<rparr>\<rparr>,
      refreshTokenPut h fam g]"

definition StartRefreshFamily ::
  "'w Store \<Rightarrow> (string \<Rightarrow> string) \<Rightarrow> 'w \<Rightarrow> string option \<Rightarrow> string \<Rightarrow> grant \<Rightarrow> (auth_error + string) \<times> 'w" where
  [go_defs]: "StartRefreshFamily st HashToken w fresh fam g =
     (case fresh of
        None \<Rightarrow> (Inl No_Randomness, w)
      | Some raw \<Rightarrow>
          (case st_batch st w [] (start_writes (HashToken raw) fam g) of
             (Inl e, w) \<Rightarrow> (Inl (Store_Down e), w)
           | (Inr False, w) \<Rightarrow> (Inl errStartRefused, w)
           | (Inr True, w) \<Rightarrow> (Inr raw, w)))"

definition RefreshTokenBySecret ::
  "'w Store \<Rightarrow> (string \<Rightarrow> string) \<Rightarrow> (string \<Rightarrow> int option) \<Rightarrow> 'w \<Rightarrow> string \<Rightarrow> RefreshToken option \<times> 'w" where
  [go_defs]: "RefreshTokenBySecret st HashToken parse w raw =
     (case auth_point st w RefreshTokens (HashToken raw) [] of
        (Inl e, w) \<Rightarrow> (None, w)
      | (Inr None, w) \<Rightarrow> (None, w)
      | (Inr (Some it), w) \<Rightarrow>
          let m = i_attrs it;
              r = \<lparr>rt_family = got m ''family_id'', rt_sub = got m ''sub'',
                   rt_scope = (if got m ''scope'' = [] then [] else split_on comma (got m ''scope'')),
                   rt_aud = got m ''aud'', rt_expires = parse (got m ''expires_at''),
                   rt_used = (m ''used_at'' \<noteq> None), rt_revoked = False\<rparr>
          in (case auth_point st w RefreshFamilies (rt_family r) [''revoked_at''] of
                (Inl e, w) \<Rightarrow> (Some (r\<lparr>rt_revoked := True\<rparr>), w)
              | (Inr None, w) \<Rightarrow> (Some (r\<lparr>rt_revoked := True\<rparr>), w)
              | (Inr (Some fam), w) \<Rightarrow> (Some (r\<lparr>rt_revoked := (i_attrs fam ''revoked_at'' \<noteq> None)\<rparr>), w)))"

definition ClaimRefreshToken ::
  "'w Store \<Rightarrow> (string \<Rightarrow> string) \<Rightarrow> int \<Rightarrow> 'w \<Rightarrow> string \<Rightarrow> (store_error + bool) \<times> 'w" where
  [go_defs]: "ClaimRefreshToken st HashToken now w raw =
     (case auth_point st w RefreshTokens (HashToken raw) [''family_id''] of
        (Inl e, w) \<Rightarrow> (Inl e, w)
      | (Inr None, w) \<Rightarrow> (Inr False, w)
      | (Inr (Some it), w) \<Rightarrow>
          st_batch st w [familyLive (got (i_attrs it) ''family_id'')] [claimWrite now (HashToken raw)])"

definition familyRotations :: "'w Store \<Rightarrow> 'w \<Rightarrow> string \<Rightarrow> (auth_error + int) \<times> 'w" where
  [go_defs]: "familyRotations st w fam =
     (case auth_point st w RefreshFamilies fam [''rotations''] of
        (Inl e, w) \<Rightarrow> (Inl (Store_Down e), w)
      | (Inr None, w) \<Rightarrow> (Inl errNoFamily, w)
      | (Inr (Some it), w) \<Rightarrow>
          (case Atoi (got (i_attrs it) ''rotations'') of
             None \<Rightarrow> (Inl errBadRotations, w)
           | Some n \<Rightarrow> (Inr n, w)))"

text \<open>\<open>rotations+1\<close> is Go's: it wraps at 64 bits.\<close>

definition next_int :: "int \<Rightarrow> int" where
  [go_defs]: "next_int n = (if n = 2 ^ 63 - 1 then - (2 ^ 63) else n + 1)"

definition rotate_writes :: "int \<Rightarrow> string \<Rightarrow> string \<Rightarrow> string \<Rightarrow> grant \<Rightarrow> int \<Rightarrow> Write list" where
  [go_defs]: "rotate_writes now h h' fam g rotations =
     [(write0 Update RefreshFamilies (auth_key fam))\<lparr>
        w_attrs := [(''sub'', g_sub g), (''scope'', join [comma] (g_scope g)), (''aud'', g_aud g),
          (''renewed_at'', g_issued g), (''expires_at'', g_expires g),
          (''rotations'', itoa (next_int rotations))],
        w_cond := \<lparr>cond_item = ItemAny,
                  cond_where = [\<lparr>c_attr = ''revoked_at'', c_op = Absent, c_value = []\<rparr>,
                                \<lparr>c_attr = ''rotations'', c_op = Eq, c_value = itoa rotations\<rparr>]\<rparr>\<rparr>,
      claimWrite now h,
      refreshTokenPut h' fam g]"

definition ClaimAndRotateRefresh ::
  "'w Store \<Rightarrow> (string \<Rightarrow> string) \<Rightarrow> int \<Rightarrow> 'w \<Rightarrow> string option \<Rightarrow> string \<Rightarrow> string \<Rightarrow> grant
   \<Rightarrow> (auth_error + string option) \<times> 'w" where
  [go_defs]: "ClaimAndRotateRefresh st HashToken now w fresh raw fam g =
     (case fresh of
        None \<Rightarrow> (Inl No_Randomness, w)
      | Some newRaw \<Rightarrow>
          (case familyRotations st w fam of
             (Inl e, w) \<Rightarrow> (Inl e, w)
           | (Inr n, w) \<Rightarrow>
               (case st_batch st w [] (rotate_writes now (HashToken raw) (HashToken newRaw) fam g n) of
                  (Inl e, w) \<Rightarrow> (Inl (Store_Down e), w)
                | (Inr False, w) \<Rightarrow> (Inr None, w)
                | (Inr True, w) \<Rightarrow> (Inr (Some newRaw), w))))"

definition revoke_write :: "int \<Rightarrow> string \<Rightarrow> Write" where
  [go_defs]: "revoke_write now fam =
     (write0 Update RefreshFamilies (auth_key fam))\<lparr>
       w_attrs := [(''revoked_at'', stamp now)],
       w_cond := \<lparr>cond_item = ItemAny, cond_where = [\<lparr>c_attr = ''revoked_at'', c_op = Absent, c_value = []\<rparr>]\<rparr>\<rparr>"

definition RevokeFamily :: "'w Store \<Rightarrow> int \<Rightarrow> 'w \<Rightarrow> string \<Rightarrow> (store_error + bool) \<times> 'w" where
  [go_defs]: "RevokeFamily st now w fam = st_batch st w [] [revoke_write now fam]"

record SessionsRow =
  sr_family :: string
  sr_sub :: string
  sr_scope :: string
  sr_aud :: string
  sr_started :: string
  sr_renewed :: string
  sr_expires :: string
  sr_rotations :: int
  sr_status :: string

definition sessionStatus :: "(string \<Rightarrow> int option) \<Rightarrow> bool \<Rightarrow> string \<Rightarrow> int \<Rightarrow> string" where
  [go_defs]: "sessionStatus parse revoked expiresAt at =
     (if revoked then ''revoked''
      else case parse expiresAt of
        None \<Rightarrow> ''active''
      | Some e \<Rightarrow> if at < e then ''active'' else ''expired'')"

text \<open>\<open>Atoi\<close>'s value when its error is dropped: zero, or the nearest integer of a numeral out of range.\<close>

definition Atoi_value :: "string \<Rightarrow> int" where
  [go_defs]: "Atoi_value s =
     (case Atoi s of
        Some n \<Rightarrow> n
      | None \<Rightarrow>
          (case s of
             [] \<Rightarrow> 0
           | c # cs \<Rightarrow>
               if c = CHR ''-'' then (if cs \<noteq> [] \<and> numeral_value 0 cs \<noteq> None then - (2 ^ 63) else 0)
               else let ds = (if c = CHR ''+'' then cs else s)
                    in if ds \<noteq> [] \<and> numeral_value 0 ds \<noteq> None then 2 ^ 63 - 1 else 0))"

text \<open>Go's zero time is the first instant of year 1.\<close>

definition zero_time :: int where [go_defs]: "zero_time = - 62135596800000000000"

definition renewedAt :: "(string \<Rightarrow> int option) \<Rightarrow> SessionsRow \<Rightarrow> int" where
  [go_defs]: "renewedAt parse r = (case parse (sr_renewed r) of None \<Rightarrow> zero_time | Some t \<Rightarrow> t)"

definition session_row :: "(string \<Rightarrow> int option) \<Rightarrow> int \<Rightarrow> Item \<Rightarrow> SessionsRow" where
  [go_defs]: "session_row parse at it =
     (let m = i_attrs it in
      \<lparr>sr_family = Sort (i_key it), sr_sub = got m ''sub'', sr_scope = got m ''scope'', sr_aud = got m ''aud'',
       sr_started = got m ''started_at'', sr_renewed = got m ''renewed_at'', sr_expires = got m ''expires_at'',
       sr_rotations = Atoi_value (got m ''rotations''),
       sr_status = sessionStatus parse (m ''revoked_at'' \<noteq> None) (got m ''expires_at'') at\<rparr>)"

definition maxSessionsLimit :: int where [go_defs]: "maxSessionsLimit = 200"

definition SessionsByFamily ::
  "'w Store \<Rightarrow> (string \<Rightarrow> int option) \<Rightarrow> 'w \<Rightarrow> string \<Rightarrow> int \<Rightarrow> int
   \<Rightarrow> (store_error + SessionsRow list) \<times> 'w" where
  [go_defs]: "SessionsByFamily st parse w sub limit at =
     (let n = (if limit \<le> 0 \<or> limit > maxSessionsLimit then 50 else limit);
          q = (query0 RefreshFamilies authd_partition)\<lparr>
                q_where := (if sub = [] then [] else [\<lparr>c_attr = ''sub'', c_op = Eq, c_value = sub\<rparr>])\<rparr>
      in case st_query st w q of
           (Inl e, w) \<Rightarrow> (Inl e, w)
         | (Inr its, w) \<Rightarrow>
             (Inr (take (nat n) (sort_key (\<lambda>r. - renewedAt parse r) (map (session_row parse at) its))), w))"

section \<open>The refresh of a login\<close>

text \<open>\<open>Authd.Refresh\<close>: \<open>fetch\<close> is the grants backend (\<open>None\<close> where none is configured), \<open>mint\<close> signs the
  access token, and \<open>fresh\<close> is the random secret of the successor. The family that is rotated, or killed for a
  reuse, is the one the presented token's row names.\<close>

datatype grants_answer = Granted "string list" | ErrNoGrants | Grants_Down

datatype refresh_error =
  ErrInvalidToken | errReuse | ErrExpiredToken | errGrantsUnavailable | Not_Rotated auth_error | Not_Minted

definition Refresh ::
  "'w Store \<Rightarrow> (string \<Rightarrow> string) \<Rightarrow> (string \<Rightarrow> int option) \<Rightarrow> (string \<Rightarrow> grants_answer) option \<Rightarrow>
   (string \<Rightarrow> string list \<Rightarrow> string \<Rightarrow> string option) \<Rightarrow> int \<Rightarrow> int \<Rightarrow> int \<Rightarrow> 'w \<Rightarrow> string option \<Rightarrow> string
   \<Rightarrow> (refresh_error + string \<times> string) \<times> 'w" where
  [go_defs]: "Refresh st HashToken parse fetch mint ttl now later w fresh raw =
     (case RefreshTokenBySecret st HashToken parse w raw of
        (None, w) \<Rightarrow> (Inl ErrInvalidToken, w)
      | (Some r, w) \<Rightarrow>
          if rt_revoked r then (Inl ErrInvalidToken, w)
          else if rt_used r then (Inl errReuse, snd (RevokeFamily st later w (rt_family r)))
          else if now > (case rt_expires r of None \<Rightarrow> zero_time | Some e \<Rightarrow> e) then (Inl ErrExpiredToken, w)
          else
            (case (case fetch of None \<Rightarrow> Some (rt_scope r)
                   | Some f \<Rightarrow> (case f (rt_sub r) of Granted scope \<Rightarrow> Some scope | ErrNoGrants \<Rightarrow> Some [] | Grants_Down \<Rightarrow> None)) of
               None \<Rightarrow> (Inl errGrantsUnavailable, w)
             | Some scope \<Rightarrow>
                 (case ClaimAndRotateRefresh st HashToken later w fresh raw (rt_family r)
                     \<lparr>g_sub = rt_sub r, g_scope = scope, g_aud = rt_aud r, g_issued = stamp later,
                      g_expires = stamp (later + ttl)\<rparr> of
                    (Inl e, w) \<Rightarrow> (Inl (Not_Rotated e), w)
                  | (Inr None, w) \<Rightarrow> (Inl errReuse, snd (RevokeFamily st later w (rt_family r)))
                  | (Inr (Some newRaw), w) \<Rightarrow>
                      (case mint (''user:'' @ rt_sub r) scope (rt_aud r) of
                         None \<Rightarrow> (Inl Not_Minted, w)
                       | Some access \<Rightarrow> (Inr (access, newRaw), w)))))"

section \<open>Signing keys\<close>

record 'k StoredKey =
  sk_kid :: string
  sk_priv :: 'k
  sk_active :: bool
  sk_retired :: "int option"

definition activeSlot :: string where [go_defs]: "activeSlot = ''active''"

definition parseTS :: "(string \<Rightarrow> int option) \<Rightarrow> string \<Rightarrow> int option" where
  [go_defs]: "parseTS parse v = (if v = [] then None else parse v)"

definition activeKid :: "'w Store \<Rightarrow> 'w \<Rightarrow> (store_error + string) \<times> 'w" where
  [go_defs]: "activeKid st w =
     (case auth_point st w SigningKeySlot activeSlot [''kid''] of
        (Inl e, w) \<Rightarrow> (Inl e, w)
      | (Inr None, w) \<Rightarrow> (Inr [], w)
      | (Inr (Some it), w) \<Rightarrow> (Inr (got (i_attrs it) ''kid''), w))"

text \<open>\<open>decode\<close> is the parser of a private key's PEM text.\<close>

fun stored_keys ::
  "(string \<Rightarrow> 'k option) \<Rightarrow> (string \<Rightarrow> int option) \<Rightarrow> string \<Rightarrow> Item list \<Rightarrow> auth_error + 'k StoredKey list" where
  "stored_keys decode parse active [] = Inr []"
| "stored_keys decode parse active (it # its) =
     (case decode (got (i_attrs it) ''priv_pem'') of
        None \<Rightarrow> Inl Bad_Key
      | Some priv \<Rightarrow>
          (case stored_keys decode parse active its of
             Inl e \<Rightarrow> Inl e
           | Inr ks \<Rightarrow>
               Inr (\<lparr>sk_kid = Sort (i_key it), sk_priv = priv, sk_active = (Sort (i_key it) = active),
                     sk_retired = parseTS parse (got (i_attrs it) ''retired_at'')\<rparr> # ks)))"

definition SigningKeysWithMaterial ::
  "'w Store \<Rightarrow> (string \<Rightarrow> 'k option) \<Rightarrow> (string \<Rightarrow> int option) \<Rightarrow> 'w \<Rightarrow> (auth_error + 'k StoredKey list) \<times> 'w" where
  [go_defs]: "SigningKeysWithMaterial st decode parse w =
     (case activeKid st w of
        (Inl e, w) \<Rightarrow> (Inl (Store_Down e), w)
      | (Inr active, w) \<Rightarrow>
          (case st_query st w (query0 SigningKeys authd_partition) of
             (Inl e, w) \<Rightarrow> (Inl (Store_Down e), w)
           | (Inr its, w) \<Rightarrow> (stored_keys decode parse active its, w)))"

text \<open>A new key, as its two PEM texts.\<close>

record new_key =
  nk_kid :: string
  nk_priv :: string
  nk_pub :: string

definition slot_writes :: "string \<Rightarrow> new_key \<Rightarrow> int \<Rightarrow> Write list" where
  [go_defs]: "slot_writes old k at =
     (if old = [] then
        [(write0 Put SigningKeySlot (auth_key activeSlot))\<lparr>
           w_attrs := [(''kid'', nk_kid k)], w_cond := \<lparr>cond_item = ItemAbsent, cond_where = []\<rparr>\<rparr>]
      else
        [(write0 Update SigningKeySlot (auth_key activeSlot))\<lparr>
           w_attrs := [(''kid'', nk_kid k)],
           w_cond := \<lparr>cond_item = ItemAny, cond_where = [\<lparr>c_attr = ''kid'', c_op = Eq, c_value = old\<rparr>]\<rparr>\<rparr>,
         (write0 Update SigningKeys (auth_key old))\<lparr>
           w_attrs := [(''retired_at'', stamp at)],
           w_cond := \<lparr>cond_item = ItemPresent, cond_where = []\<rparr>\<rparr>])"

definition rotation_writes :: "int \<Rightarrow> string \<Rightarrow> new_key \<Rightarrow> int \<Rightarrow> Write list" where
  [go_defs]: "rotation_writes now old k at =
     (write0 Put SigningKeys (auth_key (nk_kid k)))\<lparr>
       w_attrs := [(''priv_pem'', nk_priv k), (''pub_pem'', nk_pub k), (''created_at'', stamp now)],
       w_cond := \<lparr>cond_item = ItemAbsent, cond_where = []\<rparr>\<rparr> # slot_writes old k at"

text \<open>\<open>encode\<close> renders the private key; \<open>None\<close> is its error.\<close>

definition RotateActiveKey ::
  "'w Store \<Rightarrow> ('k \<Rightarrow> (string \<times> string) option) \<Rightarrow> int \<Rightarrow> 'w \<Rightarrow> string \<Rightarrow> 'k \<Rightarrow> int \<Rightarrow> (auth_error + unit) \<times> 'w" where
  [go_defs]: "RotateActiveKey st encode now w kid priv at =
     (case encode priv of
        None \<Rightarrow> (Inl Bad_Key, w)
      | Some (privPEM, pubPEM) \<Rightarrow>
          (case activeKid st w of
             (Inl e, w) \<Rightarrow> (Inl (Store_Down e), w)
           | (Inr old, w) \<Rightarrow>
               (case st_batch st w []
                   (rotation_writes now old \<lparr>nk_kid = kid, nk_priv = privPEM, nk_pub = pubPEM\<rparr> at) of
                  (Inl e, w) \<Rightarrow> (Inl (Store_Down e), w)
                | (Inr False, w) \<Rightarrow> (Inl ErrRotationLost, w)
                | (Inr True, w) \<Rightarrow> (Inr (), w))))"

record SigningKeysRow =
  kr_kid :: string
  kr_alg :: string
  kr_active :: bool
  kr_status :: string
  kr_created :: string
  kr_retired :: string
  kr_serves_until :: string

definition key_row :: "(string \<Rightarrow> int option) \<Rightarrow> string \<Rightarrow> int \<Rightarrow> int \<Rightarrow> Item \<Rightarrow> SigningKeysRow" where
  [go_defs]: "key_row parse active maxAccessTTL at it =
     (let m = i_attrs it;
          r = \<lparr>kr_kid = Sort (i_key it), kr_alg = ''ES256'', kr_active = (Sort (i_key it) = active),
               kr_status = ''retired'', kr_created = got m ''created_at'', kr_retired = [], kr_serves_until = []\<rparr>;
          r = (case m ''retired_at'' of
                 None \<Rightarrow> r
               | Some retired \<Rightarrow>
                   (case parseTS parse retired of
                      None \<Rightarrow> r\<lparr>kr_retired := retired\<rparr>
                    | Some t \<Rightarrow>
                        r\<lparr>kr_retired := retired, kr_serves_until := stamp (t + maxAccessTTL),
                          kr_status := (if at < t + maxAccessTTL then ''retiring'' else kr_status r)\<rparr>))
      in if kr_active r then r\<lparr>kr_status := ''active''\<rparr> else r)"

definition SigningKeyMetadata ::
  "'w Store \<Rightarrow> (string \<Rightarrow> int option) \<Rightarrow> 'w \<Rightarrow> int \<Rightarrow> int \<Rightarrow> (store_error + SigningKeysRow list) \<times> 'w" where
  [go_defs]: "SigningKeyMetadata st parse w maxAccessTTL at =
     (case activeKid st w of
        (Inl e, w) \<Rightarrow> (Inl e, w)
      | (Inr active, w) \<Rightarrow>
          (case st_query st w ((query0 SigningKeys authd_partition)\<lparr>
               q_descending := True, q_project := [''created_at'', ''retired_at'']\<rparr>) of
             (Inl e, w) \<Rightarrow> (Inl e, w)
           | (Inr its, w) \<Rightarrow> (Inr (map (key_row parse active maxAccessTTL at) its), w)))"

definition Reachable :: "'w Store \<Rightarrow> 'w \<Rightarrow> (store_error + unit) \<times> 'w" where
  [go_defs]: "Reachable st w =
     (case auth_point st w SigningKeySlot activeSlot [] of (Inl e, w) \<Rightarrow> (Inl e, w) | (Inr _, w) \<Rightarrow> (Inr (), w))"

section \<open>Accounts and identities\<close>

definition identities_query :: "string \<Rightarrow> Query" where
  [go_defs]: "identities_query userID =
     (query0 OAuthIdentities authd_partition)\<lparr>
       q_where := [\<lparr>c_attr = ''user_id'', c_op = Eq, c_value = userID\<rparr>], q_project := [''user_id'']\<rparr>"

definition identitiesOf :: "'w Store \<Rightarrow> 'w \<Rightarrow> string \<Rightarrow> (store_error + Item list) \<times> 'w" where
  [go_defs]: "identitiesOf st w userID = st_query st w (identities_query userID)"

record account =
  ac_id :: string
  ac_name :: string
  ac_created :: string
  ac_subs :: "string list"

definition OAuthIdentityForSub :: "'w Store \<Rightarrow> 'w \<Rightarrow> string \<Rightarrow> account option \<times> 'w" where
  [go_defs]: "OAuthIdentityForSub st w sub =
     (case cut colon sub of (provider, providerSub, found) \<Rightarrow>
        if \<not> found \<or> provider = [] \<or> providerSub = [] then (None, w)
        else case auth_point st w OAuthIdentities sub [''user_id''] of
          (Inl e, w) \<Rightarrow> (None, w)
        | (Inr None, w) \<Rightarrow> (None, w)
        | (Inr (Some ident), w) \<Rightarrow>
            let userID = got (i_attrs ident) ''user_id''
            in (case auth_point st w AuthUsers userID [''name'', ''created_at''] of
                  (Inl e, w) \<Rightarrow> (None, w)
                | (Inr None, w) \<Rightarrow> (None, w)
                | (Inr (Some user), w) \<Rightarrow>
                    (case identitiesOf st w userID of
                       (Inl e, w) \<Rightarrow> (None, w)
                     | (Inr linked, w) \<Rightarrow>
                         (Some \<lparr>ac_id = userID, ac_name = got (i_attrs user) ''name'',
                                ac_created = got (i_attrs user) ''created_at'',
                                ac_subs = map (\<lambda>it. Sort (i_key it)) linked\<rparr>, w))))"

definition account_write :: "int \<Rightarrow> string \<Rightarrow> string \<Rightarrow> bool \<Rightarrow> Write" where
  [go_defs]: "account_write now userID name held =
     (if held then
        (write0 Update AuthUsers (auth_key userID))\<lparr>
          w_attrs := [(''name'', name)], w_cond := \<lparr>cond_item = ItemPresent, cond_where = []\<rparr>\<rparr>
      else
        (write0 Put AuthUsers (auth_key userID))\<lparr>
          w_attrs := [(''name'', name), (''created_at'', stamp now)],
          w_cond := \<lparr>cond_item = ItemAbsent, cond_where = []\<rparr>\<rparr>)"

definition accountWrite ::
  "'w Store \<Rightarrow> int \<Rightarrow> 'w \<Rightarrow> string \<Rightarrow> string \<Rightarrow> (store_error + Write list) \<times> 'w" where
  [go_defs]: "accountWrite st now w userID name =
     (case auth_point st w AuthUsers userID [''created_at''] of
        (Inl e, w) \<Rightarrow> (Inl e, w)
      | (Inr x, w) \<Rightarrow> (Inr [account_write now userID name (x \<noteq> None)], w))"

definition owned_by :: "string \<Rightarrow> Cond" where
  [go_defs]: "owned_by userID =
     \<lparr>cond_item = ItemAny, cond_where = [\<lparr>c_attr = ''user_id'', c_op = Eq, c_value = userID\<rparr>]\<rparr>"

definition displaced_writes :: "string \<Rightarrow> string \<Rightarrow> string \<Rightarrow> Item list \<Rightarrow> Write list" where
  [go_defs]: "displaced_writes userID provider keep its =
     map (\<lambda>it. (write0 Delete OAuthIdentities (i_key it))\<lparr>w_cond := owned_by userID\<rparr>)
       (filter (\<lambda>it. \<not> (Sort (i_key it) = keep \<or> \<not> has_prefix (Sort (i_key it)) (provider @ [colon]))) its)"

definition displaced ::
  "'w Store \<Rightarrow> 'w \<Rightarrow> string \<Rightarrow> string \<Rightarrow> string \<Rightarrow> (store_error + Write list) \<times> 'w" where
  [go_defs]: "displaced st w userID provider keep =
     (case identitiesOf st w userID of
        (Inl e, w) \<Rightarrow> (Inl e, w)
      | (Inr its, w) \<Rightarrow> (Inr (displaced_writes userID provider keep its), w))"

definition link_write :: "int \<Rightarrow> string \<Rightarrow> string \<Rightarrow> bool \<Rightarrow> Write" where
  [go_defs]: "link_write now userID sub held =
     (if held then
        (write0 Update OAuthIdentities (auth_key sub))\<lparr>w_attrs := [(''linked_at'', stamp now)], w_cond := owned_by userID\<rparr>
      else
        (write0 Put OAuthIdentities (auth_key sub))\<lparr>
          w_attrs := [(''user_id'', userID), (''linked_at'', stamp now)],
          w_cond := \<lparr>cond_item = ItemAbsent, cond_where = []\<rparr>\<rparr>)"

definition LinkOAuthIdentity ::
  "'w Store \<Rightarrow> int \<Rightarrow> 'w \<Rightarrow> string \<Rightarrow> string \<Rightarrow> string \<Rightarrow> string \<Rightarrow> (auth_error + unit) \<times> 'w" where
  [go_defs]: "LinkOAuthIdentity st now w userID name provider providerSub =
     (let sub = provider @ [colon] @ providerSub in
      case auth_point st w OAuthIdentities sub [''user_id''] of
        (Inl e, w) \<Rightarrow> (Inl (Store_Down e), w)
      | (Inr x, w) \<Rightarrow>
          let owner = (case x of None \<Rightarrow> None | Some it \<Rightarrow> Some (got (i_attrs it) ''user_id''))
          in if owner \<noteq> None \<and> owner \<noteq> Some userID then (Inl (Linked_Elsewhere (the owner)), w)
             else case accountWrite st now w userID name of
               (Inl e, w) \<Rightarrow> (Inl (Store_Down e), w)
             | (Inr writes, w) \<Rightarrow>
                 (case displaced st w userID provider sub of
                    (Inl e, w) \<Rightarrow> (Inl (Store_Down e), w)
                  | (Inr gone, w) \<Rightarrow>
                      (case st_batch st w [] (writes @ [link_write now userID sub (x \<noteq> None)] @ gone) of
                         (Inl e, w) \<Rightarrow> (Inl (Store_Down e), w)
                       | (Inr False, w) \<Rightarrow> (Inl Link_Refused, w)
                       | (Inr True, w) \<Rightarrow> (Inr (), w))))"

end
