(* ===== verification/Auth_Safety.thy ===== *)
theory Auth_Safety
  imports Auth_Store
begin

text \<open>
  What authd's storage promises when its callers run concurrently: a refresh token is spent once and
  never into a revoked family, one signing key is unretired, and an identity stays with its account. The steps are
  single batches with whatever an earlier read made the caller pass, over any store
  that keeps its contract.
\<close>

section \<open>Marks\<close>

text \<open>An attribute that, once set on an item, stays.\<close>

definition marked :: "string \<Rightarrow> attrs option \<Rightarrow> bool" where
  [go_defs]: "marked a m = (case m of None \<Rightarrow> False | Some x \<Rightarrow> x a \<noteq> None)"

definition mark_safe :: "string \<Rightarrow> Write \<Rightarrow> bool" where
  [go_defs]: "mark_safe a x =
     ((w_op x = Update \<or> w_op x = Merge) \<and> a \<notin> set (w_remove x) \<or> cond_item (w_cond x) = ItemAbsent)"

lemma marked_present: "marked a m \<Longrightarrow> m \<noteq> None"
  by (auto simp: marked_def split: option.splits)

lemma written_keeps:
  "(w_op x = Update \<or> w_op x = Merge) \<and> a \<notin> set (w_remove x) \<Longrightarrow> marked a m \<Longrightarrow> marked a (written x m)"
  by (auto simp: marked_def written_def merged_def attrs_of_def split: option.splits)

lemma effect_keeps:
  "\<forall>x \<in> set wrs. place_of x = c \<longrightarrow> (w_op x = Update \<or> w_op x = Merge) \<and> a \<notin> set (w_remove x) \<Longrightarrow>
   marked a (db c) \<Longrightarrow> marked a (batch_effect db wrs c)"
proof (induction wrs arbitrary: db)
  case (Cons x wrs)
  have "marked a ((db(place_of x := written x (db (place_of x)))) c)"
    using Cons.prems written_keeps [of x a "db c"] by (cases "place_of x = c") auto
  then show ?case using Cons.IH Cons.prems(1) by simp
qed simp

lemma safe_on_present:
  assumes "batch_ok db cs wrs" "db c \<noteq> None" "\<forall>x \<in> set wrs. place_of x = c \<longrightarrow> mark_safe a x"
  shows "\<forall>x \<in> set wrs. place_of x = c \<longrightarrow> (w_op x = Update \<or> w_op x = Merge) \<and> a \<notin> set (w_remove x)"
proof (intro ballI impI)
  fix x
  assume x: "x \<in> set wrs" "place_of x = c"
  have "write_ok x (db c)" using assms(1) x by (auto simp: batch_ok_def list_all_iff)
  then have "cond_item (w_cond x) \<noteq> ItemAbsent" using assms(2) by (auto simp: write_ok_def cond_ok_def)
  then show "(w_op x = Update \<or> w_op x = Merge) \<and> a \<notin> set (w_remove x)"
    using assms(3) x unfolding mark_safe_def by blast
qed

lemma batch_keeps_mark:
  assumes "batch_ok db cs wrs" "\<forall>x \<in> set wrs. place_of x = c \<longrightarrow> mark_safe a x" "marked a (db c)"
  shows "marked a (batch_effect db wrs c)"
  using effect_keeps safe_on_present [OF assms(1) marked_present [OF assms(3)] assms(2)] assms(3) by blast

lemma batch_sets_mark:
  assumes ok: "batch_ok db cs wrs" and s: "\<forall>x \<in> set wrs. place_of x = c \<longrightarrow> mark_safe a x"
    and x: "x \<in> set wrs" "place_of x = c" "w_op x = Update" "map_of (w_attrs x) a \<noteq> None" "a \<notin> set (w_remove x)"
  shows "marked a (batch_effect db wrs c)"
proof -
  have "db c \<noteq> None" using ok x by (auto simp: batch_ok_def list_all_iff write_ok_def)
  note k = safe_on_present [OF ok this s]
  obtain us vs where w: "wrs = us @ x # vs" using x(1) by (meson split_list)
  note app = batch_effect_app
  have "marked a (written x m)" for m
    using x(3-5) by (auto simp: marked_def written_def merged_def)
  then have "marked a (((batch_effect db us)(place_of x := written x (batch_effect db us (place_of x)))) c)"
    using x(2) by simp
  then show ?thesis using effect_keeps [of vs c a] k unfolding w app by simp
qed

text \<open>An attribute whose value the writes of a batch leave.\<close>

definition value_safe :: "string \<Rightarrow> Write \<Rightarrow> bool" where
  [go_defs]: "value_safe a x =
     (w_op x = Update \<and> a \<notin> set (w_remove x) \<and> map_of (w_attrs x) a = None \<and> map_of (w_init x) a = None \<or>
      cond_item (w_cond x) = ItemAbsent)"

definition valued :: "string \<Rightarrow> string option \<Rightarrow> attrs option \<Rightarrow> bool" where
  [go_defs]: "valued a v m = (case m of None \<Rightarrow> False | Some x \<Rightarrow> x a = v)"

lemma effect_values:
  "\<forall>x \<in> set wrs. place_of x = c \<longrightarrow>
     w_op x = Update \<and> a \<notin> set (w_remove x) \<and> map_of (w_attrs x) a = None \<and> map_of (w_init x) a = None \<Longrightarrow>
   valued a v (db c) \<Longrightarrow> valued a v (batch_effect db wrs c)"
proof (induction wrs arbitrary: db)
  case (Cons x wrs)
  have "valued a v ((db(place_of x := written x (db (place_of x)))) c)"
    using Cons.prems by (auto simp: valued_def written_def merged_def attrs_of_def split: option.splits)
  then show ?case using Cons.IH Cons.prems(1) by simp
qed simp

lemma batch_keeps_value:
  assumes ok: "batch_ok db cs wrs" and s: "\<forall>x \<in> set wrs. place_of x = c \<longrightarrow> value_safe a x" and v: "valued a v (db c)"
  shows "valued a v (batch_effect db wrs c)"
proof -
  have "cond_item (w_cond x) \<noteq> ItemAbsent" if "x \<in> set wrs" "place_of x = c" for x
    using ok v that by (fastforce simp: batch_ok_def list_all_iff write_ok_def cond_ok_def valued_def)
  then show ?thesis using effect_values [where db = db, OF _ v] s unfolding value_safe_def by blast
qed

section \<open>Concurrent redemptions\<close>

datatype event = Spent string string | Killed string

text \<open>What was read is kept: the tokens whose rows were found, each with the family its row named.\<close>

record 'w ledger =
  lg_world :: 'w
  lg_read :: "(string \<times> string) list"
  lg_log :: "event list"

definition logged :: "'w ledger \<Rightarrow> 'w \<Rightarrow> (store_error + bool) \<Rightarrow> event \<Rightarrow> 'w ledger" where
  [go_defs]: "logged L w r e = L\<lparr>lg_world := w, lg_log := (if r = Inr True then e # lg_log L else lg_log L)\<rparr>"

definition found :: "string \<Rightarrow> store_error + Item option \<Rightarrow> (string \<times> string) list" where
  [go_defs]: "found h x = (case x of Inr (Some it) \<Rightarrow> [(h, got (i_attrs it) ''family_id'')] | _ \<Rightarrow> [])"

text \<open>The batches of the operations on refresh tokens, their reads, and any batch on other entities. A token is
  claimed or rotated with the family a read of its row found, at any time after that read.\<close>

inductive refresh_step :: "'w Store \<Rightarrow> 'w ledger \<Rightarrow> 'w ledger \<Rightarrow> bool" for st where
  start_family: "st_batch st (lg_world L) [] (start_writes h fam g) = (r, w) \<Longrightarrow>
    refresh_step st L (L\<lparr>lg_world := w\<rparr>)"
| read_token: "ps = [] \<or> ps = [''family_id''] \<Longrightarrow> auth_point st (lg_world L) RefreshTokens h ps = (x, w) \<Longrightarrow>
    refresh_step st L (L\<lparr>lg_world := w, lg_read := found h x @ lg_read L\<rparr>)"
| claim_token: "(h, fam) \<in> set (lg_read L) \<Longrightarrow>
    st_batch st (lg_world L) [familyLive fam] [claimWrite now h] = (r, w) \<Longrightarrow>
    refresh_step st L (logged L w r (Spent h fam))"
| rotate_token: "(h, fam) \<in> set (lg_read L) \<Longrightarrow>
    st_batch st (lg_world L) [] (rotate_writes now h h' fam g n) = (r, w) \<Longrightarrow>
    refresh_step st L (logged L w r (Spent h fam))"
| revoke_family: "st_batch st (lg_world L) [] [revoke_write now fam] = (r, w) \<Longrightarrow>
    refresh_step st L (logged L w r (Killed fam))"
| read_item: "auth_point st (lg_world L) ent k ps = (x, w) \<Longrightarrow> refresh_step st L (L\<lparr>lg_world := w\<rparr>)"
| other_batch: "plain_batch cs wrs \<Longrightarrow>
    \<forall>x \<in> set wrs. w_entity x \<noteq> RefreshTokens \<and> w_entity x \<noteq> RefreshFamilies \<Longrightarrow>
    st_batch st (lg_world L) cs wrs = (r, w) \<Longrightarrow> refresh_step st L (L\<lparr>lg_world := w\<rparr>)"

inductive_cases refresh_stepE: "refresh_step st L M"

abbreviation token_at :: "string \<Rightarrow> coord" where "token_at h \<equiv> coord_of RefreshTokens (auth_key h)"
abbreviation family_at :: "string \<Rightarrow> coord" where "family_at f \<equiv> coord_of RefreshFamilies (auth_key f)"

text \<open>The newest event is first: a token is spent once, a family is killed once, and no token is
  spent into a family that was killed before.\<close>

fun log_ok :: "event list \<Rightarrow> bool" where
  "log_ok [] = True"
| "log_ok (Spent h fam # es) =
     (Killed fam \<notin> set es \<and> list_all (\<lambda>e. case e of Spent h' _ \<Rightarrow> h' \<noteq> h | _ \<Rightarrow> True) es \<and> log_ok es)"
| "log_ok (Killed fam # es) = (Killed fam \<notin> set es \<and> log_ok es)"

text \<open>The family a token's stored row names.\<close>

definition stored_family :: "item_map \<Rightarrow> string \<Rightarrow> string option" where
  [go_defs]: "stored_family db h = map_option (\<lambda>m. got m ''family_id'') (db (token_at h))"

definition refresh_inv :: "('w \<Rightarrow> item_map) \<Rightarrow> 'w ledger \<Rightarrow> bool" where
  "refresh_inv view L \<longleftrightarrow> plain_items (view (lg_world L)) \<and> log_ok (lg_log L) \<and>
     (\<forall>h fam. Spent h fam \<in> set (lg_log L) \<longrightarrow>
        marked ''used_at'' (view (lg_world L) (token_at h)) \<and> (h, fam) \<in> set (lg_read L)) \<and>
     (\<forall>(h, fam) \<in> set (lg_read L). stored_family (view (lg_world L)) h = Some fam) \<and>
     (\<forall>fam. Killed fam \<in> set (lg_log L) \<longrightarrow> marked ''revoked_at'' (view (lg_world L) (family_at fam)))"

lemma auth_places [simp]:
  "place_of (claimWrite now h) = token_at h" "place_of (refreshTokenPut h fam g) = token_at h"
  "place_of (revoke_write now fam) = family_at fam"
  by (simp_all add: place_of_def claimWrite_def refreshTokenPut_def revoke_write_def write0_def)

lemma marking_writes [simp]:
  "w_op (claimWrite now h) = Update" "w_attrs (claimWrite now h) = [(''used_at'', stamp now)]"
  "w_remove (claimWrite now h) = []" "w_op (revoke_write now fam) = Update"
  "w_attrs (revoke_write now fam) = [(''revoked_at'', stamp now)]" "w_remove (revoke_write now fam) = []"
  by (simp_all add: claimWrite_def revoke_write_def write0_def)

lemma token_family [simp]:
  "token_at h \<noteq> family_at f" "family_at f \<noteq> token_at h" "token_at h = token_at h' \<longleftrightarrow> h = h'"
  "family_at f = family_at f' \<longleftrightarrow> f = f'"
  by (auto simp: coord_of_def auth_key_def RefreshTokens_def RefreshFamilies_def)

lemmas refresh_writes = start_writes_def rotate_writes_def claimWrite_def refreshTokenPut_def revoke_write_def
  familyLive_def write0_def no_cond_def

lemma refresh_plain:
  "plain_batch [] (start_writes h fam g)" "plain_batch [familyLive fam] [claimWrite now h]"
  "plain_batch [] (rotate_writes now h h' fam g n)" "plain_batch [] [revoke_write now fam]"
  by (simp_all add: plain_batch_def plain_write_def plain_attr_def plain_cond_def refresh_writes
      partAttr_def sortAttr_def openAttr_def)

lemma refresh_safe:
  "\<forall>x \<in> set (start_writes h fam g). mark_safe a x"
  "\<forall>x \<in> set [claimWrite now h]. mark_safe a x"
  "\<forall>x \<in> set (rotate_writes now h h' fam g n). mark_safe a x"
  "\<forall>x \<in> set [revoke_write now fam]. mark_safe a x"
  by (simp_all add: mark_safe_def refresh_writes)

lemma refresh_values:
  "\<forall>x \<in> set (start_writes h fam g). w_entity x = RefreshTokens \<longrightarrow> value_safe ''family_id'' x"
  "\<forall>x \<in> set [claimWrite now h]. w_entity x = RefreshTokens \<longrightarrow> value_safe ''family_id'' x"
  "\<forall>x \<in> set (rotate_writes now h h' fam g n). w_entity x = RefreshTokens \<longrightarrow> value_safe ''family_id'' x"
  "\<forall>x \<in> set [revoke_write now fam]. w_entity x = RefreshTokens \<longrightarrow> value_safe ''family_id'' x"
  by (simp_all add: value_safe_def refresh_writes RefreshTokens_def RefreshFamilies_def)

lemma stored_valued: "stored_family db h = Some f \<longleftrightarrow> (\<exists>v. valued ''family_id'' v (db (token_at h)) \<and> (case v of None \<Rightarrow> [] | Some x \<Rightarrow> x) = f)"
  by (auto simp: stored_family_def valued_def got_def split: option.splits)

context object_store
begin

lemma inv_batch:
  assumes v: "refresh_inv view L" and p: "plain_batch cs wrs"
    and s: "\<And>a. \<forall>x \<in> set wrs. w_entity x = RefreshTokens \<or> w_entity x = RefreshFamilies \<longrightarrow> mark_safe a x"
    and f: "\<forall>x \<in> set wrs. w_entity x = RefreshTokens \<longrightarrow> value_safe ''family_id'' x"
    and b: "st_batch st (lg_world L) cs wrs = (r, w)"
  shows "refresh_inv view (L\<lparr>lg_world := w\<rparr>)"
proof -
  have pl: "plain_items (view (lg_world L))" using v by (simp add: refresh_inv_def)
  note o = batch_outcome [OF pl p b]
  have safe: "\<forall>x \<in> set wrs. place_of x = c \<longrightarrow> mark_safe a x" if "fst c = RefreshTokens \<or> fst c = RefreshFamilies" for a c
    using s [of a] that by (auto simp: place_of_def coord_of_def)
  have k: "marked a (view w c)" if "marked a (view (lg_world L) c)" "fst c = RefreshTokens \<or> fst c = RefreshFamilies" for a c
    using o that(1)
      batch_keeps_mark [where db = "view (lg_world L)" and cs = cs and wrs = wrs, OF _ safe [OF that(2)] that(1)]
    by auto
  have e: "fst (token_at h) = RefreshTokens" "fst (family_at f) = RefreshFamilies" for h f
    by (simp_all add: coord_of_def)
  have kept: "\<forall>x \<in> set wrs. place_of x = token_at h \<longrightarrow> value_safe ''family_id'' x" for h
    using f by (auto simp: place_of_def coord_of_def)
  have "stored_family (view w) h = Some fam" if "stored_family (view (lg_world L)) h = Some fam" for h fam
    using o that batch_keeps_value [OF _ kept] unfolding stored_valued by metis
  then show ?thesis using v o k e unfolding refresh_inv_def by (simp add: case_prod_unfold)
qed

end

lemma inv_logged:
  assumes "refresh_inv view (L\<lparr>lg_world := w\<rparr>)"
    and "r = Inr True \<Longrightarrow> log_ok (e # lg_log L)"
    and "r = Inr True \<Longrightarrow> (\<forall>h f. e = Spent h f \<longrightarrow> marked ''used_at'' (view w (token_at h))) \<and>
      (\<forall>f. e = Killed f \<longrightarrow> marked ''revoked_at'' (view w (family_at f)))"
    and "\<forall>h f. e = Spent h f \<longrightarrow> (h, f) \<in> set (lg_read L)"
  shows "refresh_inv view (logged L w r e)"
  using assms by (auto simp: refresh_inv_def logged_def)

text \<open>A batch that spends a token found it unspent and its family live.\<close>

lemma fresh_event:
  assumes "refresh_inv view L" "\<not> marked ''used_at'' (view (lg_world L) (token_at h))"
    "\<not> marked ''revoked_at'' (view (lg_world L) (family_at fam))"
  shows "log_ok (Spent h fam # lg_log L)"
  using assms by (fastforce simp: refresh_inv_def list_all_iff split: event.split)

lemma absent_unmarked: "cond_ok k m \<Longrightarrow> \<lparr>c_attr = a, c_op = Absent, c_value = v\<rparr> \<in> set (cond_where k) \<Longrightarrow> \<not> marked a m"
proof -
  assume "cond_ok k m" "\<lparr>c_attr = a, c_op = Absent, c_value = v\<rparr> \<in> set (cond_where k)"
  then have "cmp_match (attrs_of m) \<lparr>c_attr = a, c_op = Absent, c_value = v\<rparr>"
    unfolding cond_ok_def list_all_iff by blast
  then show ?thesis by (cases m) (auto simp: cmp_match_def attrs_of_def marked_def cmp_eval_def split: option.splits)
qed

context object_store
begin

lemma refresh_keeps:
  assumes s: "refresh_step st L M" and v: "refresh_inv view L"
  shows "refresh_inv view M"
  using s
proof cases
  case (start_family h fam g r w)
  show ?thesis unfolding start_family(1)
    by (rule inv_batch [OF v refresh_plain(1) _ refresh_values(1) start_family(2)]) (use refresh_safe(1) in blast)
next
  case (claim_token h fam now r w)
  have b: "refresh_inv view (L\<lparr>lg_world := w\<rparr>)"
    by (rule inv_batch [OF v refresh_plain(2) _ refresh_values(2) claim_token(3)]) (use refresh_safe(2) in blast)
  show ?thesis unfolding claim_token(1)
  proof (rule inv_logged [OF b])
    assume t: "r = Inr True"
    have pl: "plain_items (view (lg_world L))" using v by (simp add: refresh_inv_def)
    have ok: "batch_ok (view (lg_world L)) [familyLive fam] [claimWrite now h]"
      "view w = batch_effect (view (lg_world L)) [claimWrite now h]"
      using batch_outcome [OF pl refresh_plain(2) claim_token(3)] t by auto
    have "\<not> marked ''revoked_at'' (view (lg_world L) (family_at fam))"
      using ok(1) by (intro absent_unmarked [where k = "k_cond (familyLive fam)" and v = "[]"])
        (simp_all add: batch_ok_def familyLive_def)
    moreover have "\<not> marked ''used_at'' (view (lg_world L) (token_at h))"
      using ok(1) by (intro absent_unmarked [where k = "w_cond (claimWrite now h)" and v = "[]"])
        (simp_all add: batch_ok_def write_ok_def, simp add: claimWrite_def)
    ultimately show "log_ok (Spent h fam # lg_log L)" using fresh_event [OF v] by blast
    show "(\<forall>h' f. Spent h fam = Spent h' f \<longrightarrow> marked ''used_at'' (view w (token_at h'))) \<and>
      (\<forall>f. Spent h fam = Killed f \<longrightarrow> marked ''revoked_at'' (view w (family_at f)))"
      using batch_sets_mark [OF ok(1), where c = "token_at h" and a = "''used_at''" and x = "claimWrite now h"]
        refresh_safe(2) ok(2) by simp
  next
    show "\<forall>h' f. Spent h fam = Spent h' f \<longrightarrow> (h', f) \<in> set (lg_read L)" using claim_token(2) by simp
  qed
next
  case (rotate_token h fam now h' g n r w)
  let ?ws = "rotate_writes now h h' fam g n"
  have b: "refresh_inv view (L\<lparr>lg_world := w\<rparr>)"
    by (rule inv_batch [OF v refresh_plain(3) _ refresh_values(3) rotate_token(3)]) (use refresh_safe(3) in blast)
  show ?thesis unfolding rotate_token(1)
  proof (rule inv_logged [OF b])
    assume t: "r = Inr True"
    have pl: "plain_items (view (lg_world L))" using v by (simp add: refresh_inv_def)
    have ok: "batch_ok (view (lg_world L)) [] ?ws" "view w = batch_effect (view (lg_world L)) ?ws"
      using batch_outcome [OF pl refresh_plain(3) rotate_token(3)] t by auto
    have hd: "hd ?ws \<in> set ?ws" "place_of (hd ?ws) = family_at fam"
      by (simp_all add: rotate_writes_def place_of_def write0_def)
    have cl: "claimWrite now h \<in> set ?ws" by (simp add: rotate_writes_def)
    have "\<not> marked ''revoked_at'' (view (lg_world L) (family_at fam))"
      using ok(1) hd by (intro absent_unmarked [where k = "w_cond (hd ?ws)" and v = "[]"])
        (auto simp: batch_ok_def write_ok_def list_all_iff, simp add: rotate_writes_def)
    moreover have "\<not> marked ''used_at'' (view (lg_world L) (token_at h))"
      using ok(1) cl by (intro absent_unmarked [where k = "w_cond (claimWrite now h)" and v = "[]"])
        (auto simp: batch_ok_def write_ok_def list_all_iff, simp add: claimWrite_def)
    ultimately show "log_ok (Spent h fam # lg_log L)" using fresh_event [OF v] by blast
    show "(\<forall>h' f. Spent h fam = Spent h' f \<longrightarrow> marked ''used_at'' (view w (token_at h'))) \<and>
      (\<forall>f. Spent h fam = Killed f \<longrightarrow> marked ''revoked_at'' (view w (family_at f)))"
      using batch_sets_mark [OF ok(1) _ cl, where c = "token_at h" and a = "''used_at''"]
        refresh_safe(3) ok(2) by simp
  next
    show "\<forall>h' f. Spent h fam = Spent h' f \<longrightarrow> (h', f) \<in> set (lg_read L)" using rotate_token(2) by simp
  qed
next
  case (revoke_family now fam r w)
  have b: "refresh_inv view (L\<lparr>lg_world := w\<rparr>)"
    by (rule inv_batch [OF v refresh_plain(4) _ refresh_values(4) revoke_family(2)]) (use refresh_safe(4) in blast)
  show ?thesis unfolding revoke_family(1)
  proof (rule inv_logged [OF b])
    assume t: "r = Inr True"
    have pl: "plain_items (view (lg_world L))" using v by (simp add: refresh_inv_def)
    have ok: "batch_ok (view (lg_world L)) [] [revoke_write now fam]"
      "view w = batch_effect (view (lg_world L)) [revoke_write now fam]"
      using batch_outcome [OF pl refresh_plain(4) revoke_family(2)] t by auto
    have "\<not> marked ''revoked_at'' (view (lg_world L) (family_at fam))"
      using ok(1) by (intro absent_unmarked [where k = "w_cond (revoke_write now fam)" and v = "[]"])
        (simp_all add: batch_ok_def write_ok_def, simp add: revoke_write_def)
    then show "log_ok (Killed fam # lg_log L)" using v by (auto simp: refresh_inv_def)
    show "(\<forall>h' f. Killed fam = Spent h' f \<longrightarrow> marked ''used_at'' (view w (token_at h'))) \<and>
      (\<forall>f. Killed fam = Killed f \<longrightarrow> marked ''revoked_at'' (view w (family_at f)))"
      using batch_sets_mark [OF ok(1), where c = "family_at fam" and a = "''revoked_at''" and x = "revoke_write now fam"]
        refresh_safe(4) ok(2) by simp
  qed simp
next
  case (read_token ps h x w)
  have pl: "plain_items (view (lg_world L))" using v by (simp add: refresh_inv_def)
  have w: "view w = view (lg_world L)" using point_looks read_token(3) by (simp add: auth_point_def)
  have "stored_family (view (lg_world L)) h' = Some fam" if hf: "(h', fam) \<in> set (found h x)" for h' fam
  proof -
    obtain it where it: "x = Inr (Some it)" "h' = h" "fam = got (i_attrs it) ''family_id''"
      using hf by (auto simp: found_def split: sum.splits option.splits)
    have "point st (lg_world L) RefreshTokens (auth_key h) ps = (Inr (Some it), w)"
      using read_token(3) it(1) by (simp add: auth_point_def)
    from point_reads [OF pl _ _ this] read_token(2)
    show ?thesis using it
      by (cases "view (lg_world L) (token_at h)") (auto simp: stored_family_def projected_def partAttr_def sortAttr_def got_def)
  qed
  then show ?thesis using v w unfolding read_token(1) refresh_inv_def by (auto simp: case_prod_unfold)
next
  case (read_item ent k ps x w)
  then have "view w = view (lg_world L)" using point_looks by (simp add: auth_point_def)
  then show ?thesis using v read_item(1) by (simp add: refresh_inv_def)
next
  case (other_batch cs wrs r w)
  show ?thesis unfolding other_batch(1)
    by (rule inv_batch [OF v other_batch(2) _ _ other_batch(4)]) (use other_batch(3) in blast)+
qed

end


section \<open>The operations are runs of these steps\<close>

lemma ledger_eq: "L\<lparr>lg_world := lg_world L\<rparr> = L"
  by simp

text \<open>Each operation, started on any ledger, is a run of steps that ends in the operation's world.\<close>

lemma claim_runs:
  assumes "ClaimRefreshToken st HashToken now (lg_world L) raw = (r, w')"
  shows "\<exists>M. (refresh_step st)\<^sup>*\<^sup>* L M \<and> lg_world M = w' \<and>
    (if r = Inr True then \<exists>fam. lg_log M = Spent (HashToken raw) fam # lg_log L else lg_log M = lg_log L)"
proof -
  obtain x v where p: "auth_point st (lg_world L) RefreshTokens (HashToken raw) [''family_id''] = (x, v)" by force
  define V where "V = L\<lparr>lg_world := v, lg_read := found (HashToken raw) x @ lg_read L\<rparr>"
  have s: "refresh_step st L V" unfolding V_def by (rule read_token [OF _ p]) simp
  show ?thesis
  proof (cases "\<exists>it. x = Inr (Some it)")
    case True
    then obtain it where x: "x = Inr (Some it)" by blast
    let ?fam = "got (i_attrs it) ''family_id''"
    have b: "st_batch st (lg_world V) [familyLive ?fam] [claimWrite now (HashToken raw)] = (r, w')"
      using assms p x by (simp add: ClaimRefreshToken_def V_def)
    have "(HashToken raw, ?fam) \<in> set (lg_read V)" by (simp add: V_def x found_def)
    note c = claim_token [OF this b]
    have "(refresh_step st)\<^sup>*\<^sup>* L (logged V w' r (Spent (HashToken raw) ?fam))"
      using s c by (meson converse_rtranclp_into_rtranclp r_into_rtranclp)
    then show ?thesis by (intro exI [of _ "logged V w' r (Spent (HashToken raw) ?fam)"]) (auto simp: logged_def V_def)
  next
    case False
    then have "r \<noteq> Inr True \<and> v = w'"
      using assms p by (cases x; simp add: ClaimRefreshToken_def split: option.splits) auto
    then show ?thesis using s by (intro exI [of _ V]) (auto simp: V_def)
  qed
qed

lemma rotate_runs:
  assumes "ClaimAndRotateRefresh st HashToken now (lg_world L) fresh raw fam g = (r, w')"
    and "(HashToken raw, fam) \<in> set (lg_read L)"
  shows "\<exists>M. (refresh_step st)\<^sup>*\<^sup>* L M \<and> lg_world M = w' \<and> set (lg_read L) \<subseteq> set (lg_read M) \<and>
    lg_log M = (if \<exists>x. r = Inr (Some x) then Spent (HashToken raw) fam # lg_log L else lg_log L)"
proof (cases fresh)
  case None
  then show ?thesis using assms by (intro exI [of _ L]) (auto simp: ClaimAndRotateRefresh_def)
next
  case (Some newRaw)
  obtain x v where p: "auth_point st (lg_world L) RefreshFamilies fam [''rotations''] = (x, v)" by force
  define V where "V = L\<lparr>lg_world := v\<rparr>"
  have s: "refresh_step st L V" unfolding V_def by (rule read_item [OF p])
  have "snd (familyRotations st (lg_world L) fam) = v"
    by (simp add: familyRotations_def p split: sum.split option.split)
  then obtain y where f: "familyRotations st (lg_world L) fam = (y, v)" by (cases "familyRotations st (lg_world L) fam") simp
  show ?thesis
  proof (cases y)
    case (Inl e)
    then show ?thesis using assms(1) Some f s
      by (intro exI [of _ V]) (auto simp: ClaimAndRotateRefresh_def V_def)
  next
    case (Inr n)
    obtain q where b: "st_batch st (lg_world V) [] (rotate_writes now (HashToken raw) (HashToken newRaw) fam g n) = (q, w')"
      and r: "(\<exists>x. r = Inr (Some x)) = (q = Inr True)"
      using assms(1) Some f Inr
      by (auto simp: ClaimAndRotateRefresh_def V_def split: prod.splits sum.splits bool.splits)
    have "(HashToken raw, fam) \<in> set (lg_read V)" using assms(2) by (simp add: V_def)
    note c = rotate_token [OF this b]
    have "(refresh_step st)\<^sup>*\<^sup>* L (logged V w' q (Spent (HashToken raw) fam))"
      using s c by (meson converse_rtranclp_into_rtranclp r_into_rtranclp)
    then show ?thesis using r
      by (intro exI [of _ "logged V w' q (Spent (HashToken raw) fam)"]) (auto simp: logged_def V_def)
  qed
qed

lemma revoke_runs:
  "\<exists>M. refresh_step st L M \<and> lg_world M = snd (RevokeFamily st now (lg_world L) fam) \<and>
     (lg_log M = lg_log L \<or> lg_log M = Killed fam # lg_log L)"
proof -
  obtain r w where b: "st_batch st (lg_world L) [] [revoke_write now fam] = (r, w)" by force
  show ?thesis using revoke_family [OF b] b
    by (intro exI [of _ "logged L w r (Killed fam)"]) (auto simp: logged_def RevokeFamily_def)
qed

text \<open>What the lookup of a presented token returns names the family of the row it read.\<close>

lemma lookup_runs:
  assumes "RefreshTokenBySecret st HashToken parse (lg_world L) raw = (x, w')"
  shows "\<exists>M. (refresh_step st)\<^sup>*\<^sup>* L M \<and> lg_world M = w' \<and> lg_log M = lg_log L \<and>
    (\<forall>t. x = Some t \<longrightarrow> (HashToken raw, rt_family t) \<in> set (lg_read M))"
proof -
  obtain y v where p: "auth_point st (lg_world L) RefreshTokens (HashToken raw) [] = (y, v)" by force
  define V where "V = L\<lparr>lg_world := v, lg_read := found (HashToken raw) y @ lg_read L\<rparr>"
  have s: "refresh_step st L V" unfolding V_def by (rule read_token [OF _ p]) simp
  show ?thesis
  proof (cases "\<exists>it. y = Inr (Some it)")
    case True
    then obtain it where y: "y = Inr (Some it)" by blast
    let ?fam = "got (i_attrs it) ''family_id''"
    obtain z u where q: "auth_point st (lg_world V) RefreshFamilies ?fam [''revoked_at''] = (z, u)" by force
    have "refresh_step st V (V\<lparr>lg_world := u\<rparr>)" by (rule read_item [OF q])
    moreover have "w' = u \<and> (\<forall>t. x = Some t \<longrightarrow> rt_family t = ?fam)"
      using assms p q y by (auto simp: RefreshTokenBySecret_def V_def Let_def split: sum.splits option.splits)
    ultimately show ?thesis using s
      by (intro exI [of _ "V\<lparr>lg_world := u\<rparr>"]) (auto simp: V_def found_def y)
  next
    case False
    then have "x = None \<and> w' = v"
      using assms p by (cases y; auto simp: RefreshTokenBySecret_def split: option.splits)
    then show ?thesis using s by (intro exI [of _ V]) (auto simp: V_def)
  qed
qed

text \<open>A refresh refuses after the lookup, kills the family of a spent token, or goes on to the rotation.\<close>

lemma refresh_ways:
  assumes "Refresh st HashToken parse fetch mint ttl now later w fresh raw = (r, w')"
    and "RefreshTokenBySecret st HashToken parse w raw = (x, v)"
  shows "w' = v \<and> (\<forall>a. r \<noteq> Inr a) \<or>
    (\<exists>t. x = Some t \<and> (\<forall>a. r \<noteq> Inr a) \<and> w' = snd (RevokeFamily st later v (rt_family t))) \<or>
    (\<exists>t g q u. x = Some t \<and> ClaimAndRotateRefresh st HashToken later v fresh raw (rt_family t) g = (q, u) \<and>
       ((\<forall>n. q \<noteq> Inr (Some n)) \<longrightarrow> (\<forall>a. r \<noteq> Inr a)) \<and>
       (w' = u \<or> q = Inr None \<and> w' = snd (RevokeFamily st later u (rt_family t))))"
proof (cases x)
  case None
  then show ?thesis using assms by (auto simp: Refresh_def)
next
  case (Some t)
  define sc where "sc = (case fetch of None \<Rightarrow> Some (rt_scope t)
    | Some f \<Rightarrow> (case f (rt_sub t) of Granted scope \<Rightarrow> Some scope | ErrNoGrants \<Rightarrow> Some [] | Grants_Down \<Rightarrow> None))"
  note R = assms(1) [unfolded Refresh_def assms(2) Some prod.case option.case, folded sc_def]
  show ?thesis
  proof (cases "rt_revoked t \<or> rt_used t \<or> now > (case rt_expires t of None \<Rightarrow> zero_time | Some e \<Rightarrow> e) \<or> sc = None")
    case True
    then show ?thesis using R Some by (auto split: if_splits)
  next
    case False
    then obtain scope where s: "sc = Some scope" by blast
    let ?g = "\<lparr>g_sub = rt_sub t, g_scope = scope, g_aud = rt_aud t, g_issued = stamp later, g_expires = stamp (later + ttl)\<rparr>"
    obtain q u where c: "ClaimAndRotateRefresh st HashToken later v fresh raw (rt_family t) ?g = (q, u)" by force
    have "((\<forall>n. q \<noteq> Inr (Some n)) \<longrightarrow> (\<forall>a. r \<noteq> Inr a)) \<and>
       (w' = u \<or> q = Inr None \<and> w' = snd (RevokeFamily st later u (rt_family t)))"
    proof (cases q)
      case (Inl e)
      then show ?thesis using R False by (auto simp: s c)
    next
      case (Inr m)
      show ?thesis
      proof (cases m)
        case None
        have "(Inl errReuse, snd (RevokeFamily st later u (rt_family t))) = (r, w')" using R False by (simp add: s c Inr None)
        then show ?thesis using Inr None by auto
      next
        case (Some n)
        have "(case mint (''user:'' @ rt_sub t) scope (rt_aud t) of
            None \<Rightarrow> (Inl Not_Minted, u) | Some access \<Rightarrow> (Inr (access, n), u)) = (r, w')"
          using R False by (simp add: s c Inr Some)
        then have "w' = u" by (cases "mint (''user:'' @ rt_sub t) scope (rt_aud t)") simp_all
        moreover have "\<not> (\<forall>k. q \<noteq> Inr (Some k))" using Inr Some by simp
        ultimately show ?thesis by blast
      qed
    qed
    then show ?thesis
      by (intro disjI2 exI [of _ t] exI [of _ ?g] exI [of _ q] exI [of _ u] conjI [OF Some conjI [OF c]])
  qed
qed

text \<open>A whole refresh is a run of steps, and one that answers with tokens spent the presented one.\<close>

lemma refresh_runs:
  assumes "Refresh st HashToken parse fetch mint ttl now later (lg_world L) fresh raw = (r, w')"
  shows "\<exists>M. (refresh_step st)\<^sup>*\<^sup>* L M \<and> lg_world M = w' \<and>
    (\<forall>a. r = Inr a \<longrightarrow> (\<exists>fam. lg_log M = Spent (HashToken raw) fam # lg_log L))"
proof -
  obtain x v where l: "RefreshTokenBySecret st HashToken parse (lg_world L) raw = (x, v)" by force
  obtain V where V: "(refresh_step st)\<^sup>*\<^sup>* L V" "lg_world V = v" "lg_log V = lg_log L"
    "\<forall>t. x = Some t \<longrightarrow> (HashToken raw, rt_family t) \<in> set (lg_read V)"
    using lookup_runs [OF l] by blast
  have killed: ?thesis if u: "(refresh_step st)\<^sup>*\<^sup>* L U" and e: "w' = snd (RevokeFamily st later (lg_world U) fam)"
    and n: "\<forall>a. r \<noteq> Inr a" for U fam
  proof -
    obtain M where "refresh_step st U M" "lg_world M = w'" using revoke_runs [of st U later fam] e by auto
    then show ?thesis using u n by (intro exI [of _ M]) (simp add: rtranclp.rtrancl_into_rtrancl)
  qed
  show ?thesis
    using refresh_ways [OF assms l]
  proof (elim disjE exE)
    assume "w' = v \<and> (\<forall>a. r \<noteq> Inr a)"
    then show ?thesis using V by (intro exI [of _ V]) simp
  next
    fix t
    assume "x = Some t \<and> (\<forall>a. r \<noteq> Inr a) \<and> w' = snd (RevokeFamily st later v (rt_family t))"
    then show ?thesis using killed [OF V(1)] V(2) by simp
  next
    fix t g q u
    assume c: "x = Some t \<and> ClaimAndRotateRefresh st HashToken later v fresh raw (rt_family t) g = (q, u) \<and>
       ((\<forall>n. q \<noteq> Inr (Some n)) \<longrightarrow> (\<forall>a. r \<noteq> Inr a)) \<and>
       (w' = u \<or> q = Inr None \<and> w' = snd (RevokeFamily st later u (rt_family t)))"
    have "ClaimAndRotateRefresh st HashToken later (lg_world V) fresh raw (rt_family t) g = (q, u)" using c V(2) by simp
    from rotate_runs [OF this] V(4) c obtain M where M: "(refresh_step st)\<^sup>*\<^sup>* V M" "lg_world M = u"
      "lg_log M = (if \<exists>x. q = Inr (Some x) then Spent (HashToken raw) (rt_family t) # lg_log V else lg_log V)" by blast
    have LM: "(refresh_step st)\<^sup>*\<^sup>* L M" using V(1) M(1) by simp
    show ?thesis
    proof (cases "w' = u")
      case True
      then show ?thesis using LM M V(3) c by (intro exI [of _ M]) auto
    next
      case False
      then have "q = Inr None" "w' = snd (RevokeFamily st later (lg_world M) (rt_family t))" using c M(2) by simp_all
      moreover from this have "\<forall>a. r \<noteq> Inr a" using c by simp
      ultimately show ?thesis using killed [OF LM] by blast
    qed
  qed
qed

section \<open>The signing key\<close>

abbreviation key_at :: "string \<Rightarrow> coord" where "key_at k \<equiv> coord_of SigningKeys (auth_key k)"
abbreviation slot_at :: coord where "slot_at \<equiv> coord_of SigningKeySlot (auth_key activeSlot)"

inductive signing_step :: "'w Store \<Rightarrow> 'w \<Rightarrow> 'w \<Rightarrow> bool" for st where
  rotation: "st_batch st w [] (rotation_writes now old k at) = (r, w') \<Longrightarrow> signing_step st w w'"
| reading: "auth_point st w ent k ps = (x, w') \<Longrightarrow> signing_step st w w'"
| other_writes: "plain_batch cs wrs \<Longrightarrow>
    \<forall>x \<in> set wrs. w_entity x \<noteq> SigningKeys \<and> w_entity x \<noteq> SigningKeySlot \<Longrightarrow>
    st_batch st w cs wrs = (r, w') \<Longrightarrow> signing_step st w w'"

definition active :: "item_map \<Rightarrow> string option" where
  [go_defs]: "active db = (case db slot_at of None \<Rightarrow> None | Some m \<Rightarrow> m ''kid'')"

text \<open>The unretired keys are the one the slot names.\<close>

definition signer_ok :: "item_map \<Rightarrow> bool" where
  "signer_ok db \<longleftrightarrow> (\<forall>k. (\<exists>m. db (key_at k) = Some m \<and> m ''retired_at'' = None) \<longleftrightarrow> active db = Some k)"

lemma key_slot [simp]: "key_at k \<noteq> slot_at" "slot_at \<noteq> key_at k" "key_at k = key_at k' \<longleftrightarrow> k = k'"
  by (auto simp: coord_of_def auth_key_def SigningKeys_def SigningKeySlot_def)

lemma rotation_plain: "plain_batch [] (rotation_writes now old k at)"
  by (simp add: plain_batch_def plain_write_def plain_attr_def plain_cond_def rotation_writes_def slot_writes_def
      write0_def no_cond_def partAttr_def sortAttr_def openAttr_def)

lemma rotation_effect:
  assumes v: "signer_ok db" and ok: "batch_ok db [] (rotation_writes now old k at)"
  shows "signer_ok (batch_effect db (rotation_writes now old k at))"
proof -
  have new: "db (key_at (nk_kid k)) = None"
    using ok by (simp add: batch_ok_def rotation_writes_def write_ok_def cond_ok_def place_of_def write0_def)
  let ?new = "map_of [(''priv_pem'', nk_priv k), (''pub_pem'', nk_pub k), (''created_at'', stamp now)]"
  show ?thesis
  proof (cases "old = []")
    case True
    have e: "batch_effect db (rotation_writes now old k at) =
        db(key_at (nk_kid k) \<mapsto> ?new, slot_at \<mapsto> map_of [(''kid'', nk_kid k)])"
      using True by (simp add: rotation_writes_def slot_writes_def written_def place_of_def write0_def)
    have "db slot_at = None"
      using ok True by (simp add: batch_ok_def rotation_writes_def slot_writes_def write_ok_def cond_ok_def
          place_of_def write0_def)
    then have "active db = None" by (simp add: active_def)
    then have n: "\<not> (\<exists>m. db (key_at x) = Some m \<and> m ''retired_at'' = None)" for x
      using v unfolding signer_ok_def by simp
    show ?thesis unfolding e signer_ok_def
    proof (intro allI)
      fix x
      show "(\<exists>m. (db(key_at (nk_kid k) \<mapsto> ?new, slot_at \<mapsto> map_of [(''kid'', nk_kid k)])) (key_at x) = Some m \<and>
            m ''retired_at'' = None) \<longleftrightarrow>
          active (db(key_at (nk_kid k) \<mapsto> ?new, slot_at \<mapsto> map_of [(''kid'', nk_kid k)])) = Some x"
        using n [of x] by (cases "x = nk_kid k") (simp_all add: active_def)
    qed
  next
    case False
    let ?slot = "merged (hd (slot_writes old k at)) (attrs_of (db slot_at))"
    let ?old = "merged (slot_writes old k at ! 1) (attrs_of (db (key_at old)))"
    have c: "db slot_at \<noteq> None" "cmp_match (attrs_of (db slot_at)) \<lparr>c_attr = ''kid'', c_op = Eq, c_value = old\<rparr>"
      "db (key_at old) \<noteq> None"
      using ok False by (simp_all add: batch_ok_def rotation_writes_def slot_writes_def write_ok_def cond_ok_def
          place_of_def write0_def)
    then have a: "active db = Some old"
      by (auto simp: active_def cmp_match_def attrs_of_def cmp_eval_def split: option.splits)
    have ne: "old \<noteq> nk_kid k" using new c(3) by auto
    have e: "batch_effect db (rotation_writes now old k at) =
        db(key_at (nk_kid k) \<mapsto> ?new, slot_at \<mapsto> ?slot, key_at old \<mapsto> ?old)"
      using False ne by (simp add: rotation_writes_def slot_writes_def written_def place_of_def write0_def)
    have s: "?slot ''kid'' = Some (nk_kid k)" "?old ''retired_at'' = Some (stamp at)"
      using False by (simp_all add: merged_def slot_writes_def write0_def)
    have n: "(\<exists>m. db (key_at x) = Some m \<and> m ''retired_at'' = None) \<longleftrightarrow> x = old" for x
      using v a unfolding signer_ok_def by auto
    show ?thesis unfolding e signer_ok_def
    proof (intro allI)
      fix x
      show "(\<exists>m. (db(key_at (nk_kid k) \<mapsto> ?new, slot_at \<mapsto> ?slot, key_at old \<mapsto> ?old)) (key_at x) = Some m \<and>
            m ''retired_at'' = None) \<longleftrightarrow>
          active (db(key_at (nk_kid k) \<mapsto> ?new, slot_at \<mapsto> ?slot, key_at old \<mapsto> ?old)) = Some x"
        using n [of x] s ne by (cases "x = nk_kid k"; cases "x = old") (simp_all add: active_def)
    qed
  qed
qed

context object_store
begin

lemma signing_keeps:
  assumes s: "signing_step st w w'" and p: "plain_items (view w)" and v: "signer_ok (view w)"
  shows "plain_items (view w') \<and> signer_ok (view w')"
  using s
proof cases
  case (rotation now old k at r)
  show ?thesis using batch_outcome [OF p rotation_plain rotation] rotation_effect [OF v] v by auto
next
  case (reading ent k ps x)
  then show ?thesis using point_looks p v by (simp add: auth_point_def)
next
  case (other_writes cs wrs r)
  have "batch_effect (view w) wrs (key_at k) = view w (key_at k)" "batch_effect (view w) wrs slot_at = view w slot_at" for k
    using other_writes(2) by (intro untouched; auto simp: place_of_def coord_of_def)+
  then have "signer_ok (batch_effect (view w) wrs)" using v by (simp add: signer_ok_def active_def)
  then show ?thesis using batch_outcome [OF p other_writes(1,3)] v by auto
qed

end

section \<open>Linked identities\<close>

abbreviation identity_at :: "string \<Rightarrow> coord" where "identity_at s \<equiv> coord_of OAuthIdentities (auth_key s)"

definition link_batch :: "int \<Rightarrow> string \<Rightarrow> string \<Rightarrow> string \<Rightarrow> string \<Rightarrow> bool \<Rightarrow> bool \<Rightarrow> Item list \<Rightarrow> Write list" where
  [go_defs]: "link_batch now userID name provider sub known held its =
     [account_write now userID name known] @ [link_write now userID sub held] @ displaced_writes userID provider sub its"

lemma link_plain: "plain_batch [] (link_batch now userID name provider sub known held its)"
  by (auto simp: link_batch_def plain_batch_def plain_write_def plain_attr_def plain_cond_def account_write_def
      link_write_def displaced_writes_def owned_by_def write0_def no_cond_def partAttr_def sortAttr_def openAttr_def
      list_all_iff)

lemma link_touches:
  assumes ok: "batch_ok db [] (link_batch now userID name provider sub known held its)"
    and m: "db (identity_at s) = Some m" "m ''user_id'' = Some u" "u \<noteq> userID"
  shows "\<forall>x \<in> set (link_batch now userID name provider sub known held its). place_of x \<noteq> identity_at s"
proof (intro ballI notI)
  fix x
  assume x: "x \<in> set (link_batch now userID name provider sub known held its)" "place_of x = identity_at s"
  have w: "write_ok x (Some m)" using ok x m(1) by (auto simp: batch_ok_def list_all_iff)
  have "\<not> cond_ok (owned_by userID) (Some m)"
    using m by (simp add: cond_ok_def owned_by_def cmp_match_def attrs_of_def cmp_eval_def)
  moreover have "w_cond x = owned_by userID \<or> cond_item (w_cond x) = ItemAbsent"
    using x by (auto simp: link_batch_def link_write_def displaced_writes_def account_write_def place_of_def
        coord_of_def write0_def AuthUsers_def OAuthIdentities_def split: if_splits)
  ultimately show False using w by (auto simp: write_ok_def cond_ok_def)
qed

lemma link_is_batch:
  assumes "LinkOAuthIdentity st now w userID name provider providerSub = (r, w')"
    and ls: "\<forall>w q r w'. st_query st w q = (r, w') \<longrightarrow> view w' = view w"
  shows "view w' = view w \<and> r \<noteq> Inr () \<or>
    (\<exists>v known held its q. view v = view w \<and> (r = Inr () \<longleftrightarrow> q = Inr True) \<and>
      st_batch st v [] (link_batch now userID name provider (provider @ colon # providerSub) known held its) = (q, w'))"
proof -
  have looks: "st_query st w q = (r, w') \<Longrightarrow> view w' = view w" for w q r w' using ls by blast
  let ?sub = "provider @ colon # providerSub"
  have pl: "view (snd (auth_point st w ent k ps)) = view w" for w ent k ps
    using looks by (auto simp: auth_point_def point_def split: prod.splits sum.splits)
  obtain a v where a: "auth_point st w OAuthIdentities ?sub [''user_id''] = (a, v)" by force
  have v: "view v = view w" using pl [of w] a by (metis snd_conv)
  obtain b u where b: "auth_point st v AuthUsers userID [''created_at''] = (b, u)" by force
  have u: "view u = view w" using pl [of v] b v by (metis snd_conv)
  obtain c t where c: "st_query st u (identities_query userID) = (c, t)" by force
  have t: "view t = view w" using looks [OF c] u by simp
  show ?thesis
  proof (cases "\<exists>x y its. a = Inr x \<and> b = Inr y \<and> c = Inr its \<and>
      (x = None \<or> (\<exists>it. x = Some it \<and> got (i_attrs it) ''user_id'' = userID))")
    case True
    then obtain x y its where x: "a = Inr x" "b = Inr y" "c = Inr its"
      "x = None \<or> (\<exists>it. x = Some it \<and> got (i_attrs it) ''user_id'' = userID)" by blast
    obtain q z where q: "st_batch st t [] (link_batch now userID name provider ?sub (y \<noteq> None) (x \<noteq> None) its) = (q, z)"
      by force
    have "LinkOAuthIdentity st now w userID name provider providerSub =
        (case q of Inl e \<Rightarrow> Inl (Store_Down e) | Inr ok \<Rightarrow> if ok then Inr () else Inl Link_Refused, z)"
      using x q by (auto simp: LinkOAuthIdentity_def a accountWrite_def b displaced_def identitiesOf_def c
          link_batch_def Let_def split: sum.splits bool.splits)
    then have "w' = z" "r = Inr () \<longleftrightarrow> q = Inr True"
      using assms(1) by (auto split: sum.splits if_splits)
    then show ?thesis using t q by blast
  next
    case False
    then have "view w' = view w \<and> r \<noteq> Inr ()"
      using assms(1) v u t
      by (auto simp: LinkOAuthIdentity_def a accountWrite_def b displaced_def identitiesOf_def c
          Let_def split: sum.splits option.splits if_splits)
    then show ?thesis by blast
  qed
qed

section \<open>Properties\<close>

text \<open>C10. A refresh token is spent at most once, and never after its family was killed: in every
  interleaving of the batches and reads of the operations on refresh tokens, however old the reads they act on
  and whichever store requests or answers are lost, a committed claim or rotation of a token is the only one
  of that token, the family it checked is the one the token's stored row names, and no revocation
  of that family committed before it.\<close>

theorem token_spent_once:
  assumes "object_store st view" "plain_items (view w)"
    and "(refresh_step st)\<^sup>*\<^sup>* \<lparr>lg_world = w, lg_read = [], lg_log = []\<rparr> L"
    and "lg_log L = newer @ Spent h fam # older"
  shows "(\<exists>m. view (lg_world L) (coord_of RefreshTokens (auth_key h)) = Some m \<and> got m ''family_id'' = fam) \<and>
    (\<forall>fam'. Spent h fam' \<notin> set newer \<and> Spent h fam' \<notin> set older) \<and> Killed fam \<notin> set older"
proof -
  have "refresh_inv view L"
    using assms(3)
  proof (induction rule: rtranclp_induct)
    case base
    show ?case using assms(2) by (simp add: refresh_inv_def)
  next
    case (step L M)
    then show ?case using object_store.refresh_keeps [OF assms(1)] by blast
  qed
  then have ok: "log_ok (newer @ Spent h fam # older)" and "(h, fam) \<in> set (lg_read L)"
    and "\<forall>(h, fam) \<in> set (lg_read L). stored_family (view (lg_world L)) h = Some fam"
    using assms(4) by (auto simp: refresh_inv_def)
  then have row: "\<exists>m. view (lg_world L) (token_at h) = Some m \<and> got m ''family_id'' = fam"
    by (auto simp: stored_family_def)
  from ok have "(\<forall>fam'. Spent h fam' \<notin> set newer \<and> Spent h fam' \<notin> set older) \<and> Killed fam \<notin> set older"
  proof (induction newer)
    case Nil
    then show ?case by (fastforce simp: list_all_iff split: event.splits)
  next
    case (Cons e newer)
    then show ?case by (cases e) (auto simp: list_all_iff)
  qed
  then show ?thesis using row by blast
qed

definition no_widths :: widths where "no_widths = (\<lambda>_. None)"

definition sample_grant :: grant where
  "sample_grant = \<lparr>g_sub = ''google:1'', g_scope = [''read''], g_aud = [], g_issued = ''t0'', g_expires = ''t1''\<rparr>"

definition started :: world where
  "started = snd (st_batch (driver no_widths) sample_world [] (start_writes ''h1'' ''f1'' sample_grant))"

lemma token_spent_once_witness:
  "\<exists>L m. (refresh_step (driver no_widths))\<^sup>*\<^sup>* \<lparr>lg_world = sample_world, lg_read = [], lg_log = []\<rparr> L \<and>
    lg_log L = [Spent ''h1'' ''f1''] \<and>
    items (lg_world L) (token_at ''h1'') = Some m \<and> got m ''family_id'' = ''f1''"
proof -
  let ?st = "driver no_widths"
  define L0 where "L0 = \<lparr>lg_world = sample_world, lg_read = [], lg_log = []\<rparr>"
  obtain r w where s: "st_batch ?st (lg_world L0) [] (start_writes ''h1'' ''f1'' sample_grant) = (r, w)" by force
  define L1 where "L1 = L0\<lparr>lg_world := started\<rparr>"
  have w: "w = started" using s by (simp add: started_def L0_def)
  then have "refresh_step ?st L0 L1" using start_family [OF s] by (simp add: L1_def)
  moreover have c: "fst (ClaimRefreshToken ?st id 0 started ''h1'') = Inr True" by code_simp
  obtain q v where "ClaimRefreshToken ?st id 0 (lg_world L1) ''h1'' = (q, v)" by force
  from claim_runs [OF this] c this obtain L fam where
    L: "(refresh_step ?st)\<^sup>*\<^sup>* L1 L" "lg_log L = Spent ''h1'' fam # lg_log L1" "lg_world L = v"
    by (auto simp: L1_def)
  ultimately have run: "(refresh_step ?st)\<^sup>*\<^sup>* L0 L" by (meson converse_rtranclp_into_rtranclp)
  have log: "lg_log L = [] @ Spent ''h1'' fam # []" using L(2) by (simp add: L1_def L0_def)
  have p: "plain_items (items sample_world)" by (simp add: sample_world_def items_def plain_items_def)
  from token_spent_once [OF ds.object_store_axioms p run [unfolded L0_def] log]
  obtain m where m: "items (lg_world L) (token_at ''h1'') = Some m" "got m ''family_id'' = fam" by blast
  have "v = snd (ClaimRefreshToken ?st id 0 started ''h1'')"
    using \<open>ClaimRefreshToken ?st id 0 (lg_world L1) ''h1'' = (q, v)\<close> by (simp add: L1_def)
  moreover have "map_option (\<lambda>as. got (map_of as) ''family_id'')
      (map_of (shelf (snd (ClaimRefreshToken ?st id 0 started ''h1''))) (token_at ''h1'')) = Some ''f1''" by code_simp
  ultimately have "fam = ''f1''" using m L(3) by (auto simp: items_def)
  then show ?thesis using run [unfolded L0_def] log m by auto
qed

text \<open>C12. Exactly one signing key is unretired, the one the slot names: every interleaving of
  rotations, whichever old key each of them read and whichever store requests or answers are
  lost, keeps it so.\<close>

theorem one_signing_key:
  assumes "object_store st view" "plain_items (view w)" "signer_ok (view w)" "(signing_step st)\<^sup>*\<^sup>* w w'"
  shows "(\<exists>m. view w' (coord_of SigningKeys (auth_key k)) = Some m \<and> m ''retired_at'' = None) \<longleftrightarrow>
    active (view w') = Some k"
proof -
  have "plain_items (view w') \<and> signer_ok (view w')"
    using assms(4)
  proof (induction rule: rtranclp_induct)
    case base
    show ?case using assms(2,3) by simp
  next
    case (step v u)
    then show ?case using object_store.signing_keeps [OF assms(1)] by blast
  qed
  then show ?thesis by (simp add: signer_ok_def)
qed

definition rotated :: world where
  "rotated = snd (st_batch (driver no_widths) sample_world []
     (rotation_writes 0 [] \<lparr>nk_kid = ''k1'', nk_priv = ''p'', nk_pub = ''q''\<rparr> 0))"

lemma one_signing_key_witness:
  "(\<exists>m. items rotated (coord_of SigningKeys (auth_key ''k1'')) = Some m \<and> m ''retired_at'' = None) \<and>
   active (items rotated) = Some ''k1''"
proof -
  have p: "plain_items (items sample_world)" by (simp add: sample_world_def items_def plain_items_def)
  have o: "signer_ok (items sample_world)" by (simp add: signer_ok_def active_def sample_world_def items_def)
  obtain r w where s: "st_batch (driver no_widths) sample_world []
      (rotation_writes 0 [] \<lparr>nk_kid = ''k1'', nk_priv = ''p'', nk_pub = ''q''\<rparr> 0) = (r, w)" by force
  have "(signing_step (driver no_widths))\<^sup>*\<^sup>* sample_world rotated"
    using rotation [OF s] s by (simp add: rotated_def)
  note one = one_signing_key [OF ds.object_store_axioms p o this, of "''k1''"]
  have "map_option (\<lambda>as. map_of as ''kid'') (map_of (shelf rotated) slot_at) = Some (Some ''k1'')" by code_simp
  then have "active (items rotated) = Some ''k1''" by (auto simp: active_def items_def)
  then show ?thesis using one by blast
qed

text \<open>An identity stays with its account: a link in the name of another account, whatever it
  displaces and whatever the store answers, leaves the identity as it is, and does not succeed when it is the
  identity it asks for.\<close>

theorem identity_keeps_its_account:
  assumes "object_store st view" "plain_items (view w)"
    and "view w (coord_of OAuthIdentities (auth_key s)) = Some m" "m ''user_id'' = Some u" "u \<noteq> userID"
    and "LinkOAuthIdentity st now w userID name provider providerSub = (r, w')"
  shows "view w' (coord_of OAuthIdentities (auth_key s)) = Some m \<and>
    (s = provider @ colon # providerSub \<longrightarrow> r \<noteq> Inr ())"
proof -
  have l: "\<forall>w q r w'. st_query st w q = (r, w') \<longrightarrow> view w' = view w"
    using object_store.looks [OF assms(1)] by blast
  show ?thesis
    using link_is_batch [where view = view, OF assms(6) l]
  proof (elim disjE exE)
    assume "view w' = view w \<and> r \<noteq> Inr ()"
    then show ?thesis using assms(3) by simp
  next
    fix v known held its q
    assume batch: "view v = view w \<and> (r = Inr () \<longleftrightarrow> q = Inr True) \<and>
      st_batch st v [] (link_batch now userID name provider (provider @ colon # providerSub) known held its) = (q, w')"
    let ?ws = "link_batch now userID name provider (provider @ colon # providerSub) known held its"
    note o = object_store.batch_outcome [OF assms(1) _ link_plain batch [THEN conjunct2, THEN conjunct2]]
    have t: "\<forall>x \<in> set ?ws. place_of x \<noteq> identity_at s" if "batch_ok (view w) [] ?ws"
      using link_touches [OF that assms(3-5)] .
    have "\<exists>x \<in> set ?ws. place_of x = identity_at s" if "s = provider @ colon # providerSub"
      by (simp add: link_batch_def that link_write_def place_of_def write0_def)
    then have no: "\<not> batch_ok (view w) [] ?ws" if "s = provider @ colon # providerSub" using t that by blast
    have e: "view w' = view w \<and> q \<noteq> Inr True \<or> batch_ok (view w) [] ?ws \<and> view w' = batch_effect (view w) ?ws"
      using o assms(2) batch by simp
    then have "view w' (identity_at s) = view w (identity_at s)"
      using t untouched [of ?ws "identity_at s" "view w"] by (elim disjE conjE) simp_all
    moreover have "s = provider @ colon # providerSub \<longrightarrow> r \<noteq> Inr ()" using e no batch by blast
    ultimately show ?thesis using assms(3) by simp
  qed
qed

definition linked :: world where
  "linked = snd (LinkOAuthIdentity (driver no_widths) 0 sample_world ''google:1'' ''Ann'' ''google'' ''1'')"

lemma identity_keeps_its_account_witness:
  "fst (LinkOAuthIdentity (driver no_widths) 0 linked ''github:9'' ''Bob'' ''google'' ''1'') \<noteq> Inr () \<and>
   items (snd (LinkOAuthIdentity (driver no_widths) 0 linked ''github:9'' ''Bob'' ''google'' ''1''))
     (coord_of OAuthIdentities (auth_key ''google:1'')) \<noteq> None"
proof -
  have "list_all (\<lambda>(c, as). map_of as ''part'' = None \<and> map_of as ''sort'' = None \<and> map_of as ''__open'' = None)
      (shelf linked)" by code_simp
  then have p: "plain_items (items linked)"
    by (auto simp: plain_items_def items_def partAttr_def sortAttr_def openAttr_def list_all_iff dest: map_of_SomeD)
  have "map_option (\<lambda>as. map_of as ''user_id'') (map_of (shelf linked) (identity_at ''google:1'')) = Some (Some ''google:1'')"
    by code_simp
  then obtain m where m: "items linked (identity_at ''google:1'') = Some m" "m ''user_id'' = Some ''google:1''"
    by (auto simp: items_def)
  obtain r w' where l: "LinkOAuthIdentity (driver no_widths) 0 linked ''github:9'' ''Bob'' ''google'' ''1'' = (r, w')"
    by force
  have "''google:1'' \<noteq> ''github:9''" by simp
  from identity_keeps_its_account [OF ds.object_store_axioms p m this l] l show ?thesis by simp
qed

end
