(* ===== verification/Store_Protocol.thy ===== *)
theory Store_Protocol
  imports Store_Client Reach Go_Strings
begin

text \<open>
  The protocols over the two primitives (objstore/marker.go, protocol.go, consistent.go, reach.go,
  replace.go): the version marker of a scope, the counter, the consistent multi-read, the guarded
  edge and the versioned replace. Each is a run over the world, its calls in order; every retry is
  bounded. \<open>fresh\<close> draws a version from the system's randomness, \<open>now\<close> stamps a claim.
\<close>

section \<open>The marker\<close>

record Scope =
  sp_entity :: string
  sp_key :: Key

definition markerVersion :: string where [go_defs]: "markerVersion = ''version''"
definition markerHolder :: string where [go_defs]: "markerHolder = ''holder''"
definition markerIntent :: string where [go_defs]: "markerIntent = ''intent''"
definition markerSince :: string where [go_defs]: "markerSince = ''since''"

datatype protocol_error =
    Primitive store_error
  | Bad_Scope
  | ErrNoMarker
  | ErrScopeHeld
  | ErrScopeMoved
  | ErrClaimLost
  | ErrCycle
  | No_Writes
  | No_Item
  | No_Attr
  | Not_A_Number
  | No_Intent
  | Twice_Named
  | Part_Written
  | Gave_Up

definition sent :: "string \<Rightarrow> attrs \<Rightarrow> string" where
  [go_defs]: "sent a m = (case m a of None \<Rightarrow> [] | Some v \<Rightarrow> v)"

definition scope_valid :: "Scope \<Rightarrow> bool" where
  [go_defs]: "scope_valid sc =
     (\<not> (sp_entity sc = [] \<or> Partition (sp_key sc) = [] \<or> Sort (sp_key sc) = []))"

definition marker_put :: "Scope \<Rightarrow> string \<Rightarrow> Write" where
  [go_defs]: "marker_put sc v =
     (write0 Put (sp_entity sc) (sp_key sc))\<lparr>
       w_attrs := [(markerVersion, v)], w_cond := \<lparr>cond_item = ItemAbsent, cond_where = []\<rparr>\<rparr>"

definition EnsureScope ::
  "'w Store \<Rightarrow> ('w \<Rightarrow> string \<times> 'w) \<Rightarrow> 'w \<Rightarrow> Scope \<Rightarrow> (protocol_error + unit) \<times> 'w" where
  [go_defs]: "EnsureScope st fresh w sc =
     (if \<not> scope_valid sc then (Inl Bad_Scope, w)
      else case fresh w of (v, w) \<Rightarrow>
        (case st_batch st w [] [marker_put sc v] of
           (Inl e, w) \<Rightarrow> (Inl (Primitive e), w)
         | (Inr _, w) \<Rightarrow> (Inr (), w)))"

definition bump_write :: "Scope \<Rightarrow> string \<Rightarrow> Write" where
  [go_defs]: "bump_write sc v = (write0 Update (sp_entity sc) (sp_key sc))\<lparr>w_attrs := [(markerVersion, v)]\<rparr>"

definition Bump :: "('w \<Rightarrow> string \<times> 'w) \<Rightarrow> 'w \<Rightarrow> Scope \<Rightarrow> Write \<times> 'w" where
  [go_defs]: "Bump fresh w sc = (case fresh w of (v, w) \<Rightarrow> (bump_write sc v, w))"

record marker =
  mr_version :: string
  mr_holder :: string
  mr_intent :: string
  mr_since :: string
  mr_present :: bool

definition no_marker :: marker where
  [go_defs]: "no_marker = \<lparr>mr_version = [], mr_holder = [], mr_intent = [], mr_since = [], mr_present = False\<rparr>"

definition marker_of :: "attrs \<Rightarrow> marker" where
  [go_defs]: "marker_of m =
     \<lparr>mr_version = sent markerVersion m, mr_holder = sent markerHolder m, mr_intent = sent markerIntent m,
      mr_since = sent markerSince m, mr_present = True\<rparr>"

definition readMarker :: "'w Store \<Rightarrow> 'w \<Rightarrow> Scope \<Rightarrow> (protocol_error + marker) \<times> 'w" where
  [go_defs]: "readMarker st w sc =
     (if \<not> scope_valid sc then (Inl Bad_Scope, w)
      else case point st w (sp_entity sc) (sp_key sc) [markerVersion, markerHolder, markerIntent, markerSince] of
        (Inl e, w) \<Rightarrow> (Inl (Primitive e), w)
      | (Inr None, w) \<Rightarrow> (Inr no_marker, w)
      | (Inr (Some it), w) \<Rightarrow> (Inr (marker_of (i_attrs it)), w))"

definition settled :: "marker \<Rightarrow> bool" where
  [go_defs]: "settled m = (mr_present m \<and> mr_holder m = [])"

section \<open>The counter\<close>

definition maxCASAttempts :: nat where [go_defs]: "maxCASAttempts = 8"

text \<open>Go's \<open>int\<close> arithmetic wraps at 64 bits.\<close>

definition wrap64 :: "int \<Rightarrow> int" where
  [go_defs]: "wrap64 n = (n + 2 ^ 63) mod 2 ^ 64 - 2 ^ 63"

text \<open>The verb \<open>%0*d\<close>: zeros after the sign, to the width.\<close>

definition pad_int :: "int \<Rightarrow> int \<Rightarrow> string" where
  [go_defs]: "pad_int width n =
     (if n < 0 then CHR ''-'' # padded (nat width - 1) (- n) else padded (nat width) n)"

definition counter_text :: "widths \<Rightarrow> string \<Rightarrow> string \<Rightarrow> int \<Rightarrow> string" where
  [go_defs]: "counter_text ws ent a n =
     (case ws (ent, a) of
        None \<Rightarrow> itoa n
      | Some r \<Rightarrow> if r_lead r then itoa n else pad_int (r_width r) n)"

definition counter_read ::
  "'w Store \<Rightarrow> 'w \<Rightarrow> string \<Rightarrow> Key \<Rightarrow> string \<Rightarrow> (protocol_error + string \<times> int) \<times> 'w" where
  [go_defs]: "counter_read st w ent k a =
     (case point st w ent k [a] of
        (Inl e, w) \<Rightarrow> (Inl (Primitive e), w)
      | (Inr None, w) \<Rightarrow> (Inl No_Item, w)
      | (Inr (Some it), w) \<Rightarrow>
          (case i_attrs it a of
             None \<Rightarrow> (Inl No_Attr, w)
           | Some was \<Rightarrow>
               (case Atoi was of None \<Rightarrow> (Inl Not_A_Number, w) | Some n \<Rightarrow> (Inr (was, n), w))))"

definition counter_write :: "string \<Rightarrow> Key \<Rightarrow> string \<Rightarrow> string \<Rightarrow> string \<Rightarrow> Cmp list \<Rightarrow> Write" where
  [go_defs]: "counter_write ent k a was text cond =
     (write0 Update ent k)\<lparr>
       w_attrs := [(a, text)],
       w_cond := \<lparr>cond_item = ItemAny, cond_where = \<lparr>c_attr = a, c_op = Eq, c_value = was\<rparr> # cond\<rparr>\<rparr>"

text \<open>The attempts; the first argument is how many are left.\<close>

fun increment_loop ::
  "nat \<Rightarrow> 'w Store \<Rightarrow> widths \<Rightarrow> 'w \<Rightarrow> string \<Rightarrow> Key \<Rightarrow> string \<Rightarrow> int \<Rightarrow> Cmp list \<Rightarrow> Write list
   \<Rightarrow> (protocol_error + int \<times> bool) \<times> 'w" where
  "increment_loop 0 st ws w ent k a delta cond also = (Inl Gave_Up, w)"
| "increment_loop (Suc left) st ws w ent k a delta cond also =
     (case counter_read st w ent k a of
        (Inl e, w) \<Rightarrow> (Inl e, w)
      | (Inr (was, n), w) \<Rightarrow>
          let next = wrap64 (n + delta)
          in (case st_batch st w [] (counter_write ent k a was (counter_text ws ent a next) cond # also) of
                (Inl e, w) \<Rightarrow> (Inl (Primitive e), w)
              | (Inr True, w) \<Rightarrow> (Inr (next, True), w)
              | (Inr False, w) \<Rightarrow>
                  (case counter_read st w ent k a of
                     (Inl e, w) \<Rightarrow> (Inl e, w)
                   | (Inr (again, n), w) \<Rightarrow>
                       if again = was then (Inr (n, False), w)
                       else increment_loop left st ws w ent k a delta cond also)))"

definition Increment ::
  "'w Store \<Rightarrow> widths \<Rightarrow> 'w \<Rightarrow> string \<Rightarrow> Key \<Rightarrow> string \<Rightarrow> int \<Rightarrow> Cmp list \<Rightarrow> Write list
   \<Rightarrow> (protocol_error + int \<times> bool) \<times> 'w" where
  [go_defs]: "Increment st ws w ent k a delta cond also =
     increment_loop maxCASAttempts st ws w ent k a delta cond also"

section \<open>The consistent multi-read\<close>

definition settledMarker :: "'w Store \<Rightarrow> 'w \<Rightarrow> Scope \<Rightarrow> (protocol_error + marker) \<times> 'w" where
  [go_defs]: "settledMarker st w sc =
     (case readMarker st w sc of
        (Inl e, w) \<Rightarrow> (Inl e, w)
      | (Inr m, w) \<Rightarrow>
          if \<not> mr_present m then (Inl ErrNoMarker, w)
          else if \<not> settled m then (Inl ErrScopeHeld, w)
          else (Inr m, w))"

text \<open>\<open>read\<close> is the caller's queries; what it read last is the answer.\<close>

fun consistent_loop ::
  "nat \<Rightarrow> 'w Store \<Rightarrow> 'w \<Rightarrow> Scope \<Rightarrow> ('w \<Rightarrow> (protocol_error + 'a) \<times> 'w) \<Rightarrow> (protocol_error + 'a) \<times> 'w" where
  "consistent_loop 0 st w sc read = (Inl Gave_Up, w)"
| "consistent_loop (Suc left) st w sc read =
     (case settledMarker st w sc of
        (Inl e, w) \<Rightarrow> (Inl e, w)
      | (Inr before, w) \<Rightarrow>
          (case read w of
             (Inl e, w) \<Rightarrow> (Inl e, w)
           | (Inr x, w) \<Rightarrow>
               (case settledMarker st w sc of
                  (Inl e, w) \<Rightarrow> (Inl e, w)
                | (Inr after, w) \<Rightarrow>
                    if mr_version before = mr_version after then (Inr x, w)
                    else consistent_loop left st w sc read)))"

definition ReadConsistent ::
  "'w Store \<Rightarrow> 'w \<Rightarrow> Scope \<Rightarrow> ('w \<Rightarrow> (protocol_error + 'a) \<times> 'w) \<Rightarrow> (protocol_error + 'a) \<times> 'w" where
  [go_defs]: "ReadConsistent st w sc read = consistent_loop maxCASAttempts st w sc read"

section \<open>The guarded edge\<close>

text \<open>One iteration of the walk, whose read moves the world.\<close>

definition walk_at ::
  "('w \<Rightarrow> string \<Rightarrow> (store_error + string list) \<times> 'w) \<Rightarrow> 'w \<Rightarrow> string \<Rightarrow> string list \<Rightarrow> string list \<Rightarrow> walk \<times> 'w" where
  [go_defs]: "walk_at parents w to seen frontier =
     (case frontier of
        [] \<Rightarrow> (walk_step (\<lambda>_. Inr []) to seen frontier, w)
      | node # _ \<Rightarrow>
          if node = to then (walk_step (\<lambda>_. Inr []) to seen frontier, w)
          else case parents w node of (x, w) \<Rightarrow> (walk_step (\<lambda>_. x) to seen frontier, w))"

function walk_run ::
  "('w \<Rightarrow> string \<Rightarrow> (store_error + string list) \<times> 'w) \<Rightarrow> 'w \<Rightarrow> string \<Rightarrow> string list \<Rightarrow> string list
   \<Rightarrow> (store_error + bool) \<times> 'w" where
  "walk_run parents w to seen frontier =
     (if length seen > maxWalkNodes then (Inl GaveUp, w)
      else case walk_at parents w to seen frontier of
        (Answer r, w') \<Rightarrow> (r, w')
      | (Walking seen' frontier', w') \<Rightarrow> walk_run parents w' to seen' frontier')"
  by pat_completeness auto
termination
proof (relation "measure (\<lambda>(_, _, _, seen, frontier). 2 * (maxWalkNodes - length seen) + length frontier)",
    goal_cases)
  case 1
  show ?case by simp
next
  case (2 parents w to seen frontier x w' seen' frontier')
  then obtain node rest up where "frontier = node # rest" "visit up seen rest = Some (seen', frontier')"
    by (auto simp: walk_at_def walk_step_def split: list.splits if_splits sum.splits option.splits prod.splits)
  then show ?case using visit_size [of up seen rest seen' frontier'] 2(1) by simp
qed

declare walk_run.simps [simp del]

definition ReachableFrom ::
  "('w \<Rightarrow> string \<Rightarrow> (store_error + string list) \<times> 'w) \<Rightarrow> 'w \<Rightarrow> string \<Rightarrow> string \<Rightarrow> (store_error + bool) \<times> 'w" where
  [go_defs]: "ReachableFrom parents w from to = walk_run parents w to [from] [from]"

definition version_write :: "Scope \<Rightarrow> string \<Rightarrow> string \<Rightarrow> Write" where
  [go_defs]: "version_write sc was v =
     (bump_write sc v)\<lparr>w_cond := \<lparr>cond_item = ItemAny,
       cond_where = [\<lparr>c_attr = markerVersion, c_op = Eq, c_value = was\<rparr>]\<rparr>\<rparr>"

fun edge_loop ::
  "nat \<Rightarrow> 'w Store \<Rightarrow> ('w \<Rightarrow> string \<times> 'w) \<Rightarrow> 'w \<Rightarrow> Scope
   \<Rightarrow> ('w \<Rightarrow> string \<Rightarrow> (store_error + string list) \<times> 'w) \<Rightarrow> string \<Rightarrow> string \<Rightarrow> Write list
   \<Rightarrow> (protocol_error + bool) \<times> 'w" where
  "edge_loop 0 st fresh w sc parents child parent writes = (Inl Gave_Up, w)"
| "edge_loop (Suc left) st fresh w sc parents child parent writes =
     (case readMarker st w sc of
        (Inl e, w) \<Rightarrow> (Inl e, w)
      | (Inr was, w) \<Rightarrow>
          if \<not> mr_present was then (Inl ErrNoMarker, w)
          else if \<not> settled was then (Inl ErrScopeHeld, w)
          else (case ReachableFrom parents w parent child of
                  (Inl e, w) \<Rightarrow> (Inl (Primitive e), w)
                | (Inr True, w) \<Rightarrow> (Inl ErrCycle, w)
                | (Inr False, w) \<Rightarrow>
                    (case fresh w of (v, w) \<Rightarrow>
                       (case st_batch st w [] (version_write sc (mr_version was) v # writes) of
                          (Inl e, w) \<Rightarrow> (Inl (Primitive e), w)
                        | (Inr True, w) \<Rightarrow> (Inr True, w)
                        | (Inr False, w) \<Rightarrow>
                            (case readMarker st w sc of
                               (Inl e, w) \<Rightarrow> (Inl e, w)
                             | (Inr now, w) \<Rightarrow>
                                 if mr_version now = mr_version was \<and> settled now then (Inr False, w)
                                 else edge_loop left st fresh w sc parents child parent writes)))))"

definition AddEdge ::
  "'w Store \<Rightarrow> ('w \<Rightarrow> string \<times> 'w) \<Rightarrow> 'w \<Rightarrow> Scope
   \<Rightarrow> ('w \<Rightarrow> string \<Rightarrow> (store_error + string list) \<times> 'w) \<Rightarrow> string \<Rightarrow> string \<Rightarrow> Write list
   \<Rightarrow> (protocol_error + bool) \<times> 'w" where
  [go_defs]: "AddEdge st fresh w sc parents child parent writes =
     (if writes = [] then (Inl No_Writes, w)
      else edge_loop maxCASAttempts st fresh w sc parents child parent writes)"

section \<open>The versioned replace\<close>

record ReplaceClaim =
  cm_intent :: string
  cm_take :: bool

definition adopts :: "ReplaceClaim \<Rightarrow> marker \<Rightarrow> bool" where
  [go_defs]: "adopts c was = (cm_take c \<or> cm_intent c = mr_intent was)"

record Replacer =
  rp_token :: string
  rp_intent :: string
  rp_took :: bool
  rp_wrote :: bool

definition TookOver :: "Replacer \<Rightarrow> bool" where
  [go_defs]: "TookOver r = rp_took r"

definition holder_is :: "string \<Rightarrow> Cond" where
  [go_defs]: "holder_is token =
     \<lparr>cond_item = ItemAny, cond_where = [\<lparr>c_attr = markerHolder, c_op = Eq, c_value = token\<rparr>]\<rparr>"

definition claim_attrs :: "string \<Rightarrow> string \<Rightarrow> Replacer \<Rightarrow> attr_list" where
  [go_defs]: "claim_attrs v now r =
     [(markerVersion, v), (markerHolder, rp_token r), (markerIntent, rp_intent r), (markerSince, now)]"

definition claim_write :: "Scope \<Rightarrow> marker \<Rightarrow> attr_list \<Rightarrow> Write" where
  [go_defs]: "claim_write sc was attrs =
     (if mr_present was then
        (write0 Update (sp_entity sc) (sp_key sc))\<lparr>
          w_attrs := attrs,
          w_cond := \<lparr>cond_item = ItemAny,
                    cond_where = [\<lparr>c_attr = markerVersion, c_op = Eq, c_value = mr_version was\<rparr>]\<rparr>\<rparr>
      else
        (write0 Put (sp_entity sc) (sp_key sc))\<lparr>
          w_attrs := attrs, w_cond := \<lparr>cond_item = ItemAbsent, cond_where = []\<rparr>\<rparr>)"

definition take_claim ::
  "'w Store \<Rightarrow> ('w \<Rightarrow> string \<times> 'w) \<Rightarrow> ('w \<Rightarrow> string) \<Rightarrow> 'w \<Rightarrow> Scope \<Rightarrow> Replacer \<Rightarrow> marker
   \<Rightarrow> (protocol_error + unit) \<times> 'w" where
  [go_defs]: "take_claim st fresh now w sc r was =
     (case fresh w of (v, w) \<Rightarrow>
        (case st_batch st w [] [claim_write sc was (claim_attrs v (now w) r)] of
           (Inl e, w) \<Rightarrow> (Inl (Primitive e), w)
         | (Inr True, w) \<Rightarrow> (Inr (), w)
         | (Inr False, w) \<Rightarrow>
             (case readMarker st w sc of
                (Inl e, w) \<Rightarrow> (Inl e, w)
              | (Inr m, w) \<Rightarrow> (Inl (if mr_holder m \<noteq> [] then ErrScopeHeld else ErrScopeMoved), w))))"

definition release_write :: "Scope \<Rightarrow> Replacer \<Rightarrow> attr_list \<Rightarrow> Write" where
  [go_defs]: "release_write sc r attrs =
     (write0 Update (sp_entity sc) (sp_key sc))\<lparr>
       w_attrs := attrs, w_remove := [markerHolder, markerIntent, markerSince],
       w_cond := holder_is (rp_token r)\<rparr>"

definition release_claim :: "'w Store \<Rightarrow> 'w \<Rightarrow> Scope \<Rightarrow> Replacer \<Rightarrow> (protocol_error + unit) \<times> 'w" where
  [go_defs]: "release_claim st w sc r =
     (case st_batch st w [] [release_write sc r []] of
        (Inl e, w) \<Rightarrow> (Inl (Primitive e), w)
      | (Inr True, w) \<Rightarrow> (Inr (), w)
      | (Inr False, w) \<Rightarrow> (Inl ErrClaimLost, w))"

definition finish_claim ::
  "'w Store \<Rightarrow> ('w \<Rightarrow> string \<times> 'w) \<Rightarrow> 'w \<Rightarrow> Scope \<Rightarrow> Replacer \<Rightarrow> (protocol_error + string) \<times> 'w" where
  [go_defs]: "finish_claim st fresh w sc r =
     (case fresh w of (v, w) \<Rightarrow>
        (case st_batch st w [] [release_write sc r [(markerVersion, v)]] of
           (Inl e, w) \<Rightarrow> (Inl (Primitive e), w)
         | (Inr True, w) \<Rightarrow> (Inr v, w)
         | (Inr False, w) \<Rightarrow> (Inl ErrClaimLost, w)))"

definition fence :: "Scope \<Rightarrow> Replacer \<Rightarrow> Check" where
  [go_defs]: "fence sc r = \<lparr>k_entity = sp_entity sc, k_key = sp_key sc, k_cond = holder_is (rp_token r)\<rparr>"

text \<open>The chunks, each as large as a batch with the fence may be.\<close>

function fenced_writes ::
  "'w Store \<Rightarrow> 'w \<Rightarrow> Scope \<Rightarrow> Replacer \<Rightarrow> Write list \<Rightarrow> (protocol_error + bool) \<times> Replacer \<times> 'w" where
  "fenced_writes st w sc r writes =
     (if writes = [] then (Inr True, r, w)
      else
        let n = min (length writes) (MaxBatchActions - 1)
        in (case st_batch st w [fence sc r] (take n writes) of
              (Inl e, w) \<Rightarrow> (Inl (Primitive e), r, w)
            | (Inr True, w) \<Rightarrow> fenced_writes st w sc (r\<lparr>rp_wrote := True\<rparr>) (drop n writes)
            | (Inr False, w) \<Rightarrow>
                (case readMarker st w sc of
                   (Inl e, w) \<Rightarrow> (Inl e, r, w)
                 | (Inr m, w) \<Rightarrow> (if mr_holder m \<noteq> rp_token r then Inl ErrClaimLost else Inr False, r, w))))"
  by pat_completeness auto
termination
  by (relation "measure (\<lambda>(_, _, _, _, writes). length writes)") (auto simp: MaxBatchActions_def)

declare fenced_writes.simps [simp del]

definition Replacer_Write ::
  "'w Store \<Rightarrow> 'w \<Rightarrow> Scope \<Rightarrow> Replacer \<Rightarrow> Write list \<Rightarrow> (protocol_error + bool) \<times> Replacer \<times> 'w" where
  [go_defs]: "Replacer_Write st w sc r writes =
     (if writes = [] then (Inr True, r, w)
      else if \<not> oneActionPerItem writes then (Inl Twice_Named, r, w)
      else fenced_writes st w sc r writes)"

text \<open>The answer is the scope's version, with the error where there is one. \<open>body\<close> is the caller's
  work under the claim; it fails with its own error, which is told apart only by whether it wrote.\<close>

definition Replace ::
  "'w Store \<Rightarrow> ('w \<Rightarrow> string \<times> 'w) \<Rightarrow> ('w \<Rightarrow> string) \<Rightarrow> 'w \<Rightarrow> Scope \<Rightarrow> string \<Rightarrow> ReplaceClaim
   \<Rightarrow> ('w \<Rightarrow> Replacer \<Rightarrow> (protocol_error + unit) \<times> Replacer \<times> 'w) \<Rightarrow> string \<times> protocol_error option \<times> 'w" where
  [go_defs]: "Replace st fresh now w sc wantVersion cl body =
     (if cm_intent cl = [] then ([], Some No_Intent, w)
      else case readMarker st w sc of
        (Inl e, w) \<Rightarrow> ([], Some e, w)
      | (Inr was, w) \<Rightarrow>
          let held = mr_holder was \<noteq> []
          in if held \<and> \<not> adopts cl was then (mr_version was, Some ErrScopeHeld, w)
             else if \<not> held \<and> wantVersion \<noteq> [] \<and> wantVersion \<noteq> mr_version was
             then (mr_version was, Some ErrScopeMoved, w)
             else (case fresh w of (token, w) \<Rightarrow>
               let r = \<lparr>rp_token = token, rp_intent = cm_intent cl, rp_took = held, rp_wrote = False\<rparr>
               in (case take_claim st fresh now w sc r was of
                     (Inl e, w) \<Rightarrow> (mr_version was, Some e, w)
                   | (Inr _, w) \<Rightarrow>
                       (case body w r of
                          (Inl e, r, w) \<Rightarrow>
                            if rp_wrote r \<or> rp_took r then ([], Some Part_Written, w)
                            else (case release_claim st w sc r of
                                    (Inl e', w) \<Rightarrow> ([], Some e', w)
                                  | (Inr _, w) \<Rightarrow> ([], Some e, w))
                        | (Inr _, r, w) \<Rightarrow>
                            (case finish_claim st fresh w sc r of
                               (Inl e, w) \<Rightarrow> ([], Some e, w)
                             | (Inr v, w) \<Rightarrow> (v, None, w))))))"

end
