(* ===== verification/Store_Scopes.thy ===== *)
theory Store_Scopes
  imports Store_Protocol Acl_Store
begin

text \<open>
  store/scopes.go and store/writeset.go: which entities carry a version marker, the markers a
  batch owes, the two doors every writer of the store package uses, and the write set a handler fills and
  sends with its audit record. The record is an argument: audit.WriteFor renders it.
\<close>

section \<open>Scopes\<close>

definition OwnerOnbod :: string where [go_defs]: "OwnerOnbod = ''onbod''"
definition ScopeEntity :: string where [go_defs]: "ScopeEntity = ''resreg_scopes''"
definition scopePartition :: string where [go_defs]: "scopePartition = ''resreg''"

definition OwnerScope :: "string \<Rightarrow> Scope" where
  [go_defs]: "OwnerScope owner = \<lparr>sp_entity = ScopeEntity, sp_key = \<lparr>Partition = scopePartition, Sort = owner\<rparr>\<rparr>"

definition onbod_entities :: "string list" where
  [go_defs]: "onbod_entities = [''onboarding'', ''onboarding_gates'', ''invites'']"

definition routd_entities :: "string list" where
  [go_defs]: "routd_entities =
     [''acl'', ''acl_membership'', ''groups'', ''routes'', ''route_tokens'', ''scheduled_tasks'', ''secrets'',
      ''pending_actions'', ''network_rules'', ''proxyd_routes'', ''web_routes'', ''installed_packages'',
      ''github_sources'', ''gdrive_files'']"

definition scopedEntities :: "string \<Rightarrow> string option" where
  [go_defs]: "scopedEntities ent =
     (if ent \<in> set onbod_entities then Some OwnerOnbod
      else if ent \<in> set routd_entities then Some OwnerRoutd
      else None)"

definition EntityScope :: "string \<Rightarrow> Scope option" where
  [go_defs]: "EntityScope ent = map_option OwnerScope (scopedEntities ent)"

text \<open>The owners a batch touches, once each, in order.\<close>

definition owners_of :: "Write list \<Rightarrow> string list" where
  [go_defs]: "owners_of writes = sort (remdups (List.map_filter (\<lambda>x. scopedEntities (w_entity x)) writes))"

fun bumps_for :: "('w \<Rightarrow> string \<times> 'w) \<Rightarrow> 'w \<Rightarrow> string list \<Rightarrow> Write list \<times> 'w" where
  "bumps_for fresh w [] = ([], w)"
| "bumps_for fresh w (owner # owners) =
     (case Bump fresh w (OwnerScope owner) of (b, w) \<Rightarrow>
        (case bumps_for fresh w owners of (bs, w) \<Rightarrow> (b # bs, w)))"

definition scopeBumps :: "('w \<Rightarrow> string \<times> 'w) \<Rightarrow> 'w \<Rightarrow> Write list \<Rightarrow> Write list \<times> 'w" where
  [go_defs]: "scopeBumps fresh w writes = bumps_for fresh w (owners_of writes)"

definition withBumps :: "('w \<Rightarrow> string \<times> 'w) \<Rightarrow> 'w \<Rightarrow> Write list \<Rightarrow> Write list \<times> 'w" where
  [go_defs]: "withBumps fresh w writes = (case scopeBumps fresh w writes of (bs, w) \<Rightarrow> (writes @ bs, w))"

section \<open>The doors\<close>

datatype write_error =
    Door store_error
  | ErrRefused
  | Refused string
  | No_Meaning
  | Second_Guard
  | Counted protocol_error
  | Bad_Input string

definition TryWriteEntities ::
  "'w Store \<Rightarrow> ('w \<Rightarrow> string \<times> 'w) \<Rightarrow> 'w \<Rightarrow> Check list \<Rightarrow> Write list \<Rightarrow> (store_error + bool) \<times> 'w" where
  [go_defs]: "TryWriteEntities st fresh w checks writes =
     (case withBumps fresh w writes of (ws, w) \<Rightarrow> st_batch st w checks ws)"

definition refusal :: "(store_error + bool) \<Rightarrow> write_error + unit" where
  [go_defs]: "refusal r =
     (case r of Inl e \<Rightarrow> Inl (Door e) | Inr committed \<Rightarrow> if committed then Inr () else Inl ErrRefused)"

definition WriteEntities ::
  "'w Store \<Rightarrow> ('w \<Rightarrow> string \<times> 'w) \<Rightarrow> 'w \<Rightarrow> Check list \<Rightarrow> Write list \<Rightarrow> (write_error + unit) \<times> 'w" where
  [go_defs]: "WriteEntities st fresh w checks writes =
     (case TryWriteEntities st fresh w checks writes of (r, w) \<Rightarrow> (refusal r, w))"

definition incrementEntity ::
  "'w Store \<Rightarrow> widths \<Rightarrow> ('w \<Rightarrow> string \<times> 'w) \<Rightarrow> 'w \<Rightarrow> string \<Rightarrow> Key \<Rightarrow> string \<Rightarrow> int \<Rightarrow> Cmp list \<Rightarrow> Write list
   \<Rightarrow> (protocol_error + int \<times> bool) \<times> 'w" where
  [go_defs]: "incrementEntity st ws fresh w ent k a delta cond also =
     (case scopeBumps fresh w (write0 Put ent k # also) of (bs, w) \<Rightarrow>
        Increment st ws w ent k a delta cond (also @ bs))"

definition putIfAbsent ::
  "'w Store \<Rightarrow> ('w \<Rightarrow> string \<times> 'w) \<Rightarrow> 'w \<Rightarrow> Write \<Rightarrow> (store_error + unit) \<times> 'w" where
  [go_defs]: "putIfAbsent st fresh w x =
     (let x = (if w_op x \<noteq> Merge then x\<lparr>w_cond := \<lparr>cond_item = ItemAbsent, cond_where = []\<rparr>\<rparr> else x)
      in case withBumps fresh w [x] of (ws, w) \<Rightarrow>
        (case st_batch st w [] ws of (Inl e, w) \<Rightarrow> (Inl e, w) | (Inr _, w) \<Rightarrow> (Inr (), w)))"

section \<open>Audited writes\<close>

text \<open>\<open>build\<close>'s writes and the record of its event.\<close>

definition writeAudited ::
  "'w Store \<Rightarrow> ('w \<Rightarrow> string \<times> 'w) \<Rightarrow> 'w \<Rightarrow> write_error + Write list \<Rightarrow> Write \<Rightarrow> (write_error + unit) \<times> 'w" where
  [go_defs]: "writeAudited st fresh w built rec =
     (case built of
        Inl e \<Rightarrow> (Inl e, w)
      | Inr writes \<Rightarrow> if writes = [] then (Inr (), w) else WriteEntities st fresh w [] (writes @ [rec]))"

definition tryWriteAudited ::
  "'w Store \<Rightarrow> ('w \<Rightarrow> string \<times> 'w) \<Rightarrow> 'w \<Rightarrow> write_error + Write list \<Rightarrow> Write \<Rightarrow> (write_error + bool) \<times> 'w" where
  [go_defs]: "tryWriteAudited st fresh w built rec =
     (case built of
        Inl e \<Rightarrow> (Inl e, w)
      | Inr writes \<Rightarrow>
          if writes = [] then (Inr False, w)
          else (case TryWriteEntities st fresh w [] (writes @ [rec]) of
                  (Inl e, w) \<Rightarrow> (Inl (Door e), w)
                | (Inr b, w) \<Rightarrow> (Inr b, w)))"

section \<open>The write set\<close>

record WriteSet =
  ws_writes :: "Write list"
  ws_refused :: "write_error option"

definition empty_set :: WriteSet where [go_defs]: "empty_set = \<lparr>ws_writes = [], ws_refused = None\<rparr>"

definition Add :: "WriteSet \<Rightarrow> Write list \<Rightarrow> WriteSet" where
  [go_defs]: "Add s writes = s\<lparr>ws_writes := ws_writes s @ writes\<rparr>"

definition AddGuarded :: "WriteSet \<Rightarrow> write_error option \<Rightarrow> Write \<Rightarrow> write_error + WriteSet" where
  [go_defs]: "AddGuarded s meaning x =
     (if meaning = None then Inl No_Meaning
      else if ws_refused s \<noteq> None then Inl Second_Guard
      else Inr (s\<lparr>ws_refused := meaning, ws_writes := ws_writes s @ [x]\<rparr>))"

definition Len :: "WriteSet \<Rightarrow> int" where
  [go_defs]: "Len s = int (length (ws_writes s))"

definition Apply ::
  "'w Store \<Rightarrow> ('w \<Rightarrow> string \<times> 'w) \<Rightarrow> 'w \<Rightarrow> WriteSet \<Rightarrow> Write list \<Rightarrow> (write_error + unit) \<times> 'w" where
  [go_defs]: "Apply st fresh w s also =
     (if ws_writes s @ also = [] then (Inr (), w)
      else case TryWriteEntities st fresh w [] (ws_writes s @ also) of
        (Inl e, w) \<Rightarrow> (Inl (Door e), w)
      | (Inr True, w) \<Rightarrow> (Inr (), w)
      | (Inr False, w) \<Rightarrow> (case ws_refused s of Some e \<Rightarrow> (Inl e, w) | None \<Rightarrow> (Inl ErrRefused, w)))"

end
