(* ===== verification/Membership_Race.thy ===== *)
theory Membership_Race
  imports Store_Scopes Membership
begin

text \<open>
  store/membership.go's writers, and what they promise when they run at the same time. AddEdge walks the
  graph request by request, and its marker's compare-and-swap makes the walk and the write one
  decision: the graph stays without a cycle under every interleaving of such writers. One writer,
  PutMembershipInto, walks without the compare-and-swap, and two of it can close a ring.
\<close>

section \<open>The writers\<close>

definition ParentsAt :: "'w Store \<Rightarrow> 'w \<Rightarrow> string \<Rightarrow> (store_error + string list) \<times> 'w" where
  [go_defs]: "ParentsAt st w node =
     (case st_query st w (prefix_query ACLMembership OwnerRoutd (node @ [KeySep])) of
        (Inl e, w) \<Rightarrow> (Inl e, w)
      | (Inr its, w) \<Rightarrow> (and_then (edges_list its) (\<lambda>es. Inr (map snd es)), w))"

datatype membership_error =
    ErrSelfMembership
  | Ring
  | Bad_Edge store_error
  | Edge_Failed protocol_error
  | Write_Failed write_error

definition edge_result :: "protocol_error + bool \<Rightarrow> membership_error + bool" where
  [go_defs]: "edge_result r =
     (case r of Inl e \<Rightarrow> Inl (if e = ErrCycle then Ring else Edge_Failed e) | Inr b \<Rightarrow> Inr b)"

text \<open>An \<open>addedBy\<close> that is empty means that the caller rendered the edge itself.\<close>

definition AddEdgeWith ::
  "'w Store \<Rightarrow> ('w \<Rightarrow> string \<times> 'w) \<Rightarrow> string \<Rightarrow> 'w \<Rightarrow> string \<Rightarrow> string \<Rightarrow> string \<Rightarrow> Write list
   \<Rightarrow> (membership_error + bool) \<times> 'w" where
  [go_defs]: "AddEdgeWith st fresh now w child parent addedBy writes =
     (if child = parent then (Inl ErrSelfMembership, w)
      else case (if addedBy = [] then Inr writes
                 else (case membershipPut now child parent addedBy of
                         Inl e \<Rightarrow> Inl e | Inr edge \<Rightarrow> Inr (edge # writes))) of
        Inl e \<Rightarrow> (Inl (Bad_Edge e), w)
      | Inr writes \<Rightarrow>
          (case AddEdge st fresh w (OwnerScope OwnerRoutd) (ParentsAt st) child parent writes of
             (r, w) \<Rightarrow> (edge_result r, w)))"

definition addEdge ::
  "'w Store \<Rightarrow> ('w \<Rightarrow> string \<times> 'w) \<Rightarrow> string \<Rightarrow> 'w \<Rightarrow> string \<Rightarrow> string \<Rightarrow> Write list
   \<Rightarrow> (membership_error + unit) \<times> 'w" where
  [go_defs]: "addEdge st fresh now w child parent writes =
     (case AddEdgeWith st fresh now w child parent [] writes of
        (Inl e, w) \<Rightarrow> (Inl e, w)
      | (Inr _, w) \<Rightarrow> (Inr (), w))"

definition AddMembership ::
  "'w Store \<Rightarrow> ('w \<Rightarrow> string \<times> 'w) \<Rightarrow> string \<Rightarrow> 'w \<Rightarrow> string \<Rightarrow> string \<Rightarrow> string \<Rightarrow> Write
   \<Rightarrow> (membership_error + unit) \<times> 'w" where
  [go_defs]: "AddMembership st fresh now w child parent addedBy rec =
     (if child = parent then (Inl ErrSelfMembership, w)
      else case membershipPut now child parent addedBy of
        Inl e \<Rightarrow> (Inl (Bad_Edge e), w)
      | Inr edge \<Rightarrow> addEdge st fresh now w child parent [edge, rec])"

definition PutMembership ::
  "'w Store \<Rightarrow> ('w \<Rightarrow> string \<times> 'w) \<Rightarrow> string \<Rightarrow> 'w \<Rightarrow> string \<Rightarrow> string \<Rightarrow> string
   \<Rightarrow> (membership_error + unit) \<times> 'w" where
  [go_defs]: "PutMembership st fresh now w child parent addedBy =
     (if child = parent then (Inl ErrSelfMembership, w)
      else case membershipPut now child parent addedBy of
        Inl e \<Rightarrow> (Inl (Bad_Edge e), w)
      | Inr edge \<Rightarrow> addEdge st fresh now w child parent [edge])"

definition RoleMember :: string where [go_defs]: "RoleMember = ''role:member''"

definition SeedMemberRole ::
  "'w Store \<Rightarrow> ('w \<Rightarrow> string \<times> 'w) \<Rightarrow> string \<Rightarrow> 'w \<Rightarrow> string \<Rightarrow> Write list \<Rightarrow> (membership_error + bool) \<times> 'w" where
  [go_defs]: "SeedMemberRole st fresh now w folder also =
     AddEdgeWith st fresh now w (''folder:'' @ folder) RoleMember ''system:4r-member'' also"

definition RemoveMembership ::
  "'w Store \<Rightarrow> ('w \<Rightarrow> string \<times> 'w) \<Rightarrow> 'w \<Rightarrow> string \<Rightarrow> string \<Rightarrow> Write \<Rightarrow> (membership_error + unit) \<times> 'w" where
  [go_defs]: "RemoveMembership st fresh w child parent rec =
     (case membershipKey child parent of
        Inl e \<Rightarrow> (Inl (Bad_Edge e), w)
      | Inr key \<Rightarrow>
          (case writeAudited st fresh w (Inr [write0 Delete ACLMembership key]) rec of
             (Inl e, w) \<Rightarrow> (Inl (Write_Failed e), w)
           | (Inr _, w) \<Rightarrow> (Inr (), w)))"

definition PutMembershipInto ::
  "'w Store \<Rightarrow> string \<Rightarrow> 'w \<Rightarrow> WriteSet \<Rightarrow> string \<Rightarrow> string \<Rightarrow> string \<Rightarrow> (membership_error + WriteSet) \<times> 'w" where
  [go_defs]: "PutMembershipInto st now w s child parent addedBy =
     (if child = parent then (Inl ErrSelfMembership, w)
      else case ReachableFrom (ParentsAt st) w parent child of
        (Inl e, w) \<Rightarrow> (Inl (Bad_Edge e), w)
      | (Inr True, w) \<Rightarrow> (Inl Ring, w)
      | (Inr False, w) \<Rightarrow>
          (case membershipPut now child parent addedBy of
             Inl e \<Rightarrow> (Inl (Bad_Edge e), w)
           | Inr x \<Rightarrow> (Inr (Add s [x]), w)))"

definition RemoveMembershipInto ::
  "WriteSet \<Rightarrow> string \<Rightarrow> string \<Rightarrow> write_error option \<Rightarrow> (store_error + write_error) + WriteSet" where
  [go_defs]: "RemoveMembershipInto s child parent meaning =
     (case membershipKey child parent of
        Inl e \<Rightarrow> Inl (Inl e)
      | Inr key \<Rightarrow>
          (case AddGuarded s meaning ((write0 Delete ACLMembership key)\<lparr>
                  w_cond := \<lparr>cond_item = ItemPresent, cond_where = []\<rparr>\<rparr>) of
             Inl e \<Rightarrow> Inl (Inr e)
           | Inr s \<Rightarrow> Inr s))"

section \<open>The graph a store holds\<close>

definition edge_at :: "string \<Rightarrow> string \<Rightarrow> coord" where
  [go_defs]: "edge_at c p = (ACLMembership, OwnerRoutd, c @ KeySep # p)"

definition graph_of :: "item_map \<Rightarrow> (string \<times> string) set" where
  "graph_of db = {(c, p). KeySep \<notin> set c \<and> db (edge_at c p) \<noteq> None}"

definition marker_at :: coord where
  [go_defs]: "marker_at = coord_of (sp_entity (OwnerScope OwnerRoutd)) (sp_key (OwnerScope OwnerRoutd))"

text \<open>What a read of one node's parents answers.\<close>

lemma edges_list_snd:
  "edges_list its = Inr es \<Longrightarrow> (n, p) \<in> set es \<longleftrightarrow> (\<exists>it \<in> set its. Sort (i_key it) = n @ KeySep # p \<and> KeySep \<notin> set n)"
proof (induction its arbitrary: es)
  case (Cons it its)
  then obtain e where e: "membershipEdgeOf it = Inr e" by (cases "membershipEdgeOf it") auto
  then obtain rest where r: "edges_list its = Inr rest" "es = e # rest"
    using Cons.prems by (cases "edges_list its") (auto simp: and_then_def)
  have "e = (n, p) \<longleftrightarrow> Sort (i_key it) = n @ KeySep # p \<and> KeySep \<notin> set n"
    using e edge_of_iff [of it n p] by auto
  then show ?case using Cons.IH [OF r(1)] r(2) by auto
qed simp

context object_store
begin

lemma parents_looks: "ParentsAt st w node = (r, w') \<Longrightarrow> view w' = view w"
  by (auto simp: ParentsAt_def split: prod.splits sum.splits dest: looks)

lemma parents_read:
  assumes p: "plain_items (view w)" and n: "KeySep \<notin> set node" and r: "ParentsAt st w node = (Inr up, w')"
  shows "set up = {q. (node, q) \<in> graph_of (view w)}"
proof -
  let ?q = "prefix_query ACLMembership OwnerRoutd (node @ [KeySep])"
  obtain its es where q: "st_query st w ?q = (Inr its, w')" and e: "edges_list its = Inr es" "up = map snd es"
    using r by (auto simp: ParentsAt_def and_then_def split: prod.splits sum.splits)
  have "plain_query ?q" by (simp add: plain_query_def prefix_query_def query0_def)
  from answers [OF p this q] obtain rows where l: "lists (view w) ACLMembership rows" and s: "its = selected ?q rows"
    by (auto simp: prefix_query_def query0_def)
  have sel: "set its = {it \<in> set rows. Partition (i_key it) = OwnerRoutd \<and> has_prefix (Sort (i_key it)) (node @ [KeySep])}"
    unfolding s by (auto simp: selected_def limited_def ordered_def projected_def picks_def prefix_query_def query0_def
        key_match_def Let_def)
  have item: "(\<exists>it \<in> set rows. i_key it = k) \<longleftrightarrow> view w (coord_of ACLMembership k) \<noteq> None" for k
    using l unfolding lists_def by (metis option.exhaust option.distinct(1))
  have "x \<in> snd ` set es \<longleftrightarrow> (node, x) \<in> graph_of (view w)" for x
  proof
    assume "x \<in> snd ` set es"
    then obtain c where "(c, x) \<in> set es" by auto
    then obtain it where it: "it \<in> set its" "Sort (i_key it) = c @ KeySep # x" "KeySep \<notin> set c"
      using edges_list_snd [OF e(1)] by blast
    then have pre: "prefix (node @ [KeySep]) (c @ KeySep # x)" "Partition (i_key it) = OwnerRoutd" "it \<in> set rows"
      using sel by auto
    obtain zs where "c @ KeySep # x = node @ KeySep # zs" using pre(1) by (auto simp: prefix_def)
    then have "c = node" using head_upto [OF n, of zs] head_upto [OF it(3), of x] by simp
    then have "coord_of ACLMembership (i_key it) = edge_at node x"
      using it(2) pre(2) by (simp add: coord_of_def edge_at_def)
    moreover have "view w (coord_of ACLMembership (i_key it)) \<noteq> None" using item [of "i_key it"] pre(3) by blast
    ultimately show "(node, x) \<in> graph_of (view w)" using n by (simp add: graph_of_def)
  next
    assume "(node, x) \<in> graph_of (view w)"
    then have "view w (coord_of ACLMembership \<lparr>Partition = OwnerRoutd, Sort = node @ KeySep # x\<rparr>) \<noteq> None"
      by (simp add: graph_of_def edge_at_def coord_of_def)
    then obtain it where it: "it \<in> set rows" "i_key it = \<lparr>Partition = OwnerRoutd, Sort = node @ KeySep # x\<rparr>"
      using item by blast
    then have "it \<in> set its" using sel by (simp add: prefix_def)
    moreover have "Sort (i_key it) = node @ KeySep # x" using it(2) by simp
    ultimately have "(node, x) \<in> set es" using edges_list_snd [OF e(1)] n by blast
    then show "x \<in> snd ` set es" by force
  qed
  then show ?thesis using e(2) by auto
qed

end

section \<open>Concurrent edges\<close>

text \<open>Where one call of \<open>AddEdge\<close> is: walking under the version it read, or about to write.\<close>

datatype adder =
    Quiet
  | Walk string string string "string list" "string list"
  | Ready string string string

record 'w race =
  rc_world :: 'w
  rc_phase :: "nat \<Rightarrow> adder"
  rc_used :: "string set"

definition moves :: "'w race \<Rightarrow> nat \<Rightarrow> adder \<Rightarrow> 'w \<Rightarrow> 'w race" where
  [go_defs]: "moves R i p w = R\<lparr>rc_phase := (rc_phase R)(i := p), rc_world := w\<rparr>"

definition walked :: "string \<Rightarrow> string \<Rightarrow> string \<Rightarrow> walk \<Rightarrow> adder" where
  [go_defs]: "walked v c p x =
     (case x of
        Answer (Inr False) \<Rightarrow> Ready v c p
      | Answer _ \<Rightarrow> Quiet
      | Walking seen frontier \<Rightarrow> Walk v c p seen frontier)"

abbreviation routd_scope :: Scope where "routd_scope \<equiv> OwnerScope OwnerRoutd"

text \<open>What rides along with an edge, and what other writers of the scope write: no new edge, and the
  marker only by a bump.\<close>

definition rides :: "Write list \<Rightarrow> bool" where
  "rides ws \<longleftrightarrow> list_all plain_write ws \<and>
     (\<forall>x \<in> set ws. w_entity x \<noteq> ACLMembership \<and> place_of x \<noteq> marker_at)"

inductive edge_step :: "'w Store \<Rightarrow> 'w race \<Rightarrow> 'w race \<Rightarrow> bool" for st where
  begin_add: "c \<noteq> p \<Longrightarrow> membershipPut now c p by = Inr edge \<Longrightarrow>
    readMarker st (rc_world R) routd_scope = (Inr m, w) \<Longrightarrow> settled m \<Longrightarrow>
    edge_step st R (moves R i (Walk (mr_version m) c p [p] [p]) w)"
| walk_add: "rc_phase R i = Walk v c p seen frontier \<Longrightarrow>
    walk_at (ParentsAt st) (rc_world R) c seen frontier = (x, w) \<Longrightarrow>
    edge_step st R (moves R i (walked v c p x) w)"
| write_add: "rc_phase R i = Ready v c p \<Longrightarrow> membershipPut now c p by = Inr edge \<Longrightarrow> rides rest \<Longrightarrow>
    n \<notin> rc_used R \<Longrightarrow>
    st_batch st (rc_world R) [] (version_write routd_scope v n # edge # rest) = (r, w) \<Longrightarrow>
    edge_step st R ((moves R i Quiet w)\<lparr>rc_used := insert n (rc_used R)\<rparr>)"
| remove_edge: "membershipKey c p = Inr key \<Longrightarrow> rides rest \<Longrightarrow> n \<notin> rc_used R \<Longrightarrow>
    x = write0 Delete ACLMembership key \<or>
    x = (write0 Delete ACLMembership key)\<lparr>w_cond := \<lparr>cond_item = ItemPresent, cond_where = []\<rparr>\<rparr> \<Longrightarrow>
    st_batch st (rc_world R) [] (x # rest @ [bump_write routd_scope n]) = (r, w) \<Longrightarrow>
    edge_step st R (R\<lparr>rc_world := w, rc_used := insert n (rc_used R)\<rparr>)"
| bumped: "rides ws \<Longrightarrow> n \<notin> rc_used R \<Longrightarrow>
    st_batch st (rc_world R) [] (ws @ [bump_write routd_scope n]) = (r, w) \<Longrightarrow>
    edge_step st R (R\<lparr>rc_world := w, rc_used := insert n (rc_used R)\<rparr>)"
| unscoped: "rides ws \<Longrightarrow> st_batch st (rc_world R) [] ws = (r, w) \<Longrightarrow> edge_step st R (R\<lparr>rc_world := w\<rparr>)"
| give_up: "edge_step st R (moves R i Quiet (rc_world R))"

text \<open>The version the marker carries.\<close>

definition version_of :: "item_map \<Rightarrow> string option" where
  [go_defs]: "version_of db = map_option (sent markerVersion) (db marker_at)"

text \<open>A walk over a graph that has not moved: what was visited and left has its parents visited and is
  not the child.\<close>

definition closed_walk :: "(string \<times> string) set \<Rightarrow> string \<Rightarrow> string \<Rightarrow> string list \<Rightarrow> string list \<Rightarrow> bool" where
  "closed_walk E c p seen frontier \<longleftrightarrow> p \<in> set seen \<and> set frontier \<subseteq> set seen \<and>
     (\<forall>n \<in> set seen - set frontier. n \<noteq> c \<and> E `` {n} \<subseteq> set seen)"

lemma closed_unreachable:
  assumes "closed_walk E c p seen []"
  shows "(p, c) \<notin> E\<^sup>*"
proof
  assume "(p, c) \<in> E\<^sup>*"
  moreover have "x \<in> set seen" if "(p, x) \<in> E\<^sup>*" for x
    using that assms by (induction rule: rtrancl_induct) (auto simp: closed_walk_def)
  ultimately show False using assms by (auto simp: closed_walk_def)
qed

lemma visit_all:
  "visit up seen frontier = Some (seen', frontier') \<Longrightarrow>
   set seen' = set seen \<union> set up \<and> set frontier' = set frontier \<union> (set up - set seen)"
  by (induction up seen frontier rule: visit.induct) (auto split: if_splits)

lemma closed_step:
  assumes "closed_walk E c p seen (node # rest)" "node \<noteq> c" "set up = E `` {node}" "visit up seen rest = Some (s, f)"
  shows "closed_walk E c p s f"
  using assms(1-3) visit_all [OF assms(4)] unfolding closed_walk_def by auto

definition clean_edges :: "item_map \<Rightarrow> bool" where
  "clean_edges db \<longleftrightarrow> (\<forall>c p. KeySep \<notin> set c \<longrightarrow> db (edge_at c p) \<noteq> None \<longrightarrow> KeySep \<notin> set p)"

definition phase_ok :: "item_map \<Rightarrow> string set \<Rightarrow> adder \<Rightarrow> bool" where
  "phase_ok db used x =
     (case x of
        Quiet \<Rightarrow> True
      | Walk v c p seen frontier \<Rightarrow>
          v \<in> used \<and> c \<noteq> p \<and> (\<forall>n \<in> set seen. KeySep \<notin> set n) \<and> set frontier \<subseteq> set seen \<and>
          (version_of db = Some v \<longrightarrow> closed_walk (graph_of db) c p seen frontier)
      | Ready v c p \<Rightarrow>
          v \<in> used \<and> c \<noteq> p \<and> (version_of db = Some v \<longrightarrow> (p, c) \<notin> (graph_of db)\<^sup>*))"

definition race_inv :: "('w \<Rightarrow> item_map) \<Rightarrow> 'w race \<Rightarrow> bool" where
  "race_inv view R \<longleftrightarrow> plain_items (view (rc_world R)) \<and> clean_edges (view (rc_world R)) \<and>
     acyclic (graph_of (view (rc_world R))) \<and>
     (\<forall>v. version_of (view (rc_world R)) = Some v \<longrightarrow> v \<in> rc_used R) \<and>
     (\<forall>i. phase_ok (view (rc_world R)) (rc_used R) (rc_phase R i))"

lemma phase_fresh:
  "phase_ok db used x \<Longrightarrow> n \<notin> used \<Longrightarrow> version_of db' = Some n \<Longrightarrow> phase_ok db' (insert n used) x"
  by (cases x) (auto simp: phase_ok_def)

lemma phase_same:
  "phase_ok db used x \<Longrightarrow> graph_of db' = graph_of db \<Longrightarrow> version_of db' = version_of db \<Longrightarrow> used \<subseteq> used' \<Longrightarrow>
   phase_ok db' used' x"
  by (cases x) (auto simp: phase_ok_def)

lemma edge_at_inj:
  "KeySep \<notin> set c \<Longrightarrow> KeySep \<notin> set c' \<Longrightarrow> edge_at c p = edge_at c' p' \<longleftrightarrow> c = c' \<and> p = p'"
proof
  assume h: "KeySep \<notin> set c" "KeySep \<notin> set c'" and e: "edge_at c p = edge_at c' p'"
  then have s: "c @ KeySep # p = c' @ KeySep # p'" by (simp add: edge_at_def)
  then have "c = c'" using head_upto [OF h(1), of p] head_upto [OF h(2), of p'] by simp
  then show "c = c' \<and> p = p'" using s by simp
qed simp

lemma marker_not_edge [simp]: "edge_at c p \<noteq> marker_at" "marker_at \<noteq> edge_at c p"
  by (auto simp: edge_at_def marker_at_def coord_of_def OwnerScope_def ACLMembership_def ScopeEntity_def)

lemma edge_put:
  assumes "membershipPut now c p by = Inr edge"
  shows "place_of edge = edge_at c p \<and> w_op edge = Merge \<and> plain_write edge \<and> KeySep \<notin> set c \<and> KeySep \<notin> set p"
  using assms
  by (auto simp: membershipPut_def membershipKey_def place_of_def coord_of_def edge_at_def write0_def plain_write_def
      plain_attr_def plain_cond_def no_cond_def attrMemAddedBy_def attrMemAddedAt_def partAttr_def sortAttr_def
      openAttr_def split: if_splits)

lemma marker_writes [simp]:
  "place_of (bump_write routd_scope n) = marker_at" "place_of (version_write routd_scope v n) = marker_at"
  "plain_write (bump_write routd_scope n)" "plain_write (version_write routd_scope v n)"
  by (simp_all add: place_of_def marker_at_def bump_write_def version_write_def write0_def plain_write_def plain_attr_def
      plain_cond_def no_cond_def markerVersion_def partAttr_def sortAttr_def openAttr_def)

lemma rides_places:
  assumes "rides ws" "x \<in> set ws"
  shows "place_of x \<noteq> marker_at" "place_of x \<noteq> edge_at a b"
  using assms by (auto simp: rides_def place_of_def coord_of_def edge_at_def)

lemma marker_moves:
  "version_of (db(marker_at := written (bump_write routd_scope n) m)) = Some n"
  "version_of (db(marker_at := written (version_write routd_scope v n) m)) = Some n"
  by (simp_all add: version_of_def written_def bump_write_def version_write_def write0_def merged_def sent_def)

text \<open>The markers and the edges a batch leaves.\<close>

lemma rode:
  assumes "rides ws"
  shows "batch_effect db ws marker_at = db marker_at" "batch_effect db ws (edge_at a b) = db (edge_at a b)"
  using rides_places [OF assms] by (auto intro!: untouched)

lemma graph_same: "(\<And>a b. db' (edge_at a b) = db (edge_at a b)) \<Longrightarrow> graph_of db' = graph_of db \<and> clean_edges db' = clean_edges db"
  by (simp add: graph_of_def clean_edges_def)

lemma version_same: "db' marker_at = db marker_at \<Longrightarrow> version_of db' = version_of db"
  by (simp add: version_of_def)

lemma version_at: "db marker_at = Some m \<Longrightarrow> version_of db = Some (sent markerVersion m)"
  by (simp add: version_of_def)

lemma version_writtenD:
  assumes "write_ok (version_write routd_scope v n) (db marker_at)"
  shows "version_of db = Some v"
  using assms by (cases "db marker_at")
    (auto simp: write_ok_def cond_ok_def version_write_def bump_write_def write0_def cmp_match_def attrs_of_def
      cmp_eval_def version_of_def sent_def split: option.splits)

text \<open>A batch that moves the marker to a version nobody has seen.\<close>

lemma inv_moved:
  assumes v: "race_inv view R" and n: "n \<notin> rc_used R" and p: "plain_items (view w)"
    and m: "version_of (view w) = Some n" and g: "acyclic (graph_of (view w))" "clean_edges (view w)"
    and ph: "\<And>i. rc_phase T i = rc_phase R i \<or> rc_phase T i = Quiet" and s: "rc_world T = w" "rc_used T = insert n (rc_used R)"
  shows "race_inv view T"
proof -
  have "phase_ok (view w) (insert n (rc_used R)) (rc_phase T i)" for i
    using ph [of i]
  proof
    assume "rc_phase T i = rc_phase R i"
    moreover have "phase_ok (view (rc_world R)) (rc_used R) (rc_phase R i)" using v by (simp add: race_inv_def)
    ultimately show ?thesis using phase_fresh [OF _ n m] by simp
  qed (simp add: phase_ok_def)
  then show ?thesis using p m g s by (simp add: race_inv_def)
qed

text \<open>A step that leaves the graph and the marker.\<close>

lemma inv_still:
  assumes v: "race_inv view R" and p: "plain_items (view w)"
    and e: "\<And>a b. view w (edge_at a b) = view (rc_world R) (edge_at a b)" "view w marker_at = view (rc_world R) marker_at"
    and ph: "\<And>i. rc_phase T i = rc_phase R i \<or> phase_ok (view w) (rc_used T) (rc_phase T i)"
    and s: "rc_world T = w" "rc_used R \<subseteq> rc_used T"
  shows "race_inv view T"
proof -
  have g: "graph_of (view w) = graph_of (view (rc_world R))" "clean_edges (view w) = clean_edges (view (rc_world R))"
    using graph_same [of "view w" "view (rc_world R)"] e(1) by blast+
  note ve = version_same [where db' = "view w" and db = "view (rc_world R)", OF e(2)]
  have "phase_ok (view w) (rc_used T) (rc_phase T i)" for i
    using ph [of i]
  proof
    assume "rc_phase T i = rc_phase R i"
    moreover have "phase_ok (view (rc_world R)) (rc_used R) (rc_phase R i)" using v by (simp add: race_inv_def)
    ultimately show ?thesis using phase_same [OF _ g(1) ve s(2)] by simp
  qed
  then show ?thesis using v p g ve s by (auto simp: race_inv_def)
qed

context object_store
begin

lemma marker_read:
  assumes p: "plain_items (view w)" and r: "readMarker st w routd_scope = (Inr m, w')"
  shows "view w' = view w \<and> (settled m \<longrightarrow> version_of (view w) = Some (mr_version m))"
proof -
  have sc: "scope_valid routd_scope"
    by (simp add: scope_valid_def OwnerScope_def ScopeEntity_def scopePartition_def OwnerRoutd_def)
  let ?ps = "[markerVersion, markerHolder, markerIntent, markerSince]"
  obtain x where x: "point st w (sp_entity routd_scope) (sp_key routd_scope) ?ps = (Inr x, w')"
    and m: "m = (case x of None \<Rightarrow> no_marker | Some it \<Rightarrow> marker_of (i_attrs it))"
    using r sc by (auto simp: readMarker_def split: prod.splits sum.splits option.splits)
  have n: "partAttr \<notin> set ?ps" "sortAttr \<notin> set ?ps"
    by (simp_all add: partAttr_def sortAttr_def markerVersion_def markerHolder_def markerIntent_def markerSince_def)
  have y: "x = map_option (\<lambda>a. projected ?ps \<lparr>i_key = sp_key routd_scope, i_attrs = a\<rparr>) (view w marker_at)"
    using point_reads [OF p n x] by (simp add: marker_at_def)
  have "settled m \<longrightarrow> version_of (view w) = Some (mr_version m)"
    using m y by (cases "view w marker_at")
      (auto simp: settled_def no_marker_def version_of_def marker_of_def projected_def sent_def)
  then show ?thesis using point_looks [OF x] by simp
qed

lemma walk_look:
  assumes "walk_at (ParentsAt st) w c seen frontier = (x, w')"
  shows "view w' = view w"
  using assms parents_looks by (auto simp: walk_at_def split: list.splits if_splits prod.splits)

text \<open>A step of a walk over the graph as it is keeps the walk closed, and its answer is right.\<close>

lemma walk_keeps:
  assumes p: "plain_items (view w)" and cl: "clean_edges (view w)" and k: "\<forall>n \<in> set seen. KeySep \<notin> set n"
    and sub: "set frontier \<subseteq> set seen"
    and x: "walk_at (ParentsAt st) w c seen frontier = (x, w')"
  shows "(\<forall>s f. x = Walking s f \<longrightarrow> (\<forall>n \<in> set s. KeySep \<notin> set n) \<and> set f \<subseteq> set s \<and>
      (closed_walk (graph_of (view w)) c a seen frontier \<longrightarrow> closed_walk (graph_of (view w)) c a s f)) \<and>
    (x = Answer (Inr False) \<longrightarrow> closed_walk (graph_of (view w)) c a seen frontier \<longrightarrow> (a, c) \<notin> (graph_of (view w))\<^sup>*)"
proof (cases frontier)
  case Nil
  then show ?thesis using x closed_unreachable by (auto simp: walk_at_def walk_step_def)
next
  case (Cons node rest)
  show ?thesis
  proof (cases "node = c")
    case True
    then show ?thesis using x Cons by (auto simp: walk_at_def walk_step_def)
  next
    case False
    obtain y v where y: "ParentsAt st w node = (y, v)" by force
    have x': "x = walk_step (\<lambda>_. y) c seen frontier" using x Cons False y by (simp add: walk_at_def)
    show ?thesis
    proof (cases "\<exists>s f. x = Walking s f")
      case True
      then obtain s f where w: "x = Walking s f" by blast
      obtain up where up: "y = Inr up" "visit up seen rest = Some (s, f)"
        using x' w Cons False by (auto simp: walk_step_def split: sum.splits option.splits)
      have kn: "KeySep \<notin> set node" using k sub Cons by auto
      note su = parents_read [OF p kn y [unfolded up(1)]]
      have "\<forall>n \<in> set up. KeySep \<notin> set n" using su cl by (auto simp: graph_of_def clean_edges_def)
      then have "\<forall>n \<in> set s. KeySep \<notin> set n" "set f \<subseteq> set s"
        using visit_all [OF up(2)] k sub Cons by auto
      moreover have "set up = graph_of (view w) `` {node}" using su by auto
      ultimately show ?thesis using closed_step [OF _ False _ up(2)] Cons w by auto
    next
      case F: False
      then show ?thesis using x' Cons False by (auto simp: walk_step_def split: sum.splits option.splits)
    qed
  qed
qed

end

lemma moves_rest [simp]:
  "rc_world (moves R i p w) = w" "rc_used (moves R i p w) = rc_used R"
  "rc_phase (moves R i p w) j = (if j = i then p else rc_phase R j)"
  by (simp_all add: moves_def)

lemma plain_rides: "rides ws \<Longrightarrow> list_all plain_write ws"
  by (simp add: rides_def)

lemma key_edge: "membershipKey c p = Inr key \<Longrightarrow>
   coord_of ACLMembership key = edge_at c p \<and> KeySep \<notin> set c \<and> KeySep \<notin> set p"
  by (auto simp: membershipKey_def coord_of_def edge_at_def split: if_splits)

context object_store
begin

lemma race_keeps:
  assumes s: "edge_step st R T" and v: "race_inv view R"
  shows "race_inv view T"
proof -
  let ?db = "view (rc_world R)"
  have pl: "plain_items ?db" and cl: "clean_edges ?db" and ac: "acyclic (graph_of ?db)"
    and us: "\<And>x. version_of ?db = Some x \<Longrightarrow> x \<in> rc_used R" and ph: "\<And>i. phase_ok ?db (rc_used R) (rc_phase R i)"
    using v by (simp_all add: race_inv_def)
  from s show ?thesis
  proof cases
    case (begin_add c p now by' edge m w i)
    note r = marker_read [OF pl begin_add(4)]
    have k: "KeySep \<notin> set p" using edge_put [OF begin_add(3)] by simp
    have "phase_ok (view w) (rc_used R) (Walk (mr_version m) c p [p] [p])"
      using r begin_add(2,5) us k by (simp add: phase_ok_def closed_walk_def)
    then show ?thesis unfolding begin_add(1)
      using r pl by (intro inv_still [OF v, of w]) auto
  next
    case (walk_add i x c p seen frontier a w)
    have vw: "view w = ?db" using walk_look [OF walk_add(3)] .
    have o: "phase_ok ?db (rc_used R) (Walk x c p seen frontier)" using ph [of i] walk_add(2) by simp
    have k: "set frontier \<subseteq> set seen" using o by (simp add: phase_ok_def)
    note k = walk_keeps [OF pl cl _ k walk_add(3), of p]
    have "phase_ok ?db (rc_used R) (walked x c p a)"
      using o k by (auto simp: phase_ok_def walked_def split: walk.splits sum.splits bool.splits)
    then show ?thesis unfolding walk_add(1)
      using vw pl by (intro inv_still [OF v, of w]) auto
  next
    case (write_add i x c p now by' edge wx n r w)
    let ?ws = "version_write routd_scope x n # edge # wx"
    note e = edge_put [OF write_add(3)]
    have "plain_batch [] ?ws" using e plain_rides [OF write_add(4)] by (simp add: plain_batch_def)
    note o = batch_outcome [OF pl this write_add(6)]
    show ?thesis
    proof (cases "view w = ?db")
      case True
      then show ?thesis unfolding write_add(1)
        using pl ph phase_same [of ?db "rc_used R" _ ?db "insert n (rc_used R)"]
        by (intro inv_still [OF v, of w]) (auto simp: phase_ok_def)
    next
      case False
      then have ok: "batch_ok ?db [] ?ws" and ef: "view w = batch_effect ?db ?ws" using o by auto
      have x: "version_of ?db = Some x" using ok by (intro version_writtenD [where n = n]) (simp add: batch_ok_def)
      then have nr: "(p, c) \<notin> (graph_of ?db)\<^sup>*" using ph [of i] write_add(2) by (simp add: phase_ok_def)
      let ?d1 = "?db(marker_at := written (version_write routd_scope x n) (?db marker_at))"
      let ?d2 = "?d1(edge_at c p := written edge (?d1 (edge_at c p)))"
      have ef': "view w = batch_effect ?d2 wx" using ef e by simp
      have ver: "version_of (view w) = Some n"
        using version_same [of "view w" ?d2] rode(1) [OF write_add(4), of ?d2] marker_moves(2) [of ?db x n]
          version_same [of ?d2 ?d1] unfolding ef' by simp
      have at: "view w (edge_at a b) = (if edge_at a b = edge_at c p then written edge (?db (edge_at c p)) else ?db (edge_at a b))"
        for a b using rode(2) [OF write_add(4), of ?d2] unfolding ef' by simp
      have wr: "written edge m \<noteq> None" for m using e by (simp add: written_def)
      have g: "graph_of (view w) = insert (c, p) (graph_of ?db)"
        using at wr e edge_at_inj by (auto simp: graph_of_def split: if_splits)
      have "clean_edges (view w)"
        using cl at e edge_at_inj unfolding clean_edges_def by metis
      moreover have "acyclic (graph_of (view w))" unfolding g using ac nr by (simp add: acyclic_insert)
      ultimately show ?thesis unfolding write_add(1)
        using o ver write_add(5) by (intro inv_moved [OF v, of n w]) auto
    qed
  next
    case (remove_edge c p key wx n d r w)
    let ?ws = "d # wx @ [bump_write routd_scope n]"
    note e = key_edge [OF remove_edge(2)]
    have pw: "plain_write d" "place_of d = edge_at c p"
      using e remove_edge(5) by (auto simp: plain_write_def plain_cond_def no_cond_def write0_def place_of_def)
    have gone: "written d m = None" for m using remove_edge(5) by (auto simp: written_def write0_def)
    have "plain_batch [] ?ws" using pw plain_rides [OF remove_edge(3)] by (simp add: plain_batch_def)
    note o = batch_outcome [OF pl this remove_edge(6)]
    show ?thesis
    proof (cases "view w = ?db")
      case True
      then show ?thesis unfolding remove_edge(1)
        using pl by (intro inv_still [OF v, of w]) auto
    next
      case False
      then have ef: "view w = batch_effect ?db ?ws" using o by auto
      let ?d1 = "?db(edge_at c p := None)"
      let ?d2 = "batch_effect ?d1 wx"
      have ef': "view w = ?d2(marker_at := written (bump_write routd_scope n) (?d2 marker_at))"
        using ef pw gone by (simp add: batch_effect_app)
        have ver: "version_of (view w) = Some n" unfolding ef' by (rule marker_moves(1))
      have at: "view w (edge_at a b) = (if edge_at a b = edge_at c p then None else ?db (edge_at a b))" for a b
        unfolding ef' using rode(2) [OF remove_edge(3), of ?d1] by simp
      have "graph_of (view w) \<subseteq> graph_of ?db" using at by (auto simp: graph_of_def split: if_splits)
      then have "acyclic (graph_of (view w))" using ac by (rule acyclic_subset [rotated])
      moreover have "clean_edges (view w)" using cl at unfolding clean_edges_def by metis
      ultimately show ?thesis unfolding remove_edge(1)
        using o ver remove_edge(4) by (intro inv_moved [OF v, of n w]) auto
    qed
  next
    case (bumped ws n r w)
    have "plain_batch [] (ws @ [bump_write routd_scope n])" using plain_rides [OF bumped(2)] by (simp add: plain_batch_def)
    note o = batch_outcome [OF pl this bumped(4)]
    show ?thesis
    proof (cases "view w = ?db")
      case True
      then show ?thesis unfolding bumped(1) using pl by (intro inv_still [OF v, of w]) auto
    next
      case False
      let ?d = "batch_effect ?db ws"
      have ef: "view w = ?d(marker_at := written (bump_write routd_scope n) (?d marker_at))"
        using o False by (simp add: batch_effect_app)
      have ver: "version_of (view w) = Some n" unfolding ef by (rule marker_moves(1))
      have "graph_of (view w) = graph_of ?db \<and> clean_edges (view w) = clean_edges ?db"
        by (rule graph_same) (simp add: ef rode(2) [OF bumped(2)])
      then show ?thesis unfolding bumped(1)
        using o ver bumped(3) ac cl by (intro inv_moved [OF v, of n w]) auto
    qed
  next
    case (unscoped ws r w)
    have "plain_batch [] ws" using plain_rides [OF unscoped(2)] by (simp add: plain_batch_def)
    note o = batch_outcome [OF pl this unscoped(3)]
    have "view w (edge_at a b) = ?db (edge_at a b)" "view w marker_at = ?db marker_at" for a b
      using o rode [OF unscoped(2), of ?db] by auto
    then show ?thesis unfolding unscoped(1) using o by (intro inv_still [OF v, of w]) auto
  next
    case (give_up i)
    then show ?thesis using v pl by (intro inv_still [OF v, of "rc_world R"]) (auto simp: phase_ok_def)
  qed
qed

end

text \<open>
  C13. No cycle. However the steps of any number of AddEdge calls interleave with removals of edges
  and with other writes of the scope, each under a version nobody used before, the membership graph
  stays without a cycle when it starts without one.
\<close>

theorem addedge_acyclic:
  assumes st: "object_store st view"
    and db: "plain_items (view (rc_world R))" "clean_edges (view (rc_world R))" "acyclic (graph_of (view (rc_world R)))"
    and used: "\<forall>v. version_of (view (rc_world R)) = Some v \<longrightarrow> v \<in> rc_used R"
    and quiet: "\<forall>i. rc_phase R i = Quiet"
    and run: "(edge_step st)\<^sup>*\<^sup>* R T"
  shows "acyclic (graph_of (view (rc_world T)))"
proof -
  have "race_inv view R" using db used quiet by (simp add: race_inv_def phase_ok_def)
  with run have "race_inv view T"
    by (induction rule: rtranclp_induct) (auto intro: object_store.race_keeps [OF st])
  then show ?thesis by (simp add: race_inv_def)
qed

definition marked :: world where
  "marked = \<lparr>shelf = [(marker_at, [(markerVersion, ''v0'')])], mishaps = []\<rparr>"

definition race0 :: "world race" where
  "race0 = \<lparr>rc_world = marked, rc_phase = (\<lambda>_. Quiet), rc_used = {''v0''}\<rparr>"

definition edge_ab :: Write where
  "edge_ab = (case membershipPut ''t0'' ''a'' ''b'' ''op'' of Inr x \<Rightarrow> x | Inl _ \<Rightarrow> write0 Put [] \<lparr>Partition = [], Sort = []\<rparr>)"

definition edged :: world where
  "edged = \<lparr>shelf = [(marker_at, [(markerVersion, ''v1'')]),
     (edge_at ''a'' ''b'', [(attrMemAddedBy, ''op''), (attrMemAddedAt, ''t0'')])], mishaps = []\<rparr>"

lemma edge_ab_put: "membershipPut ''t0'' ''a'' ''b'' ''op'' = Inr edge_ab"
  by code_simp

lemma four_steps: "R a b \<Longrightarrow> R b c \<Longrightarrow> R c d \<Longrightarrow> R d e \<Longrightarrow> R\<^sup>*\<^sup>* a e"
  by (meson converse_rtranclp_into_rtranclp rtranclp.rtrancl_refl)

lemma walk_to:
  "rc_phase R i = Walk v c p seen frontier \<Longrightarrow> rc_world R = u \<Longrightarrow>
   walk_at (ParentsAt st) u c seen frontier = (x, w) \<Longrightarrow> walked v c p x = q \<Longrightarrow>
   edge_step st R (moves R i q w)"
  using walk_add [of R i v c p seen frontier st x w] by simp

lemma addedge_acyclic_witness:
  "\<exists>T. (edge_step plain_driver)\<^sup>*\<^sup>* race0 T \<and> items (rc_world T) (edge_at ''a'' ''b'') \<noteq> None \<and>
    acyclic (graph_of (items (rc_world T)))"
proof -
  let ?st = plain_driver and ?ws = "[version_write routd_scope ''v0'' ''v1'', edge_ab]"
  let ?m = "marker_of [markerVersion \<mapsto> ''v0'']"
  have w0: "rc_world race0 = marked" by (simp add: race0_def)
  have "readMarker ?st marked routd_scope = (Inr ?m, marked)" by code_simp
  moreover have "settled ?m" "mr_version ?m = ''v0''" by code_simp+
  ultimately have s1: "edge_step ?st race0 (moves race0 0 (Walk ''v0'' ''a'' ''b'' [''b''] [''b'']) marked)" (is "edge_step _ _ ?R1")
    using begin_add [of "''a''" "''b''" _ _ _ ?st race0 ?m marked 0, OF _ edge_ab_put] w0 by simp
  have y: "walk_at (ParentsAt ?st) marked ''a'' [''b''] [''b''] = (Walking [''b''] [], marked)" by code_simp
  have s2: "edge_step ?st ?R1 (moves ?R1 0 (Walk ''v0'' ''a'' ''b'' [''b''] []) marked)" (is "edge_step _ _ ?R2")
    by (rule walk_to [OF _ _ y]) (simp_all add: walked_def)
  have y: "walk_at (ParentsAt ?st) marked ''a'' [''b''] [] = (Answer (Inr False), marked)" by code_simp
  have s3: "edge_step ?st ?R2 (moves ?R2 0 (Ready ''v0'' ''a'' ''b'') marked)" (is "edge_step _ _ ?R3")
    by (rule walk_to [OF _ _ y]) (simp_all add: walked_def)
  have "st_batch ?st marked [] ?ws = (Inr True, edged)" by code_simp
  then have "st_batch ?st (rc_world ?R3) [] ?ws = (Inr True, edged)" by simp
  then have s4: "edge_step ?st ?R3 ((moves ?R3 0 Quiet edged)\<lparr>rc_used := insert ''v1'' (rc_used ?R3)\<rparr>)" (is "edge_step _ _ ?R4")
    using write_add [where R = ?R3 and i = 0 and rest = "[]", OF _ edge_ab_put]
    by (simp add: rides_def race0_def)
  note run = four_steps [where R = "edge_step ?st", OF s1 s2 s3 s4]
  have i: "items marked = Map.empty(marker_at \<mapsto> [markerVersion \<mapsto> ''v0''])"
    by (auto simp: items_def marked_def)
  have "plain_items (items marked)" "clean_edges (items marked)" "graph_of (items marked) = {}"
    "version_of (items marked) = Some ''v0''"
    unfolding i by (simp_all add: plain_items_def clean_edges_def partAttr_def sortAttr_def openAttr_def markerVersion_def
        graph_of_def version_of_def sent_def)
  moreover have "object_store ?st items" by (rule plain_driver_store)
  ultimately have a: "acyclic (graph_of (items (rc_world ?R4)))"
    using addedge_acyclic [of ?st items race0, OF _ _ _ _ _ _ run] by (simp add: race0_def acyclic_def)
  have "items edged (edge_at ''a'' ''b'') \<noteq> None" by (simp add: items_def edged_def)
  then show ?thesis using run a by (intro exI [of _ ?R4]) simp
qed

section \<open>The writer that does not compare\<close>

definition into_ab :: WriteSet where
  "into_ab = \<lparr>ws_writes = [edge_ab], ws_refused = None\<rparr>"

definition edge_ba :: Write where
  "edge_ba = (case membershipPut ''t0'' ''b'' ''a'' ''op'' of Inr x \<Rightarrow> x | Inl _ \<Rightarrow> edge_ab)"

definition into_ba :: WriteSet where
  "into_ba = \<lparr>ws_writes = [edge_ba], ws_refused = None\<rparr>"

definition fixed_version :: "world \<Rightarrow> string \<times> world" where
  "fixed_version w = (''v1'', w)"

definition joined :: "(string \<times> string) list \<Rightarrow> world" where
  "joined es = \<lparr>shelf = map (\<lambda>(c, p). (edge_at c p, [(attrMemAddedBy, ''op''), (attrMemAddedAt, ''t0'')])) es @
     [(marker_at, [(markerVersion, ''v1'')])], mishaps = []\<rparr>"

abbreviation ringed :: world where "ringed \<equiv> joined [(''a'', ''b''), (''b'', ''a'')]"

text \<open>
  C22. Two calls of PutMembershipInto from opposite ends of one edge, each walking before the other's batch: both
  walks answer no, both batches commit, and the graph has a ring.
\<close>

lemma put_into_closes_ring:
  "PutMembershipInto plain_driver ''t0'' marked empty_set ''a'' ''b'' ''op'' = (Inr into_ab, marked) \<and>
   PutMembershipInto plain_driver ''t0'' marked empty_set ''b'' ''a'' ''op'' = (Inr into_ba, marked) \<and>
   Apply plain_driver fixed_version marked into_ab [] = (Inr (), joined [(''a'', ''b'')]) \<and>
   Apply plain_driver fixed_version (joined [(''a'', ''b'')]) into_ba [] = (Inr (), ringed) \<and>
   \<not> acyclic (graph_of (items ringed))"
proof -
  have 1: "PutMembershipInto plain_driver ''t0'' marked empty_set ''a'' ''b'' ''op'' = (Inr into_ab, marked)" by code_simp
  have 2: "PutMembershipInto plain_driver ''t0'' marked empty_set ''b'' ''a'' ''op'' = (Inr into_ba, marked)" by code_simp
  have 3: "Apply plain_driver fixed_version marked into_ab [] = (Inr (), joined [(''a'', ''b'')])" by code_simp
  have 4: "Apply plain_driver fixed_version (joined [(''a'', ''b'')]) into_ba [] = (Inr (), ringed)" by code_simp
  have "(''a'', ''b'') \<in> graph_of (items ringed)" "(''b'', ''a'') \<in> graph_of (items ringed)"
    by (simp_all add: graph_of_def items_def joined_def)
  then have "(''a'', ''a'') \<in> (graph_of (items ringed))\<^sup>+" by (meson trancl.intros)
  then show ?thesis using 1 2 3 4 by (auto simp: acyclic_def)
qed

end
