(* ===== verification/Egress.thy ===== *)
theory Egress
  imports Go_Strings "HOL-Library.Word"
begin

text \<open>
  The egress proxy (egress/match/match.go, egress/address.go, egress/proxy.go): the grammar of the
  allow and deny lists, the match of a host against them, the classes of addresses no sandbox may
  reach, and the decision on one request. What the net package resolves and parses beyond
  \<open>SplitHostPort\<close> is an argument.
\<close>

section \<open>Host lists\<close>

definition trim_dot :: "string \<Rightarrow> string" where
  [go_defs]: "trim_dot s = (if has_suffix s ''.'' then butlast s else s)"

definition trim_glob :: "string \<Rightarrow> string" where
  [go_defs]: "trim_glob s = (if has_prefix s ''*.'' then drop 2 s else s)"

definition NormalizeEntry :: "string \<Rightarrow> string" where
  [go_defs]: "NormalizeEntry entry = trim_glob (to_lower (trim_dot entry))"

definition entry_covers :: "string \<Rightarrow> string \<Rightarrow> bool" where
  [go_defs]: "entry_covers host entry =
     (let entry = NormalizeEntry entry
      in if host = entry then True else contains entry ''.'' \<and> has_suffix host (CHR ''.'' # entry))"

definition Host :: "string list \<Rightarrow> string \<Rightarrow> bool" where
  [go_defs]: "Host entries host = (let host = to_lower (trim_dot host) in list_ex (entry_covers host) entries)"

definition Allowed :: "string list \<Rightarrow> string list \<Rightarrow> bool \<Rightarrow> string \<Rightarrow> bool" where
  [go_defs]: "Allowed allow deny allowAll host =
     (if Host deny host then False else allowAll \<or> Host allow host)"

text \<open>The regular expression of a domain: labels of letters, digits and inner hyphens.\<close>

definition alnum :: "char \<Rightarrow> bool" where
  [go_defs]: "alnum c = ((CHR ''a'' \<le> c \<and> c \<le> CHR ''z'') \<or> (CHR ''A'' \<le> c \<and> c \<le> CHR ''Z'') \<or> (CHR ''0'' \<le> c \<and> c \<le> CHR ''9''))"

definition domain_label :: "string \<Rightarrow> bool" where
  [go_defs]: "domain_label l =
     (l \<noteq> [] \<and> alnum (hd l) \<and> alnum (last l) \<and> list_all (\<lambda>c. alnum c \<or> c = CHR ''-'') l)"

definition domainRegex :: "string \<Rightarrow> bool" where
  [go_defs]: "domainRegex s = list_all domain_label (split_on (CHR ''.'') s)"

datatype entry_error =
    Empty_Entry | Bare_Star | Has_Scheme | Has_Credentials | Is_Address | Has_Path | Has_Port
  | Inner_Star | Not_A_Host | Listed_Twice string | In_Both string

text \<open>\<open>ip_like\<close> is \<open>LooksLikeIP\<close>: what \<open>net.ParseIP\<close> or \<open>net.ParseCIDR\<close> reads.\<close>

definition ValidEntry :: "(string \<Rightarrow> bool) \<Rightarrow> string \<Rightarrow> entry_error option" where
  [go_defs]: "ValidEntry ip_like entry =
     (if entry = [] then Some Empty_Entry
      else if entry = ''*'' then Some Bare_Star
      else if contains entry ''://'' then Some Has_Scheme
      else if contains entry ''@'' then Some Has_Credentials
      else if ip_like entry then Some Is_Address
      else if contains entry ''/'' then Some Has_Path
      else if contains entry '':'' then Some Has_Port
      else if contains (trim_glob entry) ''*'' then Some Inner_Star
      else if \<not> domainRegex (to_lower (trim_dot (trim_glob entry))) then Some Not_A_Host
      else None)"

text \<open>The check of one list; \<open>met\<close> names the list each normalized entry was met in.\<close>

fun check_list ::
  "(string \<Rightarrow> bool) \<Rightarrow> string \<Rightarrow> (string \<times> string) list \<Rightarrow> string list \<Rightarrow> entry_error + (string \<times> string) list" where
  "check_list ip_like name met [] = Inr met"
| "check_list ip_like name met (e # es) =
     (case ValidEntry ip_like e of
        Some err \<Rightarrow> Inl err
      | None \<Rightarrow>
          let n = NormalizeEntry e
          in (case map_of met n of
                Some prev \<Rightarrow> Inl (if prev = name then Listed_Twice n else In_Both n)
              | None \<Rightarrow> check_list ip_like name ((n, name) # met) es))"

definition ValidateLists :: "(string \<Rightarrow> bool) \<Rightarrow> string list \<Rightarrow> string list \<Rightarrow> entry_error option" where
  [go_defs]: "ValidateLists ip_like allow deny =
     (case check_list ip_like ''allow'' [] allow of
        Inl e \<Rightarrow> Some e
      | Inr met \<Rightarrow> (case check_list ip_like ''deny'' met deny of Inl e \<Rightarrow> Some e | Inr _ \<Rightarrow> None))"

section \<open>Addresses\<close>

text \<open>\<open>net.IP\<close>: four or sixteen bytes, none for nil.\<close>

type_synonym ip = "8 word list"

definition To4 :: "ip \<Rightarrow> ip option" where
  [go_defs]: "To4 ip =
     (if length ip = 4 then Some ip
      else if length ip = 16 \<and> take 12 ip = replicate 10 0 @ [255, 255] then Some (drop 12 ip)
      else None)"

definition ip_equal :: "ip \<Rightarrow> ip \<Rightarrow> bool" where
  [go_defs]: "ip_equal a b =
     (if length a = length b then a = b
      else if length a = 4 \<and> length b = 16 then take 12 b = replicate 10 0 @ [255, 255] \<and> a = drop 12 b
      else if length a = 16 \<and> length b = 4 then take 12 a = replicate 10 0 @ [255, 255] \<and> drop 12 a = b
      else False)"

unbundle bit_operations_syntax

definition IsLoopback :: "ip \<Rightarrow> bool" where
  [go_defs]: "IsLoopback ip =
     (case To4 ip of Some v \<Rightarrow> v ! 0 = 127 | None \<Rightarrow> ip_equal ip (replicate 15 0 @ [1]))"

definition IsLinkLocalUnicast :: "ip \<Rightarrow> bool" where
  [go_defs]: "IsLinkLocalUnicast ip =
     (case To4 ip of
        Some v \<Rightarrow> v ! 0 = 169 \<and> v ! 1 = 254
      | None \<Rightarrow> length ip = 16 \<and> ip ! 0 = 0xfe \<and> ip ! 1 AND 0xc0 = 0x80)"

definition IsLinkLocalMulticast :: "ip \<Rightarrow> bool" where
  [go_defs]: "IsLinkLocalMulticast ip =
     (case To4 ip of
        Some v \<Rightarrow> v ! 0 = 224 \<and> v ! 1 = 0 \<and> v ! 2 = 0
      | None \<Rightarrow> length ip = 16 \<and> ip ! 0 = 0xff \<and> ip ! 1 AND 0x0f = 0x02)"

definition IsInterfaceLocalMulticast :: "ip \<Rightarrow> bool" where
  [go_defs]: "IsInterfaceLocalMulticast ip = (length ip = 16 \<and> ip ! 0 = 0xff \<and> ip ! 1 AND 0x0f = 0x01)"

definition IsMulticast :: "ip \<Rightarrow> bool" where
  [go_defs]: "IsMulticast ip =
     (case To4 ip of
        Some v \<Rightarrow> v ! 0 AND 0xf0 = 0xe0
      | None \<Rightarrow> length ip = 16 \<and> ip ! 0 = 0xff)"

definition IsUnspecified :: "ip \<Rightarrow> bool" where
  [go_defs]: "IsUnspecified ip =
     (ip_equal ip (replicate 10 0 @ [255, 255, 0, 0, 0, 0]) \<or> ip_equal ip (replicate 16 0))"

definition IsPrivate :: "ip \<Rightarrow> bool" where
  [go_defs]: "IsPrivate ip =
     (case To4 ip of
        Some v \<Rightarrow> v ! 0 = 10 \<or> (v ! 0 = 172 \<and> v ! 1 AND 0xf0 = 16) \<or> (v ! 0 = 192 \<and> v ! 1 = 168)
      | None \<Rightarrow> length ip = 16 \<and> ip ! 0 AND 0xfe = 0xfc)"

text \<open>The address of the metadata service over IPv6, \<open>fd00:ec2::254\<close>.\<close>

definition imds6 :: ip where
  [go_defs]: "imds6 = [0xfd, 0, 0x0e, 0xc2] @ replicate 10 0 @ [0x02, 0x54]"

definition blockedIP :: "bool \<Rightarrow> ip \<Rightarrow> bool" where
  [go_defs]: "blockedIP allowLoopback ip =
     (if ip = [] then True
      else if IsLoopback ip \<and> \<not> allowLoopback then True
      else if IsLinkLocalUnicast ip \<or> IsLinkLocalMulticast ip \<or> IsUnspecified ip \<or> IsMulticast ip \<or>
              IsInterfaceLocalMulticast ip then True
      else ip_equal ip imds6)"

definition privateIP :: "ip \<Rightarrow> bool" where
  [go_defs]: "privateIP ip = (ip \<noteq> [] \<and> (IsPrivate ip \<or> IsUnspecified ip))"

section \<open>What a list covers\<close>

text \<open>A suffix that starts at a separator is a suffix of the list of labels.\<close>

lemma suffix_labels:
  "has_suffix h (c # n) \<longleftrightarrow> (\<exists>ls. ls \<noteq> [] \<and> split_on c h = ls @ split_on c n)"
proof
  assume "has_suffix h (c # n)"
  then obtain a where "h = a @ c # n" by (auto simp: suffix_def)
  then show "\<exists>ls. ls \<noteq> [] \<and> split_on c h = ls @ split_on c n" by (intro exI [of _ "split_on c a"]) simp
next
  assume "\<exists>ls. ls \<noteq> [] \<and> split_on c h = ls @ split_on c n"
  then obtain ls where l: "ls \<noteq> []" "split_on c h = ls @ split_on c n" by blast
  have app: "xs \<noteq> [] \<Longrightarrow> ys \<noteq> [] \<Longrightarrow> join [c] (xs @ ys) = join [c] xs @ c # join [c] ys" for xs ys
    by (induction xs) (auto simp: join_Cons)
  have "h = join [c] (ls @ split_on c n)" using join_split [of c h] l(2) by simp
  also have "\<dots> = join [c] ls @ c # n" using app [OF l(1), of "split_on c n"] by (simp add: join_split)
  finally show "has_suffix h (c # n)" by (auto simp: suffix_def)
qed

text \<open>
  A host is on a list exactly when some entry, lower-cased, without its trailing dot and its
  leading star, is the host's labels, or has two labels or more and is what remains of the host's
  labels after one or more of them. A single label covers itself and nothing below it.
\<close>

theorem host_covered:
  "Host entries host \<longleftrightarrow>
   (\<exists>e \<in> set entries. \<exists>ls. split_on (CHR ''.'') (to_lower (trim_dot host)) = ls @ split_on (CHR ''.'') (NormalizeEntry e) \<and>
      (ls = [] \<or> 2 \<le> length (split_on (CHR ''.'') (NormalizeEntry e))))"
proof -
  have "entry_covers h e \<longleftrightarrow>
      (\<exists>ls. split_on (CHR ''.'') h = ls @ split_on (CHR ''.'') (NormalizeEntry e) \<and>
         (ls = [] \<or> 2 \<le> length (split_on (CHR ''.'') (NormalizeEntry e))))" for h e
    unfolding entry_covers_def Let_def contains_char split_on_many suffix_labels
    using split_on_inj [of "CHR ''.''" h "NormalizeEntry e"] by auto
  then show ?thesis by (auto simp: Host_def Let_def list_ex_iff)
qed

section \<open>What the check of the lists accepts\<close>

lemma check_list_ok:
  "check_list ip_like name met es = Inr met' \<longleftrightarrow>
     list_all (\<lambda>e. ValidEntry ip_like e = None) es \<and> distinct (map NormalizeEntry es) \<and>
     set (map NormalizeEntry es) \<inter> fst ` set met = {} \<and> met' = rev (map (\<lambda>e. (NormalizeEntry e, name)) es) @ met"
proof (induction es arbitrary: met)
  case (Cons e es)
  have k: "map_of met n = None \<longleftrightarrow> n \<notin> fst ` set met" for n by (simp add: map_of_eq_None_iff)
  show ?case
    using Cons.IH [of "(NormalizeEntry e, name) # met"] k [of "NormalizeEntry e"]
    by (auto simp: Let_def split: option.splits)
qed auto

text \<open>
  The lists are accepted exactly when every entry is a host pattern and no two entries of the
  two lists are the same pattern: none is listed twice, none is in both.
\<close>

theorem lists_accepted:
  "ValidateLists ip_like allow deny = None \<longleftrightarrow>
     list_all (\<lambda>e. ValidEntry ip_like e = None) (allow @ deny) \<and> distinct (map NormalizeEntry (allow @ deny))"
proof (cases "check_list ip_like ''allow'' [] allow")
  case (Inl e)
  then have "\<not> (list_all (\<lambda>e. ValidEntry ip_like e = None) allow \<and> distinct (map NormalizeEntry allow))"
    using check_list_ok [of ip_like "''allow''" "[]" allow] by auto
  then show ?thesis using Inl by (auto simp: ValidateLists_def)
next
  case (Inr met)
  then have a: "list_all (\<lambda>e. ValidEntry ip_like e = None) allow" "distinct (map NormalizeEntry allow)"
    "fst ` set met = set (map NormalizeEntry allow)"
    using check_list_ok [of ip_like "''allow''" "[]" allow met] by (auto simp: image_image)
  have "ValidateLists ip_like allow deny = None \<longleftrightarrow> (\<exists>m. check_list ip_like ''deny'' met deny = Inr m)"
    using Inr by (cases "check_list ip_like ''deny'' met deny") (auto simp: ValidateLists_def)
  then show ?thesis using a check_list_ok [of ip_like "''deny''" met deny] by (auto simp: disjoint_iff)
qed

section \<open>What addresses are blocked\<close>

lemma high_bits: "uint (a AND NOT (mask n)) = uint a div 2 ^ n * 2 ^ n" for a :: "8 word"
proof -
  have "a AND NOT (mask n) = push_bit n (drop_bit n a)" by (rule bit_eqI) (auto simp: bit_simps)
  moreover have u: "uint a < 256" using unsigned_less [of a, where 'a = int] by simp
  have t: "take_bit 8 (uint a) = uint a" by (rule take_bit_int_eq_self) (use u in simp_all)
  moreover have "uint (push_bit n (drop_bit n a)) = take_bit 8 (push_bit n (drop_bit n (uint a)))"
    by (simp add: unsigned_push_bit_eq unsigned_drop_bit_eq t)
  moreover have "push_bit n (drop_bit n (uint a)) = uint a div 2 ^ n * 2 ^ n"
    by (simp add: push_bit_eq_mult drop_bit_eq_div)
  moreover have "uint a div 2 ^ n * 2 ^ n \<le> uint a" by (simp add: minus_mod_eq_div_mult [symmetric])
  ultimately show ?thesis
    by (simp add: take_bit_eq_mod pos_imp_zdiv_nonneg_iff)
qed

lemma byte_masks:
  "(a AND 0xf0 = 0xe0) = (224 \<le> uint a \<and> uint a < 240)"
  "(a AND 0xf0 = 16) = (16 \<le> uint a \<and> uint a < 32)"
  "(a AND 0xc0 = 0x80) = (128 \<le> uint a \<and> uint a < 192)"
  "(a AND 0xfe = 0xfc) = (252 \<le> uint a \<and> uint a < 254)"
  for a :: "8 word"
proof -
  have m: "0xf0 = NOT (mask 4 :: 8 word)" "0xc0 = NOT (mask 6 :: 8 word)" "0xfe = NOT (mask 1 :: 8 word)"
    by code_simp+
  show "(a AND 0xf0 = 0xe0) = (224 \<le> uint a \<and> uint a < 240)" "(a AND 0xf0 = 16) = (16 \<le> uint a \<and> uint a < 32)"
    unfolding word_uint_eq_iff m(1) high_bits by (simp_all, presburger+)
  show "(a AND 0xc0 = 0x80) = (128 \<le> uint a \<and> uint a < 192)"
    unfolding word_uint_eq_iff m(2) high_bits by (simp, presburger)
  show "(a AND 0xfe = 0xfc) = (252 \<le> uint a \<and> uint a < 254)"
    unfolding word_uint_eq_iff m(3) high_bits by (simp, presburger)
qed

text \<open>
  The blocked classes, by value. An IPv4 address, plain or mapped into IPv6, is refused exactly
  when it is in 127/8 (unless loopback is let through), 169.254/16 or 224/4, or is 0.0.0.0; any other
  IPv6 address exactly when it is ::1 (unless let through), in fe80::/10 or ff00::/8, or is :: or the
  metadata address. So no spelling of a metadata address passes.
\<close>

theorem blocked_classes:
  assumes "length ip = 4 \<or> length ip = 16"
  shows "blockedIP lo ip \<longleftrightarrow>
    (case To4 ip of
       Some v \<Rightarrow> (\<not> lo \<and> v ! 0 = 127) \<or> (v ! 0 = 169 \<and> v ! 1 = 254) \<or> (224 \<le> uint (v ! 0) \<and> uint (v ! 0) < 240) \<or>
         v = [0, 0, 0, 0]
     | None \<Rightarrow> (\<not> lo \<and> ip = replicate 15 0 @ [1]) \<or> (ip ! 0 = 0xfe \<and> 128 \<le> uint (ip ! 1) \<and> uint (ip ! 1) < 192) \<or>
         ip ! 0 = 0xff \<or> ip = replicate 16 0 \<or> ip = imds6)"
proof (cases "To4 ip")
  case None
  then have l: "length ip = 16" "take 12 ip \<noteq> replicate 10 0 @ [255, 255]" using assms by (auto simp: To4_def split: if_splits)
  then have "ip \<noteq> replicate 10 0 @ [255, 255, 0, 0, 0, 0]" by (auto simp: eval_nat_numeral)
  then show ?thesis
    using l by (auto simp: blockedIP_def None IsLoopback_def IsLinkLocalUnicast_def IsLinkLocalMulticast_def IsUnspecified_def
        IsMulticast_def IsInterfaceLocalMulticast_def ip_equal_def imds6_def byte_masks)
next
  case (Some v)
  have ne: "ip \<noteq> []" using assms by auto
  let ?pre = "replicate 10 0 @ [255, 255] :: ip"
  have sp: "ip = v \<and> length ip = 4 \<or> ip = ?pre @ v \<and> length ip = 16"
    using Some by (auto simp: To4_def split: if_splits) (metis append_take_drop_id append.assoc append_Cons append_Nil)
  then have z: "IsUnspecified ip \<longleftrightarrow> v = [0, 0, 0, 0]"
    by (elim disjE) (auto simp: IsUnspecified_def ip_equal_def eval_nat_numeral)
  have i: "\<not> ip_equal ip imds6"
  proof -
    have t: "take 12 imds6 \<noteq> ?pre" "length imds6 = 16" by code_simp+
    have "take 12 (?pre @ v) = ?pre" by simp
    then have "take 12 ip = ?pre" if "length ip = 16" using sp that by auto
    then have "ip \<noteq> imds6" using t by blast
    then show ?thesis using sp t by (auto simp: ip_equal_def)
  qed
  have m: "\<not> IsInterfaceLocalMulticast ip"
    using sp by (elim disjE) (auto simp: IsInterfaceLocalMulticast_def eval_nat_numeral)
  show ?thesis
    using ne z i m by (auto simp: blockedIP_def Some IsLoopback_def IsLinkLocalUnicast_def IsLinkLocalMulticast_def
        IsMulticast_def byte_masks)
qed

lemma blocked_classes_witness:
  "blockedIP True [169, 254, 169, 254] \<and> blockedIP True (replicate 10 0 @ [255, 255, 169, 254, 169, 254])"
proof -
  have t: "To4 [169, 254, 169, 254] = Some [169, 254, 169, 254]"
    "To4 (replicate 10 0 @ [255, 255, 169, 254, 169, 254]) = Some [169, 254, 169, 254]"
    by code_simp+
  show ?thesis
    using blocked_classes [of "[169, 254, 169, 254]" True]
      blocked_classes [of "replicate 10 0 @ [255, 255, 169, 254, 169, 254]" True]
    unfolding t by simp
qed

end
