(* ===== verification/Egress_Proxy.thy ===== *)
theory Egress_Proxy
  imports Egress
begin

text \<open>
  The proxy itself (egress/address.go, egress/proxy.go): which peer it serves, which name it lets
  through, which address it dials. Reading a request, parsing addresses, resolving names, opening
  sockets and the HTTP transport are the net packages' and arguments here; the host and port of an
  authority are split as \<open>net.SplitHostPort\<close> splits them.
\<close>

section \<open>Host and port\<close>

definition index_of :: "char \<Rightarrow> string \<Rightarrow> nat option" where
  [go_defs]: "index_of c s = (if c \<in> set s then Some (length (takeWhile (\<lambda>x. x \<noteq> c) s)) else None)"

text \<open>What stands before and after the last colon, and the bracketed host.\<close>

definition SplitHostPort :: "string \<Rightarrow> (string \<times> string) option" where
  [go_defs]: "SplitHostPort hostport =
     (case cut_last colon hostport of (before, port, found) \<Rightarrow>
        if \<not> found then None
        else if has_prefix hostport ''['' then
          (case index_of (CHR '']'') hostport of
             None \<Rightarrow> None
           | Some e \<Rightarrow>
               if e + 1 \<noteq> length before then None
               else if contains (drop 1 hostport) ''['' \<or> contains (drop (e + 1) hostport) '']'' then None
               else Some (drop 1 (take e hostport), port))
        else if contains before '':'' then None
        else if contains hostport ''['' \<or> contains hostport '']'' then None
        else Some (before, port))"

definition JoinHostPort :: "string \<Rightarrow> string \<Rightarrow> string" where
  [go_defs]: "JoinHostPort host port =
     (if contains host '':'' then ''['' @ host @ '']:'' @ port else host @ '':'' @ port)"

definition hostPort :: "string \<Rightarrow> string" where
  [go_defs]: "hostPort authority =
     (case SplitHostPort authority of Some _ \<Rightarrow> authority | None \<Rightarrow> JoinHostPort authority ''443'')"

section \<open>The proxy\<close>

record Proxy =
  px_allow :: "string list"
  px_deny :: "string list"
  px_allowAll :: bool
  px_client :: string
  px_denyPrivate :: bool
  px_allowLoopback :: bool
  px_ready :: bool

text \<open>The net packages: \<open>net.ParseIP\<close>, the resolver, a dialled socket, the address the HTTP transport
  hands to the dialer for a target (none for a target that is no request), and an upstream's status.\<close>

record net =
  n_parse :: "string \<Rightarrow> ip option"
  n_lookup :: "string \<Rightarrow> ip list option"
  n_connects :: "ip \<Rightarrow> string \<Rightarrow> bool"
  n_dials :: "string \<Rightarrow> string option"

definition New :: "(string \<Rightarrow> bool) \<Rightarrow> string list \<Rightarrow> string list \<Rightarrow> string \<Rightarrow> entry_error + Proxy" where
  [go_defs]: "New ip_like allow deny client =
     (case ValidateLists ip_like allow deny of
        Some e \<Rightarrow> Inl e
      | None \<Rightarrow> Inr \<lparr>px_allow = allow, px_deny = deny, px_allowAll = False, px_client = client,
                    px_denyPrivate = False, px_allowLoopback = False, px_ready = False\<rparr>)"

definition SetReady :: "Proxy \<Rightarrow> bool \<Rightarrow> Proxy" where [go_defs]: "SetReady p b = p\<lparr>px_ready := b\<rparr>"
definition SetDenyPrivate :: "Proxy \<Rightarrow> bool \<Rightarrow> Proxy" where [go_defs]: "SetDenyPrivate p b = p\<lparr>px_denyPrivate := b\<rparr>"
definition SetAllowLoopback :: "Proxy \<Rightarrow> bool \<Rightarrow> Proxy" where [go_defs]: "SetAllowLoopback p b = p\<lparr>px_allowLoopback := b\<rparr>"
definition SetAllowAll :: "Proxy \<Rightarrow> bool \<Rightarrow> Proxy" where [go_defs]: "SetAllowAll p b = p\<lparr>px_allowAll := b\<rparr>"

definition hostAllowed :: "Proxy \<Rightarrow> string \<Rightarrow> bool" where
  [go_defs]: "hostAllowed p host = Allowed (px_allow p) (px_deny p) (px_allowAll p) host"

datatype dial_error = Blocked_Address | Unresolved | Bad_Address | Unreachable

definition refused_ip :: "Proxy \<Rightarrow> ip \<Rightarrow> bool" where
  [go_defs]: "refused_ip p ip = (blockedIP (px_allowLoopback p) ip \<or> (px_denyPrivate p \<and> privateIP ip))"

definition resolveDest :: "net \<Rightarrow> Proxy \<Rightarrow> string \<Rightarrow> dial_error + ip" where
  [go_defs]: "resolveDest net p host =
     (case n_parse net host of
        Some ip \<Rightarrow> if refused_ip p ip then Inl Blocked_Address else Inr ip
      | None \<Rightarrow>
          (case n_lookup net host of
             None \<Rightarrow> Inl Unresolved
           | Some ips \<Rightarrow>
               if ips = [] then Inl Unresolved
               else if list_ex (refused_ip p) ips then Inl Blocked_Address
               else Inr (hd ips)))"

definition dialAllowed :: "net \<Rightarrow> Proxy \<Rightarrow> string \<Rightarrow> dial_error + ip \<times> string" where
  [go_defs]: "dialAllowed net p addr =
     (case SplitHostPort addr of
        None \<Rightarrow> Inl Bad_Address
      | Some (host, port) \<Rightarrow>
          (case resolveDest net p host of
             Inl e \<Rightarrow> Inl e
           | Inr ip \<Rightarrow> if n_connects net ip port then Inr (ip, port) else Inl Unreachable))"

section \<open>A request\<close>

record request =
  rq_method :: string
  rq_url_host :: string
  rq_url_path :: string
  rq_url :: string
  rq_uri :: string
  rq_host :: string
  rq_remote :: string
  rq_header :: "(string \<times> string list) list"

text \<open>What becomes of it: an answer of the proxy, a tunnel, or a forwarded request with its headers.\<close>

datatype outcome =
    Health bool
  | Denied_Peer
  | Denied_Host
  | Denied_Address
  | Bad_Request
  | Bad_Gateway
  | Tunnel ip string
  | Forward ip string "(string \<times> string list) list"

definition writeDialError :: "dial_error \<Rightarrow> outcome" where
  [go_defs]: "writeDialError e = (if e = Blocked_Address then Denied_Address else Bad_Gateway)"

definition hop_headers :: "string list" where
  [go_defs]: "hop_headers =
     [''connection'', ''keep-alive'', ''proxy-authenticate'', ''proxy-authorization'', ''proxy-connection'',
      ''te'', ''trailers'', ''transfer-encoding'', ''upgrade'']"

definition isHopByHop :: "string \<Rightarrow> bool" where
  [go_defs]: "isHopByHop h = (to_lower h \<in> set hop_headers)"

definition peerAllowed :: "Proxy \<Rightarrow> string \<Rightarrow> bool" where
  [go_defs]: "peerAllowed p src = (if px_client p = [] then True else src = px_client p)"

definition connect_host :: "request \<Rightarrow> string" where
  [go_defs]: "connect_host r = (case SplitHostPort (rq_host r) of None \<Rightarrow> rq_host r | Some (host, _) \<Rightarrow> host)"

definition handleConnect :: "net \<Rightarrow> Proxy \<Rightarrow> request \<Rightarrow> outcome" where
  [go_defs]: "handleConnect net p r =
     (if \<not> hostAllowed p (connect_host r) then Denied_Host
      else case dialAllowed net p (hostPort (rq_host r)) of
        Inl e \<Rightarrow> writeDialError e
      | Inr (ip, port) \<Rightarrow> Tunnel ip port)"

definition http_host :: "request \<Rightarrow> string" where
  [go_defs]: "http_host r =
     (let host = (if rq_url_host r \<noteq> [] then rq_url_host r else rq_host r)
      in case SplitHostPort host of Some (h, _) \<Rightarrow> h | None \<Rightarrow> host)"

definition http_target :: "request \<Rightarrow> string" where
  [go_defs]: "http_target r =
     (if \<not> has_prefix (rq_url r) ''http'' then ''http://'' @ rq_host r @ rq_uri r else rq_url r)"

definition handleHTTP :: "net \<Rightarrow> Proxy \<Rightarrow> request \<Rightarrow> outcome" where
  [go_defs]: "handleHTTP net p r =
     (if \<not> hostAllowed p (http_host r) then Denied_Host
      else case n_dials net (http_target r) of
        None \<Rightarrow> Bad_Request
      | Some addr \<Rightarrow>
          (case dialAllowed net p addr of
             Inl e \<Rightarrow> writeDialError e
           | Inr (ip, port) \<Rightarrow> Forward ip port (filter (\<lambda>(k, _). \<not> isHopByHop k) (rq_header r))))"

definition HealthPath :: string where [go_defs]: "HealthPath = ''/health''"

definition ServeHTTP :: "net \<Rightarrow> Proxy \<Rightarrow> request \<Rightarrow> outcome" where
  [go_defs]: "ServeHTTP net p r =
     (if rq_method r = ''GET'' \<and> rq_url_host r = [] \<and> rq_url_path r = HealthPath then Health (px_ready p)
      else
        let src = (case SplitHostPort (rq_remote r) of None \<Rightarrow> [] | Some (host, _) \<Rightarrow> host)
        in if \<not> peerAllowed p src then Denied_Peer
           else if rq_method r = ''CONNECT'' then handleConnect net p r
           else handleHTTP net p r)"

section \<open>The name checked is the name dialled\<close>

lemma split_plain:
  assumes "colon \<notin> set h" "CHR ''['' \<notin> set h" "CHR '']'' \<notin> set h" "colon \<notin> set p" "CHR ''['' \<notin> set p" "CHR '']'' \<notin> set p"
  shows "SplitHostPort (h @ colon # p) = Some (h, p)"
proof -
  have "cut_last colon (h @ colon # p) = (h, p, True)" using assms(4) by (simp add: cut_last_found)
  moreover have "\<not> has_prefix (h @ colon # p) ''[''" using assms(2) by (cases h) auto
  ultimately show ?thesis using assms by (simp add: SplitHostPort_def contains_char)
qed

lemma index_at: "index_of c s = Some e \<Longrightarrow> s ! e = c"
proof -
  assume "index_of c s = Some e"
  then obtain a b where "s = a @ c # b" "c \<notin> set a" "e = length (takeWhile (\<lambda>x. x \<noteq> c) s)"
    by (metis index_of_def option.distinct(1) option.inject split_list_first)
  then show ?thesis by (simp add: head_upto)
qed

lemma split_joined:
  assumes "SplitHostPort (JoinHostPort a ''443'') = Some (h, p)"
  shows "h = a \<or> a = ''['' @ h @ '']''"
proof (cases "colon \<in> set a")
  case True
  let ?s = "''['' @ a @ '']:443''"
  have "cut_last colon ?s = (''['' @ a @ '']'', ''443'', True)" unfolding cut_last_found by simp
  then obtain e where e: "index_of (CHR '']'') ?s = Some e" "e + 1 = length a + 2" "h = drop 1 (take e ?s)"
    using assms True
    by (auto simp: SplitHostPort_def JoinHostPort_def contains_char split: option.splits if_splits)
  then have "h = a" by simp
  then show ?thesis by blast
next
  case False
  let ?s = "a @ '':443''"
  have c: "cut_last colon ?s = (a, ''443'', True)" unfolding cut_last_found by simp
  show ?thesis
  proof (cases "has_prefix ?s ''[''")
    case True
    then obtain e where e: "index_of (CHR '']'') ?s = Some e" "e + 1 = length a" "h = drop 1 (take e ?s)"
      using assms False c
      by (auto simp: SplitHostPort_def JoinHostPort_def contains_char split: option.splits if_splits)
    obtain b where b: "a = CHR ''['' # b" using True by (cases a) auto
    have "?s ! e = CHR '']''" using index_at [OF e(1)] .
    then have l: "last a = CHR '']''" using e(2) b by (cases b rule: rev_cases) (auto simp: nth_append nth_Cons')
    have "b \<noteq> []" using l b by auto
    then have "h = butlast b" using e b by (cases b rule: rev_cases) simp_all
    moreover have "b = butlast b @ [CHR '']'']" using l b \<open>b \<noteq> []\<close> by (cases b rule: rev_cases) simp_all
    ultimately show ?thesis using b by simp
  next
    case F: False
    then show ?thesis using assms False c
      by (auto simp: SplitHostPort_def JoinHostPort_def contains_char split: if_splits)
  qed
qed

text \<open>The address a request reaches, and the name its decision was about.\<close>

definition reached :: "outcome \<Rightarrow> ip option" where
  "reached x = (case x of Tunnel ip _ \<Rightarrow> Some ip | Forward ip _ _ \<Rightarrow> Some ip | _ \<Rightarrow> None)"

definition peer :: "request \<Rightarrow> string" where
  "peer r = (case SplitHostPort (rq_remote r) of None \<Rightarrow> [] | Some (host, _) \<Rightarrow> host)"

definition checked :: "request \<Rightarrow> string" where
  "checked r = (if rq_method r = ''CONNECT'' then connect_host r else http_host r)"

lemma resolved_clean: "resolveDest net p host = Inr ip \<Longrightarrow> \<not> refused_ip p ip"
  by (auto simp: resolveDest_def list_ex_iff split: option.splits if_splits)

lemma dialled_clean: "dialAllowed net p addr = Inr (ip, port) \<Longrightarrow> \<not> refused_ip p ip"
  by (auto simp: dialAllowed_def dest: resolved_clean split: option.splits sum.splits if_splits)

text \<open>
  C25. No request reaches an address unless it came from the pinned client, its name is let through
  by the lists (deny first, in every mode) and the address is in no blocked class: the metadata
  services and, unless the deployment opts in, loopback, whatever the lists say and whatever the name
  resolves to. Hop-by-hop headers do not travel.
\<close>

theorem egress_confined:
  assumes "reached (ServeHTTP net p r) = Some ip"
  shows "peerAllowed p (peer r) \<and> \<not> Host (px_deny p) (checked r) \<and>
    (px_allowAll p \<or> Host (px_allow p) (checked r)) \<and>
    \<not> blockedIP (px_allowLoopback p) ip \<and> \<not> (px_denyPrivate p \<and> privateIP ip) \<and>
    (case ServeHTTP net p r of Forward _ _ hs \<Rightarrow> list_all (\<lambda>(k, _). \<not> isHopByHop k) hs | _ \<Rightarrow> True)"
proof -
  let ?o = "ServeHTTP net p r"
  have o: "?o = (if rq_method r = ''CONNECT'' then handleConnect net p r else handleHTTP net p r)"
    and pe: "peerAllowed p (peer r)"
    using assms by (auto simp: ServeHTTP_def reached_def peer_def Let_def split: if_splits option.splits)
  have h: "hostAllowed p (checked r) \<and> \<not> refused_ip p ip"
    using assms unfolding o
    by (auto simp: handleConnect_def handleHTTP_def checked_def reached_def writeDialError_def
        dest: dialled_clean split: if_splits option.splits sum.splits)
  then show ?thesis using pe unfolding o
    by (auto simp: hostAllowed_def Allowed_def refused_ip_def handleConnect_def handleHTTP_def writeDialError_def list_all_iff
        split: if_splits option.splits sum.splits outcome.splits)
qed

text \<open>
  A tunnel goes to the name that was checked. Where the authority is refused as a bracketed name
  that is no address literal (net/url refuses it), the address tunnelled to is a literal in the
  authority, or the first answer for the very name the lists let through, every answer for which
  was outside the blocked classes; no second resolution decides.
\<close>

theorem connect_dials_checked:
  assumes brackets: "\<And>name. connect_host r = ''['' @ name @ '']'' \<Longrightarrow> n_parse net name \<noteq> None"
    and t: "handleConnect net p r = Tunnel ip port"
  shows "\<exists>name. (n_parse net name = Some ip \<and> (name = connect_host r \<or> connect_host r = ''['' @ name @ '']'')) \<or>
    (name = connect_host r \<and> hostAllowed p name \<and>
     (\<exists>ips. n_lookup net name = Some (ip # ips) \<and> list_all (\<lambda>i. \<not> refused_ip p i) (ip # ips)))"
proof -
  obtain h where h: "SplitHostPort (hostPort (rq_host r)) = Some (h, port)" "resolveDest net p h = Inr ip"
    and a: "hostAllowed p (connect_host r)"
    using t by (auto simp: handleConnect_def dialAllowed_def writeDialError_def split: if_splits option.splits sum.splits)
  have n: "h = connect_host r \<or> connect_host r = ''['' @ h @ '']''"
    using h(1) split_joined [of "rq_host r" h port]
    by (cases "SplitHostPort (rq_host r)") (auto simp: hostPort_def connect_host_def)
  show ?thesis
  proof (cases "n_parse net h")
    case None
    then have "h = connect_host r" using n brackets by blast
    moreover obtain ips where "n_lookup net h = Some (ip # ips)" "\<not> list_ex (refused_ip p) (ip # ips)"
      using h(2) None by (auto simp: resolveDest_def neq_Nil_conv split: option.splits if_splits)
    ultimately show ?thesis using a by (auto simp: list_ex_iff list_all_iff)
  next
    case (Some i)
    then have "n_parse net h = Some ip" using h(2) by (auto simp: resolveDest_def split: if_splits)
    then show ?thesis using n by blast
  qed
qed

definition sample_net :: net where
  "sample_net = \<lparr>n_parse = (\<lambda>_. None),
     n_lookup = (\<lambda>h. if h = ''api.example.com'' then Some [[93, 184, 216, 34]] else if h = ''evil.com'' then Some [[169, 254, 169, 254]] else None),
     n_connects = (\<lambda>_ _. True), n_dials = (\<lambda>_. None)\<rparr>"

definition sample_proxy :: Proxy where
  "sample_proxy = \<lparr>px_allow = [''*.Example.com''], px_deny = [''internal.example.com''], px_allowAll = False,
     px_client = ''10.0.0.7'', px_denyPrivate = False, px_allowLoopback = False, px_ready = True\<rparr>"

definition sample_request :: request where
  "sample_request = \<lparr>rq_method = ''CONNECT'', rq_url_host = ''api.example.com:443'', rq_url_path = [], rq_url = [], rq_uri = [],
     rq_host = ''api.example.com:443'', rq_remote = ''10.0.0.7:5151'', rq_header = []\<rparr>"

lemma sample_served: "ServeHTTP sample_net sample_proxy sample_request = Tunnel [93, 184, 216, 34] ''443''"
  by code_simp

lemma egress_confined_witness:
  "reached (ServeHTTP sample_net sample_proxy sample_request) = Some [93, 184, 216, 34] \<and>
   \<not> blockedIP False [93, 184, 216, 34]"
  using egress_confined [of sample_net sample_proxy sample_request "[93, 184, 216, 34]"]
  by (simp add: sample_served reached_def) (simp add: sample_proxy_def)

lemma connect_dials_checked_witness:
  "\<exists>name. (n_parse sample_net name = Some [93, 184, 216, 34] \<and>
      (name = connect_host sample_request \<or> connect_host sample_request = ''['' @ name @ '']'')) \<or>
    (name = connect_host sample_request \<and> hostAllowed sample_proxy name \<and>
     (\<exists>ips. n_lookup sample_net name = Some ([93, 184, 216, 34] # ips) \<and>
        list_all (\<lambda>i. \<not> refused_ip sample_proxy i) ([93, 184, 216, 34] # ips)))"
proof -
  have h: "connect_host sample_request = ''api.example.com''" by code_simp
  have "handleConnect sample_net sample_proxy sample_request = Tunnel [93, 184, 216, 34] ''443''" by code_simp
  then show ?thesis by (rule connect_dials_checked [rotated]) (simp add: h)
qed

end
