(* ===== verification/Mcp_Firewall.thy ===== *)
theory Mcp_Firewall
  imports Acl_Rules Go_Strings
begin

text \<open>
  mcpfw: the ruleset over tool names (mcpfw/pkg/rule/rule.go) and the gate of JSON-RPC messages
  (mcpfw/pkg/firewall/firewall.go). A message is a JSON value whose members keep their order and their duplicates, and
  it is decoded into the gate's fields as encoding/json does: a member fills the field its key names
  up to letter case, the last one wins, null changes nothing. The upstream server is an argument.
\<close>

section \<open>Rules\<close>

datatype Action = Allow | Deny | Log

record Rule =
  ru_tool :: string
  ru_action :: Action

record Decision =
  dc_allowed :: bool
  dc_logged :: bool

text \<open>What follows the first occurrence of \<open>p\<close> (\<open>strings.Index\<close>).\<close>

fun after_first :: "string \<Rightarrow> string \<Rightarrow> string option" where
  "after_first p [] = (if p = [] then Some [] else None)"
| "after_first p (x # s) = (if has_prefix (x # s) p then Some (drop (length p) (x # s)) else after_first p s)"

fun match_middle :: "string list \<Rightarrow> string \<Rightarrow> string option" where
  "match_middle [] rest = Some rest"
| "match_middle (p # ps) rest =
     (case after_first p rest of None \<Rightarrow> None | Some rest \<Rightarrow> match_middle ps rest)"

definition Match :: "string \<Rightarrow> string \<Rightarrow> bool" where
  [go_defs]: "Match pattern tool =
     (if pattern = ''*'' then True
      else if \<not> contains pattern ''*'' then pattern = tool
      else
        let parts = split_on star pattern; first = hd parts
        in if first \<noteq> [] \<and> \<not> has_prefix tool first then False
           else
             (case match_middle (butlast (tl parts)) (if first \<noteq> [] then drop (length first) tool else tool) of
                None \<Rightarrow> False
              | Some rest \<Rightarrow> if last parts \<noteq> [] then has_suffix rest (last parts) else True))"

definition decide_rule :: "string \<Rightarrow> Rule \<Rightarrow> bool \<times> bool \<times> bool \<Rightarrow> bool \<times> bool \<times> bool" where
  [go_defs]: "decide_rule tool r acc =
     (case acc of (allowed, denied, logged) \<Rightarrow>
        if \<not> Match (ru_tool r) tool then (allowed, denied, logged)
        else case ru_action r of
          Deny \<Rightarrow> (allowed, True, logged)
        | Allow \<Rightarrow> (True, denied, logged)
        | Log \<Rightarrow> (allowed, denied, True))"

definition Decide :: "Rule list \<Rightarrow> string \<Rightarrow> Decision" where
  [go_defs]: "Decide rules tool =
     (case fold (decide_rule tool) rules (False, False, False) of
        (allowed, denied, logged) \<Rightarrow> \<lparr>dc_allowed = allowed \<and> \<not> denied, dc_logged = logged\<rparr>)"

text \<open>A ruleset as it was decoded: tools and actions, both texts.\<close>

definition action_of :: "string \<Rightarrow> Action option" where
  [go_defs]: "action_of s =
     (if s = ''allow'' then Some Allow else if s = ''deny'' then Some Deny else if s = ''log'' then Some Log else None)"

datatype load_error = Unknown_Action nat string | Empty_Tool nat

fun load_rules :: "nat \<Rightarrow> (string \<times> string) list \<Rightarrow> load_error + Rule list" where
  "load_rules i [] = Inr []"
| "load_rules i ((tool, act) # rest) =
     (case action_of act of
        None \<Rightarrow> Inl (Unknown_Action i act)
      | Some a \<Rightarrow>
          if tool = [] then Inl (Empty_Tool i)
          else case load_rules (i + 1) rest of
            Inl e \<Rightarrow> Inl e
          | Inr rs \<Rightarrow> Inr (\<lparr>ru_tool = tool, ru_action = a\<rparr> # rs))"

definition Load :: "(string \<times> string) list \<Rightarrow> load_error + Rule list" where
  [go_defs]: "Load rules = load_rules 0 rules"

section \<open>Messages\<close>

datatype json =
    JNull
  | JBool bool
  | JNum string
  | JStr string
  | JArr "json list"
  | JObj "(string \<times> json) list"

text \<open>The case folding of keys: ASCII letters, the long s and the Kelvin sign.\<close>

fun fold_key :: "string \<Rightarrow> string" where
  "fold_key [] = []"
| "fold_key (c # s) =
     (if c = CHR 0xC5 \<and> take 1 s = [CHR 0xBF] then CHR ''s'' # fold_key (drop 1 s)
      else if c = CHR 0xE2 \<and> take 2 s = [CHR 0x84, CHR 0xAA] then CHR ''k'' # fold_key (drop 2 s)
      else lower_char c # fold_key s)"

definition names_field :: "string \<Rightarrow> string \<times> json \<Rightarrow> bool" where
  [go_defs]: "names_field field m = (fold_key (fst m) = fold_key field)"

text \<open>A text field and a raw field; \<open>None\<close> is an error of the decoder.\<close>

fun set_text :: "json \<Rightarrow> string option \<Rightarrow> string option" where
  "set_text (JStr s) (Some was) = Some s"
| "set_text JNull (Some was) = Some was"
| "set_text _ _ = None"

definition text_field :: "string \<Rightarrow> (string \<times> json) list \<Rightarrow> string option" where
  [go_defs]: "text_field field ms = fold (\<lambda>m. set_text (snd m)) (filter (names_field field) ms) (Some [])"

definition raw_field :: "string \<Rightarrow> (string \<times> json) list \<Rightarrow> json option" where
  [go_defs]: "raw_field field ms =
     (case filter (names_field field) ms of [] \<Rightarrow> None | x # xs \<Rightarrow> Some (snd (last (x # xs))))"

record request =
  rq_jsonrpc :: string
  rq_id :: "json option"
  rq_method :: string
  rq_params :: "json option"

definition decode_request :: "json \<Rightarrow> request option" where
  [go_defs]: "decode_request j =
     (case j of
        JObj ms \<Rightarrow>
          (case (text_field ''jsonrpc'' ms, text_field ''method'' ms) of
             (Some v, Some m) \<Rightarrow>
               Some \<lparr>rq_jsonrpc = v, rq_id = raw_field ''id'' ms, rq_method = m, rq_params = raw_field ''params'' ms\<rparr>
           | _ \<Rightarrow> None)
      | JNull \<Rightarrow> Some \<lparr>rq_jsonrpc = [], rq_id = None, rq_method = [], rq_params = None\<rparr>
      | _ \<Rightarrow> None)"

definition decode_name :: "json option \<Rightarrow> string option" where
  [go_defs]: "decode_name j =
     (case j of
        Some (JObj ms) \<Rightarrow> text_field ''name'' ms
      | Some JNull \<Rightarrow> Some []
      | _ \<Rightarrow> None)"

section \<open>The gate\<close>

record Firewall =
  fw_rules :: "Rule list"
  fw_filter :: bool

definition codeDenied :: int where [go_defs]: "codeDenied = -32000"

text \<open>\<open>%q\<close>: a string in double quotes, its quotes, backslashes and control bytes escaped. A name decoded from JSON is valid
  UTF-8; the runes beyond ASCII are left as they are (Go escapes the few of them it does not print).\<close>

definition hex_digit :: "nat \<Rightarrow> char" where
  [go_defs]: "hex_digit n = char_of (if n < 10 then 48 + n else 87 + n)"

definition quote_byte :: "char \<Rightarrow> string" where
  [go_defs]: "quote_byte c =
     (let n = (of_char c :: nat);
          letters = [(7, CHR ''a''), (8, CHR ''b''), (9, CHR ''t''), (10, CHR ''n''), (11, CHR ''v''), (12, CHR ''f''),
            (13, CHR ''r''), (34, CHR 0x22), (92, CHR 0x5C)]
      in case map_of letters n of
           Some l \<Rightarrow> [CHR 0x5C, l]
         | None \<Rightarrow> if n < 32 \<or> n = 127 then [CHR 0x5C, CHR ''x'', hex_digit (n div 16), hex_digit (n mod 16)] else [c])"

definition go_quote :: "string \<Rightarrow> string" where
  [go_defs]: "go_quote s = [CHR 0x22] @ concat (map quote_byte s) @ [CHR 0x22]"

definition denied :: "json option \<Rightarrow> string \<Rightarrow> json" where
  [go_defs]: "denied rid tool =
     JObj [(''error'', JObj [(''code'', JNum (itoa codeDenied)),
                          (''message'', JStr (''mcpfw: tool '' @ go_quote tool @ '' denied by ruleset''))]),
           (''id'', case rid of None \<Rightarrow> JNull | Some i \<Rightarrow> i),
           (''jsonrpc'', JStr ''2.0'')]"

text \<open>The names in a tools list; the entries that carry none are dropped.\<close>

definition keep_tool :: "Rule list \<Rightarrow> json \<Rightarrow> bool" where
  [go_defs]: "keep_tool rules t =
     (case decode_name (Some t) of None \<Rightarrow> False | Some name \<Rightarrow> dc_allowed (Decide rules name))"

text \<open>The result's tools, decoded into a list of raw values: null stands for none.\<close>

fun set_tools :: "json \<Rightarrow> json list option option \<Rightarrow> json list option option" where
  "set_tools (JArr ts) (Some _) = Some (Some ts)"
| "set_tools JNull (Some _) = Some None"
| "set_tools _ _ = None"

fun set_result :: "json \<Rightarrow> json list option option \<Rightarrow> json list option option" where
  "set_result (JObj ms) (Some was) = fold (\<lambda>m. set_tools (snd m)) (filter (names_field ''tools'') ms) (Some was)"
| "set_result JNull (Some was) = Some was"
| "set_result _ _ = None"

definition decode_tools :: "json \<Rightarrow> (string \<times> json option \<times> json list) option" where
  [go_defs]: "decode_tools reply =
     (case reply of
        JObj ms \<Rightarrow>
          (case (text_field ''jsonrpc'' ms, fold (\<lambda>m. set_result (snd m)) (filter (names_field ''result'') ms) (Some None)) of
             (Some v, Some (Some ts)) \<Rightarrow> Some (v, raw_field ''id'' ms, ts)
           | _ \<Rightarrow> None)
      | _ \<Rightarrow> None)"

definition filterTools :: "Rule list \<Rightarrow> json \<Rightarrow> json" where
  [go_defs]: "filterTools rules reply =
     (case decode_tools reply of
        None \<Rightarrow> reply
      | Some (v, rid, ts) \<Rightarrow>
          JObj ([(''jsonrpc'', JStr v)] @ (case rid of None \<Rightarrow> [] | Some i \<Rightarrow> [(''id'', i)]) @
                [(''result'', JObj [(''tools'', JArr (filter (keep_tool rules) ts))])]))"

datatype gate_error = Parse_Request | Parse_Params | Upstream_Failed

text \<open>
  \<open>call\<close> is the upstream over its own state. The answer carries what was logged. A reply is a JSON
  value; text that is none reaches neither decoder (\<open>filterTools\<close> returns it as it came).
\<close>

definition forward :: "('w \<Rightarrow> json \<Rightarrow> (gate_error + json) \<times> 'w) \<Rightarrow> 'w \<Rightarrow> json
    \<Rightarrow> (gate_error + json) \<times> (string \<times> bool) list \<times> 'w" where
  [go_defs]: "forward call w raw = (case call w raw of (r, w) \<Rightarrow> (r, [], w))"

definition Handle :: "('w \<Rightarrow> json \<Rightarrow> (gate_error + json) \<times> 'w) \<Rightarrow> Firewall \<Rightarrow> 'w \<Rightarrow> json
    \<Rightarrow> (gate_error + json) \<times> (string \<times> bool) list \<times> 'w" where
  [go_defs]: "Handle call fw w raw =
     (case decode_request raw of
        None \<Rightarrow> (Inl Parse_Request, [], w)
      | Some req \<Rightarrow>
          if rq_method req = ''tools/call'' then
            (case decode_name (rq_params req) of
               None \<Rightarrow> (Inl Parse_Params, [], w)
             | Some name \<Rightarrow>
                 let d = Decide (fw_rules fw) name;
                     logs = (if dc_logged d \<or> \<not> dc_allowed d then [(name, dc_allowed d)] else [])
                 in if \<not> dc_allowed d then (Inr (denied (rq_id req) name), logs, w)
                    else case call w raw of (r, w) \<Rightarrow> (r, logs, w))
          else if rq_method req = ''tools/list'' then
            (case call w raw of
               (Inl e, w) \<Rightarrow> (Inl e, [], w)
             | (Inr reply, w) \<Rightarrow> (Inr (if fw_filter fw then filterTools (fw_rules fw) reply else reply), [], w))
          else forward call w raw)"

section \<open>Properties of the rules\<close>

lemma wild_lit: "star \<notin> set a \<Longrightarrow> wild (a @ q) s \<longleftrightarrow> has_prefix s a \<and> wild q (drop (length a) s)"
proof (induction a arbitrary: s)
  case (Cons c a)
  then have c: "c \<noteq> star" "star \<notin> set a" by auto
  show ?case using Cons.IH [OF c(2)] wild_char_iff [OF c(1), of "a @ q" s] by (cases s) auto
qed simp

lemma wild_suffix: "wild (star # q) s \<longleftrightarrow> (\<exists>t. suffix t s \<and> wild q t)"
proof -
  have d: "suffix t s \<longleftrightarrow> (\<exists>i \<le> length s. t = drop i s)" for t
  proof
    assume "suffix t s"
    then obtain zs where "s = zs @ t" by (auto simp: suffix_def)
    then show "\<exists>i \<le> length s. t = drop i s" by (intro exI [of _ "length zs"]) simp
  qed (auto intro: suffix_drop)
  show ?thesis unfolding wild_drop d by blast
qed

lemma wild_end_lit: "star \<notin> set a \<Longrightarrow> wild a s \<longleftrightarrow> s = a"
proof -
  assume a: "star \<notin> set a"
  have n: "wild [] t \<longleftrightarrow> t = []" for t by (cases t) (auto intro: wild_end elim: wild_NilE)
  have "wild a s \<longleftrightarrow> has_prefix s a \<and> drop (length a) s = []"
    using wild_lit [OF a, of "[]" s] unfolding n by simp
  then show "wild a s \<longleftrightarrow> s = a" by (auto simp: prefix_def)
qed

lemma suffix_cancel: "suffix (p @ t) (p @ r) \<Longrightarrow> suffix t r"
  using suffix_length_le [of "p @ t" "p @ r"] suffix_length_suffix [of t "p @ r" r] suffix_appendD [of p t "p @ r"]
  by (simp add: suffix_def)

lemma after_first_some:
  "after_first p s = Some r \<Longrightarrow> suffix (p @ r) s \<and> (\<forall>t. suffix (p @ t) s \<longrightarrow> suffix t r)"
proof (induction p s rule: after_first.induct)
  case (1 p)
  then show ?case by (auto split: if_splits)
next
  case (2 p x s)
  show ?case
  proof (cases "has_prefix (x # s) p")
    case True
    then have r: "x # s = p @ r" using 2 by (auto simp: prefix_def)
    then show ?thesis unfolding r using suffix_cancel by blast
  next
    case False
    then have f: "after_first p s = Some r" using 2 by simp
    have "suffix (p @ t) s" if "suffix (p @ t) (x # s)" for t
      using that False by (metis prefix_def suffix_Cons)
    then show ?thesis using 2(1) [OF False f] by (auto simp: suffix_Cons)
  qed
qed

lemma after_first_none: "after_first p s = None \<Longrightarrow> \<not> suffix (p @ t) s"
proof (induction p s rule: after_first.induct)
  case (2 p x s)
  then have "\<not> has_prefix (x # s) p" "\<not> suffix (p @ t) s" by (auto split: if_splits)
  then show ?case by (metis prefix_def suffix_Cons)
qed (auto split: if_splits)

text \<open>The greedy search of the middle parts decides: what it leaves is the longest rest.\<close>

lemma middle_decides:
  assumes "list_all (\<lambda>p. star \<notin> set p) ps" "star \<notin> set l"
  shows "wild (star # join [star] (ps @ [l])) s \<longleftrightarrow>
    (case match_middle ps s of None \<Rightarrow> False | Some r \<Rightarrow> has_suffix r l)"
  using assms(1)
proof (induction ps arbitrary: s)
  case Nil
  then show ?case using wild_end_lit [OF assms(2)] by (auto simp: wild_suffix)
next
  case (Cons p ps)
  let ?q = "star # join [star] (ps @ [l])"
  have j: "join [star] ((p # ps) @ [l]) = p @ ?q" by (simp add: join_Cons)
  have mono: "suffix a b \<Longrightarrow> wild ?q a \<Longrightarrow> wild ?q b" for a b
    unfolding wild_suffix by (meson suffix_order.trans)
  have "wild (star # p @ ?q) s \<longleftrightarrow> (\<exists>r. suffix (p @ r) s \<and> wild ?q r)"
  proof -
    have "wild (p @ ?q) t \<longleftrightarrow> (\<exists>r. t = p @ r \<and> wild ?q r)" for t
      using wild_lit [of p ?q t] Cons.prems by (auto simp: prefix_def)
    then show ?thesis unfolding wild_suffix [of "p @ ?q"] by metis
  qed
  then have w: "wild (star # join [star] ((p # ps) @ [l])) s \<longleftrightarrow> (\<exists>r. suffix (p @ r) s \<and> wild ?q r)" unfolding j .
  show ?case
  proof (cases "after_first p s")
    case None
    then show ?thesis unfolding w using after_first_none by simp
  next
    case (Some r)
    note a = after_first_some [OF Some]
    have "(\<exists>r. suffix (p @ r) s \<and> wild ?q r) \<longleftrightarrow> wild ?q r" using a mono by blast
    then show ?thesis unfolding w using Some Cons by simp
  qed
qed

lemma has_suffix_Nil: "has_suffix r []"
  by simp

lemma Match_wild: "Match pattern tool \<longleftrightarrow> wild pattern tool"
proof (cases "star \<in> set pattern")
  case False
  then show ?thesis using wild_end_lit [OF False, of tool] by (auto simp: Match_def contains_char)
next
  case True
  let ?ps = "split_on star pattern"
  have l: "2 \<le> length ?ps" using True split_on_many by blast
  then obtain a m z where s: "?ps = a # m @ [z]"
    by (metis One_nat_def Suc_1 Suc_le_length_iff append_butlast_last_id length_0_conv not_one_le_zero)
  have free: "star \<notin> set a" "list_all (\<lambda>p. star \<notin> set p) m" "star \<notin> set z"
    using split_on_parts [of _ star pattern] s by (auto simp: list_all_iff)
  have p: "pattern = a @ star # join [star] (m @ [z])"
    using join_split [of star pattern] s by (simp add: join_Cons)
  have one: "pattern = ''*'' \<Longrightarrow> wild pattern tool" using wild_star_all by simp
  have "wild pattern tool \<longleftrightarrow> has_prefix tool a \<and> wild (star # join [star] (m @ [z])) (drop (length a) tool)"
    unfolding p using wild_lit [OF free(1)] by blast
  then show ?thesis
    using one middle_decides [OF free(2,3), of "drop (length a) tool"] True s
    by (auto simp: Match_def Let_def contains_char split: option.splits)
qed

text \<open>A tool pattern decides its language: a star stands for any bytes, every other byte for itself.\<close>

theorem tool_pattern_decides: "Match pattern tool \<longleftrightarrow> wild pattern tool"
  by (rule Match_wild)

text \<open>
  A tool is allowed exactly when some allow rule matches it and no deny rule does, wherever in
  the list the rules stand; a log rule changes nothing but the record.
\<close>

theorem ruleset_decides:
  "(dc_allowed (Decide rules tool) \<longleftrightarrow>
     list_ex (\<lambda>r. ru_action r = Allow \<and> wild (ru_tool r) tool) rules \<and>
     \<not> list_ex (\<lambda>r. ru_action r = Deny \<and> wild (ru_tool r) tool) rules) \<and>
   (dc_logged (Decide rules tool) \<longleftrightarrow> list_ex (\<lambda>r. ru_action r = Log \<and> wild (ru_tool r) tool) rules)"
proof -
  have "fold (decide_rule tool) rules (a, d, l) =
      (a \<or> list_ex (\<lambda>r. ru_action r = Allow \<and> wild (ru_tool r) tool) rules,
       d \<or> list_ex (\<lambda>r. ru_action r = Deny \<and> wild (ru_tool r) tool) rules,
       l \<or> list_ex (\<lambda>r. ru_action r = Log \<and> wild (ru_tool r) tool) rules)" for a d l
    by (induction rules arbitrary: a d l)
      (auto simp: decide_rule_def Match_wild split: Action.splits)
  then show ?thesis by (simp add: Decide_def)
qed

section \<open>Properties of the gate\<close>

text \<open>What a server reads of a message by exact keys: the value of the last such member.\<close>

definition member :: "string \<Rightarrow> (string \<times> json) list \<Rightarrow> json option" where
  "member k ms = map_of (rev ms) k"

definition clear_keys :: "(string \<times> json) list \<Rightarrow> bool" where
  "clear_keys ms = distinct (map (\<lambda>m. fold_key (fst m)) ms)"

lemma clear_member:
  assumes "clear_keys ms" "member k ms = Some v"
  shows "filter (names_field k) ms = [(k, v)]"
proof -
  have d: "distinct (map (\<lambda>m. fold_key (fst m)) ms)" using assms(1) by (simp add: clear_keys_def)
  have "(k, v) \<in> set ms" using assms(2) by (auto simp: member_def dest: map_of_SomeD)
  then have "(k, v) \<in> set (filter (names_field k) ms)" by (simp add: names_field_def)
  moreover have "distinct (map (\<lambda>m. fold_key (fst m)) (filter (names_field k) ms))"
    using d by (simp add: distinct_map_filter)
  moreover have "x \<in> set (filter (names_field k) ms) \<Longrightarrow> fold_key (fst x) = fold_key k" for x
    by (simp add: names_field_def)
  ultimately show ?thesis
    using same_key_one [where f = "\<lambda>m. fold_key (fst m)" and k = "fold_key k"] by blast
qed

text \<open>
  C26. A denied call never reaches the server: where no two keys of a message or of its parameters
  differ only in case, a message a server reads as a call of a tool the rules do not allow is
  answered by the gate, and the server's state is as it was.
\<close>

theorem denied_never_forwarded:
  assumes keys: "clear_keys ms" "clear_keys ps"
    and reads: "member ''method'' ms = Some (JStr ''tools/call'')" "member ''params'' ms = Some (JObj ps)"
      "member ''name'' ps = Some (JStr tool)"
    and no: "\<not> dc_allowed (Decide (fw_rules fw) tool)"
  shows "\<exists>r logs. Handle call fw w (JObj ms) = (r, logs, w) \<and>
    (r = Inl Parse_Request \<or> (\<exists>rid. r = Inr (denied rid tool)) \<and> logs = [(tool, False)])"
proof -
  have m: "text_field ''method'' ms = Some ''tools/call''" "raw_field ''params'' ms = Some (JObj ps)"
    using clear_member [OF keys(1) reads(1)] clear_member [OF keys(1) reads(2)]
    by (simp_all add: text_field_def raw_field_def)
  have n: "text_field ''name'' ps = Some tool"
    using clear_member [OF keys(2) reads(3)] by (simp add: text_field_def)
  show ?thesis
    using m n no by (cases "text_field ''jsonrpc'' ms")
      (auto simp: Handle_def decode_request_def decode_name_def Let_def)
qed

definition wary :: Firewall where
  "wary = \<lparr>fw_rules = [\<lparr>ru_tool = ''*'', ru_action = Allow\<rparr>, \<lparr>ru_tool = ''rm_*'', ru_action = Deny\<rparr>], fw_filter = True\<rparr>"

definition rm_call :: "(string \<times> json) list" where
  "rm_call = [(''jsonrpc'', JStr ''2.0''), (''id'', JNum ''7''), (''method'', JStr ''tools/call''),
     (''params'', JObj [(''name'', JStr ''rm_all'')])]"

definition count_calls :: "nat \<Rightarrow> json \<Rightarrow> (gate_error + json) \<times> nat" where
  "count_calls n j = (Inr JNull, n + 1)"

lemma denied_never_forwarded_witness:
  "\<exists>r logs. Handle count_calls wary 0 (JObj rm_call) = (r, logs, 0) \<and>
    (r = Inl Parse_Request \<or> (\<exists>rid. r = Inr (denied rid ''rm_all'')) \<and> logs = [(''rm_all'', False)])"
proof (rule denied_never_forwarded)
  show "clear_keys rm_call" "clear_keys [(''name'', JStr ''rm_all'')]" by code_simp+
  show "member ''method'' rm_call = Some (JStr ''tools/call'')"
    "member ''params'' rm_call = Some (JObj [(''name'', JStr ''rm_all'')])"
    "member ''name'' [(''name'', JStr ''rm_all'')] = Some (JStr ''rm_all'')"
    by (simp_all add: rm_call_def member_def)
  show "\<not> dc_allowed (Decide (fw_rules wary) ''rm_all'')" by code_simp
qed

text \<open>
  The gate folds the case of keys and a server need not: a message that names its method
  twice, the second time with another case, passes as what the second says whatever the rules are,
  while a server that reads exact keys reads the call of the denied tool.
\<close>

theorem folded_key_forwarded:
  "Handle call fw w (JObj (rm_call @ [(''Method'', JStr ''ping'')])) =
     (fst (call w (JObj (rm_call @ [(''Method'', JStr ''ping'')]))), [],
      snd (call w (JObj (rm_call @ [(''Method'', JStr ''ping'')])))) \<and>
   member ''method'' (rm_call @ [(''Method'', JStr ''ping'')]) = Some (JStr ''tools/call'') \<and>
   member ''params'' (rm_call @ [(''Method'', JStr ''ping'')]) = Some (JObj [(''name'', JStr ''rm_all'')])"
proof -
  have "decode_request (JObj (rm_call @ [(''Method'', JStr ''ping'')])) =
      Some \<lparr>rq_jsonrpc = ''2.0'', rq_id = Some (JNum ''7''), rq_method = ''ping'',
        rq_params = Some (JObj [(''name'', JStr ''rm_all'')])\<rparr>"
    by code_simp
  then show ?thesis by (simp add: Handle_def forward_def member_def rm_call_def split: prod.splits)
qed

text \<open>
  The list of tools a filtering gate shows holds exactly the tools the rules allow, in order;
  what is read back from the filtered reply is the same version and id.
\<close>

theorem filtered_list_exact:
  assumes "decode_tools reply = Some (v, rid, ts)"
  shows "decode_tools (filterTools rules reply) = Some (v, rid, filter (keep_tool rules) ts) \<and>
    list_all (\<lambda>t. \<exists>name. decode_name (Some t) = Some name \<and> dc_allowed (Decide rules name)) (filter (keep_tool rules) ts)"
proof -
  have "decode_tools (filterTools rules reply) = Some (v, rid, filter (keep_tool rules) ts)"
    using assms by (cases rid) (simp_all add: filterTools_def decode_tools_def text_field_def raw_field_def names_field_def lower_char_def)
  moreover have "list_all (\<lambda>t. \<exists>name. decode_name (Some t) = Some name \<and> dc_allowed (Decide rules name)) (filter (keep_tool rules) ts)"
    by (auto simp: list_all_iff keep_tool_def split: option.splits)
  ultimately show ?thesis by blast
qed

definition two_tools :: json where
  "two_tools = JObj [(''jsonrpc'', JStr ''2.0''), (''id'', JNum ''1''),
     (''result'', JObj [(''tools'', JArr [JObj [(''name'', JStr ''rm_all'')], JObj [(''name'', JStr ''ls'')]])])]"

lemma filtered_list_exact_witness:
  "decode_tools (filterTools (fw_rules wary) two_tools) = Some (''2.0'', Some (JNum ''1''), [JObj [(''name'', JStr ''ls'')]])"
proof -
  have d: "decode_tools two_tools = Some (''2.0'', Some (JNum ''1''),
      [JObj [(''name'', JStr ''rm_all'')], JObj [(''name'', JStr ''ls'')]])"
    by code_simp
  have k: "filter (keep_tool (fw_rules wary)) [JObj [(''name'', JStr ''rm_all'')], JObj [(''name'', JStr ''ls'')]] =
      [JObj [(''name'', JStr ''ls'')]]"
    by code_simp
  show ?thesis using filtered_list_exact [OF d, of "fw_rules wary"] unfolding k by blast
qed

end
