(* ===== verification/Mountsec.thy ===== *)
theory Mountsec
  imports File_Path Go_Strings
begin

text \<open>
  mountsec/mountsec.go: which host paths a container may mount besides its own, and which files a
  tool may send. The home directory and the resolution of symbolic links are the operating system's,
  and arguments here.
\<close>

definition defaultBlocked :: "string list" where
  [go_defs]: "defaultBlocked =
     [''.ssh'', ''.gnupg'', ''.gpg'', ''.aws'', ''.azure'', ''.gcloud'', ''.kube'', ''.docker'', ''credentials'',
      ''.env'', ''.netrc'', ''.npmrc'', ''.pypirc'', ''id_rsa'', ''id_ed25519'', ''private_key'', ''.secret'']"

record AllowedRoot =
  ar_path :: string
  ar_rw :: bool

record Allowlist =
  al_roots :: "AllowedRoot list"
  al_blocked :: "string list"
  al_nonMainReadOnly :: bool

record AdditionalMount =
  am_host :: string
  am_container :: string
  am_readonly :: "bool option"

record ValidMount =
  vm_host :: string
  vm_container :: string
  vm_readonly :: bool

definition expandHome :: "string \<Rightarrow> string \<Rightarrow> string" where
  [go_defs]: "expandHome home p =
     (if p = ''~'' then home else if has_prefix p ''~/'' then join_path home (drop 2 p) else p)"

definition matchesBlocked :: "string \<Rightarrow> string list \<Rightarrow> string" where
  [go_defs]: "matchesBlocked real patterns =
     (let parts = split_on slash (clean real)
      in case find (\<lambda>pat. pat \<in> set parts) patterns of None \<Rightarrow> [] | Some pat \<Rightarrow> pat)"

datatype file_error = Path_Not_Found | Root_Not_Found | Outside_Root | Blocked_Pattern string

definition ValidateFilePath :: "(string \<Rightarrow> string option) \<Rightarrow> string \<Rightarrow> string \<Rightarrow> file_error + string" where
  [go_defs]: "ValidateFilePath eval path root =
     (case eval path of
        None \<Rightarrow> Inl Path_Not_Found
      | Some real \<Rightarrow>
          (case eval root of
             None \<Rightarrow> Inl Root_Not_Found
           | Some realRoot \<Rightarrow>
               if \<not> has_prefix real (realRoot @ [slash]) then Inl Outside_Root
               else if matchesBlocked real defaultBlocked \<noteq> [] then Inl (Blocked_Pattern (matchesBlocked real defaultBlocked))
               else Inr real))"

definition under_root :: "string \<Rightarrow> string \<Rightarrow> AllowedRoot \<Rightarrow> bool" where
  [go_defs]: "under_root home cleaned r =
     (case rel_path (clean (expandHome home (ar_path r))) cleaned of
        None \<Rightarrow> False
      | Some rel \<Rightarrow> \<not> has_prefix rel ''..'' \<and> \<not> is_abs rel)"

definition findAllowedRoot :: "string \<Rightarrow> string \<Rightarrow> AllowedRoot list \<Rightarrow> AllowedRoot option" where
  [go_defs]: "findAllowedRoot home cleaned roots = find (under_root home cleaned) roots"

definition validContainerPath :: "string \<Rightarrow> bool" where
  [go_defs]: "validContainerPath p = (trim_space p \<noteq> [] \<and> \<not> contains p ''..'' \<and> \<not> has_prefix p ''/'')"

datatype mount_error =
    No_Allowlist | Not_Absolute string | Matches_Blocked string string | Not_Under_Root string | Bad_Container string

definition readonly_of :: "bool option \<Rightarrow> bool \<Rightarrow> Allowlist \<Rightarrow> AllowedRoot \<Rightarrow> bool" where
  [go_defs]: "readonly_of want isRoot al root =
     (if want = Some False then
        (if \<not> isRoot \<and> al_nonMainReadOnly al then True
         else if \<not> ar_rw root then True
         else False)
      else True)"

definition validateOne :: "string \<Rightarrow> AdditionalMount \<Rightarrow> bool \<Rightarrow> Allowlist \<Rightarrow> mount_error + ValidMount" where
  [go_defs]: "validateOne home m isRoot al =
     (if al_roots al = [] then Inl No_Allowlist
      else
        let cleaned = clean (expandHome home (am_host m))
        in if \<not> is_abs cleaned then Inl (Not_Absolute cleaned)
           else if matchesBlocked cleaned (al_blocked al) \<noteq> []
           then Inl (Matches_Blocked (matchesBlocked cleaned (al_blocked al)) cleaned)
           else case findAllowedRoot home cleaned (al_roots al) of
             None \<Rightarrow> Inl (Not_Under_Root cleaned)
           | Some root \<Rightarrow>
               let cp = (if am_container m = [] then base_name (am_host m) else am_container m)
               in if \<not> validContainerPath cp then Inl (Bad_Container cp)
                  else Inr \<lparr>vm_host = cleaned, vm_container = ''/mnt/'' @ cp,
                           vm_readonly = readonly_of (am_readonly m) isRoot al root\<rparr>)"

fun ValidateAdditionalMounts :: "string \<Rightarrow> AdditionalMount list \<Rightarrow> bool \<Rightarrow> Allowlist \<Rightarrow> ValidMount list" where
  "ValidateAdditionalMounts home [] isRoot al = []"
| "ValidateAdditionalMounts home (m # ms) isRoot al =
     (case validateOne home m isRoot al of
        Inl _ \<Rightarrow> ValidateAdditionalMounts home ms isRoot al
      | Inr v \<Rightarrow> v # ValidateAdditionalMounts home ms isRoot al)"

section \<open>Properties\<close>

lemma matches_blocked_none:
  assumes "[] \<notin> set pats"
  shows "matchesBlocked real pats = [] \<longleftrightarrow> set pats \<inter> set (split_on slash (clean real)) = {}"
proof (cases "find (\<lambda>pat. pat \<in> set (split_on slash (clean real))) pats")
  case None
  then have "set pats \<inter> set (split_on slash (clean real)) = {}" by (auto simp: find_None_iff)
  then show ?thesis using None by (simp add: matchesBlocked_def)
next
  case (Some x)
  then have "x \<in> set pats" "x \<in> set (split_on slash (clean real))" by (auto simp: find_Some_iff)
  then show ?thesis using assms Some by (auto simp: matchesBlocked_def)
qed

text \<open>A path that \<open>Rel\<close> sees below another without leaving it has its elements first.\<close>

lemma rel_inside:
  assumes r: "rel_path base targ = Some rel" and p: "\<not> has_prefix rel ''..''" and a: "is_abs base" "is_abs targ"
  shows "prefix (path_segs base) (path_segs targ)"
proof (cases "clean targ = clean base")
  case True
  then show ?thesis using a clean_eq by auto
next
  case False
  have n: "clean base \<noteq> dot" using a is_abs_clean [of base] by (auto simp: is_abs_def dot_def)
  obtain b t where bt: "strip_common (elements (clean base)) (elements (clean targ)) = (b, t)" by force
  have e: "elements (clean base) = path_segs base" "elements (clean targ) = path_segs targ"
    using elements_clean a by simp_all
  obtain c where c: "path_segs base = c @ b" "path_segs targ = c @ t"
    using strip_common_split [OF bt] e by auto
  have "b = []"
  proof (rule ccontr)
    assume "b \<noteq> []"
    then obtain x b' where "b = x # b'" by (cases b) auto
    then have "rel = join [slash] (dotdot # map (\<lambda>_. dotdot) b' @ t)"
      using r False n bt a by (auto simp: rel_path_def Let_def split: if_splits)
    then show False using p by (auto simp: join_Cons dotdot_def split: if_splits)
  qed
  then show ?thesis using c by simp
qed

text \<open>
  C27. A mount that is let through lies at or below an allowed root, element by element after
  cleaning, has no blocked element, lands below /mnt without a way up, and is writable only when it asked
  to be, its root allows it and the group may.
\<close>

theorem mount_confined:
  assumes "v \<in> set (ValidateAdditionalMounts home ms isRoot al)" and "[] \<notin> set (al_blocked al)"
    and "is_abs home" and "list_all (\<lambda>r. is_abs (expandHome home (ar_path r))) (al_roots al)"
  shows "is_abs (vm_host v) \<and> set (al_blocked al) \<inter> set (split_on slash (vm_host v)) = {} \<and>
    has_prefix (vm_container v) ''/mnt/'' \<and> \<not> contains (vm_container v) ''..'' \<and>
    (\<exists>root \<in> set (al_roots al). \<exists>m \<in> set ms.
       vm_host v = clean (expandHome home (am_host m)) \<and>
       prefix (path_segs (expandHome home (ar_path root))) (path_segs (vm_host v)) \<and>
       vm_readonly v = (\<not> (am_readonly m = Some False \<and> ar_rw root \<and> (isRoot \<or> \<not> al_nonMainReadOnly al))))"
proof -
  obtain m where m: "m \<in> set ms" "validateOne home m isRoot al = Inr v"
    using assms(1) by (induction ms) (auto split: sum.splits)
  then obtain root where root: "findAllowedRoot home (vm_host v) (al_roots al) = Some root"
    and h: "vm_host v = clean (expandHome home (am_host m))" "is_abs (vm_host v)"
      "matchesBlocked (vm_host v) (al_blocked al) = []"
    and c: "\<exists>cp. vm_container v = ''/mnt/'' @ cp \<and> validContainerPath cp"
    and ro: "vm_readonly v = readonly_of (am_readonly m) isRoot al root"
    by (auto simp: validateOne_def Let_def split: if_splits option.splits)
  have r: "root \<in> set (al_roots al)" "under_root home (vm_host v) root"
    using root by (auto simp: findAllowedRoot_def find_Some_iff)
  have ab: "is_abs (expandHome home (ar_path root))" using r(1) assms(4) by (auto simp: list_all_iff)
  have "prefix (path_segs (clean (expandHome home (ar_path root)))) (path_segs (vm_host v))"
  proof -
    obtain rel where "rel_path (clean (expandHome home (ar_path root))) (vm_host v) = Some rel" "\<not> has_prefix rel ''..''"
      using r(2) by (auto simp: under_root_def split: option.splits)
    then show ?thesis using rel_inside ab h(2) is_abs_clean by blast
  qed
  then have p: "prefix (path_segs (expandHome home (ar_path root))) (path_segs (vm_host v))" by simp
  have b: "set (al_blocked al) \<inter> set (split_on slash (vm_host v)) = {}"
    using matches_blocked_none [OF assms(2), of "vm_host v"] h by simp
  have "\<not> contains (''/mnt/'' @ cp) ''..''" if "validContainerPath cp" for cp
  proof
    assume "contains (''/mnt/'' @ cp) ''..''"
    then have "sublist ''..'' cp" by (auto simp: contains_def sublist_Cons_right)
    then show False using that by (simp add: validContainerPath_def contains_def)
  qed
  then show ?thesis using r(1) m(1) h p b c ro by (auto simp: readonly_of_def split: if_splits)
qed

text \<open>
  A file a tool may send is, with its links resolved, strictly below the resolved root, and no
  element of its path is one of the secret names.
\<close>

theorem file_confined:
  assumes "ValidateFilePath eval path root = Inr real"
  shows "\<exists>top rest. eval path = Some real \<and> eval root = Some top \<and> real = top @ slash # rest \<and>
    set defaultBlocked \<inter> set (split_on slash (clean real)) = {}"
proof -
  have "[] \<notin> set defaultBlocked" by (simp add: defaultBlocked_def)
  then show ?thesis using assms matches_blocked_none [of defaultBlocked real]
    by (auto simp: ValidateFilePath_def prefix_def split: option.splits if_splits)
qed

definition data_list :: Allowlist where
  "data_list = \<lparr>al_roots = [\<lparr>ar_path = ''~/data'', ar_rw = True\<rparr>], al_blocked = [''.ssh''], al_nonMainReadOnly = True\<rparr>"

definition data_mount :: AdditionalMount where
  "data_mount = \<lparr>am_host = ''/home/op/data/../data/set'', am_container = [], am_readonly = Some False\<rparr>"

definition data_valid :: ValidMount where
  "data_valid = \<lparr>vm_host = ''/home/op/data/set'', vm_container = ''/mnt/set'', vm_readonly = True\<rparr>"

lemma data_validated: "ValidateAdditionalMounts ''/home/op'' [data_mount] False data_list = [data_valid]"
  by code_simp

lemma mount_confined_witness:
  "is_abs (vm_host data_valid) \<and> {''.ssh''} \<inter> set (split_on slash (vm_host data_valid)) = {} \<and>
   has_prefix (vm_container data_valid) ''/mnt/''"
proof -
  have v: "data_valid \<in> set (ValidateAdditionalMounts ''/home/op'' [data_mount] False data_list)"
    unfolding data_validated by simp
  have h: "[] \<notin> set (al_blocked data_list)" "is_abs ''/home/op''"
    "list_all (\<lambda>r. is_abs (expandHome ''/home/op'' (ar_path r))) (al_roots data_list)"
    by code_simp+
  have b: "set (al_blocked data_list) = {''.ssh''}" by (simp add: data_list_def)
  show ?thesis using mount_confined [OF v h] unfolding b by blast
qed

lemma file_confined_witness:
  "\<exists>top rest. Some ''/g/acme/out.txt'' = Some ''/g/acme/out.txt'' \<and> Some ''/g/acme'' = Some top \<and>
     ''/g/acme/out.txt'' = top @ slash # rest"
proof -
  let ?eval = "\<lambda>p. if p = ''root'' then Some ''/g/acme'' else Some ''/g/acme/out.txt''"
  have "ValidateFilePath ?eval ''file'' ''root'' = Inr ''/g/acme/out.txt''" by code_simp
  from file_confined [OF this] show ?thesis by auto
qed

end
