(* ===== verification/Invite_Store.thy ===== *)
theory Invite_Store
  imports Store_Scopes Groupfolder
begin

text \<open>
  store/invites.go and store/invite_redemptions.go: invites, minted once and consumed up to their number of
  uses, and the redemptions of the invites that let a person create a folder. The hash of a bearer
  (\<open>ref_of\<close>), the parser of instants, random suffixes, the clock and the audit records are arguments; an
  instant is a count of Unix nanoseconds.
\<close>

section \<open>Invites\<close>

definition Invites :: string where [go_defs]: "Invites = ''invites''"

definition attrInvTargetGlob :: string where [go_defs]: "attrInvTargetGlob = ''target_glob''"
definition attrInvIssuedBySub :: string where [go_defs]: "attrInvIssuedBySub = ''issued_by_sub''"
definition attrInvIssuedAt :: string where [go_defs]: "attrInvIssuedAt = ''issued_at''"
definition attrInvExpiresAt :: string where [go_defs]: "attrInvExpiresAt = ''expires_at''"
definition attrInvMaxUses :: string where [go_defs]: "attrInvMaxUses = ''max_uses''"
definition attrInvUsedCount :: string where [go_defs]: "attrInvUsedCount = ''used_count''"

record Invite =
  iv_ref :: string
  iv_glob :: string
  iv_by :: string
  iv_issued :: int
  iv_expires :: "int option"
  iv_max :: int
  iv_used :: int

datatype invite_error =
    No_Ref
  | No_User
  | Bad_Glob
  | No_Issuer
  | Ref_Taken
  | Bad_Count string
  | ErrInviteUnavailable
  | ErrInviteRefUnknown
  | Bad_Position
  | Unread store_error
  | Unwritten write_error
  | Uncounted protocol_error
  | Bad_Grant store_error

definition inviteKey :: "string \<Rightarrow> invite_error + Key" where
  [go_defs]: "inviteKey ref = (if ref = [] then Inl No_Ref else Inr \<lparr>Partition = OwnerOnbod, Sort = ref\<rparr>)"

text \<open>The instant a value nobody can parse reads as: Go's zero time.\<close>

definition zero_time :: int where [go_defs]: "zero_time = - 62135596800000000000"

definition read_time :: "(string \<Rightarrow> int option) \<Rightarrow> string \<Rightarrow> int" where
  [go_defs]: "read_time parse s = (case parse s of None \<Rightarrow> zero_time | Some t \<Rightarrow> t)"

definition intAttr :: "Item \<Rightarrow> string \<Rightarrow> invite_error + int" where
  [go_defs]: "intAttr it a =
     (case i_attrs it a of
        None \<Rightarrow> Inr 0
      | Some text \<Rightarrow> (case Atoi text of None \<Rightarrow> Inl (Bad_Count a) | Some n \<Rightarrow> Inr n))"

definition inviteFrom :: "(string \<Rightarrow> int option) \<Rightarrow> Item \<Rightarrow> invite_error + Invite" where
  [go_defs]: "inviteFrom parse it =
     and_then (intAttr it attrInvMaxUses) (\<lambda>maxUses.
     and_then (intAttr it attrInvUsedCount) (\<lambda>usedCount.
       Inr \<lparr>iv_ref = Sort (i_key it), iv_glob = sent attrInvTargetGlob (i_attrs it),
            iv_by = sent attrInvIssuedBySub (i_attrs it),
            iv_issued = read_time parse (sent attrInvIssuedAt (i_attrs it)),
            iv_expires = map_option (read_time parse) (i_attrs it attrInvExpiresAt),
            iv_max = maxUses, iv_used = usedCount\<rparr>))"

definition onbodTS :: "int \<Rightarrow> string" where [go_defs]: "onbodTS t = format_utc t"

definition invite_attrs :: "Invite \<Rightarrow> attr_list" where
  [go_defs]: "invite_attrs iv =
     (let attrs = [(attrInvMaxUses, itoa (iv_max iv)), (attrInvUsedCount, itoa (iv_used iv))];
          attrs = setAttr attrs attrInvTargetGlob (iv_glob iv);
          attrs = setAttr attrs attrInvIssuedBySub (iv_by iv);
          attrs = setAttr attrs attrInvIssuedAt (onbodTS (iv_issued iv))
      in case iv_expires iv of None \<Rightarrow> attrs | Some t \<Rightarrow> AList.update attrInvExpiresAt (onbodTS t) attrs)"

definition invitePut :: "Invite \<Rightarrow> invite_error + Write" where
  [go_defs]: "invitePut iv =
     and_then (inviteKey (iv_ref iv)) (\<lambda>key. Inr ((write0 Put Invites key)\<lparr>w_attrs := invite_attrs iv\<rparr>))"

text \<open>\<open>token\<close> is the bearer drawn for the invite.\<close>

definition MintInvite ::
  "(string \<Rightarrow> string) \<Rightarrow> int \<Rightarrow> string \<Rightarrow> string \<Rightarrow> string \<Rightarrow> int \<Rightarrow> int option \<Rightarrow> invite_error + Invite \<times> string" where
  [go_defs]: "MintInvite ref_of now token targetGlob issuedBySub maxUses expiresAt =
     (if targetGlob = [] then Inl Bad_Glob
      else
        let check = (case cut_suffix targetGlob ''/'' of Some s \<Rightarrow> s | None \<Rightarrow> targetGlob);
            check = (if check = [] then ''/'' else check)
        in if check \<noteq> ''/'' \<and> \<not> IsValidFolder check then Inl Bad_Glob
           else if issuedBySub = [] then Inl No_Issuer
           else Inr (\<lparr>iv_ref = ref_of token, iv_glob = targetGlob, iv_by = issuedBySub, iv_issued = now,
                     iv_expires = expiresAt, iv_max = (if maxUses < 1 then 1 else maxUses), iv_used = 0\<rparr>, token))"

definition inviteCreateWrite :: "Invite \<Rightarrow> invite_error + Write" where
  [go_defs]: "inviteCreateWrite iv =
     and_then (invitePut iv) (\<lambda>w. Inr (w\<lparr>w_cond := \<lparr>cond_item = ItemAbsent, cond_where = []\<rparr>\<rparr>))"

definition guarded_into :: "WriteSet \<Rightarrow> write_error option \<Rightarrow> invite_error + Write \<Rightarrow> invite_error + WriteSet" where
  [go_defs]: "guarded_into s meaning rendered =
     and_then rendered (\<lambda>w. case AddGuarded s meaning w of Inl e \<Rightarrow> Inl (Unwritten e) | Inr s \<Rightarrow> Inr s)"

definition InsertInviteInto :: "WriteSet \<Rightarrow> Invite \<Rightarrow> write_error option \<Rightarrow> invite_error + WriteSet" where
  [go_defs]: "InsertInviteInto s iv meaning = guarded_into s meaning (inviteCreateWrite iv)"

text \<open>An audited write whose refusal is an answer.\<close>

definition audited ::
  "'w Store \<Rightarrow> ('w \<Rightarrow> string \<times> 'w) \<Rightarrow> 'w \<Rightarrow> invite_error + Write \<Rightarrow> Write \<Rightarrow> (invite_error + bool) \<times> 'w" where
  [go_defs]: "audited st fresh w rendered rec =
     (case rendered of
        Inl e \<Rightarrow> (Inl e, w)
      | Inr x \<Rightarrow>
          (case tryWriteAudited st fresh w (Inr [x]) rec of
             (Inl e, w) \<Rightarrow> (Inl (Unwritten e), w)
           | (Inr b, w) \<Rightarrow> (Inr b, w)))"

definition CreateInvite ::
  "'w Store \<Rightarrow> ('w \<Rightarrow> string \<times> 'w) \<Rightarrow> (string \<Rightarrow> string) \<Rightarrow> int \<Rightarrow> string \<Rightarrow> 'w \<Rightarrow> string \<Rightarrow> string \<Rightarrow> int \<Rightarrow> int option \<Rightarrow> Write
   \<Rightarrow> (invite_error + Invite \<times> string) \<times> 'w" where
  [go_defs]: "CreateInvite st fresh ref_of now token w targetGlob issuedBySub maxUses expiresAt rec =
     (case MintInvite ref_of now token targetGlob issuedBySub maxUses expiresAt of
        Inl e \<Rightarrow> (Inl e, w)
      | Inr (iv, token) \<Rightarrow>
          (case audited st fresh w (inviteCreateWrite iv) rec of
             (Inl e, w) \<Rightarrow> (Inl e, w)
           | (Inr stored, w) \<Rightarrow> (if \<not> stored then Inl Ref_Taken else Inr (iv, token), w)))"

definition readInvite ::
  "'w Store \<Rightarrow> (string \<Rightarrow> int option) \<Rightarrow> 'w \<Rightarrow> string \<Rightarrow> (invite_error + Invite) \<times> 'w" where
  [go_defs]: "readInvite st parse w ref =
     (case inviteKey ref of
        Inl e \<Rightarrow> (Inl e, w)
      | Inr key \<Rightarrow>
          (case point st w Invites key [] of
             (Inl e, w) \<Rightarrow> (Inl (Unread e), w)
           | (Inr None, w) \<Rightarrow> (Inl ErrInviteRefUnknown, w)
           | (Inr (Some it), w) \<Rightarrow> (inviteFrom parse it, w)))"

definition GetInvite ::
  "'w Store \<Rightarrow> (string \<Rightarrow> string) \<Rightarrow> (string \<Rightarrow> int option) \<Rightarrow> 'w \<Rightarrow> string \<Rightarrow> (invite_error + Invite) \<times> 'w" where
  [go_defs]: "GetInvite st ref_of parse w token = readInvite st parse w (ref_of token)"

fun invites_from :: "(string \<Rightarrow> int option) \<Rightarrow> Item list \<Rightarrow> invite_error + Invite list" where
  "invites_from parse [] = Inr []"
| "invites_from parse (it # its) =
     and_then (inviteFrom parse it) (\<lambda>iv. and_then (invites_from parse its) (\<lambda>rest. Inr (iv # rest)))"

definition ListInvites ::
  "'w Store \<Rightarrow> (string \<Rightarrow> int option) \<Rightarrow> 'w \<Rightarrow> string \<Rightarrow> (invite_error + Invite list) \<times> 'w" where
  [go_defs]: "ListInvites st parse w forIssuer =
     (let conds = (if forIssuer \<noteq> [] then [\<lparr>c_attr = attrInvIssuedBySub, c_op = Eq, c_value = forIssuer\<rparr>] else [])
      in case st_query st w ((query0 Invites OwnerOnbod)\<lparr>q_where := conds\<rparr>) of
           (Inl e, w) \<Rightarrow> (Inl (Unread e), w)
         | (Inr its, w) \<Rightarrow> (and_then (invites_from parse its) (\<lambda>invs. Inr (sort_key (\<lambda>i. - iv_issued i) invs)), w))"

definition inviteRevokeWrite :: "string \<Rightarrow> invite_error + Write" where
  [go_defs]: "inviteRevokeWrite ref =
     and_then (inviteKey ref) (\<lambda>key.
       Inr ((write0 Delete Invites key)\<lparr>w_cond := \<lparr>cond_item = ItemPresent, cond_where = []\<rparr>\<rparr>))"

definition RevokeInviteByRefInto :: "WriteSet \<Rightarrow> string \<Rightarrow> write_error option \<Rightarrow> invite_error + WriteSet" where
  [go_defs]: "RevokeInviteByRefInto s ref meaning = guarded_into s meaning (inviteRevokeWrite ref)"

definition RevokeInviteByRef ::
  "'w Store \<Rightarrow> ('w \<Rightarrow> string \<times> 'w) \<Rightarrow> 'w \<Rightarrow> string \<Rightarrow> Write \<Rightarrow> (invite_error + unit) \<times> 'w" where
  [go_defs]: "RevokeInviteByRef st fresh w ref rec =
     (case audited st fresh w (inviteRevokeWrite ref) rec of
        (Inl e, w) \<Rightarrow> (Inl e, w)
      | (Inr revoked, w) \<Rightarrow> (if \<not> revoked then Inl ErrInviteRefUnknown else Inr (), w))"

section \<open>Redemptions\<close>

definition InviteRedemptions :: string where [go_defs]: "InviteRedemptions = ''invite_redemptions''"
definition attrRedemptionGlob :: string where [go_defs]: "attrRedemptionGlob = ''target_glob''"
definition RedemptionStampWidth :: nat where [go_defs]: "RedemptionStampWidth = 30 + 1 + 8"

definition RedemptionStamp :: "string \<Rightarrow> string \<Rightarrow> string" where
  [go_defs]: "RedemptionStamp ts tail = ts @ ''-'' @ tail"

record Redemption =
  rd_glob :: string
  rd_at :: string

definition redemptionKey :: "string \<Rightarrow> string \<Rightarrow> invite_error + Key" where
  [go_defs]: "redemptionKey userSub at =
     (if userSub = [] then Inl No_User
      else if length at \<noteq> RedemptionStampWidth then Inl Bad_Position
      else Inr \<lparr>Partition = userSub, Sort = at\<rparr>)"

definition redemptionWrite :: "string \<Rightarrow> string \<Rightarrow> string \<Rightarrow> invite_error + Write" where
  [go_defs]: "redemptionWrite userSub at targetGlob =
     and_then (redemptionKey userSub at) (\<lambda>key.
       Inr ((write0 Put InviteRedemptions key)\<lparr>
         w_attrs := setAttr [] attrRedemptionGlob targetGlob,
         w_cond := \<lparr>cond_item = ItemAbsent, cond_where = []\<rparr>\<rparr>))"

definition LatestRedemption :: "'w Store \<Rightarrow> 'w \<Rightarrow> string \<Rightarrow> (invite_error + Redemption option) \<times> 'w" where
  [go_defs]: "LatestRedemption st w userSub =
     (if userSub = [] then (Inr None, w)
      else case st_query st w ((query0 InviteRedemptions userSub)\<lparr>q_descending := True, q_limit := 1\<rparr>) of
        (Inl e, w) \<Rightarrow> (Inl (Unread e), w)
      | (Inr its, w) \<Rightarrow>
          (Inr (case its of [] \<Rightarrow> None
                | it # _ \<Rightarrow> Some \<lparr>rd_glob = sent attrRedemptionGlob (i_attrs it), rd_at = Sort (i_key it)\<rparr>), w))"

definition spend_write :: "Key \<Rightarrow> Write" where
  [go_defs]: "spend_write key =
     (write0 Delete InviteRedemptions key)\<lparr>w_cond := \<lparr>cond_item = ItemPresent, cond_where = []\<rparr>\<rparr>"

definition SpendRedemption ::
  "'w Store \<Rightarrow> ('w \<Rightarrow> string \<times> 'w) \<Rightarrow> 'w \<Rightarrow> string \<Rightarrow> Redemption \<Rightarrow> (invite_error + bool) \<times> 'w" where
  [go_defs]: "SpendRedemption st fresh w userSub r =
     (case redemptionKey userSub (rd_at r) of
        Inl e \<Rightarrow> (Inl e, w)
      | Inr key \<Rightarrow>
          (case TryWriteEntities st fresh w [] [spend_write key] of
             (Inl e, w) \<Rightarrow> (Inl (Unread e), w)
           | (Inr spent, w) \<Rightarrow> (Inr spent, w)))"

definition CountRedemptions :: "'w Store \<Rightarrow> 'w \<Rightarrow> string \<Rightarrow> (invite_error + int) \<times> 'w" where
  [go_defs]: "CountRedemptions st w userSub =
     (case st_query st w (query0 InviteRedemptions userSub) of
        (Inl e, w) \<Rightarrow> (Inl (Unread e), w)
      | (Inr its, w) \<Rightarrow> (Inr (int (length its)), w))"

section \<open>Consuming an invite\<close>

definition usedCountWrite :: "Key \<Rightarrow> int \<Rightarrow> int \<Rightarrow> Write" where
  [go_defs]: "usedCountWrite key was next =
     (write0 Update Invites key)\<lparr>
       w_attrs := [(attrInvUsedCount, itoa next)],
       w_cond := \<lparr>cond_item = ItemAny, cond_where = [\<lparr>c_attr = attrInvUsedCount, c_op = Eq, c_value = itoa was\<rparr>]\<rparr>\<rparr>"

definition RestoreInvite ::
  "'w Store \<Rightarrow> widths \<Rightarrow> ('w \<Rightarrow> string \<times> 'w) \<Rightarrow> (string \<Rightarrow> string) \<Rightarrow> 'w \<Rightarrow> string \<Rightarrow> (invite_error + unit) \<times> 'w" where
  [go_defs]: "RestoreInvite st ws fresh ref_of w token =
     (case inviteKey (ref_of token) of
        Inl e \<Rightarrow> (Inl e, w)
      | Inr key \<Rightarrow>
          (case incrementEntity st ws fresh w Invites key attrInvUsedCount (-1)
                  [\<lparr>c_attr = attrInvUsedCount, c_op = Ne, c_value = ''0''\<rparr>] [] of
             (Inl e, w) \<Rightarrow> (Inl (Uncounted e), w)
           | (Inr _, w) \<Rightarrow> (Inr (), w)))"

text \<open>The writes of a claim whose invite was read: the counter, and what the invite confers. \<open>at\<close> is the
  position drawn for a redemption, \<open>stamp\<close> the time a grant is stamped with.\<close>

definition available :: "int \<Rightarrow> Invite \<Rightarrow> bool" where
  [go_defs]: "available now iv =
     (\<not> iv_used iv \<ge> iv_max iv \<and> (case iv_expires iv of None \<Rightarrow> True | Some t \<Rightarrow> t > now))"

definition conferred :: "string \<Rightarrow> string \<Rightarrow> string \<Rightarrow> bool \<Rightarrow> Invite \<Rightarrow> invite_error + Write list" where
  [go_defs]: "conferred stamp at userSub grantACL iv =
     (if has_suffix (iv_glob iv) ''/'' then
        and_then (redemptionWrite userSub at (iv_glob iv)) (\<lambda>w. Inr [w])
      else if grantACL then
        (case aclPut (aclDefaults stamp (empty_row\<lparr>Principal := userSub, Action := ''admin'', Scope := iv_glob iv,
                 Effect := ''allow'', GrantedBy := ''invite''\<rparr>)) of
           Inl e \<Rightarrow> Inl (Bad_Grant e)
         | Inr w \<Rightarrow> Inr [w])
      else Inr [])"

definition claim_set :: "Key \<Rightarrow> Invite \<Rightarrow> Write list \<Rightarrow> WriteSet" where
  [go_defs]: "claim_set key iv confer =
     \<lparr>ws_writes = usedCountWrite key (iv_used iv) (wrap64 (iv_used iv + 1)) # confer,
      ws_refused = Some (Refused ''invite unavailable'')\<rparr>"

definition consumeInvite ::
  "'w Store \<Rightarrow> ('w \<Rightarrow> string \<times> 'w) \<Rightarrow> (string \<Rightarrow> string) \<Rightarrow> (string \<Rightarrow> int option) \<Rightarrow> ('w \<Rightarrow> int) \<Rightarrow> string \<Rightarrow> string
   \<Rightarrow> 'w \<Rightarrow> string \<Rightarrow> string \<Rightarrow> bool \<Rightarrow> Write \<Rightarrow> (invite_error + Invite) \<times> 'w" where
  [go_defs]: "consumeInvite st fresh ref_of parse clock stamp at w token userSub grantACL rec =
     (if userSub = [] then (Inl No_User, w)
      else case inviteKey (ref_of token) of
        Inl e \<Rightarrow> (Inl e, w)
      | Inr key \<Rightarrow>
          (case readInvite st parse w (ref_of token) of
             (Inl e, w) \<Rightarrow> (Inl (if e = ErrInviteRefUnknown then ErrInviteUnavailable else e), w)
           | (Inr iv, w) \<Rightarrow>
               if \<not> available (clock w) iv then (Inl ErrInviteUnavailable, w)
               else case conferred stamp at userSub grantACL iv of
                 Inl e \<Rightarrow> (Inl e, w)
               | Inr confer \<Rightarrow>
                   (case Apply st fresh w (claim_set key iv confer) [rec] of
                      (Inl e, w) \<Rightarrow> (Inl (if e = Refused ''invite unavailable'' then ErrInviteUnavailable else Unwritten e), w)
                    | (Inr _, w) \<Rightarrow> (Inr (iv\<lparr>iv_used := wrap64 (iv_used iv + 1)\<rparr>), w))))"

definition ConsumeInvite ::
  "'w Store \<Rightarrow> ('w \<Rightarrow> string \<times> 'w) \<Rightarrow> (string \<Rightarrow> string) \<Rightarrow> (string \<Rightarrow> int option) \<Rightarrow> ('w \<Rightarrow> int) \<Rightarrow> string \<Rightarrow> string
   \<Rightarrow> 'w \<Rightarrow> string \<Rightarrow> string \<Rightarrow> Write \<Rightarrow> (invite_error + Invite) \<times> 'w" where
  [go_defs]: "ConsumeInvite st fresh ref_of parse clock stamp at w token userSub rec =
     consumeInvite st fresh ref_of parse clock stamp at w token userSub True rec"

definition ConsumeInviteNoGrant ::
  "'w Store \<Rightarrow> ('w \<Rightarrow> string \<times> 'w) \<Rightarrow> (string \<Rightarrow> string) \<Rightarrow> (string \<Rightarrow> int option) \<Rightarrow> ('w \<Rightarrow> int) \<Rightarrow> string \<Rightarrow> string
   \<Rightarrow> 'w \<Rightarrow> string \<Rightarrow> string \<Rightarrow> Write \<Rightarrow> (invite_error + Invite) \<times> 'w" where
  [go_defs]: "ConsumeInviteNoGrant st fresh ref_of parse clock stamp at w token userSub rec =
     consumeInvite st fresh ref_of parse clock stamp at w token userSub False rec"

end
