(* ===== verification/Store_Doors.thy ===== *)
theory Store_Doors
  imports Store_Scopes
begin

text \<open>
  What a client of the store package's doors relies on: the markers that ride along with a batch are no item of its own
  entity, so one write through a door changes one item or nothing; and what a partition scan answers. And the sweep of
  store/entities.go, which sends its writes in chunks.
\<close>

section \<open>Sweeps\<close>

text \<open>The chunks of a sweep, each committed on its own; how many writes landed, and what stopped it.\<close>

function applyChunks ::
  "('w \<Rightarrow> Write list \<Rightarrow> (store_error + bool) \<times> 'w) \<Rightarrow> 'w \<Rightarrow> Write list \<Rightarrow> nat \<Rightarrow> (nat \<times> write_error option) \<times> 'w" where
  "applyChunks commit w writes sofar =
     (if writes = [] then ((sofar, None), w)
      else
        let n = min (length writes) (MaxBatchActions - 1)
        in (case commit w (take n writes) of
              (Inl e, w) \<Rightarrow> ((sofar, Some (Door e)), w)
            | (Inr False, w) \<Rightarrow> ((sofar, Some ErrRefused), w)
            | (Inr True, w) \<Rightarrow> applyChunks commit w (drop n writes) (sofar + n)))"
  by pat_completeness auto
termination
  by (relation "measure (\<lambda>(_, _, writes, _). length writes)") (auto simp: MaxBatchActions_def)

declare applyChunks.simps [simp del]

definition applyInChunks ::
  "'w Store \<Rightarrow> ('w \<Rightarrow> string \<times> 'w) \<Rightarrow> 'w \<Rightarrow> Write list \<Rightarrow> (nat \<times> write_error option) \<times> 'w" where
  [go_defs]: "applyInChunks st fresh w writes =
     applyChunks (\<lambda>w chunk. TryWriteEntities st fresh w [] chunk) w writes 0"

section \<open>Rendered attributes\<close>

lemma update_plain: "list_all plain_attr (map fst as) \<Longrightarrow> plain_attr a \<Longrightarrow> list_all plain_attr (map fst (AList.update a v as))"
  by (simp add: update_keys del: list.pred_map)

lemma setAttr_plain: "list_all plain_attr (map fst as) \<Longrightarrow> plain_attr a \<Longrightarrow> list_all plain_attr (map fst (setAttr as a v))"
  by (simp add: setAttr_def update_plain)

lemma setAttr_distinct: "distinct (map fst as) \<Longrightarrow> distinct (map fst (setAttr as a v))"
  by (simp add: setAttr_def distinct_update)

lemma setAttr_at: "map_of (setAttr as a v) b = (if b = a \<and> v \<noteq> [] then Some v else map_of as b)"
  by (simp add: setAttr_def update_conv')

section \<open>Through a door\<close>

text \<open>A draw of a version leaves the store as it is.\<close>

definition keeps_view :: "('w \<Rightarrow> item_map) \<Rightarrow> ('w \<Rightarrow> string \<times> 'w) \<Rightarrow> bool" where
  "keeps_view view fresh \<longleftrightarrow> (\<forall>w. view (snd (fresh w)) = view w)"

definition marker_writes :: "Write list \<Rightarrow> bool" where
  "marker_writes bs \<longleftrightarrow> list_all plain_write bs \<and> list_all (\<lambda>x. w_entity x = ScopeEntity) bs"

lemma bumps_markers: "bumps_for fresh w os = (bs, w') \<Longrightarrow> marker_writes bs"
  by (induction os arbitrary: w bs)
    (auto simp: marker_writes_def Bump_def bump_write_def plain_write_def plain_cond_def write0_def OwnerScope_def
      no_cond_def markerVersion_def plain_attr_def partAttr_def sortAttr_def openAttr_def split: prod.splits)

lemma bumps_update: "bumps_for fresh w os = (bs, w') \<Longrightarrow> list_all (\<lambda>y. w_op y = Update) bs"
  by (induction os arbitrary: w bs) (auto simp: Bump_def bump_write_def write0_def split: prod.splits)

lemma bumps_keep: "keeps_view view fresh \<Longrightarrow> bumps_for fresh w os = (bs, w') \<Longrightarrow> view w' = view w"
  by (induction os arbitrary: w bs) (auto simp: keeps_view_def Bump_def split: prod.splits, metis snd_conv)

lemma marker_beside: "marker_writes bs \<Longrightarrow> ent \<noteq> ScopeEntity \<Longrightarrow> list_all plain_write bs \<and> list_all (\<lambda>x. w_entity x \<noteq> ent) bs"
  by (auto simp: marker_writes_def list_all_iff)

lemma door_batch:
  assumes f: "keeps_view view fresh" and t: "TryWriteEntities st fresh w checks wrs = (r, w')"
  shows "\<exists>bs v. marker_writes bs \<and> view v = view w \<and> st_batch st v checks (wrs @ bs) = (r, w')"
proof -
  obtain bs v where b: "bumps_for fresh w (owners_of wrs) = (bs, v)" by force
  have "st_batch st v checks (wrs @ bs) = (r, w')" using t b by (simp add: TryWriteEntities_def withBumps_def scopeBumps_def)
  then show ?thesis using bumps_markers [OF b] bumps_keep [OF f b] by blast
qed

text \<open>The marker of an entity's owner is there.\<close>

definition scoped :: "item_map \<Rightarrow> string \<Rightarrow> bool" where
  "scoped db ent \<longleftrightarrow> (case EntityScope ent of None \<Rightarrow> True | Some sc \<Rightarrow> db (coord_of (sp_entity sc) (sp_key sc)) \<noteq> None)"

context object_store
begin

lemma door_one:
  assumes p: "plain_items (view w)" and f: "keeps_view view fresh" and x: "plain_write x" "w_entity x \<noteq> ScopeEntity"
    and b: "TryWriteEntities st fresh w [] [x] = (r, w')"
  shows "plain_items (view w') \<and>
    ((\<forall>k. view w' (coord_of (w_entity x) k) = view w (coord_of (w_entity x) k)) \<and> r \<noteq> Inr True \<or>
     write_ok x (view w (place_of x)) \<and> view w' (place_of x) = written x (view w (place_of x)) \<and>
     (\<forall>k. coord_of (w_entity x) k \<noteq> place_of x \<longrightarrow> view w' (coord_of (w_entity x) k) = view w (coord_of (w_entity x) k)))"
proof -
  obtain bs v where bs: "marker_writes bs" "view v = view w" "st_batch st v [] (x # bs) = (r, w')"
    using door_batch [OF f b] by auto
  have pv: "plain_items (view v)" using p bs(2) by simp
  show ?thesis using one_among [OF pv x(1) refl conjunct1 conjunct2 bs(3)] marker_beside [OF bs(1)] x(2)
    unfolding bs(2) by blast
qed

text \<open>Where the marker of the written entity is there, a refusal is the write's own condition; and markers stay.\<close>

lemma door_refused:
  assumes p: "plain_items (view w)" and f: "keeps_view view fresh" and x: "plain_write x"
    and m: "scoped (view w) (w_entity x)" and b: "TryWriteEntities st fresh w [] [x] = (Inr False, w')"
  shows "\<not> write_ok x (view w (place_of x))"
proof
  assume ok: "write_ok x (view w (place_of x))"
  obtain bs v where bs: "bumps_for fresh w (owners_of [x]) = (bs, v)" by force
  have e: "bs = (case scopedEntities (w_entity x) of None \<Rightarrow> [] | Some ow \<Rightarrow> [bump_write (OwnerScope ow) (fst (fresh w))])"
    using bs by (auto simp: owners_of_def List.map_filter_def Bump_def split: option.splits prod.splits)
  have "list_all (\<lambda>y. write_ok y (view w (place_of y))) bs"
    using m by (auto simp: e scoped_def EntityScope_def write_ok_def cond_ok_def bump_write_def write0_def no_cond_def place_of_def
        split: option.splits)
  then have g: "batch_ok (view v) [] (x # bs)" using ok bumps_keep [OF f bs] by (simp add: batch_ok_def)
  have "plain_batch [] (x # bs)" using x bumps_markers [OF bs] by (simp add: plain_batch_def marker_writes_def)
  moreover have "plain_items (view v)" using p bumps_keep [OF f bs] by simp
  moreover have "st_batch st v [] (x # bs) = (Inr False, w')"
    using b bs by (simp add: TryWriteEntities_def withBumps_def scopeBumps_def)
  ultimately show False using refused g by blast
qed

lemma door_scoped:
  assumes p: "plain_items (view w)" and f: "keeps_view view fresh" and x: "plain_write x" "w_entity x \<noteq> ScopeEntity"
    and m: "scoped (view w) ent" and b: "TryWriteEntities st fresh w [] [x] = (r, w')"
  shows "scoped (view w') ent"
proof (cases "EntityScope ent")
  case None
  then show ?thesis by (simp add: scoped_def)
next
  case (Some sc)
  obtain bs v where bs: "bumps_for fresh w (owners_of [x]) = (bs, v)" by force
  note up = bumps_update [OF bs]
  have e: "sp_entity sc = ScopeEntity" using Some by (auto simp: EntityScope_def OwnerScope_def)
  have stays: "db c \<noteq> None \<Longrightarrow> batch_effect db ys c \<noteq> None" if "list_all (\<lambda>y. w_op y = Update) ys" for db c ys
    using that by (induction ys arbitrary: db) (auto simp: written_def)
  have "plain_batch [] (x # bs)" using x bumps_markers [OF bs] by (simp add: plain_batch_def marker_writes_def)
  moreover have pv: "plain_items (view v)" "view v = view w" using p bumps_keep [OF f bs] by simp_all
  moreover have "st_batch st v [] (x # bs) = (r, w')"
    using b bs by (simp add: TryWriteEntities_def withBumps_def scopeBumps_def)
  ultimately have o: "view w' = view w \<or> view w' = batch_effect (view w) (x # bs)" using batch_outcome [of v] by metis
  have "place_of x \<noteq> coord_of (sp_entity sc) (sp_key sc)" using x(2) by (simp add: place_of_def coord_of_def e)
  then have "batch_effect (view w) (x # bs) (coord_of (sp_entity sc) (sp_key sc)) \<noteq> None"
    using stays [OF up] m Some by (simp add: scoped_def)
  then show ?thesis using o m Some by (auto simp: scoped_def)
qed

text \<open>What a scan of a partition answers, whole items and no limit.\<close>

lemma scan:
  assumes p: "plain_items (view w)" and q: "plain_query q" "q_limit q = 0" "q_project q = []"
    and r: "st_query st w q = (Inr its, w')"
  shows "distinct (map i_key its) \<and> view w' = view w \<and>
    (\<forall>it. it \<in> set its \<longleftrightarrow> picks q it \<and> view w (coord_of (q_entity q) (i_key it)) = Some (i_attrs it))"
proof -
  obtain rows where l: "lists (view w) (q_entity q) rows" and s: "its = selected q rows"
    using answers [OF p q(1) r] by blast
  have i: "its = filter (picks q) (ordered (q_descending q) rows)"
    using q by (simp add: s selected_def limited_def projected_def [abs_def])
  have d: "distinct (map i_key (ordered (q_descending q) rows))" and e: "set (ordered (q_descending q) rows) = set rows"
    using l by (auto simp: lists_def ordered_def distinct_map Let_def)
  have same: "x = y" if "i_key x = i_key y" "i_attrs x = i_attrs y" for x y :: Item
    using that by (cases x; cases y) simp
  have mem: "it \<in> set rows \<longleftrightarrow> view w (coord_of (q_entity q) (i_key it)) = Some (i_attrs it)" for it
  proof -
    have "(\<exists>x \<in> set rows. i_key x = i_key it \<and> i_attrs x = i_attrs it) \<longleftrightarrow>
        view w (coord_of (q_entity q) (i_key it)) = Some (i_attrs it)" using l unfolding lists_def by blast
    then show ?thesis using same [of _ it] by blast
  qed
  show ?thesis unfolding i using looks [OF r] distinct_map_filter [OF d] by (simp add: e mem conj_commute)
qed

end

end
