(* ===== verification/Invite_Race.thy ===== *)
theory Invite_Race
  imports Invite_Store Store_Doors
begin

text \<open>
  Redemptions that run at the same time. Each call of consumeInvite reads the invite, decides, and
  writes a batch conditioned on the count it read; a failed grant gives a use back. Any number of
  calls interleave here with mints, revocations and other writers, and any store request or answer
  may be lost.
\<close>

section \<open>The steps\<close>

text \<open>The widths the program declares for invites (store/invites.go, init).\<close>

definition invite_widths :: widths where
  [go_defs]: "invite_widths = [(Invites, attrInvIssuedAt) \<mapsto> \<lparr>r_width = 20, r_lead = False\<rparr>,
     (Invites, attrInvExpiresAt) \<mapsto> \<lparr>r_width = 20, r_lead = False\<rparr>]"

definition invite_at :: "string \<Rightarrow> coord" where
  [go_defs]: "invite_at ref = (Invites, OwnerOnbod, ref)"

datatype redeemer = Looking | Claiming Invite | Returning string string int

record 'w redeeming =
  ir_world :: 'w
  ir_phase :: "nat \<Rightarrow> redeemer"
  ir_max :: "string \<Rightarrow> int"
  ir_won :: "string list"
  ir_returned :: "string list"

text \<open>What rides along: no invite.\<close>

definition aside :: "Write list \<Rightarrow> bool" where
  "aside wrs \<longleftrightarrow> list_all plain_write wrs \<and> list_all (\<lambda>x. w_entity x \<noteq> Invites) wrs"

text \<open>\<open>ir_max\<close> is the number of uses of each invite that was minted, 0 where none was; a bearer is
  never drawn twice. \<open>ir_won\<close> are the redemptions that succeeded and \<open>ir_returned\<close> the attempts to give a use
  back, by the invite's ref.\<close>

inductive redeem_step ::
  "'w Store \<Rightarrow> (string \<Rightarrow> string) \<Rightarrow> (string \<Rightarrow> int option) \<Rightarrow> 'w redeeming \<Rightarrow> 'w redeeming \<Rightarrow> bool"
  for st ref_of parse where
  mint: "MintInvite ref_of now token g by mx ex = Inr (iv, token) \<Longrightarrow> mx < 2 ^ 63 \<Longrightarrow> ir_max R (iv_ref iv) = 0 \<Longrightarrow>
    inviteCreateWrite iv = Inr x \<Longrightarrow> aside rest \<Longrightarrow> st_batch st (ir_world R) [] (x # rest) = (r, w) \<Longrightarrow>
    redeem_step st ref_of parse R (R\<lparr>ir_world := w, ir_max := (ir_max R)(iv_ref iv := iv_max iv)\<rparr>)"
| look: "readInvite st parse (ir_world R) (ref_of token) = (Inr iv, w) \<Longrightarrow> available now iv \<Longrightarrow>
    redeem_step st ref_of parse R (R\<lparr>ir_world := w, ir_phase := (ir_phase R)(i := Claiming iv)\<rparr>)"
| claim: "ir_phase R i = Claiming iv \<Longrightarrow> inviteKey (iv_ref iv) = Inr key \<Longrightarrow>
    conferred stamp at user grant iv = Inr confer \<Longrightarrow> aside rest \<Longrightarrow>
    st_batch st (ir_world R) [] (ws_writes (claim_set key iv confer) @ rest) = (r, w) \<Longrightarrow>
    redeem_step st ref_of parse R
      (R\<lparr>ir_world := w, ir_phase := (ir_phase R)(i := Looking),
         ir_won := (if r = Inr True then iv_ref iv # ir_won R else ir_won R)\<rparr>)"
| read_count: "inviteKey ref = Inr key \<Longrightarrow> counter_read st (ir_world R) Invites key attrInvUsedCount = (Inr (was, n), w) \<Longrightarrow>
    redeem_step st ref_of parse R (R\<lparr>ir_world := w, ir_phase := (ir_phase R)(i := Returning ref was n)\<rparr>)"
| give_back: "ir_phase R i = Returning ref was n \<Longrightarrow> inviteKey ref = Inr key \<Longrightarrow> aside rest \<Longrightarrow>
    st_batch st (ir_world R) []
      (counter_write Invites key attrInvUsedCount was (counter_text invite_widths Invites attrInvUsedCount (wrap64 (n + -1)))
         [\<lparr>c_attr = attrInvUsedCount, c_op = Ne, c_value = ''0''\<rparr>] # rest) = (r, w) \<Longrightarrow>
    redeem_step st ref_of parse R
      (R\<lparr>ir_world := w, ir_phase := (ir_phase R)(i := Looking), ir_returned := ref # ir_returned R\<rparr>)"
| revoke: "inviteRevokeWrite ref = Inr x \<Longrightarrow> aside rest \<Longrightarrow> st_batch st (ir_world R) [] (x # rest) = (r, w) \<Longrightarrow>
    redeem_step st ref_of parse R (R\<lparr>ir_world := w\<rparr>)"
| others: "aside wrs \<Longrightarrow> st_batch st (ir_world R) [] wrs = (r, w) \<Longrightarrow>
    redeem_step st ref_of parse R (R\<lparr>ir_world := w\<rparr>)"
| drop_out: "redeem_step st ref_of parse R (R\<lparr>ir_phase := (ir_phase R)(i := Looking)\<rparr>)"

section \<open>The invariant\<close>

text \<open>How often a ref stands in a log.\<close>

abbreviation times :: "string list \<Rightarrow> string \<Rightarrow> int" where
  "times log ref \<equiv> int (count_list log ref)"

definition counted :: "int \<Rightarrow> int \<Rightarrow> attrs option \<Rightarrow> bool" where
  "counted mx owed item \<longleftrightarrow>
     (case item of
        None \<Rightarrow> True
      | Some m \<Rightarrow> (\<exists>U. m attrInvMaxUses = Some (itoa mx) \<and> m attrInvUsedCount = Some (itoa U) \<and> 0 \<le> U \<and> U \<le> mx \<and> owed \<le> U))"

definition redeemer_ok :: "(string \<Rightarrow> int) \<Rightarrow> redeemer \<Rightarrow> bool" where
  "redeemer_ok mx p \<longleftrightarrow>
     (case p of
        Looking \<Rightarrow> True
      | Claiming iv \<Rightarrow> iv_max iv = mx (iv_ref iv) \<and> 0 \<le> iv_used iv \<and> iv_used iv < iv_max iv
      | Returning ref was n \<Rightarrow> Atoi was = Some n)"

definition redeem_inv :: "('w \<Rightarrow> item_map) \<Rightarrow> 'w redeeming \<Rightarrow> bool" where
  "redeem_inv view R \<longleftrightarrow> plain_items (view (ir_world R)) \<and>
     (\<forall>ref. 0 \<le> ir_max R ref \<and> ir_max R ref < 2 ^ 63 \<and>
        times (ir_won R) ref \<le> ir_max R ref + times (ir_returned R) ref \<and>
        counted (ir_max R ref) (times (ir_won R) ref - times (ir_returned R) ref) (view (ir_world R) (invite_at ref)) \<and>
        (ir_max R ref = 0 \<longrightarrow> view (ir_world R) (invite_at ref) = None)) \<and>
     (\<forall>i. redeemer_ok (ir_max R) (ir_phase R i))"

lemma inv_attrs [simp]:
  "plain_attr attrInvMaxUses" "plain_attr attrInvUsedCount" "plain_attr attrInvTargetGlob" "plain_attr attrInvIssuedBySub"
  "plain_attr attrInvIssuedAt" "plain_attr attrInvExpiresAt" "plain_attr attrRedemptionGlob"
  "attrInvMaxUses \<noteq> attrInvUsedCount" "attrInvUsedCount \<noteq> attrInvMaxUses"
  by (simp_all add: plain_attr_def partAttr_def sortAttr_def openAttr_def attrInvMaxUses_def attrInvUsedCount_def
      attrInvTargetGlob_def attrInvIssuedBySub_def attrInvIssuedAt_def attrInvExpiresAt_def attrRedemptionGlob_def)

lemma invite_at_inj [simp]: "invite_at a = invite_at b \<longleftrightarrow> a = b"
  by (simp add: invite_at_def)

lemma key_place: "inviteKey ref = Inr key \<Longrightarrow> coord_of Invites key = invite_at ref"
  by (auto simp: inviteKey_def invite_at_def coord_of_def split: if_splits)

lemma aside_places: "aside wrs \<Longrightarrow> x \<in> set wrs \<Longrightarrow> place_of x \<noteq> invite_at ref"
  by (auto simp: aside_def list_all_iff place_of_def coord_of_def invite_at_def)

lemma itoa_inj: "- (2 ^ 63) \<le> a \<Longrightarrow> a < 2 ^ 63 \<Longrightarrow> - (2 ^ 63) \<le> b \<Longrightarrow> b < 2 ^ 63 \<Longrightarrow> itoa a = itoa b \<longleftrightarrow> a = b"
  by (metis Atoi_itoa option.inject)

lemma wrap64_id: "- (2 ^ 63) \<le> n \<Longrightarrow> n < 2 ^ 63 \<Longrightarrow> wrap64 n = n"
  by (simp add: wrap64_def)

text \<open>What a claim confers is beside the invites.\<close>

lemma conferred_aside:
  assumes "conferred stamp at user grant iv = Inr confer"
  shows "aside confer"
proof -
  have r: "aside [x]" if "redemptionWrite user at g = Inr x" for g x
    using that by (auto simp: redemptionWrite_def redemptionKey_def aside_def plain_write_def plain_cond_def write0_def
        setAttr_def InviteRedemptions_def Invites_def and_then_def split: if_splits)
  have a: "aside [x]" if "aclPut row = Inr x" for row x
    using that
    by (auto simp: aclPut_def aside_def plain_write_def plain_cond_def no_cond_def write0_def aclAttrs_def setAttr_def ACL_def Invites_def
        attrACLGrantOption_def attrACLGrantedBy_def attrACLGrantedAt_def plain_attr_def partAttr_def sortAttr_def openAttr_def Let_def
        split: if_splits sum.splits)
  show ?thesis
    using assms r a by (auto simp: conferred_def and_then_def aside_def split: if_splits sum.splits)
qed

context object_store
begin

text \<open>A batch that writes one invite, and a batch that writes none.\<close>

lemma one_invite:
  assumes p: "plain_items (view w)" and x: "plain_write x" "place_of x = invite_at ref" and a: "aside rest"
    and b: "st_batch st w [] (x # rest) = (r, w')"
  shows "plain_items (view w') \<and>
    ((\<forall>k. view w' (invite_at k) = view w (invite_at k)) \<and> r \<noteq> Inr True \<or>
     write_ok x (view w (invite_at ref)) \<and>
     (\<forall>k. view w' (invite_at k) = (if k = ref then written x (view w (invite_at ref)) else view w (invite_at k))))"
proof -
  have e: "w_entity x = Invites" using x(2) by (auto simp: place_of_def coord_of_def invite_at_def)
  have k: "invite_at k = coord_of Invites \<lparr>Partition = OwnerOnbod, Sort = k\<rparr>" for k by (simp add: invite_at_def coord_of_def)
  have "list_all plain_write rest" "list_all (\<lambda>x. w_entity x \<noteq> Invites) rest" using a by (simp_all add: aside_def)
  note o = one_among [OF p x(1) e this b, unfolded x(2)]
  have i: "(\<forall>k. view w' (coord_of Invites k) = view w (coord_of Invites k)) \<Longrightarrow> view w' (invite_at k) = view w (invite_at k)" for k
    unfolding k by blast
  have j: "(\<forall>k. coord_of Invites k \<noteq> invite_at ref \<longrightarrow> view w' (coord_of Invites k) = view w (coord_of Invites k)) \<Longrightarrow>
      k \<noteq> ref \<Longrightarrow> view w' (invite_at k) = view w (invite_at k)" for k
    using invite_at_inj [of k ref] unfolding k by blast
  show ?thesis using o i j by (metis (no_types, lifting))
qed

lemma no_invite:
  assumes p: "plain_items (view w)" and a: "aside wrs" and b: "st_batch st w [] wrs = (r, w')"
  shows "plain_items (view w') \<and> (\<forall>k. view w' (invite_at k) = view w (invite_at k))"
proof -
  have k: "invite_at k = coord_of Invites \<lparr>Partition = OwnerOnbod, Sort = k\<rparr>" for k by (simp add: invite_at_def coord_of_def)
  show ?thesis using none_among [OF p _ _ b, of Invites] a by (simp add: aside_def k)
qed

end

section \<open>Every step keeps it\<close>

lemma minted:
  assumes "MintInvite ref_of now token g by mx ex = Inr (iv, tok)" "mx < 2 ^ 63" "inviteCreateWrite iv = Inr x"
  shows "0 < iv_max iv \<and> iv_max iv < 2 ^ 63 \<and> iv_used iv = 0 \<and> plain_write x \<and> place_of x = invite_at (iv_ref iv) \<and>
    (\<exists>m. written x None = Some m \<and> m attrInvMaxUses = Some (itoa (iv_max iv)) \<and> m attrInvUsedCount = Some (itoa 0)) \<and>
    (write_ok x n \<longrightarrow> n = None)"
proof -
  have u: "iv_used iv = 0" "0 < iv_max iv" "iv_max iv < 2 ^ 63"
    using assms(1,2) by (auto simp: MintInvite_def Let_def split: if_splits option.splits)
  obtain key where k: "inviteKey (iv_ref iv) = Inr key"
    and x: "x = (write0 Put Invites key)\<lparr>w_attrs := invite_attrs iv, w_cond := \<lparr>cond_item = ItemAbsent, cond_where = []\<rparr>\<rparr>"
    using assms(3) by (auto simp: inviteCreateWrite_def invitePut_def and_then_def split: sum.splits)
  have n: "list_all plain_attr (map fst (invite_attrs iv))"
    unfolding invite_attrs_def Let_def
    by (auto simp: update_plain setAttr_plain simp del: AList.update.simps list.pred_map split: option.splits)
  have m: "map_of (invite_attrs iv) attrInvMaxUses = Some (itoa (iv_max iv))"
    "map_of (invite_attrs iv) attrInvUsedCount = Some (itoa (iv_used iv))"
    by (auto simp: invite_attrs_def Let_def setAttr_def update_conv attrInvMaxUses_def attrInvUsedCount_def
        attrInvTargetGlob_def attrInvIssuedBySub_def attrInvIssuedAt_def attrInvExpiresAt_def
        simp del: AList.update.simps split: option.splits)
  have d: "distinct (map fst (invite_attrs iv))"
    unfolding invite_attrs_def Let_def setAttr_def
    by (auto simp: distinct_update simp del: AList.update.simps split: option.splits)
  have w: "plain_write x" "place_of x = invite_at (iv_ref iv)"
    using d n key_place [OF k] by (simp_all add: x plain_write_def plain_cond_def write0_def place_of_def)
  have wr: "written x None = Some (map_of (invite_attrs iv))" by (simp add: x written_def write0_def)
  have "write_ok x n \<longrightarrow> n = None" by (simp add: x write_ok_def cond_ok_def write0_def)
  then show ?thesis using u w m unfolding wr by simp
qed

lemma read_counts:
  assumes "inviteFrom parse it = Inr iv" "i_attrs it attrInvMaxUses = Some (itoa M)" "i_attrs it attrInvUsedCount = Some (itoa U)"
    "0 \<le> U" "U \<le> M" "M < 2 ^ 63"
  shows "iv_ref iv = Sort (i_key it) \<and> iv_max iv = M \<and> iv_used iv = U"
proof -
  have "Atoi (itoa M) = Some M" "Atoi (itoa U) = Some U" using assms(4-6) by (auto intro!: Atoi_itoa)
  then show ?thesis using assms(1-3) by (auto simp: inviteFrom_def intAttr_def)
qed

lemma used_write:
  assumes "inviteKey ref = Inr key"
  shows "plain_write (usedCountWrite key was nxt) \<and> place_of (usedCountWrite key was nxt) = invite_at ref"
  using key_place [OF assms] by (simp add: usedCountWrite_def plain_write_def plain_cond_def write0_def place_of_def)

lemma back_write:
  assumes "inviteKey ref = Inr key"
  shows "plain_write (counter_write Invites key attrInvUsedCount was text [\<lparr>c_attr = attrInvUsedCount, c_op = Ne, c_value = ''0''\<rparr>]) \<and>
    place_of (counter_write Invites key attrInvUsedCount was text [\<lparr>c_attr = attrInvUsedCount, c_op = Ne, c_value = ''0''\<rparr>]) = invite_at ref"
  using key_place [OF assms] by (simp add: counter_write_def plain_write_def plain_cond_def write0_def place_of_def)

text \<open>A claim that is let through moves the count of the invite it read by one, within its bound.\<close>

lemma claim_counts:
  assumes ok: "write_ok (usedCountWrite key u (wrap64 (u + 1))) item" and c: "counted M owed item"
    and u: "0 \<le> u" "u < M" "M < 2 ^ 63"
  shows "counted M (owed + 1) (written (usedCountWrite key u (wrap64 (u + 1))) item)"
proof -
  obtain m where m: "item = Some m" using ok by (cases item) (auto simp: write_ok_def usedCountWrite_def write0_def)
  then obtain U where U: "m attrInvMaxUses = Some (itoa M)" "m attrInvUsedCount = Some (itoa U)" "0 \<le> U" "U \<le> M" "owed \<le> U"
    using c by (auto simp: counted_def)
  have "itoa U = itoa u"
    using ok m U(2) by (auto simp: write_ok_def cond_ok_def usedCountWrite_def write0_def cmp_match_def attrs_of_def cmp_eval_def)
  then have "U = u" using itoa_inj [of U u] U u by simp
  then show ?thesis using m U u wrap64_id [of "u + 1"]
    by (auto simp: counted_def written_def usedCountWrite_def write0_def merged_def attrs_of_def)
qed

lemma back_counts:
  assumes ok: "write_ok (counter_write Invites key attrInvUsedCount was (itoa (wrap64 (n + -1)))
      [\<lparr>c_attr = attrInvUsedCount, c_op = Ne, c_value = ''0''\<rparr>]) item"
    and c: "counted M owed item" and n: "Atoi was = Some n" and M: "M < 2 ^ 63"
  shows "counted M (owed - 1) (written (counter_write Invites key attrInvUsedCount was (itoa (wrap64 (n + -1)))
      [\<lparr>c_attr = attrInvUsedCount, c_op = Ne, c_value = ''0''\<rparr>]) item)"
proof -
  obtain m where m: "item = Some m" using ok by (cases item) (auto simp: write_ok_def counter_write_def write0_def)
  then obtain U where U: "m attrInvMaxUses = Some (itoa M)" "m attrInvUsedCount = Some (itoa U)" "0 \<le> U" "U \<le> M" "owed \<le> U"
    using c by (auto simp: counted_def)
  have e: "was = itoa U" "itoa U \<noteq> ''0''"
    using ok m U(2) by (auto simp: write_ok_def cond_ok_def counter_write_def write0_def cmp_match_def attrs_of_def cmp_eval_def)
  have z: "itoa 0 = ''0''" by code_simp
  have "U = n" using n e(1) Atoi_itoa [of U] U M by simp
  moreover have "U \<noteq> 0" using e(2) z by auto
  ultimately show ?thesis using m U M wrap64_id [of "U - 1"]
    by (auto simp: counted_def written_def counter_write_def write0_def merged_def attrs_of_def)
qed

context object_store
begin

lemma redeem_keeps:
  assumes s: "redeem_step st ref_of parse R T" and v: "redeem_inv view R"
  shows "redeem_inv view T"
proof -
  let ?db = "view (ir_world R)"
  have p: "plain_items ?db" and ph: "\<And>i. redeemer_ok (ir_max R) (ir_phase R i)"
    and all: "\<And>k. 0 \<le> ir_max R k \<and> ir_max R k < 2 ^ 63 \<and> times (ir_won R) k \<le> ir_max R k + times (ir_returned R) k \<and>
        counted (ir_max R k) (times (ir_won R) k - times (ir_returned R) k) (?db (invite_at k)) \<and>
        (ir_max R k = 0 \<longrightarrow> ?db (invite_at k) = None)"
    using v by (simp_all add: redeem_inv_def)
  from s show ?thesis
  proof cases
    case (mint now token g by' mx ex iv x rest r w)
    note m = minted [OF mint(2,3,5)]
    have none: "?db (invite_at (iv_ref iv)) = None" using all mint(4) by blast
    have w0: "times (ir_won R) (iv_ref iv) \<le> times (ir_returned R) (iv_ref iv)" using all [of "iv_ref iv"] mint(4) by simp
    note o = one_invite [OF p _ _ mint(6,7), of "iv_ref iv"]
    have cnt: "counted (iv_max iv) (times (ir_won R) (iv_ref iv) - times (ir_returned R) (iv_ref iv)) (view w (invite_at (iv_ref iv)))"
    proof -
      obtain a where a: "written x None = Some a" "a attrInvMaxUses = Some (itoa (iv_max iv))" "a attrInvUsedCount = Some (itoa 0)"
        using m by blast
      have "counted (iv_max iv) (times (ir_won R) (iv_ref iv) - times (ir_returned R) (iv_ref iv)) (written x None)"
        using a conjunct1 [OF m] w0 by (simp add: counted_def) (intro exI [of _ 0], simp)
      moreover have "view w (invite_at (iv_ref iv)) = None \<or> view w (invite_at (iv_ref iv)) = written x None"
        using o m none by auto
      ultimately show ?thesis by (auto simp: counted_def)
    qed
    have same: "view w (invite_at k) = ?db (invite_at k)" if "k \<noteq> iv_ref iv" for k using o m that by auto
    have ph': "redeemer_ok ((ir_max R)(iv_ref iv := iv_max iv)) (ir_phase R i)" for i
      using ph [of i] mint(4) by (auto simp: redeemer_ok_def split: redeemer.splits)
    have pos: "0 < iv_max iv" "iv_max iv < 2 ^ 63" and xp: "plain_write x" "place_of x = invite_at (iv_ref iv)"
      using m by blast+
    let ?M = "(ir_max R)(iv_ref iv := iv_max iv)"
    have each: "0 \<le> ?M k \<and> ?M k < 2 ^ 63 \<and> times (ir_won R) k \<le> ?M k + times (ir_returned R) k \<and>
        counted (?M k) (times (ir_won R) k - times (ir_returned R) k) (view w (invite_at k)) \<and>
        (?M k = 0 \<longrightarrow> view w (invite_at k) = None)" for k
      using all [of k] same [of k] cnt w0 pos by (cases "k = iv_ref iv") simp_all
    show ?thesis unfolding mint(1) redeem_inv_def
      using o [OF xp] each ph' by simp
  next
    case (look token iv w now i)
    obtain key where k: "inviteKey (ref_of token) = Inr key"
      using look(2) by (auto simp: readInvite_def split: sum.splits)
    obtain it where x: "point st (ir_world R) Invites key [] = (Inr (Some it), w)" "inviteFrom parse it = Inr iv"
      using look(2) k by (auto simp: readInvite_def split: prod.splits sum.splits option.splits)
    have vw: "view w = ?db" using point_looks [OF x(1)] .
    have "Some it = map_option (\<lambda>m. projected [] \<lparr>i_key = key, i_attrs = m\<rparr>) (?db (coord_of Invites key))"
      by (rule point_reads [OF p _ _ x(1)]) simp_all
    then obtain m where m: "?db (invite_at (ref_of token)) = Some m" "it = \<lparr>i_key = key, i_attrs = m\<rparr>"
      using key_place [OF k] by (cases "?db (invite_at (ref_of token))") (auto simp: projected_def)
    obtain U where U: "m attrInvMaxUses = Some (itoa (ir_max R (ref_of token)))" "m attrInvUsedCount = Some (itoa U)"
      "0 \<le> U" "U \<le> ir_max R (ref_of token)"
      using all [of "ref_of token"] m(1) by (auto simp: counted_def)
    have ks: "Sort key = ref_of token" using k by (auto simp: inviteKey_def split: if_splits)
    have "iv_ref iv = ref_of token" "iv_max iv = ir_max R (ref_of token)" "iv_used iv = U"
      using read_counts [OF x(2), of "ir_max R (ref_of token)" U] U m(2) ks all [of "ref_of token"] by simp_all
    then have "redeemer_ok (ir_max R) (Claiming iv)"
      using U look(3) by (simp add: redeemer_ok_def available_def)
    then show ?thesis unfolding look(1) using v vw by (simp add: redeem_inv_def)
  next
    case (claim i iv key stamp at user grant confer rest r w)
    let ?x = "usedCountWrite key (iv_used iv) (wrap64 (iv_used iv + 1))" and ?k = "iv_ref iv"
    have u: "iv_max iv = ir_max R ?k" "0 \<le> iv_used iv" "iv_used iv < iv_max iv"
      using ph [of i] claim(2) by (simp_all add: redeemer_ok_def)
    have a: "aside (confer @ rest)" using conferred_aside [OF claim(4)] claim(5) by (simp add: aside_def)
    have b: "st_batch st (ir_world R) [] (?x # confer @ rest) = (r, w)" using claim(6) by (simp add: claim_set_def)
    note o = one_invite [OF p _ _ a b, of ?k] and x = used_write [OF claim(3)]
    have bound: "counted (ir_max R ?k) (1 + times (ir_won R) ?k - times (ir_returned R) ?k) (written ?x (?db (invite_at ?k)))"
      if "write_ok ?x (?db (invite_at ?k))"
      using claim_counts [OF that, of "ir_max R ?k" "times (ir_won R) ?k - times (ir_returned R) ?k"] all [of ?k] u
      by (simp add: add_diff_eq add.commute)
    have le: "1 + times (ir_won R) ?k - times (ir_returned R) ?k \<le> ir_max R ?k" if "write_ok ?x (?db (invite_at ?k))"
      using bound [OF that] that by (cases "?db (invite_at ?k)")
        (auto simp: counted_def write_ok_def usedCountWrite_def write0_def written_def)
    have weak: "counted M (1 + c - d) it \<Longrightarrow> counted M (c - d) it" for M c d it by (auto simp: counted_def split: option.splits)
    show ?thesis
    proof (cases "(\<forall>k. view w (invite_at k) = ?db (invite_at k)) \<and> r \<noteq> Inr True")
      case True
      then show ?thesis unfolding claim(1) redeem_inv_def using all ph o x by (simp add: redeemer_ok_def)
    next
      case False
      then have ok: "write_ok ?x (?db (invite_at ?k))"
        and at: "\<And>k. view w (invite_at k) = (if k = ?k then written ?x (?db (invite_at ?k)) else ?db (invite_at k))"
        and pl: "plain_items (view w)"
        using o x by blast+
      show ?thesis unfolding claim(1) redeem_inv_def
        using all ph pl bound [OF ok] le [OF ok] weak [OF bound [OF ok]] u
        by (auto simp: at redeemer_ok_def add.commute)
    qed
  next
    case (read_count ref key was n w i)
    have "view w = ?db" using read_count(3) point_looks
      by (auto simp: counter_read_def split: prod.splits sum.splits option.splits)
    moreover have "Atoi was = Some n"
      using read_count(3) by (auto simp: counter_read_def split: prod.splits sum.splits option.splits)
    ultimately show ?thesis unfolding read_count(1) using v by (simp add: redeem_inv_def redeemer_ok_def)
  next
    case (give_back i ref was n key rest r w)
    have t: "counter_text invite_widths Invites attrInvUsedCount m = itoa m" for m
      by (simp add: counter_text_def invite_widths_def attrInvUsedCount_def attrInvIssuedAt_def attrInvExpiresAt_def)
    let ?x = "counter_write Invites key attrInvUsedCount was (itoa (wrap64 (n + -1)))
         [\<lparr>c_attr = attrInvUsedCount, c_op = Ne, c_value = ''0''\<rparr>]"
    have b: "st_batch st (ir_world R) [] (?x # rest) = (r, w)" using give_back(5) unfolding t .
    note o = one_invite [OF p _ _ give_back(4) b, of ref] and x = back_write [OF give_back(3)]
    have n: "Atoi was = Some n" using ph [of i] give_back(2) by (simp add: redeemer_ok_def)
    have low: "counted M c it \<Longrightarrow> d \<le> c \<Longrightarrow> counted M d it" for M c d it
      by (auto simp: counted_def split: option.splits)
    have bound: "counted (ir_max R ref) (times (ir_won R) ref - times (ir_returned R) ref - 1) (written ?x (?db (invite_at ref)))"
      if "write_ok ?x (?db (invite_at ref))"
      using back_counts [OF that, of "ir_max R ref" "times (ir_won R) ref - times (ir_returned R) ref"] all [of ref] n by simp
    have some: "?db (invite_at ref) \<noteq> None" if "write_ok ?x (?db (invite_at ref))"
      using that by (auto simp: write_ok_def counter_write_def write0_def)
    let ?D = "\<lambda>k. times (ref # ir_returned R) k"
    have D: "times (ir_returned R) k \<le> ?D k" "k \<noteq> ref \<longrightarrow> ?D k = times (ir_returned R) k" "?D ref = times (ir_returned R) ref + 1" for k
      by auto
    have ph': "redeemer_ok (ir_max R) (((ir_phase R)(i := Looking)) j)" for j using ph by (simp add: redeemer_ok_def)
    have each: "counted (ir_max R k) (times (ir_won R) k - ?D k) (view w (invite_at k)) \<and>
        (ir_max R k = 0 \<longrightarrow> view w (invite_at k) = None)" for k
    proof (cases "view w (invite_at k) = ?db (invite_at k)")
      case True
      have "times (ir_won R) k - ?D k \<le> times (ir_won R) k - times (ir_returned R) k" using D(1) [of k] by linarith
      then show ?thesis using all [of k] low unfolding True by blast
    next
      case False
      then have ok: "write_ok ?x (?db (invite_at ref))" "k = ref" "view w (invite_at ref) = written ?x (?db (invite_at ref))"
        using o x by (auto split: if_splits)
      have "times (ir_won R) ref - ?D ref = times (ir_won R) ref - times (ir_returned R) ref - 1" using D(3) by linarith
      then have "counted (ir_max R ref) (times (ir_won R) ref - ?D ref) (written ?x (?db (invite_at ref)))"
        using bound [OF ok(1)] by (simp only:)
      moreover have "ir_max R ref \<noteq> 0" using some [OF ok(1)] all [of ref] by metis
      ultimately show ?thesis unfolding ok(2,3) by blast
    qed
    have "times (ir_won R) k \<le> ir_max R k + ?D k" for k using all [of k] D(1) [of k] by linarith
    then show ?thesis unfolding give_back(1) redeem_inv_def
      using all o x each ph' by simp
  next
    case (revoke ref x rest r w)
    have x: "plain_write x" "place_of x = invite_at ref" "written x m = None" for m
      using revoke(2) key_place by (auto simp: inviteRevokeWrite_def and_then_def plain_write_def plain_cond_def write0_def
          place_of_def written_def split: sum.splits)
    note o = one_invite [OF p x(1,2) revoke(3,4)]
    have at: "view w (invite_at k) = ?db (invite_at k) \<or> view w (invite_at k) = None" for k
      using o x(3) by (cases "k = ref") auto
    have nil: "counted M c None" for M c by (simp add: counted_def)
    have "counted (ir_max R k) (times (ir_won R) k - times (ir_returned R) k) (view w (invite_at k)) \<and>
        (ir_max R k = 0 \<longrightarrow> view w (invite_at k) = None)" for k
      using at [of k] all [of k] nil by (elim disjE) simp_all
    then show ?thesis unfolding revoke(1) redeem_inv_def using o all ph by simp
  next
    case (others wrs r w)
    then show ?thesis using no_invite [OF p others(2,3)] v by (simp add: redeem_inv_def)
  next
    case (drop_out i)
    then show ?thesis using v by (simp add: redeem_inv_def redeemer_ok_def)
  qed
qed

end

section \<open>A redemption is two steps\<close>

text \<open>The bumps of the scope markers ride along.\<close>

lemma bumps_aside: "bumps_for fresh w os = (bs, w') \<Longrightarrow> aside bs"
  by (induction os arbitrary: w bs)
    (auto simp: aside_def Bump_def bump_write_def plain_write_def plain_cond_def write0_def OwnerScope_def ScopeEntity_def
      Invites_def no_cond_def markerVersion_def plain_attr_def partAttr_def sortAttr_def openAttr_def split: prod.splits)

lemma bumps_still: "(\<And>w. snd (fresh w) = w) \<Longrightarrow> bumps_for fresh w os = (bs, w') \<Longrightarrow> w' = w"
  by (induction os arbitrary: w bs) (auto simp: Bump_def split: prod.splits, metis snd_conv)

context object_store
begin

lemma invite_read:
  assumes p: "plain_items (view w)" and r: "readInvite st parse w ref = (Inr iv, u)"
  shows "iv_ref iv = ref"
proof -
  obtain key where k: "inviteKey ref = Inr key" using r by (auto simp: readInvite_def split: sum.splits)
  obtain it where x: "point st w Invites key [] = (Inr (Some it), u)" "inviteFrom parse it = Inr iv"
    using r k by (auto simp: readInvite_def split: prod.splits sum.splits option.splits)
  have "Some it = map_option (\<lambda>m. projected [] \<lparr>i_key = key, i_attrs = m\<rparr>) (view w (coord_of Invites key))"
    by (rule point_reads [OF p _ _ x(1)]) simp_all
  then have "i_key it = key" by (cases "view w (coord_of Invites key)") (auto simp: projected_def)
  moreover have "Sort key = ref" using k by (auto simp: inviteKey_def split: if_splits)
  ultimately show ?thesis using x(2) by (auto simp: inviteFrom_def and_then_def split: sum.splits)
qed

text \<open>
  A call of consumeInvite that succeeds, over versions drawn beside the store, is a look followed by a claim that
  wins, whatever the other redeemers are doing.
\<close>

lemma consume_claims:
  assumes p: "plain_items (view (ir_world R))"
    and c: "consumeInvite st fresh ref_of parse clock stamp at (ir_world R) token user grant rec = (Inr iv, w)"
    and f: "\<And>w. snd (fresh w) = w" and r: "aside [rec]"
  shows "iv_ref iv = ref_of token \<and> (redeem_step st ref_of parse)\<^sup>*\<^sup>* R
    (R\<lparr>ir_world := w, ir_phase := (ir_phase R)(i := Looking), ir_won := iv_ref iv # ir_won R\<rparr>)"
proof -
  obtain key iv0 u confer where k: "inviteKey (ref_of token) = Inr key"
    and l: "readInvite st parse (ir_world R) (ref_of token) = (Inr iv0, u)" and a: "available (clock u) iv0"
    and g: "conferred stamp at user grant iv0 = Inr confer"
    and q: "Apply st fresh u (claim_set key iv0 confer) [rec] = (Inr (), w)" and iv: "iv_ref iv = iv_ref iv0"
    using c by (auto simp: consumeInvite_def split: if_splits sum.splits prod.splits)
  have ref: "iv_ref iv0 = ref_of token" by (rule invite_read [OF p l])
  obtain bs v where bs: "bumps_for fresh u (owners_of (ws_writes (claim_set key iv0 confer) @ [rec])) = (bs, v)"
    by fastforce
  have v: "v = u" by (rule bumps_still [OF f bs])
  have b: "st_batch st u [] (ws_writes (claim_set key iv0 confer) @ ([rec] @ bs)) = (Inr True, w)"
    using q bs v
    by (auto simp: Apply_def withBumps_def scopeBumps_def TryWriteEntities_def split: prod.splits sum.splits if_splits bool.splits option.splits)
  have rest: "aside ([rec] @ bs)" using r bumps_aside [OF bs] by (simp add: aside_def)
  let ?R1 = "R\<lparr>ir_world := u, ir_phase := (ir_phase R)(i := Claiming iv0)\<rparr>"
  have "redeem_step st ref_of parse R ?R1" using l a by (rule redeem_step.look)
  moreover have "redeem_step st ref_of parse ?R1
    (?R1\<lparr>ir_world := w, ir_phase := (ir_phase ?R1)(i := Looking),
      ir_won := (if Inr True = (Inr True :: store_error + bool) then iv_ref iv0 # ir_won ?R1 else ir_won ?R1)\<rparr>)"
    by (rule redeem_step.claim [OF _ _ g rest]) (use k ref b in simp_all)
  ultimately show ?thesis using ref iv by simp
qed

end

section \<open>The number of uses holds\<close>

text \<open>
  C38. Redemptions, mints, revocations and reversals that interleave in any order over the store, with requests and
  answers that may be lost: each invite is redeemed at most as often as it was minted for, plus one for each reversal that was sent,
  and the count stored for it stays between 0 and that number.
\<close>

theorem invite_bounded:
  assumes "object_store st view" "plain_items (view (ir_world R))" "\<forall>ref. view (ir_world R) (invite_at ref) = None"
    and "ir_max R = (\<lambda>_. 0)" "ir_phase R = (\<lambda>_. Looking)" "ir_won R = []" "ir_returned R = []"
    and run: "(redeem_step st ref_of parse)\<^sup>*\<^sup>* R T"
  shows "times (ir_won T) ref \<le> ir_max T ref + times (ir_returned T) ref \<and>
    (\<forall>m. view (ir_world T) (invite_at ref) = Some m \<longrightarrow>
      (\<exists>U. m attrInvUsedCount = Some (itoa U) \<and> times (ir_won T) ref - times (ir_returned T) ref \<le> U \<and> 0 \<le> U \<and> U \<le> ir_max T ref))"
proof -
  have "redeem_inv view R" using assms(2-7) by (simp add: redeem_inv_def counted_def redeemer_ok_def)
  with run have "redeem_inv view T" by (induction rule: rtranclp_induct) (auto intro: object_store.redeem_keeps [OF assms(1)])
  then have "times (ir_won T) ref \<le> ir_max T ref + times (ir_returned T) ref \<and>
      counted (ir_max T ref) (times (ir_won T) ref - times (ir_returned T) ref) (view (ir_world T) (invite_at ref))"
    by (simp add: redeem_inv_def)
  then show ?thesis by (auto simp: counted_def)
qed

text \<open>An invite for one folder and one use, minted and redeemed.\<close>

definition iv_one :: Invite where
  "iv_one = \<lparr>iv_ref = ''r'', iv_glob = ''acme'', iv_by = ''op'', iv_issued = 0, iv_expires = None, iv_max = 1, iv_used = 0\<rparr>"

definition mint_one :: Write where
  "mint_one = (case inviteCreateWrite iv_one of Inr x \<Rightarrow> x | Inl _ \<Rightarrow> write0 Put [] \<lparr>Partition = [], Sort = []\<rparr>)"

definition shelf_with :: "(coord \<times> attr_list) list \<Rightarrow> world" where
  "shelf_with its = \<lparr>shelf = its, mishaps = []\<rparr>"

definition one_at :: "attr_list \<Rightarrow> attr_list \<Rightarrow> world" where
  "one_at front back = shelf_with [(invite_at ''r'', [(attrInvMaxUses, ''1'')] @ front @ [(attrInvTargetGlob, ''acme''),
     (attrInvIssuedBySub, ''op''), (attrInvIssuedAt, onbodTS 0)] @ back)]"

abbreviation minted_one :: world where "minted_one \<equiv> one_at [(attrInvUsedCount, ''0'')] []"
abbreviation spent_one :: world where "spent_one \<equiv> one_at [] [(attrInvUsedCount, ''1'')]"

definition redeem0 :: "world redeeming" where
  "redeem0 = \<lparr>ir_world = shelf_with [], ir_phase = (\<lambda>_. Looking), ir_max = (\<lambda>_. 0), ir_won = [], ir_returned = []\<rparr>"

lemma invite_bounded_witness:
  "\<exists>T. (redeem_step plain_driver (\<lambda>_. ''r'') (\<lambda>_. Some 0))\<^sup>*\<^sup>* redeem0 T \<and> ir_won T = [''r''] \<and> ir_max T ''r'' = 1 \<and>
     times (ir_won T) ''r'' \<le> ir_max T ''r'' + times (ir_returned T) ''r''"
proof -
  let ?st = plain_driver and ?p = "(\<lambda>_. Some 0) :: string \<Rightarrow> int option" and ?f = "(\<lambda>_. ''r'') :: string \<Rightarrow> string"
  let ?k = "\<lparr>Partition = OwnerOnbod, Sort = ''r''\<rparr>"
  have m: "MintInvite ?f 0 ''t'' ''acme'' ''op'' 1 None = Inr (iv_one, ''t'')" "inviteCreateWrite iv_one = Inr mint_one" by code_simp+
  have b: "st_batch ?st (shelf_with []) [] [mint_one] = (Inr True, minted_one)" by code_simp
  have l: "readInvite ?st ?p (minted_one) ''r'' = (Inr iv_one, minted_one)" "available 0 iv_one" by code_simp+
  have c: "inviteKey ''r'' = Inr ?k" "conferred ''s'' ''a'' ''u'' False iv_one = Inr []" by code_simp+
  have b2: "st_batch ?st (minted_one) [] (ws_writes (claim_set ?k iv_one []) @ []) = (Inr True, spent_one)" by code_simp
  have nil: "aside []" by (simp add: aside_def)
  have r: "iv_ref iv_one = ''r''" "iv_max iv_one = 1" by (simp_all add: iv_one_def)
  let ?R1 = "redeem0\<lparr>ir_world := minted_one, ir_max := (ir_max redeem0)(iv_ref iv_one := iv_max iv_one)\<rparr>"
  let ?R2 = "?R1\<lparr>ir_world := minted_one, ir_phase := (ir_phase ?R1)(0 := Claiming iv_one)\<rparr>"
  let ?R3 = "?R2\<lparr>ir_world := spent_one, ir_phase := (ir_phase ?R2)(0 := Looking),
    ir_won := (if Inr True = (Inr True :: store_error + bool) then iv_ref iv_one # ir_won ?R2 else ir_won ?R2)\<rparr>"
  have s1: "redeem_step ?st ?f ?p redeem0 ?R1"
    by (rule redeem_step.mint [OF m(1) _ _ m(2) nil, where r = "Inr True"]) (use b in \<open>simp_all add: redeem0_def\<close>)
  have s2: "redeem_step ?st ?f ?p ?R1 ?R2"
    by (rule redeem_step.look [where now = 0 and token = "''t''", OF _ l(2)]) (simp add: l)
  have w: "ir_world ?R2 = minted_one" "ir_phase ?R2 0 = Claiming iv_one" by simp_all
  have s3: "redeem_step ?st ?f ?p ?R2 ?R3"
    by (rule redeem_step.claim [OF w(2) _ c(2) nil]) (simp only: r(1) c(1), subst w(1), rule b2)
  have run: "(redeem_step ?st ?f ?p)\<^sup>*\<^sup>* redeem0 ?R3"
    using s1 s2 s3 by (meson converse_rtranclp_into_rtranclp rtranclp.rtrancl_refl)
  have "object_store ?st items" by (rule plain_driver_store)
  moreover have i: "items (ir_world redeem0) = Map.empty" by (auto simp: items_def redeem0_def shelf_with_def)
  moreover have "plain_items (items (ir_world redeem0))" unfolding i by (simp add: plain_items_def)
  ultimately have "times (ir_won ?R3) ''r'' \<le> ir_max ?R3 ''r'' + times (ir_returned ?R3) ''r''"
    using invite_bounded [of ?st items redeem0 ?f ?p ?R3 "''r''", OF _ _ _ _ _ _ _ run] by (simp add: redeem0_def)
  moreover have "ir_won ?R3 = [''r'']" "ir_max ?R3 ''r'' = 1" by (simp_all add: redeem0_def r)
  ultimately show ?thesis using run by (intro exI [of _ ?R3] conjI)
qed

end
