(* ===== verification/Ack_Mark.thy ===== *)
theory Ack_Mark
  imports Adapter_Delivery "HOL-Library.Word"
begin

text \<open>
  chanlib/mark.go: the acknowledgement mark, a reaction that stands on the message that started a turn
  while the turn runs. The helper's memory (candidates, backstops), the adapter store and the platform are one
  state; the two platform calls, the age of a stored instant and the clock are arguments. What the code logs is
  kept, so that a mark it gives up on is a value.
\<close>

section \<open>The helper\<close>

datatype mark_error = ErrNoMarkTarget | Platform_Failed

datatype mark_log =
    Read_Failed string bool
  | No_Trigger string
  | No_Target string string
  | Add_Failed string string
  | Record_Failed string
  | Rollback_Failed string
  | Remove_Failed string string
  | Record_Stays string
  | Sweep_Failed
  | Backstop_Failed string

record backstop =
  bs_gen :: "64 word"
  bs_wait :: int

record ('w, 'p) AckMark =
  am_world :: 'w
  am_site :: 'p
  am_cand :: "string \<rightharpoonup> string"
  am_timers :: "string \<rightharpoonup> backstop"
  am_lastGen :: "64 word"
  am_log :: "mark_log list"

record 'p marker_calls =
  mc_add :: "'p \<Rightarrow> string \<Rightarrow> string \<Rightarrow> (mark_error + string) \<times> 'p"
  mc_remove :: "'p \<Rightarrow> string \<Rightarrow> string \<Rightarrow> string \<Rightarrow> bool \<times> 'p"

definition NewAckMark :: "'w \<Rightarrow> 'p \<Rightarrow> ('w, 'p) AckMark" where
  [go_defs]: "NewAckMark w p =
     \<lparr>am_world = w, am_site = p, am_cand = Map.empty, am_timers = Map.empty, am_lastGen = 0, am_log = []\<rparr>"

definition logged :: "mark_log \<Rightarrow> ('w, 'p) AckMark \<Rightarrow> ('w, 'p) AckMark" where
  "logged e m = m\<lparr>am_log := e # am_log m\<rparr>"

definition note_inbound :: "string \<Rightarrow> string \<Rightarrow> string \<Rightarrow> ('w, 'p) AckMark \<Rightarrow> ('w, 'p) AckMark" where
  [go_defs]: "note_inbound chatJID i verb m =
     (if chatJID = [] \<or> i = [] then m
      else if verb \<in> {'''', ''message'', ''mention''} then m\<lparr>am_cand := (am_cand m)(chatJID \<mapsto> i)\<rparr>
      else m)"

definition arm :: "string \<Rightarrow> int \<Rightarrow> ('w, 'p) AckMark \<Rightarrow> ('w, 'p) AckMark" where
  [go_defs]: "arm jid d m =
     (let gen = am_lastGen m + 1
      in m\<lparr>am_lastGen := gen, am_timers := (am_timers m)(jid \<mapsto> \<lparr>bs_gen = gen, bs_wait = d\<rparr>)\<rparr>)"

definition release :: "'w Store \<Rightarrow> 'p marker_calls \<Rightarrow> Mark \<Rightarrow> ('w, 'p) AckMark \<Rightarrow> bool \<times> ('w, 'p) AckMark" where
  [go_defs]: "release st calls mk m =
     (let m = m\<lparr>am_timers := (am_timers m)(mk_chat mk := None)\<rparr>
      in case mc_remove calls (am_site m) (mk_chat mk) (mk_target mk) (mk_handle mk) of
           (False, p) \<Rightarrow> (False, logged (Remove_Failed (mk_chat mk) (mk_target mk)) (m\<lparr>am_site := p\<rparr>))
         | (True, p) \<Rightarrow>
             (case DropMark st (am_world m) (mk_chat mk) of
                (Inl _, w) \<Rightarrow> (False, logged (Record_Stays (mk_chat mk)) (m\<lparr>am_site := p, am_world := w\<rparr>))
              | (Inr _, w) \<Rightarrow> (True, m\<lparr>am_site := p, am_world := w\<rparr>)))"

text \<open>The two halves of Typing: what stands from before, then the new mark.\<close>

definition put_mark :: "'w Store \<Rightarrow> 'p marker_calls \<Rightarrow> string \<Rightarrow> int \<Rightarrow> string \<Rightarrow> ('w, 'p) AckMark \<Rightarrow> ('w, 'p) AckMark" where
  [go_defs]: "put_mark st calls now ttl jid m =
     (let target = (case am_cand m jid of None \<Rightarrow> [] | Some t \<Rightarrow> t)
      in if target = [] then logged (No_Trigger jid) m
         else case mc_add calls (am_site m) jid target of
             (Inl ErrNoMarkTarget, p) \<Rightarrow> logged (No_Target jid target) (m\<lparr>am_site := p\<rparr>)
           | (Inl Platform_Failed, p) \<Rightarrow> logged (Add_Failed jid target) (m\<lparr>am_site := p\<rparr>)
           | (Inr handle, p) \<Rightarrow>
               (case SetMark st (am_world m) \<lparr>mk_chat = jid, mk_target = target, mk_handle = handle, mk_set_at = now\<rparr> of
                  (Inl _, w) \<Rightarrow>
                    let m = logged (Record_Failed jid) (m\<lparr>am_site := p, am_world := w\<rparr>)
                    in (case mc_remove calls p jid target handle of
                          (False, p) \<Rightarrow> logged (Rollback_Failed jid) (m\<lparr>am_site := p\<rparr>)
                        | (True, p) \<Rightarrow> m\<lparr>am_site := p\<rparr>)
                | (Inr _, w) \<Rightarrow> arm jid ttl (m\<lparr>am_site := p, am_world := w\<rparr>)))"

definition Typing ::
  "'w Store \<Rightarrow> 'p marker_calls \<Rightarrow> string \<Rightarrow> int \<Rightarrow> string \<Rightarrow> bool \<Rightarrow> ('w, 'p) AckMark \<Rightarrow> ('w, 'p) AckMark" where
  [go_defs]: "Typing st calls now ttl jid on m =
     (case MarkFor st (am_world m) jid of
        (Inl _, w) \<Rightarrow> logged (Read_Failed jid on) (m\<lparr>am_world := w\<rparr>)
      | (Inr held, w) \<Rightarrow>
          let m = m\<lparr>am_world := w\<rparr>
          in (case held of
                None \<Rightarrow> if \<not> on then m else put_mark st calls now ttl jid m
              | Some mk \<Rightarrow>
                  (case release st calls mk m of
                     (False, m) \<Rightarrow> m
                   | (True, m) \<Rightarrow> if \<not> on then m else put_mark st calls now ttl jid m)))"

text \<open>\<open>age\<close> answers how old a stored instant is, None where it cannot be read; \<open>halted\<close> is the
  cancelled context.\<close>

fun sweep_marks ::
  "'w Store \<Rightarrow> 'p marker_calls \<Rightarrow> (string \<Rightarrow> int option) \<Rightarrow> int \<Rightarrow> (Mark \<Rightarrow> bool) \<Rightarrow> Mark list \<Rightarrow> ('w, 'p) AckMark
   \<Rightarrow> ('w, 'p) AckMark" where
  "sweep_marks st calls age ttl halted [] m = m"
| "sweep_marks st calls age ttl halted (mk # mks) m =
     (if halted mk then m
      else case age (mk_set_at mk) of
        None \<Rightarrow> sweep_marks st calls age ttl halted mks (snd (release st calls mk m))
      | Some a \<Rightarrow>
          if a \<ge> ttl then sweep_marks st calls age ttl halted mks (snd (release st calls mk m))
          else sweep_marks st calls age ttl halted mks (arm (mk_chat mk) (ttl - a) m))"

definition sweep_read :: "'w Store \<Rightarrow> ('w, 'p) AckMark \<Rightarrow> Mark list option \<times> ('w, 'p) AckMark" where
  [go_defs]: "sweep_read st m =
     (case Marks st (am_world m) of
        (Inl _, w) \<Rightarrow> (None, logged Sweep_Failed (m\<lparr>am_world := w\<rparr>))
      | (Inr mks, w) \<Rightarrow> (Some mks, m\<lparr>am_world := w\<rparr>))"

definition Sweep ::
  "'w Store \<Rightarrow> 'p marker_calls \<Rightarrow> (string \<Rightarrow> int option) \<Rightarrow> int \<Rightarrow> (Mark \<Rightarrow> bool) \<Rightarrow> ('w, 'p) AckMark \<Rightarrow> ('w, 'p) AckMark" where
  [go_defs]: "Sweep st calls age ttl halted m =
     (case sweep_read st m of
        (None, m) \<Rightarrow> m
      | (Some mks, m) \<Rightarrow> sweep_marks st calls age ttl halted mks m)"

definition Stop :: "('w, 'p) AckMark \<Rightarrow> ('w, 'p) AckMark" where
  [go_defs]: "Stop m = m\<lparr>am_timers := Map.empty\<rparr>"

definition expire ::
  "'w Store \<Rightarrow> 'p marker_calls \<Rightarrow> string \<Rightarrow> 64 word \<Rightarrow> ('w, 'p) AckMark \<Rightarrow> ('w, 'p) AckMark" where
  [go_defs]: "expire st calls jid gen m =
     (case am_timers m jid of
        None \<Rightarrow> m
      | Some b \<Rightarrow>
          if bs_gen b \<noteq> gen then m
          else let m = m\<lparr>am_timers := (am_timers m)(jid := None)\<rparr>
               in case MarkFor st (am_world m) jid of
                    (Inl _, w) \<Rightarrow> logged (Backstop_Failed jid) (m\<lparr>am_world := w\<rparr>)
                  | (Inr held, w) \<Rightarrow>
                      (case held of
                         None \<Rightarrow> m\<lparr>am_world := w\<rparr>
                       | Some mk \<Rightarrow> snd (release st calls mk (m\<lparr>am_world := w\<rparr>))))"

section \<open>The platform\<close>

text \<open>
  What the code relies on, where \<open>stands\<close> are the marks on the platform: an add that answers a handle has put
  that mark and no other, one that answers ErrNoMarkTarget put none, one that failed may have put it; a
  removal takes nothing else down, and one that answers yes has taken the mark down.
\<close>

type_synonym standing = "(string \<times> string \<times> string) set"

definition platform_ok :: "('p \<Rightarrow> standing) \<Rightarrow> 'p marker_calls \<Rightarrow> bool" where
  "platform_ok stands calls \<longleftrightarrow>
     (\<forall>p jid t. case mc_add calls p jid t of
        (Inr h, p') \<Rightarrow> stands p' \<subseteq> insert (jid, t, h) (stands p)
      | (Inl ErrNoMarkTarget, p') \<Rightarrow> stands p' \<subseteq> stands p
      | (Inl Platform_Failed, p') \<Rightarrow> stands p' \<subseteq> stands p \<union> {(jid, t, h) |h. True}) \<and>
     (\<forall>p jid t h. case mc_remove calls p jid t h of
        (gone, p') \<Rightarrow> stands p' \<subseteq> (if gone then stands p - {(jid, t, h)} else stands p))"

text \<open>A mark is recorded when the adapter's store names its message and handle; it is given up when the log
  names it.\<close>

abbreviation mark_at :: "string \<Rightarrow> coord" where "mark_at jid \<equiv> coord_of AckMarks (markKey jid)"

definition recorded :: "item_map \<Rightarrow> string \<Rightarrow> string \<Rightarrow> string \<Rightarrow> bool" where
  "recorded db jid t h \<longleftrightarrow>
     (case db (mark_at jid) of None \<Rightarrow> False | Some a \<Rightarrow> attr a attrMarkTarget = t \<and> attr a attrMarkHandle = h)"

definition given_up :: "mark_log list \<Rightarrow> string \<Rightarrow> string \<Rightarrow> bool" where
  "given_up log jid t \<longleftrightarrow> Add_Failed jid t \<in> set log \<or> Rollback_Failed jid \<in> set log"

definition tracked :: "('w \<Rightarrow> item_map) \<Rightarrow> ('p \<Rightarrow> standing) \<Rightarrow> ('w, 'p) AckMark \<Rightarrow> bool" where
  "tracked view stands m \<longleftrightarrow> plain_items (view (am_world m)) \<and>
     (\<forall>jid t h. (jid, t, h) \<in> stands (am_site m) \<longrightarrow>
        recorded (view (am_world m)) jid t h \<or> given_up (am_log m) jid t)"

section \<open>What the calls leave\<close>

lemma mark_at_inj [simp]: "mark_at j = mark_at k \<longleftrightarrow> j = k"
  by (auto simp: coord_of_def markKey_def)

lemma mark_put_place [simp]: "place_of (mark_put mk) = mark_at (mk_chat mk)"
  by (simp add: place_of_def write0_def mark_put_def)

lemma mark_put_ok [simp]: "write_ok (mark_put mk) m"
  by (simp add: write_ok_def cond_ok_def mark_put_def write0_def no_cond_def split: option.splits)

lemma mark_put_written: "\<exists>a. written (mark_put mk) m = Some a \<and> attr a attrMarkTarget = mk_target mk \<and> attr a attrMarkHandle = mk_handle mk"
  by (auto simp: written_def mark_put_def write0_def attr_def attrMarkTarget_def attrMarkHandle_def attrMarkSetAt_def)

text \<open>A mark that was read speaks for its chat.\<close>

definition settles :: "Mark \<Rightarrow> item_map \<Rightarrow> bool" where
  "settles mk db \<longleftrightarrow> (\<forall>t h. recorded db (mk_chat mk) t h \<longrightarrow> t = mk_target mk \<and> h = mk_handle mk)"

lemma settles_stays:
  "settles mk db \<Longrightarrow> db' (mark_at (mk_chat mk)) = db (mark_at (mk_chat mk)) \<or> db' (mark_at (mk_chat mk)) = None \<Longrightarrow> settles mk db'"
  by (elim disjE) (simp_all add: settles_def recorded_def)

text \<open>No mark stands in the chat that the log does not name.\<close>

definition clear :: "('p \<Rightarrow> standing) \<Rightarrow> string \<Rightarrow> ('w, 'p) AckMark \<Rightarrow> bool" where
  "clear stands jid m \<longleftrightarrow> (\<forall>t h. (jid, t, h) \<in> stands (am_site m) \<longrightarrow> given_up (am_log m) jid t)"

lemma given_up_Cons: "given_up log jid t \<Longrightarrow> given_up (e # log) jid t"
  by (auto simp: given_up_def)

lemma removal:
  assumes "platform_ok stands calls" "mc_remove calls p jid t h = (gone, p')"
  shows "stands p' \<subseteq> stands p" and "gone \<Longrightarrow> (jid, t, h) \<notin> stands p'"
proof -
  have "case mc_remove calls p jid t h of (gone, p') \<Rightarrow> stands p' \<subseteq> (if gone then stands p - {(jid, t, h)} else stands p)"
    using assms(1) by (simp only: platform_ok_def)
  then show "stands p' \<subseteq> stands p" and "gone \<Longrightarrow> (jid, t, h) \<notin> stands p'" using assms(2) by (auto split: if_splits)
qed

lemma addition:
  assumes "platform_ok stands calls" "mc_add calls p jid t = (r, p')"
  shows "r = Inr h \<Longrightarrow> stands p' \<subseteq> insert (jid, t, h) (stands p)"
    and "r = Inl ErrNoMarkTarget \<Longrightarrow> stands p' \<subseteq> stands p"
    and "r = Inl Platform_Failed \<Longrightarrow> stands p' \<subseteq> stands p \<union> {(jid, t, h) |h. True}"
proof -
  have "case mc_add calls p jid t of
        (Inr h, p') \<Rightarrow> stands p' \<subseteq> insert (jid, t, h) (stands p)
      | (Inl ErrNoMarkTarget, p') \<Rightarrow> stands p' \<subseteq> stands p
      | (Inl Platform_Failed, p') \<Rightarrow> stands p' \<subseteq> stands p \<union> {(jid, t, h) |h. True}"
    using assms(1) by (simp only: platform_ok_def)
  then show "r = Inr h \<Longrightarrow> stands p' \<subseteq> insert (jid, t, h) (stands p)"
    and "r = Inl ErrNoMarkTarget \<Longrightarrow> stands p' \<subseteq> stands p"
    and "r = Inl Platform_Failed \<Longrightarrow> stands p' \<subseteq> stands p \<union> {(jid, t, h) |h. True}" using assms(2) by auto
qed

context object_store
begin

lemma set_mark:
  assumes p: "plain_items (view w)" and s: "SetMark st w mk = (r, w')"
  shows "plain_items (view w') \<and> (\<forall>j. j \<noteq> mk_chat mk \<longrightarrow> view w' (mark_at j) = view w (mark_at j)) \<and>
    (r = Inr () \<longrightarrow> recorded (view w') (mk_chat mk) (mk_target mk) (mk_handle mk))"
proof -
  obtain q where o: "one_write st w (mark_put mk) = (q, w')" and r: "r = Inr () \<longrightarrow> (\<exists>b. q = Inr b)"
    using s by (cases "one_write st w (mark_put mk)") (auto simp: SetMark_def settle_def split: sum.splits)
  note e = one_write_effect [OF p _ o] and pl = one_write_plain [OF p _ o]
  obtain a where "written (mark_put mk) (view w (mark_at (mk_chat mk))) = Some a"
    "attr a attrMarkTarget = mk_target mk" "attr a attrMarkHandle = mk_handle mk" using mark_put_written by blast
  then have x: "recorded ((view w)(mark_at (mk_chat mk) := written (mark_put mk) (view w (mark_at (mk_chat mk)))))
      (mk_chat mk) (mk_target mk) (mk_handle mk)"
    by (simp add: recorded_def)
  have q: "r = Inr () \<longrightarrow> q = Inr True" using r e by (cases "q = Inr False") auto
  have "view w' = view w \<or> view w' = (view w)(mark_at (mk_chat mk) := written (mark_put mk) (view w (mark_at (mk_chat mk))))"
    using e by auto
  moreover have "r = Inr () \<longrightarrow> view w' = (view w)(mark_at (mk_chat mk) := written (mark_put mk) (view w (mark_at (mk_chat mk))))"
    using e q by auto
  ultimately show ?thesis using pl x by auto
qed

lemma drop_mark:
  assumes p: "plain_items (view w)" and d: "DropMark st w jid = (r, w')"
  shows "plain_items (view w') \<and> (\<forall>j. j \<noteq> jid \<longrightarrow> view w' (mark_at j) = view w (mark_at j)) \<and>
    (view w' (mark_at jid) = view w (mark_at jid) \<or> view w' (mark_at jid) = None) \<and>
    (r = Inr () \<longrightarrow> view w' (mark_at jid) = None)"
proof -
  let ?x = "write0 Delete AckMarks (markKey jid)"
  obtain q where o: "one_write st w ?x = (q, w')" and r: "r = Inr () \<longrightarrow> (\<exists>b. q = Inr b)"
    using d by (cases "one_write st w ?x") (auto simp: DropMark_def settle_def split: sum.splits)
  note e = one_write_effect [OF p _ o] and pl = one_write_plain [OF p _ o]
  have x: "place_of ?x = mark_at jid" by simp
  have y: "written ?x m = None" "write_ok ?x m" for m
    by (simp_all add: written_def write0_def write_ok_def cond_ok_def no_cond_def split: option.splits)
  have q: "r = Inr () \<longrightarrow> q = Inr True" using r e y by (cases "q = Inr False") auto
  have "view w' = view w \<or> view w' = (view w)(mark_at jid := None)" using e unfolding x y(1) by auto
  moreover have "r = Inr () \<longrightarrow> view w' = (view w)(mark_at jid := None)" using e q unfolding x y(1) by auto
  ultimately show ?thesis using pl by auto
qed

lemma mark_read:
  assumes p: "plain_items (view w)" and r: "MarkFor st w jid = (Inr held, w')"
  shows "view w' = view w \<and>
    (case held of None \<Rightarrow> view w (mark_at jid) = None | Some mk \<Rightarrow> mk_chat mk = jid \<and> settles mk (view w))"
proof -
  obtain x where q: "point st w AckMarks (markKey jid) [] = (Inr x, w')" and h: "held = map_option markOf x"
    using r by (auto simp: MarkFor_def split: prod.splits sum.splits)
  have "x = map_option (\<lambda>m. projected [] \<lparr>i_key = markKey jid, i_attrs = m\<rparr>) (view w (mark_at jid))"
    by (rule point_reads [OF p _ _ q]) simp_all
  then show ?thesis using h point_looks [OF q]
    by (cases "view w (mark_at jid)") (auto simp: projected_def markOf_def markKey_def settles_def recorded_def)
qed

lemma mark_read_looks: "MarkFor st w jid = (r, w') \<Longrightarrow> view w' = view w"
  by (auto simp: MarkFor_def split: prod.splits sum.splits dest: point_looks)

lemma marks_read:
  assumes p: "plain_items (view w)" and r: "Marks st w = (r, w')"
  shows "view w' = view w \<and> (\<forall>mks. r = Inr mks \<longrightarrow> (\<forall>mk\<in>set mks. settles mk (view w)))"
proof -
  let ?q = "query0 AckMarks markPartition"
  obtain x where q: "st_query st w ?q = (x, w')" and rx: "\<And>mks. r = Inr mks \<Longrightarrow> \<exists>its. x = Inr its \<and> mks = map markOf its"
    using r by (auto simp: Marks_def split: prod.splits sum.splits)
  have pq: "plain_query ?q" by (simp add: plain_query_def query0_def)
  have "settles (markOf it) (view w)" if "x = Inr its" "it \<in> set its" for its it
  proof -
    have "st_query st w ?q = (Inr its, w')" using q that(1) by simp
    from answers [OF p pq this] obtain rows where l: "lists (view w) (q_entity ?q) rows" and s: "its = selected ?q rows"
      by blast
    have i: "it \<in> set rows" "Partition (i_key it) = markPartition"
      using that(2) s by (auto simp: selected_def limited_def ordered_def Let_def query0_def projected_def picks_def)
    then have "view w (coord_of (q_entity ?q) (i_key it)) = Some (i_attrs it)" using l by (auto simp: lists_def)
    moreover have "coord_of (q_entity ?q) (i_key it) = mark_at (Sort (i_key it))"
      using i(2) by (simp add: coord_of_def markKey_def query0_def)
    ultimately show ?thesis by (simp add: settles_def recorded_def markOf_def)
  qed
  then show ?thesis using looks [OF q] rx by fastforce
qed

end

section \<open>Every handler keeps the marks tracked\<close>

text \<open>The fields the invariant reads.\<close>

lemma tracked_memory [simp]:
  "tracked view stands (m\<lparr>am_timers := t\<rparr>) = tracked view stands m"
  "tracked view stands (m\<lparr>am_cand := c\<rparr>) = tracked view stands m"
  "tracked view stands (arm jid d m) = tracked view stands m"
  "clear stands jid (m\<lparr>am_timers := t\<rparr>) = clear stands jid m"
  "am_world (arm jid d m) = am_world m"
  by (simp_all add: tracked_def clear_def arm_def Let_def)

lemma tracked_logged: "tracked view stands m \<Longrightarrow> tracked view stands (logged e m)"
  by (simp add: tracked_def logged_def) (blast intro: given_up_Cons)

lemma tracked_world: "tracked view stands m \<Longrightarrow> view w = view (am_world m) \<Longrightarrow> tracked view stands (m\<lparr>am_world := w\<rparr>)"
  by (simp add: tracked_def)

lemma clear_site:
  "clear stands jid m \<Longrightarrow> stands p \<subseteq> stands (am_site m) \<Longrightarrow> clear stands jid (m\<lparr>am_site := p, am_world := w\<rparr>)"
  by (auto simp: clear_def)

lemma tracked_smaller:
  "tracked view stands m \<Longrightarrow> stands p \<subseteq> stands (am_site m) \<Longrightarrow> tracked view stands (m\<lparr>am_site := p\<rparr>)"
  by (auto simp: tracked_def)

context object_store
begin

lemma release_tracks:
  assumes k: "platform_ok stands calls" and t: "tracked view stands m" and s: "settles mk (view (am_world m))"
    and r: "release st calls mk m = (ok, m')"
  shows "tracked view stands m' \<and> (ok \<longrightarrow> clear stands (mk_chat mk) m' \<and> view (am_world m') (mark_at (mk_chat mk)) = None) \<and>
    (\<forall>j. view (am_world m') (mark_at j) = view (am_world m) (mark_at j) \<or> view (am_world m') (mark_at j) = None) \<and>
    (am_log m' = am_log m \<longrightarrow> ok)"
proof -
  let ?j = "mk_chat mk" and ?db = "view (am_world m)"
  let ?m = "m\<lparr>am_timers := (am_timers m)(?j := None)\<rparr>"
  obtain gone p where c: "mc_remove calls (am_site m) ?j (mk_target mk) (mk_handle mk) = (gone, p)" by force
  note sm = removal [OF k c]
  show ?thesis
  proof (cases gone)
    case False
    then have "ok = False" "m' = logged (Remove_Failed ?j (mk_target mk)) (?m\<lparr>am_site := p\<rparr>)"
      using r c by (simp_all add: release_def Let_def)
    moreover have "tracked view stands (logged (Remove_Failed ?j (mk_target mk)) (?m\<lparr>am_site := p\<rparr>))"
      using tracked_smaller [of view stands ?m p] t sm(1) by (intro tracked_logged) simp
    ultimately show ?thesis by (simp add: logged_def)
  next
    case True
    obtain x w where d: "DropMark st (am_world m) ?j = (x, w)" by force
    have pl: "plain_items ?db" using t by (simp add: tracked_def)
    note o = drop_mark [OF pl d]
    have rec: "recorded (view w) j a b \<or> given_up (am_log m) j a" if "(j, a, b) \<in> stands p" for j a b
    proof -
      have q: "recorded ?db j a b \<or> given_up (am_log m) j a" using t sm(1) that by (auto simp: tracked_def)
      show ?thesis
      proof (cases "j = ?j")
        case True
        have "\<not> recorded ?db j a b" using s sm(2) \<open>gone\<close> that unfolding settles_def True by blast
        then show ?thesis using q by blast
      next
        case False
        then show ?thesis using q o by (simp add: recorded_def)
      qed
    qed
    have cl: "given_up (am_log m) ?j a" if "(?j, a, b) \<in> stands p" for a b
    proof -
      have "recorded ?db ?j a b \<or> given_up (am_log m) ?j a" using t sm(1) that by (auto simp: tracked_def)
      moreover have "\<not> recorded ?db ?j a b" using s sm(2) \<open>gone\<close> that unfolding settles_def by blast
      ultimately show ?thesis by blast
    qed
    have tr: "tracked view stands (?m\<lparr>am_site := p, am_world := w\<rparr>)" using rec o by (simp add: tracked_def)
    have stay: "\<forall>j. view w (mark_at j) = ?db (mark_at j) \<or> view w (mark_at j) = None"
      using o by (metis mark_at_inj)
    show ?thesis
    proof (cases x)
      case (Inl e)
      then have "ok = False" "m' = logged (Record_Stays ?j) (?m\<lparr>am_site := p, am_world := w\<rparr>)"
        using r c d \<open>gone\<close> by (simp_all add: release_def Let_def)
      then show ?thesis using tracked_logged [OF tr] stay by (simp add: logged_def)
    next
      case (Inr u)
      then have "ok = True" "m' = ?m\<lparr>am_site := p, am_world := w\<rparr>"
        using r c d \<open>gone\<close> by (simp_all add: release_def Let_def)
      then show ?thesis using tr stay cl o Inr by (simp add: clear_def)
    qed
  qed
qed

lemma put_mark_tracks:
  assumes k: "platform_ok stands calls" and t: "tracked view stands m" and c: "clear stands jid m"
  shows "tracked view stands (put_mark st calls now ttl jid m)"
proof -
  define target where "target = (case am_cand m jid of None \<Rightarrow> [] | Some t \<Rightarrow> t)"
  obtain r p where a: "mc_add calls (am_site m) jid target = (r, p)" by force
  show ?thesis
  proof (cases "target = []")
    case True
    then show ?thesis using t by (simp add: put_mark_def target_def [symmetric] Let_def tracked_logged)
  next
    case go: False
    show ?thesis
    proof (cases r)
      case (Inl e)
      show ?thesis
      proof (cases e)
        case ErrNoMarkTarget
        then have "tracked view stands (m\<lparr>am_site := p\<rparr>)" using addition(2) [OF k a] t Inl by (simp add: tracked_smaller)
        then show ?thesis using go a Inl ErrNoMarkTarget
          by (simp add: put_mark_def target_def [symmetric] Let_def tracked_logged)
      next
        case Platform_Failed
        then have "stands p \<subseteq> stands (am_site m) \<union> {(jid, target, h) |h. True}" using addition(3) [OF k a] Inl by simp
        then have "tracked view stands (logged (Add_Failed jid target) (m\<lparr>am_site := p\<rparr>))"
          using t by (auto simp: tracked_def logged_def given_up_def)
        then show ?thesis using go a Inl Platform_Failed
          by (simp add: put_mark_def target_def [symmetric] Let_def)
      qed
    next
      case (Inr h)
      let ?mk = "\<lparr>mk_chat = jid, mk_target = target, mk_handle = h, mk_set_at = now\<rparr>"
      have ad: "stands p \<subseteq> insert (jid, target, h) (stands (am_site m))" using addition(1) [OF k a] Inr by simp
      obtain x w where d: "SetMark st (am_world m) ?mk = (x, w)" by force
      have pl: "plain_items (view (am_world m))" using t by (simp add: tracked_def)
      note o = set_mark [OF pl d]
      have old: "recorded (view w) j a b \<or> given_up (am_log m) j a" if "(j, a, b) \<in> stands (am_site m)" for j a b
      proof (cases "j = jid")
        case True
        then show ?thesis using c that by (auto simp: clear_def)
      next
        case False
        then have "view w (mark_at j) = view (am_world m) (mark_at j)" using o by simp
        then show ?thesis using t that by (auto simp: tracked_def recorded_def)
      qed
      show ?thesis
      proof (cases x)
        case (Inr u)
        then have "tracked view stands (m\<lparr>am_site := p, am_world := w\<rparr>)"
          using o ad old by (auto simp: tracked_def)
        then show ?thesis using go a \<open>r = Inr h\<close> d Inr by (simp add: put_mark_def target_def [symmetric] Let_def)
      next
        case (Inl e)
        obtain gone q where b: "mc_remove calls p jid target h = (gone, q)" by force
        note sm = removal [OF k b]
        show ?thesis
        proof (cases gone)
          case True
          then have "tracked view stands (logged (Record_Failed jid) (m\<lparr>am_site := q, am_world := w\<rparr>))"
            using sm ad old o by (simp add: tracked_def logged_def) (blast intro: given_up_Cons)
          then show ?thesis using go a \<open>r = Inr h\<close> d Inl b True
            by (simp add: put_mark_def target_def [symmetric] Let_def logged_def tracked_def)
        next
          case False
          have "given_up (Rollback_Failed jid # Record_Failed jid # am_log m) jid t" for t by (simp add: given_up_def)
          then have "tracked view stands (logged (Rollback_Failed jid) (logged (Record_Failed jid) (m\<lparr>am_site := q, am_world := w\<rparr>)))"
            using sm ad old o by (simp add: tracked_def logged_def) (blast intro: given_up_Cons)
          then show ?thesis using go a \<open>r = Inr h\<close> d Inl b False
            by (simp add: put_mark_def target_def [symmetric] Let_def logged_def tracked_def)
        qed
      qed
    qed
  qed
qed

lemma typing_tracks:
  assumes k: "platform_ok stands calls" and t: "tracked view stands m"
  shows "tracked view stands (Typing st calls now ttl jid on m)"
proof -
  obtain x w where r: "MarkFor st (am_world m) jid = (x, w)" by force
  have tw: "tracked view stands (m\<lparr>am_world := w\<rparr>)" using tracked_world [OF t mark_read_looks [OF r]] .
  show ?thesis
  proof (cases x)
    case (Inl e)
    then show ?thesis using r tw by (simp add: Typing_def tracked_logged)
  next
    case (Inr held)
    have pl: "plain_items (view (am_world m))" using t by (simp add: tracked_def)
    note h = mark_read [OF pl r [unfolded Inr]]
    show ?thesis
    proof (cases held)
      case None
      then have "\<not> recorded (view (am_world m)) jid a b" for a b using h by (simp add: recorded_def)
      then have "clear stands jid (m\<lparr>am_world := w\<rparr>)" using t by (simp add: clear_def tracked_def) blast
      then show ?thesis using r Inr None tw put_mark_tracks [OF k tw] by (simp add: Typing_def Let_def)
    next
      case (Some mk)
      obtain ok m' where q: "release st calls mk (m\<lparr>am_world := w\<rparr>) = (ok, m')" by force
      have "settles mk (view (am_world (m\<lparr>am_world := w\<rparr>)))" using h Some by simp
      note o = release_tracks [OF k tw this q]
      then show ?thesis using r Inr Some q h put_mark_tracks [OF k, of m'] by (cases ok) (simp_all add: Typing_def Let_def)
    qed
  qed
qed

lemma expire_tracks:
  assumes k: "platform_ok stands calls" and t: "tracked view stands m"
  shows "tracked view stands (expire st calls jid gen m)"
proof (cases "\<exists>b. am_timers m jid = Some b \<and> bs_gen b = gen")
  case False
  then show ?thesis using t by (auto simp: expire_def split: option.splits)
next
  case True
  let ?m = "m\<lparr>am_timers := (am_timers m)(jid := None)\<rparr>"
  obtain x w where r: "MarkFor st (am_world m) jid = (x, w)" by force
  have tw: "tracked view stands (?m\<lparr>am_world := w\<rparr>)"
    by (rule tracked_world) (simp_all add: t mark_read_looks [OF r])
  show ?thesis
  proof (cases x)
    case (Inl e)
    then show ?thesis using r tw True by (auto simp: expire_def Let_def tracked_logged)
  next
    case (Inr held)
    have pl: "plain_items (view (am_world m))" using t by (simp add: tracked_def)
    note h = mark_read [OF pl r [unfolded Inr]]
    show ?thesis
    proof (cases held)
      case None
      then show ?thesis using r Inr tw True by (auto simp: expire_def Let_def)
    next
      case (Some mk)
      obtain ok m' where q: "release st calls mk (?m\<lparr>am_world := w\<rparr>) = (ok, m')" by force
      have "settles mk (view (am_world (?m\<lparr>am_world := w\<rparr>)))" using h Some by simp
      then show ?thesis using r Inr Some q True release_tracks [OF k tw _ q] by (auto simp: expire_def Let_def)
    qed
  qed
qed

lemma sweep_tracks:
  assumes k: "platform_ok stands calls"
  shows "tracked view stands m \<Longrightarrow> \<forall>mk\<in>set mks. settles mk (view (am_world m)) \<Longrightarrow>
    tracked view stands (sweep_marks st calls age ttl halted mks m)"
proof (induction mks arbitrary: m)
  case Nil
  then show ?case by simp
next
  case (Cons mk mks)
  obtain ok m' where q: "release st calls mk m = (ok, m')" by force
  have s: "settles mk (view (am_world m))" using Cons.prems(2) by simp
  note o = release_tracks [OF k Cons.prems(1) s q]
  have "settles x (view (am_world m'))" if "x \<in> set mks" for x
  proof -
    have "settles x (view (am_world m))" using Cons.prems(2) that by simp
    moreover have "view (am_world m') (mark_at (mk_chat x)) = view (am_world m) (mark_at (mk_chat x)) \<or>
        view (am_world m') (mark_at (mk_chat x)) = None" by (rule spec [OF conjunct1 [OF conjunct2 [OF conjunct2 [OF o]]]])
    ultimately show ?thesis by (rule settles_stays)
  qed
  then have "tracked view stands (sweep_marks st calls age ttl halted mks m')"
    by (intro Cons.IH ballI conjunct1 [OF o])
  moreover have "tracked view stands (sweep_marks st calls age ttl halted mks (arm (mk_chat mk) d m))" for d
    using Cons.IH [of "arm (mk_chat mk) d m"] Cons.prems by simp
  ultimately show ?case using q Cons.prems(1) by (simp split: option.splits)
qed

lemma whole_sweep_tracks:
  assumes k: "platform_ok stands calls" and t: "tracked view stands m"
  shows "tracked view stands (Sweep st calls age ttl halted m)"
proof -
  obtain x w where r: "Marks st (am_world m) = (x, w)" by force
  have pl: "plain_items (view (am_world m))" using t by (simp add: tracked_def)
  note o = marks_read [OF pl r]
  have tw: "tracked view stands (m\<lparr>am_world := w\<rparr>)" using tracked_world [OF t] o by blast
  show ?thesis
  proof (cases x)
    case (Inl e)
    then show ?thesis using r tw by (simp add: Sweep_def sweep_read_def tracked_logged)
  next
    case (Inr mks)
    then have "\<forall>mk\<in>set mks. settles mk (view (am_world (m\<lparr>am_world := w\<rparr>)))" using o by simp
    then show ?thesis using r Inr sweep_tracks [OF k tw] by (simp add: Sweep_def sweep_read_def)
  qed
qed

end

section \<open>The helper among its callers\<close>

text \<open>
  Calls of the helper in any order, with other writers of the adapter's store, marks that disappear from the
  platform by themselves, and restarts, which keep the store and the platform. A sweep is one step: nothing calls the
  helper between its read and its first release.
\<close>

inductive mark_step ::
  "'w Store \<Rightarrow> 'p marker_calls \<Rightarrow> ('p \<Rightarrow> standing) \<Rightarrow> ('w, 'p) AckMark \<Rightarrow> ('w, 'p) AckMark \<Rightarrow> bool"
  for st calls stands where
  heard: "mark_step st calls stands m (note_inbound jid i verb m)"
| typing: "mark_step st calls stands m (Typing st calls now ttl jid on m)"
| expired: "mark_step st calls stands m (expire st calls jid gen m)"
| swept: "mark_step st calls stands m (Sweep st calls age ttl halted m)"
| stopped: "mark_step st calls stands m (Stop m)"
| restarted: "mark_step st calls stands m ((NewAckMark (am_world m) (am_site m))\<lparr>am_log := am_log m\<rparr>)"
| unmarked: "stands p \<subseteq> stands (am_site m) \<Longrightarrow> mark_step st calls stands m (m\<lparr>am_site := p\<rparr>)"
| others: "list_all plain_write wrs \<Longrightarrow> list_all (\<lambda>x. w_entity x \<noteq> AckMarks) wrs \<Longrightarrow>
    st_batch st (am_world m) [] wrs = (r, w) \<Longrightarrow> mark_step st calls stands m (m\<lparr>am_world := w\<rparr>)"

context object_store
begin

lemma mark_keeps:
  assumes k: "platform_ok stands calls" and s: "mark_step st calls stands m m'" and t: "tracked view stands m"
  shows "tracked view stands m'"
  using s
proof cases
  case (others wrs r w)
  have pl: "plain_items (view (am_world m))" using t by (simp add: tracked_def)
  show ?thesis using t none_among [OF pl others(2,3,4)] unfolding others(1)
    by (auto simp: tracked_def recorded_def)
next
  case (unmarked p)
  then show ?thesis using tracked_smaller [OF t] by simp
next
  case (restarted)
  then show ?thesis using t by (simp add: NewAckMark_def tracked_def)
qed (use t typing_tracks [OF k t] expire_tracks [OF k t] whole_sweep_tracks [OF k t] in
    \<open>simp_all add: note_inbound_def Stop_def\<close>)

lemma off_clears:
  assumes k: "platform_ok stands calls" and t: "tracked view stands m"
    and q: "am_log (Typing st calls now ttl jid False m) = am_log m"
  shows "clear stands jid (Typing st calls now ttl jid False m) \<and>
    view (am_world (Typing st calls now ttl jid False m)) (mark_at jid) = None"
proof -
  have pl: "plain_items (view (am_world m))" using t by (simp add: tracked_def)
  obtain x w where r: "MarkFor st (am_world m) jid = (x, w)" by force
  show ?thesis
  proof (cases x)
    case (Inl e)
    then show ?thesis using r q by (simp add: Typing_def logged_def)
  next
    case (Inr held)
    note h = mark_read [OF pl r [unfolded Inr]]
    show ?thesis
    proof (cases held)
      case None
      then have n: "view (am_world m) (mark_at jid) = None" using h by simp
      then have "\<not> recorded (view (am_world m)) jid a b" for a b by (simp add: recorded_def)
      then have "clear stands jid (m\<lparr>am_world := w\<rparr>)" using t by (simp add: clear_def tracked_def) blast
      then show ?thesis using r Inr None h n by (simp add: Typing_def Let_def)
    next
      case (Some mk)
      obtain ok m' where z: "release st calls mk (m\<lparr>am_world := w\<rparr>) = (ok, m')" by force
      have tw: "tracked view stands (m\<lparr>am_world := w\<rparr>)" by (rule tracked_world [OF t]) (use h in simp)
      have "settles mk (view (am_world (m\<lparr>am_world := w\<rparr>)))" using h Some by simp
      note o = release_tracks [OF k tw this z]
      have e: "Typing st calls now ttl jid False m = m'"
        using r Inr Some z by (cases ok) (simp_all add: Typing_def Let_def)
      have "ok" using o q unfolding e by simp
      then show ?thesis using o h Some unfolding e by simp
    qed
  qed
qed

end

text \<open>
  C30. Whatever happens to the store, the platform and the process, a reaction that stands is one the adapter's store
  names or one the log gave up; so when a turn ends and its Typing(off) logs nothing, no other reaction stands in that chat
  and none is recorded.
\<close>

theorem marks_tracked:
  assumes "object_store st view" and k: "platform_ok stands calls" and t: "tracked view stands m0"
    and run: "(mark_step st calls stands)\<^sup>*\<^sup>* m0 m"
  shows "tracked view stands m \<and>
    (let off = Typing st calls now ttl jid False m
     in am_log off = am_log m \<longrightarrow> clear stands jid off \<and> view (am_world off) (mark_at jid) = None)"
proof -
  have "tracked view stands m"
    using run by (induction rule: rtranclp_induct) (use t object_store.mark_keeps [OF assms(1) k] in blast)+
  then show ?thesis using object_store.off_clears [OF assms(1) k] by (simp add: Let_def)
qed

section \<open>A platform\<close>

definition reactions :: "(string \<times> string \<times> string) list marker_calls" where
  "reactions =
     \<lparr>mc_add = (\<lambda>p jid t. (Inr ''h'', (jid, t, ''h'') # p)),
      mc_remove = (\<lambda>p jid t h. (True, removeAll (jid, t, h) p))\<rparr>"

lemma reactions_ok: "platform_ok set reactions"
  by (auto simp: platform_ok_def reactions_def)

definition mark_world :: "(string \<times> string) list \<Rightarrow> world" where
  "mark_world marks = \<lparr>shelf = map (\<lambda>(jid, t). (mark_at jid,
     [(attrMarkTarget, t), (attrMarkSetAt, ''s''), (attrMarkHandle, ''h'')])) marks, mishaps = []\<rparr>"

abbreviation mark0 :: "(world, (string \<times> string \<times> string) list) AckMark" where
  "mark0 \<equiv> NewAckMark (mark_world []) []"

lemma mark_world_plain: "plain_items (items (mark_world []))"
  by (simp add: plain_items_def items_def mark_world_def)

lemma mark_shown:
  "Typing plain_driver reactions ''s'' 60 ''c'' True (note_inbound ''c'' ''m1'' ''mention'' mark0) =
   arm ''c'' 60 ((note_inbound ''c'' ''m1'' ''mention'' mark0)\<lparr>am_site := [(''c'', ''m1'', ''h'')], am_world := mark_world [(''c'', ''m1'')]\<rparr>)"
proof -
  have r: "MarkFor plain_driver (mark_world []) ''c'' = (Inr None, mark_world [])" by code_simp
  have s: "SetMark plain_driver (mark_world []) \<lparr>mk_chat = ''c'', mk_target = ''m1'', mk_handle = ''h'', mk_set_at = ''s''\<rparr> =
      (Inr (), mark_world [(''c'', ''m1'')])" by code_simp
  show ?thesis using r s by (simp add: Typing_def put_mark_def note_inbound_def NewAckMark_def reactions_def Let_def)
qed

lemma marks_tracked_witness:
  "\<exists>m. (mark_step plain_driver reactions set)\<^sup>*\<^sup>* mark0 m \<and> am_site m = [(''c'', ''m1'', ''h'')] \<and> tracked items set m"
proof -
  let ?n = "note_inbound ''c'' ''m1'' ''mention'' mark0"
  let ?m = "Typing plain_driver reactions ''s'' 60 ''c'' True ?n"
  have run: "(mark_step plain_driver reactions set)\<^sup>*\<^sup>* mark0 ?m"
    using mark_step.heard mark_step.typing by (meson converse_rtranclp_into_rtranclp rtranclp.rtrancl_refl)
  moreover have "tracked items set ?m"
    using marks_tracked [OF plain_driver_store reactions_ok _ run] mark_world_plain by (simp add: tracked_def NewAckMark_def)
  moreover have "am_site ?m = [(''c'', ''m1'', ''h'')]" unfolding mark_shown by (simp add: arm_def Let_def)
  ultimately show ?thesis by blast
qed

section \<open>The sweep that is overtaken\<close>

text \<open>
  C31. The adapters start the sweep beside the server, and it reads the marks before it takes the lock. A turn
  that starts between the two puts its own mark; the sweep then releases the old mark it read, and with it the record
  of the new one: the reaction stands, the store names none, nothing is armed and nothing was logged, and the turn's
  Typing(off) leaves it standing.
\<close>

lemma stale_sweep_loses_mark:
  fixes old :: "(world, (string \<times> string \<times> string) list) AckMark"
  defines "old \<equiv> NewAckMark (mark_world [(''c'', ''m0'')]) [(''c'', ''m0'', ''h'')]"
  shows "tracked items set old \<and>
    (\<exists>mks m. sweep_read plain_driver old = (Some mks, m) \<and>
      (let m = Typing plain_driver reactions ''s'' 60 ''c'' True (note_inbound ''c'' ''m1'' ''mention'' m);
           m = sweep_marks plain_driver reactions (\<lambda>_. Some 60) 60 (\<lambda>_. False) mks m;
           m = Typing plain_driver reactions ''s'' 60 ''c'' False m
       in (''c'', ''m1'', ''h'') \<in> set (am_site m) \<and> items (am_world m) (mark_at ''c'') = None \<and>
          am_timers m = Map.empty \<and> am_log m = [] \<and> \<not> tracked items set m))"
proof -
  let ?st = plain_driver
  let ?mk = "\<lambda>t. \<lparr>mk_chat = ''c'', mk_target = t, mk_handle = ''h'', mk_set_at = ''s''\<rparr>"
  have 1: "Marks ?st (mark_world [(''c'', ''m0'')]) = (Inr [?mk ''m0''], mark_world [(''c'', ''m0'')])" by code_simp
  have 2: "MarkFor ?st (mark_world [(''c'', ''m0'')]) ''c'' = (Inr (Some (?mk ''m0'')), mark_world [(''c'', ''m0'')])" by code_simp
  have 3: "DropMark ?st (mark_world [(''c'', ''m0'')]) ''c'' = (Inr (), mark_world [])" by code_simp
  have 4: "SetMark ?st (mark_world []) (?mk ''m1'') = (Inr (), mark_world [(''c'', ''m1'')])" by code_simp
  have 5: "DropMark ?st (mark_world [(''c'', ''m1'')]) ''c'' = (Inr (), mark_world [])" by code_simp
  have 6: "MarkFor ?st (mark_world []) ''c'' = (Inr None, mark_world [])" by code_simp
  have i: "items (mark_world [(''c'', ''m0'')]) =
      Map.empty(mark_at ''c'' \<mapsto> [attrMarkHandle \<mapsto> ''h'', attrMarkSetAt \<mapsto> ''s'', attrMarkTarget \<mapsto> ''m0''])"
    by (rule ext) (simp add: items_def mark_world_def)
  have t: "tracked items set old"
    by (simp add: tracked_def old_def NewAckMark_def i recorded_def attr_def plain_items_def partAttr_def sortAttr_def openAttr_def
        attrMarkTarget_def attrMarkSetAt_def attrMarkHandle_def)
  have n: "items (mark_world []) = Map.empty" by (auto simp: items_def mark_world_def)
  have s: "sweep_read ?st old = (Some [?mk ''m0''], old)" using 1 by (simp add: sweep_read_def old_def NewAckMark_def)
  show ?thesis
    using t s 2 3 4 5 6
    by (simp add: old_def NewAckMark_def note_inbound_def Typing_def put_mark_def release_def reactions_def arm_def Let_def
        tracked_def recorded_def given_up_def n)
qed

end
