(* ===== verification/Held_Calls.thy ===== *)
theory Held_Calls
  imports Membership_Race Authorize Path_Match
begin

text \<open>
  routd/pending_actions.go, store/pending_actions.go, the operator shape of routd/acl_resource.go and the verdict reactions of
  chanlib/emoji.go: a tool call suspended until a human approves it. The gate that suspends it, the verdicts with the standing rule
  an \<open>always\<close> adds, the expiry, the waiter and the renderer of the ask and of the rule. JSON, the clock, ids and the
  delivery of notices are arguments.
\<close>

section \<open>The row\<close>

definition PendingActions :: string where [go_defs]: "PendingActions = ''pending_actions''"

definition AttrPendGroupFolder :: string where [go_defs]: "AttrPendGroupFolder = ''group_folder''"
definition AttrPendCallerAgent :: string where [go_defs]: "AttrPendCallerAgent = ''caller_agent''"
definition AttrPendTool :: string where [go_defs]: "AttrPendTool = ''tool''"
definition AttrPendArgs :: string where [go_defs]: "AttrPendArgs = ''args''"
definition AttrPendStatus :: string where [go_defs]: "AttrPendStatus = ''status''"
definition AttrPendChatJID :: string where [go_defs]: "AttrPendChatJID = ''chat_jid''"
definition AttrPendCreatedAt :: string where [go_defs]: "AttrPendCreatedAt = ''created_at''"
definition AttrPendReviewedBy :: string where [go_defs]: "AttrPendReviewedBy = ''reviewed_by''"
definition AttrPendReviewedAt :: string where [go_defs]: "AttrPendReviewedAt = ''reviewed_at''"
definition AttrPendReviewerNote :: string where [go_defs]: "AttrPendReviewerNote = ''reviewer_note''"
definition AttrPendExpiresAt :: string where [go_defs]: "AttrPendExpiresAt = ''expires_at''"
definition AttrPendNoticeID :: string where [go_defs]: "AttrPendNoticeID = ''notice_id''"

record PendingAction =
  pa_id :: string
  pa_folder :: string
  pa_caller :: string
  pa_tool :: string
  pa_args :: string
  pa_status :: string
  pa_chat :: string
  pa_created :: string
  pa_by :: string
  pa_at :: string
  pa_note :: string
  pa_expires :: string
  pa_notice :: string
  pa_ask :: string
  pa_matcher :: string
  pa_rule :: string
  pa_matcher_error :: string

definition PendingHeld :: string where [go_defs]: "PendingHeld = ''held''"
definition PendingApproved :: string where [go_defs]: "PendingApproved = ''approved''"
definition PendingRejected :: string where [go_defs]: "PendingRejected = ''rejected''"
definition PendingExpired :: string where [go_defs]: "PendingExpired = ''expired''"

text \<open>What the functions take from outside: the store, fresh versions, the policy a read of it answers, the time as text and
  as an instant, the parser of instants, and JSON. A number is the text the formatter gives it.\<close>

datatype arg = Text string | Flag bool | Number string | Nested

record 'w hold_env =
  he_store :: "'w Store"
  he_fresh :: "'w \<Rightarrow> string \<times> 'w"
  he_policy :: "'w \<Rightarrow> store option"
  he_now :: "'w \<Rightarrow> string"
  he_clock :: "'w \<Rightarrow> int"
  he_parse :: "string \<Rightarrow> int option"
  he_decode :: "string \<Rightarrow> string option \<times> (string \<times> arg) list"
  he_encode :: "(string \<times> arg) list \<Rightarrow> string"

datatype hold_error =
    No_Id
  | Incomplete
  | Bad_Verdict
  | ErrPendingNotFound
  | ErrPendingResolved string
  | ErrPendingForbidden
  | No_Standing string
  | Unnamed
  | No_Rule store_error
  | No_Edge membership_error
  | Unset write_error

definition PendingActionKey :: "string \<Rightarrow> hold_error + Key" where
  [go_defs]: "PendingActionKey i = (if i = [] then Inl No_Id else Inr \<lparr>Partition = OwnerRoutd, Sort = i\<rparr>)"

definition pend_pairs :: "PendingAction \<Rightarrow> attr_list" where
  [go_defs]: "pend_pairs p =
     [(AttrPendGroupFolder, pa_folder p), (AttrPendCallerAgent, pa_caller p), (AttrPendTool, pa_tool p),
      (AttrPendArgs, pa_args p), (AttrPendStatus, pa_status p), (AttrPendChatJID, pa_chat p),
      (AttrPendCreatedAt, pa_created p), (AttrPendReviewedBy, pa_by p), (AttrPendReviewedAt, pa_at p),
      (AttrPendReviewerNote, pa_note p), (AttrPendExpiresAt, pa_expires p), (AttrPendNoticeID, pa_notice p)]"

definition pendingAttrs :: "PendingAction \<Rightarrow> attr_list" where
  [go_defs]: "pendingAttrs p = filter (\<lambda>(_, v). v \<noteq> []) (pend_pairs p)"

section \<open>What a human reads\<close>

definition stringArgs :: "(string \<times> arg) list \<Rightarrow> (string \<times> string) list" where
  [go_defs]: "stringArgs args =
     List.map_filter (\<lambda>(k, v). case v of
         Text t \<Rightarrow> Some (k, t)
       | Flag b \<Rightarrow> Some (k, if b then ''true'' else ''false'')
       | Number t \<Rightarrow> Some (k, t)
       | Nested \<Rightarrow> None) args"

text \<open>The first \<open>n\<close> runes, written back as UTF-8: bytes that are no rune become the replacement character.\<close>

fun first_runes :: "nat \<Rightarrow> string \<Rightarrow> string" where
  "first_runes 0 s = []"
| "first_runes (Suc n) s =
     (if s = [] then []
      else case decode_rune s of (r, k) \<Rightarrow>
        (if r = rune_error \<and> k = 1 then [CHR 0xEF, CHR 0xBF, CHR 0xBD] else take k s) @ first_runes n (drop k s))"

fun more_runes :: "nat \<Rightarrow> string \<Rightarrow> bool" where
  "more_runes 0 s = (s \<noteq> [])"
| "more_runes (Suc n) s = (if s = [] then False else case decode_rune s of (_, k) \<Rightarrow> more_runes n (drop k s))"

definition shortValue :: "string \<Rightarrow> string" where
  [go_defs]: "shortValue v =
     (let v = join '' '' (Fields v)
      in if more_runes 40 v then first_runes 40 v @ [CHR 0xE2, CHR 0x80, CHR 0xA6] else v)"

text \<open>A \<open>strings.Replacer\<close>: at each place the first pair whose old string stands there.\<close>

function replace_pairs :: "(string \<times> string) list \<Rightarrow> string \<Rightarrow> string" where
  "replace_pairs pairs [] = []"
| "replace_pairs pairs (c # s) =
     (case find (\<lambda>(old, _). old \<noteq> [] \<and> has_prefix (c # s) old) pairs of
        None \<Rightarrow> c # replace_pairs pairs s
      | Some (old, new) \<Rightarrow> new @ replace_pairs pairs (drop (length old) (c # s)))"
  by pat_completeness auto
termination
  by (relation "measure (\<lambda>(_, s). length s)") (auto simp: find_Some_iff le_imp_less_Suc)

definition holdShapes :: "string \<Rightarrow> string \<times> string list" where
  [go_defs]: "holdShapes tool =
     (if tool = ''like'' then (''react {reaction} to message {targetId}'', [''reaction''])
      else if tool = ''dislike'' then (''dislike message {targetId}'', [])
      else if tool = ''edit'' then (''edit message {targetId}'', [])
      else if tool = ''delete'' then (''delete message {targetId}'', [])
      else ([], []))"

definition askText :: "string \<Rightarrow> (string \<times> string) list \<Rightarrow> string" where
  [go_defs]: "askText tool scalars =
     (let named = sort_key fst scalars;
          ask = fst (holdShapes tool)
      in if ask \<noteq> [] then replace_pairs (map (\<lambda>(k, v). (''{'' @ k @ ''}'', shortValue v)) named) ask
         else ''run '' @ tool @ concat (map (\<lambda>(k, v). '' '' @ k @ ''='' @ shortValue v) named))"

datatype spec_error = Undeclared string | Not_Scalar string | No_Spec string

text \<open>The words of an error. \<open>holdShapes\<close> declares one key at most and its name can be written in a rule, so what
  \<open>ParamsSpec\<close> refuses is the value (\<open>ParamsSpec_named\<close>).\<close>

definition spec_text :: "spec_error \<Rightarrow> string" where
  "spec_text e =
     (case e of
        Undeclared tool \<Rightarrow> tool @ '' declares no standing rule; an operator writes one''
      | Not_Scalar k \<Rightarrow> ''argument '' @ [CHR 0x22] @ k @ [CHR 0x22] @ '': the call carries no scalar value to pin''
      | No_Spec k \<Rightarrow>
          ''argument '' @ [CHR 0x22] @ k @ [CHR 0x22] @ '': its value cannot be written as an exact rule '' @
          ''(a comma splits the rule, a star widens it, spaces are stripped)'')"

fun pin_keys :: "string list \<Rightarrow> (string \<times> string) list \<Rightarrow> spec_error + (string \<times> string) list" where
  "pin_keys [] scalars = Inr []"
| "pin_keys (k # ks) scalars =
     (case map_of scalars k of
        None \<Rightarrow> Inl (Not_Scalar k)
      | Some v \<Rightarrow> and_then (pin_keys ks scalars) (\<lambda>rest. Inr ((k, v) # rest)))"

definition pinnedSpec :: "string \<Rightarrow> (string \<times> string) list \<Rightarrow> spec_error + string" where
  [go_defs]: "pinnedSpec tool scalars =
     (let keys = snd (holdShapes tool)
      in if keys = [] then Inl (Undeclared tool)
         else and_then (pin_keys keys scalars) (\<lambda>pinned.
           case ParamsSpec pinned of None \<Rightarrow> Inl (No_Spec (hd keys)) | Some spec \<Rightarrow> Inr spec))"

text \<open>The three steps of the renderer: arguments that cannot be read, the matcher, and the words of the rule.\<close>

definition unreadable :: "string option \<Rightarrow> PendingAction \<Rightarrow> PendingAction" where
  [go_defs]: "unreadable bad p =
     (case bad of
        Some e \<Rightarrow> p\<lparr>pa_matcher_error := ''the recorded arguments are not readable as JSON: '' @ e\<rparr>
      | None \<Rightarrow> p)"

definition match_spec :: "(string \<times> string) list \<Rightarrow> PendingAction \<Rightarrow> PendingAction" where
  [go_defs]: "match_spec scalars p =
     (if pa_matcher_error p \<noteq> [] then p
      else case pinnedSpec (pa_tool p) scalars of
          Inl e \<Rightarrow> p\<lparr>pa_matcher_error := spec_text e, pa_matcher := []\<rparr>
        | Inr spec \<Rightarrow> p\<lparr>pa_matcher := spec\<rparr>)"

definition rule_words :: "PendingAction \<Rightarrow> PendingAction" where
  [go_defs]: "rule_words p =
     (if pa_matcher_error p \<noteq> [] then p\<lparr>pa_rule := ''Always is not offered: '' @ pa_matcher_error p\<rparr>
      else p\<lparr>pa_rule := ''Always: every '' @ pa_tool p @ '' call with '' @ pa_matcher p @ '' in '' @ pa_folder p @
             '' runs without asking.''\<rparr>)"

definition withMatcher :: "'w hold_env \<Rightarrow> PendingAction \<Rightarrow> PendingAction" where
  [go_defs]: "withMatcher E p =
     (let (bad, args) = (if pa_args p = [] then (None, []) else he_decode E (pa_args p));
          p = unreadable bad p;
          scalars = stringArgs args;
          p = p\<lparr>pa_ask := pa_folder p @ '' wants to '' @ askText (pa_tool p) scalars\<rparr>
      in rule_words (match_spec scalars p))"

section \<open>Reading and writing rows\<close>

definition applyExpiry :: "'w hold_env \<Rightarrow> 'w \<Rightarrow> PendingAction \<Rightarrow> PendingAction" where
  [go_defs]: "applyExpiry E w p =
     (if pa_status p \<noteq> PendingHeld \<or> pa_expires p = [] then p
      else case he_parse E (pa_expires p) of
        None \<Rightarrow> p
      | Some t \<Rightarrow> if he_clock E w > t then p\<lparr>pa_status := PendingExpired\<rparr> else p)"

definition pending_row :: "Item \<Rightarrow> PendingAction" where
  [go_defs]: "pending_row it =
     (let at = (\<lambda>a. sent a (i_attrs it))
      in \<lparr>pa_id = Sort (i_key it), pa_folder = at AttrPendGroupFolder, pa_caller = at AttrPendCallerAgent,
          pa_tool = at AttrPendTool, pa_args = at AttrPendArgs, pa_status = at AttrPendStatus,
          pa_chat = at AttrPendChatJID, pa_created = at AttrPendCreatedAt, pa_by = at AttrPendReviewedBy,
          pa_at = at AttrPendReviewedAt, pa_note = at AttrPendReviewerNote, pa_expires = at AttrPendExpiresAt,
          pa_notice = at AttrPendNoticeID, pa_ask = [], pa_matcher = [], pa_rule = [], pa_matcher_error = []\<rparr>)"

definition pendingFrom :: "'w hold_env \<Rightarrow> 'w \<Rightarrow> Item \<Rightarrow> PendingAction" where
  [go_defs]: "pendingFrom E w it = withMatcher E (applyExpiry E w (pending_row it))"

definition pendingItems :: "'w hold_env \<Rightarrow> 'w \<Rightarrow> Cmp list \<Rightarrow> (store_error + Item list) \<times> 'w" where
  [go_defs]: "pendingItems E w conds = st_query (he_store E) w ((query0 PendingActions OwnerRoutd)\<lparr>q_where := conds\<rparr>)"

definition pendingAction :: "'w hold_env \<Rightarrow> 'w \<Rightarrow> string \<Rightarrow> PendingAction option \<times> 'w" where
  [go_defs]: "pendingAction E w i =
     (case PendingActionKey i of
        Inl _ \<Rightarrow> (None, w)
      | Inr key \<Rightarrow>
          (case point (he_store E) w PendingActions key [] of
             (Inl _, w) \<Rightarrow> (None, w)
           | (Inr None, w) \<Rightarrow> (None, w)
           | (Inr (Some it), w) \<Rightarrow> (Some (pendingFrom E w it), w)))"

definition GetPendingAction :: "'w hold_env \<Rightarrow> 'w \<Rightarrow> string \<Rightarrow> PendingAction option \<times> 'w" where
  [go_defs]: "GetPendingAction E w i = pendingAction E w i"

definition put_pending :: "Key \<Rightarrow> PendingAction \<Rightarrow> Write" where
  [go_defs]: "put_pending key p = (write0 Put PendingActions key)\<lparr>w_attrs := pendingAttrs p\<rparr>"

definition PutPendingAction :: "'w hold_env \<Rightarrow> 'w \<Rightarrow> PendingAction \<Rightarrow> (hold_error + unit) \<times> 'w" where
  [go_defs]: "PutPendingAction E w p =
     (if pa_id p = [] \<or> pa_folder p = [] \<or> pa_tool p = [] then (Inl Incomplete, w)
      else case PendingActionKey (pa_id p) of
        Inl e \<Rightarrow> (Inl e, w)
      | Inr key \<Rightarrow>
          let p = (if pa_status p = [] then p\<lparr>pa_status := PendingHeld\<rparr> else p);
              p = (if pa_created p = [] then p\<lparr>pa_created := he_now E w\<rparr> else p)
          in (case WriteEntities (he_store E) (he_fresh E) w [] [put_pending key p] of
                (Inl e, w) \<Rightarrow> (Inl (Unset e), w)
              | (Inr _, w) \<Rightarrow> (Inr (), w)))"

definition attr_update :: "Key \<Rightarrow> string \<Rightarrow> string \<Rightarrow> Write" where
  [go_defs]: "attr_update key name v = (write0 Update PendingActions key)\<lparr>w_attrs := [(name, v)]\<rparr>"

definition setPendingAttr :: "'w hold_env \<Rightarrow> 'w \<Rightarrow> string \<Rightarrow> string \<Rightarrow> string \<Rightarrow> (hold_error + unit) \<times> 'w" where
  [go_defs]: "setPendingAttr E w i name v =
     (case PendingActionKey i of
        Inl e \<Rightarrow> (Inl e, w)
      | Inr key \<Rightarrow>
          (case WriteEntities (he_store E) (he_fresh E) w [] [attr_update key name v] of
             (Inl e, w) \<Rightarrow> (Inl (Unset e), w)
           | (Inr _, w) \<Rightarrow> (Inr (), w)))"

definition SetPendingNotice :: "'w hold_env \<Rightarrow> 'w \<Rightarrow> string \<Rightarrow> string \<Rightarrow> (hold_error + unit) \<times> 'w" where
  [go_defs]: "SetPendingNotice E w i noticeID = setPendingAttr E w i AttrPendNoticeID noticeID"

text \<open>Newest first; the order of rows of one instant, which \<open>sort.Slice\<close> leaves open, is that of the read here.\<close>

definition ListPendingActions ::
  "'w hold_env \<Rightarrow> 'w \<Rightarrow> string \<Rightarrow> string \<Rightarrow> (store_error + PendingAction list) \<times> 'w" where
  [go_defs]: "ListPendingActions E w folder status =
     (let conds = (if folder \<noteq> [] then [\<lparr>c_attr = AttrPendGroupFolder, c_op = Eq, c_value = folder\<rparr>] else [])
      in case pendingItems E w conds of
           (Inl e, w) \<Rightarrow> (Inl e, w)
         | (Inr its, w) \<Rightarrow>
             (Inr (rev (sort_key pa_created
                (rev (filter (\<lambda>p. status = [] \<or> pa_status p = status) (map (pendingFrom E w) its))))), w))"

section \<open>Reactions\<close>

definition green_emoji :: "string list" where
  [go_defs]: "green_emoji =
     [[CHR 0xE2, CHR 0x9C, CHR 0x85], [CHR 0xE2, CHR 0x9C, CHR 0x94],
      [CHR 0xE2, CHR 0x9C, CHR 0x94, CHR 0xEF, CHR 0xB8, CHR 0x8F],
      [CHR 0xF0, CHR 0x9F, CHR 0x9F, CHR 0xA2],
      [CHR 0xE2, CHR 0x98, CHR 0x91, CHR 0xEF, CHR 0xB8, CHR 0x8F]]"

definition red_emoji :: "string list" where
  [go_defs]: "red_emoji =
     [[CHR 0xE2, CHR 0x9D, CHR 0x8C], [CHR 0xE2, CHR 0x9C, CHR 0x96],
      [CHR 0xE2, CHR 0x9C, CHR 0x96, CHR 0xEF, CHR 0xB8, CHR 0x8F],
      [CHR 0xF0, CHR 0x9F, CHR 0x94, CHR 0xB4], [CHR 0xF0, CHR 0x9F, CHR 0x9A, CHR 0xAB],
      [CHR 0xE2, CHR 0x9B, CHR 0x94]]"

definition VerdictEmoji :: "string \<Rightarrow> string" where
  [go_defs]: "VerdictEmoji emoji =
     (if emoji \<in> set green_emoji then ''/approve'' else if emoji \<in> set red_emoji then ''/reject'' else [])"

definition platformID :: "string \<Rightarrow> string" where
  [go_defs]: "platformID target = (case cut_last slash target of (b, a, found) \<Rightarrow> if found then a else target)"

definition VerdictForReaction :: "'w hold_env \<Rightarrow> 'w \<Rightarrow> string \<Rightarrow> string \<Rightarrow> string \<Rightarrow> string \<times> 'w" where
  [go_defs]: "VerdictForReaction E w chatJID target emoji =
     (let verb = VerdictEmoji emoji;
          noticeID = platformID target
      in if verb = [] \<or> chatJID = [] \<or> noticeID = [] then ([], w)
         else case pendingItems E w
             [\<lparr>c_attr = AttrPendChatJID, c_op = Eq, c_value = chatJID\<rparr>,
              \<lparr>c_attr = AttrPendNoticeID, c_op = Eq, c_value = noticeID\<rparr>,
              \<lparr>c_attr = AttrPendStatus, c_op = Eq, c_value = PendingHeld\<rparr>] of
           (Inl _, w) \<Rightarrow> ([], w)
         | (Inr its, w) \<Rightarrow> (case its of [] \<Rightarrow> ([], w) | it # _ \<Rightarrow> (verb @ '' '' @ Sort (i_key it), w)))"

section \<open>The verdict\<close>

definition still_held :: Cond where
  [go_defs]: "still_held =
     \<lparr>cond_item = ItemAny, cond_where = [\<lparr>c_attr = AttrPendStatus, c_op = Eq, c_value = PendingHeld\<rparr>]\<rparr>"

definition verdict_write :: "Key \<Rightarrow> string \<Rightarrow> string \<Rightarrow> string \<Rightarrow> string \<Rightarrow> Write" where
  [go_defs]: "verdict_write key status reviewer now remark =
     (write0 Update PendingActions key)\<lparr>
       w_attrs := [(AttrPendStatus, status), (AttrPendReviewedBy, reviewer), (AttrPendReviewedAt, now),
                   (AttrPendReviewerNote, remark)],
       w_cond := still_held\<rparr>"

definition resolvePendingActionInto ::
  "'w hold_env \<Rightarrow> 'w \<Rightarrow> WriteSet \<Rightarrow> string \<Rightarrow> string \<Rightarrow> string \<Rightarrow> string \<Rightarrow> write_error option
   \<Rightarrow> (hold_error + PendingAction \<times> WriteSet) \<times> 'w" where
  [go_defs]: "resolvePendingActionInto E w ws i status reviewer remark lost =
     (if status \<noteq> PendingApproved \<and> status \<noteq> PendingRejected then (Inl Bad_Verdict, w)
      else case PendingActionKey i of
        Inl e \<Rightarrow> (Inl e, w)
      | Inr key \<Rightarrow>
          (case pendingAction E w i of
             (None, w) \<Rightarrow> (Inl ErrPendingNotFound, w)
           | (Some cur, w) \<Rightarrow>
               if pa_status cur \<noteq> PendingHeld then (Inl (ErrPendingResolved (pa_status cur)), w)
               else let now = he_now E w
                    in (case AddGuarded ws lost (verdict_write key status reviewer now remark) of
                          Inl e \<Rightarrow> (Inl (Unset e), w)
                        | Inr ws \<Rightarrow>
                            (Inr (cur\<lparr>pa_status := status, pa_by := reviewer, pa_at := now, pa_note := remark\<rparr>, ws), w))))"

definition skipApprovalRow :: "PendingAction \<Rightarrow> string \<Rightarrow> ACLRow" where
  [go_defs]: "skipApprovalRow p reviewer =
     empty_row\<lparr>Principal := pa_caller p, Action := HoldPrefix @ pa_tool p, Scope := pa_folder p, Effect := EffectDeny,
       Params := pa_matcher p, GrantedBy := ''always:'' @ reviewer\<rparr>"

definition aclOperatorShape :: "ACLRow \<Rightarrow> bool" where
  [go_defs]: "aclOperatorShape r =
     (Scope r = ''**'' \<and> (Action r = [] \<or> Action r = ''*'') \<and> (Effect r = [] \<or> Effect r = ''allow'') \<and>
      Params r = [] \<and> Predicate r = [])"

definition PutACLRowInto :: "string \<Rightarrow> WriteSet \<Rightarrow> ACLRow \<Rightarrow> store_error + WriteSet" where
  [go_defs]: "PutACLRowInto now ws row = and_then (aclPut (aclDefaults now row)) (\<lambda>x. Inr (Add ws [x]))"

definition grantACLInto :: "'w hold_env \<Rightarrow> 'w \<Rightarrow> WriteSet \<Rightarrow> ACLRow \<Rightarrow> (hold_error + WriteSet) \<times> 'w" where
  [go_defs]: "grantACLInto E w ws row =
     (let grantedBy = (if GrantedBy row = [] then ''routd'' else GrantedBy row)
      in if aclOperatorShape row then
           (case PutMembershipInto (he_store E) (he_now E w) w ws (Principal row) ''role:operator'' grantedBy of
              (Inl e, w) \<Rightarrow> (Inl (No_Edge e), w)
            | (Inr ws, w) \<Rightarrow> (Inr ws, w))
         else
           (case PutACLRowInto (he_now E w) ws ((GrantDefaults row)\<lparr>GrantedBy := grantedBy\<rparr>) of
              Inl e \<Rightarrow> (Inl (No_Rule e), w)
            | Inr ws \<Rightarrow> (Inr ws, w)))"

definition plain_caller :: "string \<Rightarrow> Caller" where
  [go_defs]: "plain_caller sub = \<lparr>c_principal = sub, c_claims = Map.empty, c_extra = [], c_route = []\<rparr>"

definition resolveHoldInto ::
  "'w hold_env \<Rightarrow> 'w \<Rightarrow> WriteSet \<Rightarrow> string \<Rightarrow> string \<Rightarrow> string \<Rightarrow> string \<Rightarrow> bool \<Rightarrow> write_error option
   \<Rightarrow> (hold_error + PendingAction \<times> WriteSet) \<times> 'w" where
  [go_defs]: "resolveHoldInto E w ws i verdict reviewer remark standing lost =
     (case pendingAction E w i of
        (None, w) \<Rightarrow> (Inl ErrPendingNotFound, w)
      | (Some held, w) \<Rightarrow>
          if \<not> Authorize (he_policy E w) (plain_caller reviewer) ''admin'' (pa_folder held) Map.empty
          then (Inl ErrPendingForbidden, w)
          else (case resolvePendingActionInto E w ws i verdict reviewer remark lost of
                  (Inl e, w) \<Rightarrow> (Inl e, w)
                | (Inr (p, ws), w) \<Rightarrow>
                    if verdict \<noteq> PendingApproved \<or> \<not> standing then (Inr (p, ws), w)
                    else if pa_matcher_error p \<noteq> [] then (Inl (No_Standing (pa_matcher_error p)), w)
                    else if pa_caller p = [] \<or> pa_tool p = [] \<or> pa_folder p = [] then (Inl Unnamed, w)
                    else (case grantACLInto E w ws (skipApprovalRow p reviewer) of
                            (Inl e, w) \<Rightarrow> (Inl e, w)
                          | (Inr ws, w) \<Rightarrow> (Inr (p, ws), w))))"

definition expire_write :: "Key \<Rightarrow> Write" where
  [go_defs]: "expire_write key =
     (write0 Update PendingActions key)\<lparr>w_attrs := [(AttrPendStatus, PendingExpired)], w_cond := still_held\<rparr>"

definition expirePendingAction :: "'w hold_env \<Rightarrow> 'w \<Rightarrow> string \<Rightarrow> (hold_error + bool) \<times> 'w" where
  [go_defs]: "expirePendingAction E w i =
     (case PendingActionKey i of
        Inl e \<Rightarrow> (Inl e, w)
      | Inr key \<Rightarrow>
          (case TryWriteEntities (he_store E) (he_fresh E) w [] [expire_write key] of
             (Inl e, w) \<Rightarrow> (Inl (Unset (Door e)), w)
           | (Inr won, w) \<Rightarrow> (Inr won, w)))"

text \<open>The command of the chat: the verdict of one sender, applied.\<close>

datatype hold_ack = Usage | Failed hold_error | Rejected string | Standing string | Approved string

definition cmdResolveHold ::
  "'w hold_env \<Rightarrow> 'w \<Rightarrow> string \<Rightarrow> string \<Rightarrow> string \<Rightarrow> bool \<Rightarrow> hold_ack \<times> 'w" where
  [go_defs]: "cmdResolveHold E w arg sender verdict standing =
     (case cut CHR '' '' (trim_space arg) of (i, remark, _) \<Rightarrow>
        if i = [] then (Usage, w)
        else case resolveHoldInto E w empty_set i verdict sender (trim_space remark) standing
                 (Some (Refused ''already resolved'')) of
            (Inl e, w) \<Rightarrow> (Failed e, w)
          | (Inr (p, ws), w) \<Rightarrow>
              (case Apply (he_store E) (he_fresh E) w ws [] of
                 (Inl e, w) \<Rightarrow> (Failed (Unset e), w)
               | (Inr _, w) \<Rightarrow>
                   (if verdict = PendingRejected then Rejected i
                    else if standing then Standing i else Approved i, w)))"

section \<open>The gate and the waiter\<close>

definition verdictRefusal :: "PendingAction \<Rightarrow> string \<Rightarrow> string" where
  [go_defs]: "verdictRefusal p tool =
     (if pa_status p = PendingRejected then
        ''NOT RUN (id '' @ pa_id p @ ''): a human rejected '' @ tool @ ''.'' @
        (if pa_note p \<noteq> [] then '' Their note: '' @ pa_note p else []) @
        '' Tell the user, and do not retry '' @ [CHR 0xE2, CHR 0x80, CHR 0x94] @ '' a retry is held again.''
      else
        ''NOT RUN (id '' @ pa_id p @ ''): '' @ tool @ '' needs human approval and the request is '' @ pa_status p @
        ''. Tell the user, and do not retry '' @ [CHR 0xE2, CHR 0x80, CHR 0x94] @ '' a retry is held again.'')"

definition unanswered :: "string \<Rightarrow> string \<Rightarrow> string" where
  [go_defs]: "unanswered i tool =
     ''NOT RUN (id '' @ i @ ''): '' @ tool @ '' waited for human approval and nobody answered in time. '' @
     ''Tell the user it was not done. Do not retry '' @ [CHR 0xE2, CHR 0x80, CHR 0x94] @ '' a retry is held again.''"

text \<open>What a read of the row tells the waiter: nothing yet, run the call, or the refusal.\<close>

definition verdict_of :: "PendingAction option \<Rightarrow> string \<Rightarrow> (string \<times> bool) option" where
  [go_defs]: "verdict_of x tool =
     (case x of
        None \<Rightarrow> None
      | Some p \<Rightarrow>
          if pa_status p = PendingHeld then None
          else if pa_status p = PendingApproved then Some ([], False)
          else Some (verdictRefusal p tool, True))"

text \<open>The end of the wait.\<close>

definition close_wait :: "'w hold_env \<Rightarrow> 'w \<Rightarrow> string \<Rightarrow> string \<Rightarrow> (string \<times> bool) \<times> 'w" where
  [go_defs]: "close_wait E w i tool =
     (case expirePendingAction E w i of
        (r, w) \<Rightarrow>
          if r = Inr True then ((unanswered i tool, True), w)
          else (case GetPendingAction E w i of
                  (x, w) \<Rightarrow> (case verdict_of x tool of
                      Some answer \<Rightarrow> (answer, w)
                    | None \<Rightarrow> ((unanswered i tool, True), w))))"

text \<open>\<open>polls\<close> is how many sleeps end before the deadline; \<open>nap\<close> is what everyone else does to the world
  during one.\<close>

fun awaitVerdict :: "nat \<Rightarrow> 'w hold_env \<Rightarrow> ('w \<Rightarrow> 'w) \<Rightarrow> 'w \<Rightarrow> string \<Rightarrow> string \<Rightarrow> (string \<times> bool) \<times> 'w" where
  "awaitVerdict 0 E nap w i tool = close_wait E w i tool"
| "awaitVerdict (Suc polls) E nap w i tool =
     (case GetPendingAction E (nap w) i of
        (x, w) \<Rightarrow> (case verdict_of x tool of
            Some answer \<Rightarrow> (answer, w)
          | None \<Rightarrow> awaitVerdict polls E nap w i tool))"

record turnMCP =
  tm_folder :: string
  tm_topic :: string
  tm_chat :: string
  tm_turn :: string
  tm_trigger :: string
  tm_elevated :: bool

definition verdictOptions :: "PendingAction \<Rightarrow> (string \<times> string) list" where
  [go_defs]: "verdictOptions p =
     [([CHR 0xE2, CHR 0x9C, CHR 0x85] @ '' Approve'', ''/approve '' @ pa_id p),
      ([CHR 0xE2, CHR 0x9B, CHR 0x94] @ '' Reject'', ''/reject '' @ pa_id p)] @
     (if pa_matcher_error p = [] then [([CHR 0xE2, CHR 0x99, CHR 0xBE] @ '' Always'', ''/always '' @ pa_id p)] else [])"

text \<open>\<open>send\<close> delivers a notice to a chat and answers the platform's id of it; None is no deliverer.\<close>

type_synonym 'w notifier =
  "('w \<Rightarrow> string \<Rightarrow> string \<Rightarrow> (string \<times> string) list \<Rightarrow> string \<Rightarrow> string \<Rightarrow> string \<times> 'w) option"

definition notifyHold ::
  "'w notifier \<Rightarrow> 'w \<Rightarrow> turnMCP \<Rightarrow> string \<Rightarrow> string \<Rightarrow> (string \<times> string) list \<Rightarrow> string \<times> 'w" where
  [go_defs]: "notifyHold send w t idem text options =
     (case send of
        None \<Rightarrow> ([], w)
      | Some f \<Rightarrow> if tm_chat t = [] then ([], w) else f w (tm_chat t) text options (tm_topic t) idem)"

definition notifyHeld :: "'w hold_env \<Rightarrow> 'w notifier \<Rightarrow> 'w \<Rightarrow> turnMCP \<Rightarrow> PendingAction \<Rightarrow> 'w" where
  [go_defs]: "notifyHeld E send w t p =
     (let text = [CHR 0xE2, CHR 0x8F, CHR 0xB8] @ '' '' @ pa_ask p @ '' '' @ [CHR 0xE2, CHR 0x80, CHR 0x94] @
                 '' ok? ('' @ pa_id p @ '')'' @ [CHR 0x0A] @ pa_rule p
      in case notifyHold send w t (''hitl-'' @ pa_id p) text (verdictOptions p) of
           (n, w) \<Rightarrow> if n = [] then w else snd (SetPendingNotice E w (pa_id p) n))"

definition notifyHoldFailed :: "'w notifier \<Rightarrow> 'w \<Rightarrow> turnMCP \<Rightarrow> string \<Rightarrow> string \<Rightarrow> 'w" where
  [go_defs]: "notifyHoldFailed send w t tool cause =
     snd (notifyHold send w t (''hitl-fail-'' @ tm_turn t)
       ([CHR 0xE2, CHR 0x9B, CHR 0x94] @ '' '' @ tool @ '' needs approval and the hold could not be recorded ('' @ cause @
        ''). The call was blocked and there is nothing to /approve '' @ [CHR 0xE2, CHR 0x80, CHR 0x94] @
        '' an operator must check routd.'') [])"

text \<open>The row of a call that is held.\<close>

definition held_row :: "'w hold_env \<Rightarrow> turnMCP \<Rightarrow> string \<Rightarrow> string \<Rightarrow> (string \<times> arg) list \<Rightarrow> PendingAction" where
  [go_defs]: "held_row E t i tool args =
     \<lparr>pa_id = i, pa_folder = tm_folder t, pa_caller = ''folder:'' @ tm_folder t, pa_tool = tool,
      pa_args = he_encode E args, pa_status = PendingHeld, pa_chat = tm_chat t, pa_created = [], pa_by = [],
      pa_at = [], pa_note = [], pa_expires = [], pa_notice = [], pa_ask = [], pa_matcher = [], pa_rule = [],
      pa_matcher_error = []\<rparr>"

text \<open>The gate of one turn, absent without a database or for an elevated turn: the refusal and whether the call was kept from running. \<open>i\<close> is the id drawn for the call, \<open>cause\<close> words an error.\<close>

definition holdGate ::
  "'w hold_env option \<Rightarrow> 'w notifier \<Rightarrow> (hold_error \<Rightarrow> string) \<Rightarrow> nat \<Rightarrow> ('w \<Rightarrow> 'w) \<Rightarrow> turnMCP
   \<Rightarrow> (string \<Rightarrow> 'w \<Rightarrow> string \<Rightarrow> (string \<times> arg) list \<Rightarrow> (string \<times> bool) \<times> 'w) option" where
  [go_defs]: "holdGate db send cause polls nap t =
     (case db of
        None \<Rightarrow> None
      | Some E \<Rightarrow>
          if tm_elevated t then None
          else Some (\<lambda>i w tool args.
            if \<not> CheckHold (he_policy E w) (plain_caller (''folder:'' @ tm_folder t)) tool (tm_folder t)
                   (map_of (stringArgs args))
            then (([], False), w)
            else let p = held_row E t i tool args
                 in case PutPendingAction E w p of
                      (Inl e, w) \<Rightarrow> (([], True), notifyHoldFailed send w t tool (cause e))
                    | (Inr _, w) \<Rightarrow> awaitVerdict polls E nap (notifyHeld E send w t (withMatcher E p)) i tool))"

end
