(* ===== verification/Held_Race.thy ===== *)
theory Held_Race
  imports Held_Calls Authorize_Cases
begin

text \<open>
  Calls that are held, verdicts, expiries and the agents that wait, in any order, over any store that keeps its contract and
  with requests and answers that may be lost. What the library promises of a held call: it starts to run only on a row
  stored as approved by someone who may administer the folder it was made in, for the call as it was made; a verdict that is stored
  stays; and a call stored as rejected or expired never runs. \<open>gate_runs\<close> shows that a call of the gate, its
  record, its notice and its wait, is a run of these steps, and that the call runs exactly when the gate lets it through.
\<close>

section \<open>The steps\<close>

abbreviation pending_at :: "string \<Rightarrow> coord" where
  "pending_at i \<equiv> coord_of PendingActions \<lparr>Partition = OwnerRoutd, Sort = i\<rparr>"

text \<open>What rides along: no held call.\<close>

definition beside :: "Write list \<Rightarrow> bool" where
  "beside wrs \<longleftrightarrow> list_all plain_write wrs \<and> list_all (\<lambda>x. w_entity x \<noteq> PendingActions) wrs"

datatype waiter = Away | Waiting | Closing

record call =
  cl_folder :: string
  cl_tool :: string
  cl_args :: string

record 'w approval =
  ap_id :: string
  ap_by :: string
  ap_seen :: PendingAction
  ap_world :: 'w

datatype 'w reviewer = Idle | Deciding string string "Write list" "'w approval"

text \<open>The calls that were recorded (or whose record may have landed), who waits, the reviewers, the approvals that were sent with what
  their reviewers read, the verdicts that were answered, and the calls that ran.\<close>

record 'w holding =
  hr_world :: 'w
  hr_calls :: "string \<rightharpoonup> call"
  hr_waits :: "string \<Rightarrow> waiter"
  hr_reviews :: "nat \<Rightarrow> 'w reviewer"
  hr_sent :: "'w approval list"
  hr_told :: "(string \<times> string) list"
  hr_ran :: "string list"

text \<open>What a waiter makes of a read.\<close>

definition answered :: "string \<Rightarrow> (string \<times> bool) option \<Rightarrow> waiter \<Rightarrow> 'w holding \<Rightarrow> 'w holding" where
  "answered i answer keep R =
     (case answer of
        None \<Rightarrow> R\<lparr>hr_waits := (hr_waits R)(i := keep)\<rparr>
      | Some (_, kept) \<Rightarrow>
          R\<lparr>hr_waits := (hr_waits R)(i := Away), hr_ran := (if kept then hr_ran R else i # hr_ran R)\<rparr>)"

inductive hold_step :: "'w hold_env \<Rightarrow> 'w holding \<Rightarrow> 'w holding \<Rightarrow> bool" for E where
  hold: "hr_calls R i = None \<Longrightarrow> PutPendingAction E (hr_world R) (held_row E t i tool args) = (r, w) \<Longrightarrow>
    hold_step E R
      (R\<lparr>hr_world := w,
         hr_calls := (hr_calls R)(i \<mapsto> \<lparr>cl_folder = tm_folder t, cl_tool = tool, cl_args = he_encode E args\<rparr>),
         hr_waits := (hr_waits R)(i := (if r = Inr () then Waiting else Away))\<rparr>)"
| notice: "SetPendingNotice E (hr_world R) i n = (r, w) \<Longrightarrow> hold_step E R (R\<lparr>hr_world := w\<rparr>)"
| poll: "hr_waits R i = Waiting \<Longrightarrow> GetPendingAction E (hr_world R) i = (x, w) \<Longrightarrow>
    hold_step E R (answered i (verdict_of x tool) Waiting (R\<lparr>hr_world := w\<rparr>))"
| give_up: "hr_waits R i = Waiting \<Longrightarrow> expirePendingAction E (hr_world R) i = (r, w) \<Longrightarrow>
    hold_step E R
      (R\<lparr>hr_world := w, hr_waits := (hr_waits R)(i := (if r = Inr True then Away else Closing)),
         hr_told := (if r = Inr True then (i, PendingExpired) # hr_told R else hr_told R)\<rparr>)"
| reread: "hr_waits R i = Closing \<Longrightarrow> GetPendingAction E (hr_world R) i = (x, w) \<Longrightarrow>
    hold_step E R (answered i (verdict_of x tool) Away (R\<lparr>hr_world := w\<rparr>))"
| review: "resolveHoldInto E (hr_world R) empty_set i verdict reviewer remark standing (Some lost) = (Inr (p, ws), w) \<Longrightarrow>
    hold_step E R
      (R\<lparr>hr_world := w,
         hr_reviews := (hr_reviews R)(k := Deciding i verdict (ws_writes ws)
           \<lparr>ap_id = i, ap_by = reviewer, ap_seen = p, ap_world = snd (pendingAction E (hr_world R) i)\<rparr>)\<rparr>)"
| decide: "hr_reviews R k = Deciding i verdict wrs a \<Longrightarrow> beside rest \<Longrightarrow>
    st_batch (he_store E) (hr_world R) [] (wrs @ rest) = (r, w) \<Longrightarrow>
    hold_step E R
      (R\<lparr>hr_world := w, hr_reviews := (hr_reviews R)(k := Idle),
         hr_sent := (if verdict = PendingApproved then a # hr_sent R else hr_sent R),
         hr_told := (if r = Inr True then (i, verdict) # hr_told R else hr_told R)\<rparr>)"
| purge: "PendingActionKey i = Inr key \<Longrightarrow> beside rest \<Longrightarrow>
    st_batch (he_store E) (hr_world R) [] (write0 Delete PendingActions key # rest) = (r, w) \<Longrightarrow>
    hold_step E R (R\<lparr>hr_world := w\<rparr>)"
| others: "beside wrs \<Longrightarrow> st_batch (he_store E) (hr_world R) [] wrs = (r, w) \<Longrightarrow> hold_step E R (R\<lparr>hr_world := w\<rparr>)"
| draw: "he_fresh E (hr_world R) = (v, w) \<Longrightarrow> hold_step E R (R\<lparr>hr_world := w\<rparr>)"
| leave: "hold_step E R (R\<lparr>hr_waits := (hr_waits R)(i := Away), hr_reviews := (hr_reviews R)(k := Idle)\<rparr>)"

section \<open>The invariant\<close>

definition may_answer :: "'w hold_env \<Rightarrow> (string \<rightharpoonup> call) \<Rightarrow> 'w approval \<Rightarrow> bool" where
  "may_answer E calls a \<longleftrightarrow>
     (\<exists>c. calls (ap_id a) = Some c \<and> pa_folder (ap_seen a) = cl_folder c \<and> pa_tool (ap_seen a) = cl_tool c \<and>
       pa_args (ap_seen a) = cl_args c \<and>
       Authorize (he_policy E (ap_world a)) (plain_caller (ap_by a)) ''admin'' (cl_folder c) Map.empty)"

abbreviation status :: "attrs \<Rightarrow> string" where "status m \<equiv> sent AttrPendStatus m"

definition row_of :: "(string \<rightharpoonup> call) \<Rightarrow> string \<Rightarrow> attrs \<Rightarrow> bool" where
  "row_of calls i m \<longleftrightarrow>
     (\<exists>c. calls i = Some c \<and> sent AttrPendGroupFolder m = cl_folder c \<and> sent AttrPendTool m = cl_tool c \<and>
       sent AttrPendArgs m = cl_args c)"

definition row_kept :: "'w holding \<Rightarrow> string \<Rightarrow> attrs \<Rightarrow> bool" where
  "row_kept R i m \<longleftrightarrow> row_of (hr_calls R) i m \<and>
     status m \<in> {PendingHeld, PendingApproved, PendingRejected, PendingExpired} \<and>
     (status m = PendingApproved \<longrightarrow> (\<exists>a \<in> set (hr_sent R). ap_id a = i \<and> ap_by a = sent AttrPendReviewedBy m))"

definition deciding_ok :: "'w hold_env \<Rightarrow> (string \<rightharpoonup> call) \<Rightarrow> 'w reviewer \<Rightarrow> bool" where
  "deciding_ok E calls v \<longleftrightarrow>
     (case v of
        Idle \<Rightarrow> True
      | Deciding i verdict wrs a \<Rightarrow>
          ap_id a = i \<and> may_answer E calls a \<and> verdict \<in> {PendingApproved, PendingRejected} \<and>
          (\<exists>key now remark rest. PendingActionKey i = Inr key \<and> beside rest \<and>
             wrs = verdict_write key verdict (ap_by a) now remark # rest))"

definition hold_inv :: "'w hold_env \<Rightarrow> ('w \<Rightarrow> item_map) \<Rightarrow> 'w holding \<Rightarrow> bool" where
  "hold_inv E view R \<longleftrightarrow> plain_items (view (hr_world R)) \<and>
     (\<forall>i m. view (hr_world R) (pending_at i) = Some m \<longrightarrow> row_kept R i m) \<and>
     (\<forall>a \<in> set (hr_sent R). may_answer E (hr_calls R) a) \<and>
     (\<forall>k. deciding_ok E (hr_calls R) (hr_reviews R k)) \<and>
     (\<forall>i v. (i, v) \<in> set (hr_told R) \<longrightarrow> hr_calls R i \<noteq> None \<and>
        (\<forall>m. view (hr_world R) (pending_at i) = Some m \<longrightarrow> status m = v \<and> v \<noteq> PendingHeld)) \<and>
     (\<forall>i \<in> set (hr_ran R). hr_calls R i \<noteq> None \<and>
        (\<exists>a \<in> set (hr_sent R). ap_id a = i) \<and>
        (\<forall>m. view (hr_world R) (pending_at i) = Some m \<longrightarrow> status m = PendingApproved) \<and>
        (\<forall>v. (i, v) \<in> set (hr_told R) \<longrightarrow> v = PendingApproved)) \<and>
     distinct (map fst (hr_told R))"

section \<open>Rows and their writes\<close>

lemma pend_attrs [simp]:
  "plain_attr AttrPendGroupFolder" "plain_attr AttrPendCallerAgent" "plain_attr AttrPendTool" "plain_attr AttrPendArgs"
  "plain_attr AttrPendStatus" "plain_attr AttrPendChatJID" "plain_attr AttrPendCreatedAt" "plain_attr AttrPendReviewedBy"
  "plain_attr AttrPendReviewedAt" "plain_attr AttrPendReviewerNote" "plain_attr AttrPendExpiresAt" "plain_attr AttrPendNoticeID"
  by (simp_all add: plain_attr_def partAttr_def sortAttr_def openAttr_def AttrPendGroupFolder_def AttrPendCallerAgent_def
      AttrPendTool_def AttrPendArgs_def AttrPendStatus_def AttrPendChatJID_def AttrPendCreatedAt_def AttrPendReviewedBy_def
      AttrPendReviewedAt_def AttrPendReviewerNote_def AttrPendExpiresAt_def AttrPendNoticeID_def)

definition pend_names :: "string list" where
  "pend_names = [AttrPendGroupFolder, AttrPendCallerAgent, AttrPendTool, AttrPendArgs, AttrPendStatus, AttrPendChatJID,
     AttrPendCreatedAt, AttrPendReviewedBy, AttrPendReviewedAt, AttrPendReviewerNote, AttrPendExpiresAt, AttrPendNoticeID]"

lemma pend_distinct: "distinct pend_names"
  by (simp add: pend_names_def AttrPendGroupFolder_def AttrPendCallerAgent_def
      AttrPendTool_def AttrPendArgs_def AttrPendStatus_def AttrPendChatJID_def AttrPendCreatedAt_def AttrPendReviewedBy_def
      AttrPendReviewedAt_def AttrPendReviewerNote_def AttrPendExpiresAt_def AttrPendNoticeID_def)

lemma pend_ne [simp]:
  "AttrPendStatus \<noteq> AttrPendGroupFolder" "AttrPendStatus \<noteq> AttrPendTool" "AttrPendStatus \<noteq> AttrPendArgs"
  "AttrPendStatus \<noteq> AttrPendReviewedBy" "AttrPendReviewedBy \<noteq> AttrPendStatus" "AttrPendReviewedBy \<noteq> AttrPendGroupFolder"
  "AttrPendReviewedBy \<noteq> AttrPendTool" "AttrPendReviewedBy \<noteq> AttrPendArgs"
  "AttrPendReviewedAt \<noteq> AttrPendGroupFolder" "AttrPendReviewedAt \<noteq> AttrPendTool" "AttrPendReviewedAt \<noteq> AttrPendArgs"
  "AttrPendReviewedAt \<noteq> AttrPendStatus" "AttrPendReviewedAt \<noteq> AttrPendReviewedBy"
  "AttrPendReviewerNote \<noteq> AttrPendGroupFolder" "AttrPendReviewerNote \<noteq> AttrPendTool" "AttrPendReviewerNote \<noteq> AttrPendArgs"
  "AttrPendReviewerNote \<noteq> AttrPendStatus" "AttrPendReviewerNote \<noteq> AttrPendReviewedBy" "AttrPendReviewerNote \<noteq> AttrPendReviewedAt"
  "AttrPendNoticeID \<noteq> AttrPendGroupFolder" "AttrPendNoticeID \<noteq> AttrPendTool" "AttrPendNoticeID \<noteq> AttrPendArgs"
  "AttrPendNoticeID \<noteq> AttrPendStatus" "AttrPendNoticeID \<noteq> AttrPendReviewedBy"
  by (simp_all add: AttrPendGroupFolder_def AttrPendCallerAgent_def
      AttrPendTool_def AttrPendArgs_def AttrPendStatus_def AttrPendChatJID_def AttrPendCreatedAt_def AttrPendReviewedBy_def
      AttrPendReviewedAt_def AttrPendReviewerNote_def AttrPendExpiresAt_def AttrPendNoticeID_def)

lemmas pend_ne_sym [simp] = pend_ne [symmetric]

lemma pairs_names: "map fst (pend_pairs p) = pend_names"
  by (simp add: pend_pairs_def pend_names_def)

lemma sent_filtered: "distinct (map fst xs) \<Longrightarrow> sent a (map_of (filter (\<lambda>(_, v). v \<noteq> []) xs)) = sent a (map_of xs)"
proof (induction xs)
  case Nil
  then show ?case by simp
next
  case (Cons x xs)
  have "map_of (filter (\<lambda>(_, v). v \<noteq> []) xs) a = None" if "a \<notin> fst ` set xs"
    using that by (auto simp: map_of_eq_None_iff)
  moreover have "map_of xs a = None" if "a \<notin> fst ` set xs" using that by (simp add: map_of_eq_None_iff)
  ultimately show ?case using Cons by (cases x; cases "fst x = a") (auto simp: sent_def)
qed

lemma pending_key: "PendingActionKey i = Inr key \<Longrightarrow> coord_of PendingActions key = pending_at i"
  by (auto simp: PendingActionKey_def split: if_splits)

lemma pending_at_inj [simp]: "pending_at i = pending_at j \<longleftrightarrow> i = j"
  by (simp add: coord_of_def)

lemma held_apart [simp]:
  "PendingHeld \<noteq> PendingApproved" "PendingHeld \<noteq> PendingRejected" "PendingHeld \<noteq> PendingExpired"
  "PendingApproved \<noteq> PendingRejected" "PendingApproved \<noteq> PendingExpired" "PendingApproved \<noteq> PendingHeld"
  "PendingRejected \<noteq> PendingHeld" "PendingExpired \<noteq> PendingHeld" "PendingExpired \<noteq> PendingApproved" "PendingRejected \<noteq> PendingApproved"
  by (simp_all add: PendingHeld_def PendingApproved_def PendingRejected_def PendingExpired_def)

lemma pending_writes [simp]:
  "plain_write (put_pending key p)" "plain_write (attr_update key AttrPendNoticeID v)"
  "plain_write (verdict_write key st by now remark)" "plain_write (expire_write key)"
  "w_entity (put_pending key p) = PendingActions" "w_entity (attr_update key a v) = PendingActions"
  "w_entity (verdict_write key st by now remark) = PendingActions" "w_entity (expire_write key) = PendingActions"
  "w_key (put_pending key p) = key" "w_key (attr_update key a v) = key"
  "w_key (verdict_write key st by now remark) = key" "w_key (expire_write key) = key"
proof -
  have "distinct (map fst (pendingAttrs p))"
    unfolding pendingAttrs_def by (rule distinct_map_filter) (simp add: pairs_names pend_distinct)
  moreover have "list_all plain_attr (map fst (pend_pairs p))"
    unfolding pairs_names by (simp add: pend_names_def)
  then have "list_all plain_attr (map fst (pendingAttrs p))" unfolding pendingAttrs_def by (auto simp: list_all_iff)
  ultimately show "plain_write (put_pending key p)"
    by (simp add: plain_write_def put_pending_def write0_def plain_cond_def no_cond_def del: list.pred_map)
qed (simp_all add: plain_write_def put_pending_def attr_update_def verdict_write_def expire_write_def write0_def plain_cond_def
    no_cond_def still_held_def)

text \<open>A write that asks for a held row, and what the writes leave.\<close>

lemma asks_held:
  assumes "x \<in> {verdict_write key st by now remark, expire_write key}" "write_ok x n"
  shows "\<exists>m. n = Some m \<and> sent AttrPendStatus m = PendingHeld"
  using assms by (cases n)
    (auto simp: write_ok_def cond_ok_def verdict_write_def expire_write_def still_held_def write0_def cmp_match_def sent_def
      attrs_of_def cmp_eval_def split: option.splits)

lemma written_rows:
  "written (verdict_write key st by now remark) (Some m) =
    Some (m(AttrPendStatus \<mapsto> st, AttrPendReviewedBy \<mapsto> by, AttrPendReviewedAt \<mapsto> now, AttrPendReviewerNote \<mapsto> remark))"
  "written (expire_write key) (Some m) = Some (m(AttrPendStatus \<mapsto> PendingExpired))"
  "written (attr_update key a v) (Some m) = Some (m(a \<mapsto> v))"
  "written (put_pending key p) n = Some (map_of (pendingAttrs p))"
  by (auto simp: written_def merged_def verdict_write_def expire_write_def attr_update_def put_pending_def write0_def
      attrs_of_def fun_eq_iff split: option.splits)

lemma sent_upd: "sent a (m(b \<mapsto> v)) = (if a = b then v else sent a m)"
  by (simp add: sent_def)

lemma put_row:
  "sent AttrPendGroupFolder (map_of (pendingAttrs p)) = pa_folder p" "sent AttrPendTool (map_of (pendingAttrs p)) = pa_tool p"
  "sent AttrPendArgs (map_of (pendingAttrs p)) = pa_args p" "sent AttrPendStatus (map_of (pendingAttrs p)) = pa_status p"
proof -
  have d: "distinct (map fst (pend_pairs p))" by (simp add: pairs_names pend_distinct)
  note m = map_of_is_SomeI [OF d]
  have "map_of (pend_pairs p) AttrPendGroupFolder = Some (pa_folder p)" "map_of (pend_pairs p) AttrPendTool = Some (pa_tool p)"
    "map_of (pend_pairs p) AttrPendArgs = Some (pa_args p)" "map_of (pend_pairs p) AttrPendStatus = Some (pa_status p)"
    by (rule m; simp add: pend_pairs_def)+
  then show "sent AttrPendGroupFolder (map_of (pendingAttrs p)) = pa_folder p" "sent AttrPendTool (map_of (pendingAttrs p)) = pa_tool p"
    "sent AttrPendArgs (map_of (pendingAttrs p)) = pa_args p" "sent AttrPendStatus (map_of (pendingAttrs p)) = pa_status p"
    unfolding pendingAttrs_def sent_filtered [OF d] by (simp_all only: sent_def option.case)
qed

text \<open>What a reader is shown of the stored fields.\<close>

lemma steps_keep [simp]:
  "pa_folder (unreadable bad p) = pa_folder p" "pa_tool (unreadable bad p) = pa_tool p" "pa_args (unreadable bad p) = pa_args p"
  "pa_status (unreadable bad p) = pa_status p"
  "pa_folder (match_spec sc p) = pa_folder p" "pa_tool (match_spec sc p) = pa_tool p" "pa_args (match_spec sc p) = pa_args p"
  "pa_status (match_spec sc p) = pa_status p"
  "pa_folder (rule_words p) = pa_folder p" "pa_tool (rule_words p) = pa_tool p" "pa_args (rule_words p) = pa_args p"
  "pa_status (rule_words p) = pa_status p"
  by (simp_all add: unreadable_def match_spec_def rule_words_def split: option.splits sum.splits)

lemma matcher_keeps [simp]:
  "pa_folder (withMatcher E p) = pa_folder p" "pa_tool (withMatcher E p) = pa_tool p"
  "pa_args (withMatcher E p) = pa_args p" "pa_status (withMatcher E p) = pa_status p"
  by (simp_all add: withMatcher_def Let_def split_beta)

lemma expiry_keeps [simp]:
  "pa_folder (applyExpiry E w p) = pa_folder p" "pa_tool (applyExpiry E w p) = pa_tool p"
  "pa_args (applyExpiry E w p) = pa_args p"
  by (simp_all add: applyExpiry_def split: option.splits)

lemma expiry_status:
  "pa_status (applyExpiry E w p) = pa_status p \<or> pa_status p = PendingHeld \<and> pa_status (applyExpiry E w p) = PendingExpired"
  by (auto simp: applyExpiry_def split: option.splits)

lemma bumps_beside: "bumps_for fresh w os = (bs, w') \<Longrightarrow> beside bs"
  by (induction os arbitrary: w bs)
    (auto simp: beside_def Bump_def bump_write_def plain_write_def plain_cond_def write0_def OwnerScope_def ScopeEntity_def
      PendingActions_def no_cond_def markerVersion_def plain_attr_def partAttr_def sortAttr_def openAttr_def split: prod.splits)

lemma bumps_look: "(\<And>w. view (snd (fresh w)) = view w) \<Longrightarrow> bumps_for fresh w os = (bs, w') \<Longrightarrow> view w' = view w"
  by (induction os arbitrary: w bs) (auto simp: Bump_def split: prod.splits, metis snd_conv)

section \<open>What the operations do\<close>

text \<open>How a reader's row speaks of the stored one.\<close>

definition shows_row :: "PendingAction \<Rightarrow> attrs \<Rightarrow> bool" where
  "shows_row p m \<longleftrightarrow> pa_folder p = sent AttrPendGroupFolder m \<and> pa_tool p = sent AttrPendTool m \<and>
     pa_args p = sent AttrPendArgs m \<and>
     (pa_status p = status m \<or> status m = PendingHeld \<and> pa_status p = PendingExpired)"

lemma from_shows: "shows_row (pendingFrom E w \<lparr>i_key = k, i_attrs = m\<rparr>) m"
  using expiry_status [of E w "pending_row \<lparr>i_key = k, i_attrs = m\<rparr>"]
  by (auto simp: shows_row_def pendingFrom_def pending_row_def Let_def)

text \<open>A row that was changed in nothing the library speaks of.\<close>

definition same_row :: "attrs \<Rightarrow> attrs \<Rightarrow> bool" where
  "same_row m m' \<longleftrightarrow> list_all (\<lambda>a. sent a m = sent a m')
     [AttrPendGroupFolder, AttrPendTool, AttrPendArgs, AttrPendStatus, AttrPendReviewedBy]"

lemma same_row_refl [simp]: "same_row m m"
  by (simp add: same_row_def)

lemma beside_app: "beside (us @ vs) \<longleftrightarrow> beside us \<and> beside vs"
  by (auto simp: beside_def)

context object_store
begin

lemma pending_read:
  assumes p: "plain_items (view w)" and s: "he_store E = st" and r: "pendingAction E w i = (x, w')"
  shows "view w' = view w \<and> (\<forall>p. x = Some p \<longrightarrow> (\<exists>m. view w (pending_at i) = Some m \<and> shows_row p m))"
proof (cases "PendingActionKey i")
  case (Inl e)
  then show ?thesis using r by (simp add: pendingAction_def)
next
  case (Inr key)
  obtain y v where q: "point st w PendingActions key [] = (y, v)" by force
  have rest: "view w' = view v" "x = Some a \<Longrightarrow> \<exists>it. y = Inr (Some it) \<and> a = pendingFrom E v it" for a
    using r q Inr s by (auto simp: pendingAction_def split: sum.splits option.splits)
  have "\<exists>m. view w (pending_at i) = Some m \<and> shows_row a m" if xa: "x = Some a" for a
  proof -
    obtain it where it: "y = Inr (Some it)" "a = pendingFrom E v it" using rest(2) [OF xa] by blast
    have "Some it = map_option (\<lambda>m. projected [] \<lparr>i_key = key, i_attrs = m\<rparr>) (view w (coord_of PendingActions key))"
      by (rule point_reads [OF p _ _ q [unfolded it(1)]]) simp_all
    then obtain m where "view w (pending_at i) = Some m" "it = \<lparr>i_key = key, i_attrs = m\<rparr>"
      using pending_key [OF Inr] by (cases "view w (pending_at i)") (auto simp: projected_def)
    then show ?thesis using from_shows [of E v key] it(2) by simp
  qed
  then show ?thesis using rest(1) point_looks [OF q] by simp
qed

text \<open>A batch of one write of a held call.\<close>

lemma one_pending:
  assumes p: "plain_items (view w)" and x: "plain_write x" "w_entity x = PendingActions" "PendingActionKey i = Inr (w_key x)"
    and a: "beside rest" and b: "st_batch st w [] (x # rest) = (r, w')"
  shows "plain_items (view w') \<and>
    ((\<forall>j. view w' (pending_at j) = view w (pending_at j)) \<and> r \<noteq> Inr True \<or>
     write_ok x (view w (pending_at i)) \<and> view w' (pending_at i) = written x (view w (pending_at i)) \<and>
     (\<forall>j. j \<noteq> i \<longrightarrow> view w' (pending_at j) = view w (pending_at j)))"
proof -
  have at: "place_of x = pending_at i" using x(2) pending_key [OF x(3)] by (simp add: place_of_def)
  have "list_all plain_write rest" "list_all (\<lambda>x. w_entity x \<noteq> PendingActions) rest" using a by (simp_all add: beside_def)
  note o = one_among [OF p x(1,2) this b, unfolded at]
  have far: "(\<forall>k. coord_of PendingActions k \<noteq> pending_at i \<longrightarrow> view w' (coord_of PendingActions k) = view w (coord_of PendingActions k)) \<Longrightarrow>
      j \<noteq> i \<Longrightarrow> view w' (pending_at j) = view w (pending_at j)" for j
    using pending_at_inj [of j i] by blast
  show ?thesis using o far by (metis (no_types, lifting))
qed

lemma door_pending:
  assumes p: "plain_items (view w)" and x: "plain_write x" "w_entity x = PendingActions" "PendingActionKey i = Inr (w_key x)"
    and f: "\<And>w. view (snd (fresh w)) = view w" and b: "TryWriteEntities st fresh w [] [x] = (r, w')"
  shows "plain_items (view w') \<and>
    ((\<forall>j. view w' (pending_at j) = view w (pending_at j)) \<and> r \<noteq> Inr True \<or>
     write_ok x (view w (pending_at i)) \<and> view w' (pending_at i) = written x (view w (pending_at i)) \<and>
     (\<forall>j. j \<noteq> i \<longrightarrow> view w' (pending_at j) = view w (pending_at j)))"
proof -
  obtain bs v where bs: "bumps_for fresh w (owners_of [x]) = (bs, v)" by force
  have vw: "view v = view w" by (rule bumps_look [where view = view, OF f bs])
  have "st_batch st v [] (x # bs) = (r, w')"
    using b bs by (simp add: TryWriteEntities_def withBumps_def scopeBumps_def)
  from one_pending [OF _ x bumps_beside [OF bs] this] show ?thesis using p by (simp add: vw)
qed

lemma resolved:
  assumes p: "plain_items (view w)" and s: "he_store E = st"
    and r: "resolveHoldInto E w empty_set i verdict reviewer remark standing (Some lost) = (Inr (a, ws), w')"
  shows "view w' = view w \<and> verdict \<in> {PendingApproved, PendingRejected} \<and>
    (\<exists>m. view w (pending_at i) = Some m \<and> pa_folder a = sent AttrPendGroupFolder m \<and> pa_tool a = sent AttrPendTool m \<and>
       pa_args a = sent AttrPendArgs m \<and>
       Authorize (he_policy E (snd (pendingAction E w i))) (plain_caller reviewer) ''admin'' (pa_folder a) Map.empty) \<and>
    (\<exists>key now rest. PendingActionKey i = Inr key \<and> beside rest \<and>
       ws_writes ws = verdict_write key verdict reviewer now remark # rest)"
proof -
  obtain h w1 where h: "pendingAction E w i = (Some h, w1)"
    and au: "Authorize (he_policy E w1) (plain_caller reviewer) ''admin'' (pa_folder h) Map.empty"
    using r by (auto simp: resolveHoldInto_def split: prod.splits option.splits if_splits)
  obtain b wb w2 where q: "resolvePendingActionInto E w1 empty_set i verdict reviewer remark (Some lost) = (Inr (b, wb), w2)"
    using r h au by (auto simp: resolveHoldInto_def split: prod.splits sum.splits)
  note R1 = pending_read [OF p s h]
  have p1: "plain_items (view w1)" using R1 p by simp
  obtain key cur where k: "PendingActionKey i = Inr key" and c: "pendingAction E w1 i = (Some cur, w2)"
    and v: "verdict \<in> {PendingApproved, PendingRejected}"
    and b: "b = cur\<lparr>pa_status := verdict, pa_by := reviewer, pa_at := he_now E w2, pa_note := remark\<rparr>"
    and wb: "ws_writes wb = [verdict_write key verdict reviewer (he_now E w2) remark]"
    using q by (auto simp: resolvePendingActionInto_def AddGuarded_def empty_set_def Let_def
        split: prod.splits option.splits if_splits sum.splits)
  note R2 = pending_read [OF p1 s c]
  obtain m where m: "view w (pending_at i) = Some m" "shows_row h m" "shows_row cur m" using R1 R2 by auto
  have fin: "a = b \<and> view w' = view w2 \<and> (\<exists>rest. beside rest \<and> ws_writes ws = ws_writes wb @ rest)"
  proof (cases "verdict \<noteq> PendingApproved \<or> \<not> standing")
    case True
    then have "a = b" "ws = wb" "w' = w2" using r h au q by (auto simp: resolveHoldInto_def)
    then show ?thesis by (intro conjI exI [of _ "[]"]) (simp_all add: beside_def)
  next
    case False
    then have ab: "a = b" and g: "grantACLInto E w2 wb (skipApprovalRow b reviewer) = (Inr ws, w')"
      using r h au q by (auto simp: resolveHoldInto_def split: if_splits prod.splits sum.splits)
    have "\<not> aclOperatorShape (skipApprovalRow b reviewer)"
      by (simp add: aclOperatorShape_def skipApprovalRow_def EffectDeny_def)
    then obtain row x where x: "aclPut row = Inr x" "ws = Add wb [x]" "w' = w2"
      using g by (auto simp: grantACLInto_def PutACLRowInto_def and_then_def Let_def split: sum.splits)
    have "beside [x]"
      using x(1) by (auto simp: aclPut_def beside_def plain_write_def plain_cond_def no_cond_def write0_def aclAttrs_def setAttr_def
          ACL_def PendingActions_def attrACLGrantOption_def attrACLGrantedBy_def attrACLGrantedAt_def plain_attr_def
          partAttr_def sortAttr_def openAttr_def Let_def split: if_splits sum.splits)
    then show ?thesis using ab x by (auto simp: Add_def)
  qed
  have "pa_folder a = pa_folder h" using m b fin by (simp add: shows_row_def)
  then show ?thesis using fin R1 R2 v m k wb au h b by (auto simp: shows_row_def)
qed

end

section \<open>Every step keeps the invariant\<close>

lemma row_kept_fields [simp]:
  "row_kept (R\<lparr>hr_world := w\<rparr>) = row_kept R" "row_kept (R\<lparr>hr_waits := f\<rparr>) = row_kept R"
  "row_kept (R\<lparr>hr_reviews := g\<rparr>) = row_kept R" "row_kept (R\<lparr>hr_told := t\<rparr>) = row_kept R"
  "row_kept (R\<lparr>hr_ran := n\<rparr>) = row_kept R"
  by (simp_all add: row_kept_def fun_eq_iff)

lemma inv_waits [simp]: "hold_inv E view (R\<lparr>hr_waits := f\<rparr>) = hold_inv E view R"
  by (simp add: hold_inv_def)

lemma inv_reviews:
  "hold_inv E view R \<Longrightarrow> deciding_ok E (hr_calls R) v \<Longrightarrow> hold_inv E view (R\<lparr>hr_reviews := (hr_reviews R)(k := v)\<rparr>)"
  by (simp add: hold_inv_def)

lemma same_row_kept: "same_row m m' \<Longrightarrow> row_kept R i m \<Longrightarrow> row_kept R i m'"
  by (auto simp: same_row_def row_kept_def row_of_def)

lemma inv_rows:
  assumes v: "hold_inv E view R" and p: "plain_items (view w)"
    and s: "\<And>i m'. view w (pending_at i) = Some m' \<Longrightarrow> \<exists>m. view (hr_world R) (pending_at i) = Some m \<and> same_row m m'"
  shows "hold_inv E view (R\<lparr>hr_world := w\<rparr>)"
proof -
  have k: "row_kept R i m'" if h: "view w (pending_at i) = Some m'" for i m'
  proof -
    obtain m where m: "view (hr_world R) (pending_at i) = Some m" "same_row m m'" using s [OF h] by blast
    have "row_kept R i m" using v m(1) unfolding hold_inv_def by blast
    then show ?thesis by (rule same_row_kept [OF m(2)])
  qed
  have t: "\<exists>m. view (hr_world R) (pending_at i) = Some m \<and> status m = status m'" if h: "view w (pending_at i) = Some m'" for i m'
    using s [OF h] by (auto simp: same_row_def)
  have told: "status m = x \<and> x \<noteq> PendingHeld" if h: "(i, x) \<in> set (hr_told R)" "view w (pending_at i) = Some m" for i x m
  proof -
    obtain n where "view (hr_world R) (pending_at i) = Some n" "status n = status m" using t [OF h(2)] by blast
    moreover have "\<forall>m. view (hr_world R) (pending_at i) = Some m \<longrightarrow> status m = x \<and> x \<noteq> PendingHeld"
      using v h(1) unfolding hold_inv_def by blast
    ultimately show ?thesis by auto
  qed
  have ran: "status m = PendingApproved" if h: "i \<in> set (hr_ran R)" "view w (pending_at i) = Some m" for i m
  proof -
    obtain n where "view (hr_world R) (pending_at i) = Some n" "status n = status m" using t [OF h(2)] by blast
    moreover have "\<forall>m. view (hr_world R) (pending_at i) = Some m \<longrightarrow> status m = PendingApproved"
      using v h(1) unfolding hold_inv_def by blast
    ultimately show ?thesis by auto
  qed
  show ?thesis using v p k told ran by (simp add: hold_inv_def)
qed

lemma inv_same:
  "hold_inv E view R \<Longrightarrow> plain_items (view w) \<Longrightarrow>
   (\<And>i. view w (pending_at i) = view (hr_world R) (pending_at i) \<or> view w (pending_at i) = None) \<Longrightarrow>
   hold_inv E view (R\<lparr>hr_world := w\<rparr>)"
  by (rule inv_rows) (assumption | metis option.distinct(1) same_row_refl)+

text \<open>A held row gets its verdict.\<close>

lemma inv_verdict:
  assumes v: "hold_inv E view R" and p: "plain_items (view w)"
    and old: "view (hr_world R) (pending_at i) = Some m" "status m = PendingHeld"
    and new: "view w (pending_at i) = Some m'" "status m' = x" "x \<in> {PendingApproved, PendingRejected, PendingExpired}"
    and fields: "sent AttrPendGroupFolder m' = sent AttrPendGroupFolder m" "sent AttrPendTool m' = sent AttrPendTool m"
      "sent AttrPendArgs m' = sent AttrPendArgs m"
    and far: "\<And>j. j \<noteq> i \<Longrightarrow> view w (pending_at j) = view (hr_world R) (pending_at j)"
    and S: "set (hr_sent R) \<subseteq> set log" "\<And>a. a \<in> set log \<Longrightarrow> may_answer E (hr_calls R) a"
      "x = PendingApproved \<Longrightarrow> \<exists>a \<in> set log. ap_id a = i \<and> ap_by a = sent AttrPendReviewedBy m'"
    and T: "T \<in> {hr_told R, (i, x) # hr_told R}"
  shows "hold_inv E view (R\<lparr>hr_world := w, hr_sent := log, hr_told := T\<rparr>)"
proof -
  have rk: "row_kept R i m" using v old(1) unfolding hold_inv_def by blast
  have c: "hr_calls R i \<noteq> None" using rk by (auto simp: row_kept_def row_of_def)
  have untold: "i \<notin> fst ` set (hr_told R)"
  proof
    assume "i \<in> fst ` set (hr_told R)"
    then obtain y where "(i, y) \<in> set (hr_told R)" by auto
    then have "\<forall>m. view (hr_world R) (pending_at i) = Some m \<longrightarrow> status m = y \<and> y \<noteq> PendingHeld"
      using v unfolding hold_inv_def by blast
    then show False using old by auto
  qed
  have unran: "i \<notin> set (hr_ran R)"
  proof
    assume "i \<in> set (hr_ran R)"
    then have "\<forall>m. view (hr_world R) (pending_at i) = Some m \<longrightarrow> status m = PendingApproved"
      using v unfolding hold_inv_def by blast
    then show False using old by auto
  qed
  let ?R = "R\<lparr>hr_world := w, hr_sent := log, hr_told := T\<rparr>"
  have rows: "row_kept ?R j n" if n: "view w (pending_at j) = Some n" for j n
  proof (cases "j = i")
    case True
    then have "n = m'" using n new(1) by simp
    then show ?thesis using rk new fields S(3) True by (auto simp: row_kept_def row_of_def)
  next
    case False
    then have "view (hr_world R) (pending_at j) = Some n" using far n by simp
    then have "row_kept R j n" using v unfolding hold_inv_def by blast
    then show ?thesis using S(1) by (fastforce simp: row_kept_def)
  qed
  have told: "hr_calls R j \<noteq> None \<and> (\<forall>m. view w (pending_at j) = Some m \<longrightarrow> status m = y \<and> y \<noteq> PendingHeld)"
    if "(j, y) \<in> set T" for j y
  proof (cases "(j, y) \<in> set (hr_told R)")
    case True
    then have "j \<noteq> i" using untold by force
    moreover have "hr_calls R j \<noteq> None \<and> (\<forall>m. view (hr_world R) (pending_at j) = Some m \<longrightarrow> status m = y \<and> y \<noteq> PendingHeld)"
      using v True unfolding hold_inv_def by blast
    ultimately show ?thesis using far [of j] by simp
  next
    case False
    then have "j = i" "y = x" using that T by auto
    then show ?thesis using c new by auto
  qed
  have ran: "hr_calls R j \<noteq> None \<and> (\<exists>a \<in> set log. ap_id a = j) \<and>
      (\<forall>m. view w (pending_at j) = Some m \<longrightarrow> status m = PendingApproved) \<and>
      (\<forall>y. (j, y) \<in> set T \<longrightarrow> y = PendingApproved)" if "j \<in> set (hr_ran R)" for j
  proof -
    have ji: "j \<noteq> i" using that unran by blast
    have "hr_calls R j \<noteq> None \<and> (\<exists>a \<in> set (hr_sent R). ap_id a = j) \<and>
        (\<forall>m. view (hr_world R) (pending_at j) = Some m \<longrightarrow> status m = PendingApproved) \<and>
        (\<forall>y. (j, y) \<in> set (hr_told R) \<longrightarrow> y = PendingApproved)"
      using v that unfolding hold_inv_def by blast
    moreover have "(j, y) \<in> set T \<Longrightarrow> (j, y) \<in> set (hr_told R)" for y using T ji by auto
    ultimately show ?thesis using far [OF ji] S(1) by (metis subsetD)
  qed
  have dis: "distinct (map fst T)" using v T untold by (auto simp: hold_inv_def)
  have dec: "\<forall>k. deciding_ok E (hr_calls R) (hr_reviews R k)" using v by (simp add: hold_inv_def)
  show ?thesis unfolding hold_inv_def using p rows told ran dis dec S(2) by simp
qed

lemma calls_grow:
  "calls i = None \<Longrightarrow> may_answer E calls a \<Longrightarrow> may_answer E (calls(i \<mapsto> c)) a"
  "calls i = None \<Longrightarrow> deciding_ok E calls v \<Longrightarrow> deciding_ok E (calls(i \<mapsto> c)) v"
proof -
  show g: "calls i = None \<Longrightarrow> may_answer E calls a \<Longrightarrow> may_answer E (calls(i \<mapsto> c)) a" for a
    by (auto simp: may_answer_def)
  show "calls i = None \<Longrightarrow> deciding_ok E calls v \<Longrightarrow> deciding_ok E (calls(i \<mapsto> c)) v"
    by (cases v) (auto simp: deciding_ok_def g)
qed

text \<open>A call is recorded, or its record may have landed.\<close>

lemma inv_recorded:
  assumes v: "hold_inv E view R" and p: "plain_items (view w)" and n: "hr_calls R i = None"
    and new: "\<And>m. view w (pending_at i) = Some m \<Longrightarrow> status m = PendingHeld \<and> sent AttrPendGroupFolder m = cl_folder c \<and>
      sent AttrPendTool m = cl_tool c \<and> sent AttrPendArgs m = cl_args c"
    and far: "\<And>j. j \<noteq> i \<Longrightarrow> view w (pending_at j) = view (hr_world R) (pending_at j)"
  shows "hold_inv E view (R\<lparr>hr_world := w, hr_calls := (hr_calls R)(i \<mapsto> c)\<rparr>)"
proof -
  let ?R = "R\<lparr>hr_world := w, hr_calls := (hr_calls R)(i \<mapsto> c)\<rparr>"
  have rows: "row_kept ?R j m" if m: "view w (pending_at j) = Some m" for j m
  proof (cases "j = i")
    case True
    then show ?thesis using new m by (auto simp: row_kept_def row_of_def)
  next
    case False
    then have "view (hr_world R) (pending_at j) = Some m" using far m by simp
    then have "row_kept R j m" using v unfolding hold_inv_def by blast
    then show ?thesis using False by (auto simp: row_kept_def row_of_def)
  qed
  have told: "((hr_calls R)(i \<mapsto> c)) j \<noteq> None \<and> (\<forall>m. view w (pending_at j) = Some m \<longrightarrow> status m = y \<and> y \<noteq> PendingHeld)"
    if "(j, y) \<in> set (hr_told R)" for j y
  proof -
    have "hr_calls R j \<noteq> None \<and> (\<forall>m. view (hr_world R) (pending_at j) = Some m \<longrightarrow> status m = y \<and> y \<noteq> PendingHeld)"
      using v that unfolding hold_inv_def by blast
    moreover from this have "j \<noteq> i" using n by auto
    ultimately show ?thesis using far [of j] by simp
  qed
  have ran: "((hr_calls R)(i \<mapsto> c)) j \<noteq> None \<and> (\<exists>a \<in> set (hr_sent R). ap_id a = j) \<and>
      (\<forall>m. view w (pending_at j) = Some m \<longrightarrow> status m = PendingApproved) \<and>
      (\<forall>y. (j, y) \<in> set (hr_told R) \<longrightarrow> y = PendingApproved)" if "j \<in> set (hr_ran R)" for j
  proof -
    have o: "hr_calls R j \<noteq> None \<and> (\<exists>a \<in> set (hr_sent R). ap_id a = j) \<and>
        (\<forall>m. view (hr_world R) (pending_at j) = Some m \<longrightarrow> status m = PendingApproved) \<and>
        (\<forall>y. (j, y) \<in> set (hr_told R) \<longrightarrow> y = PendingApproved)"
      using v that unfolding hold_inv_def by blast
    then have "j \<noteq> i" using n by auto
    then show ?thesis using o far [of j] by simp
  qed
  have "\<forall>a \<in> set (hr_sent R). may_answer E (hr_calls R) a" "\<forall>k. deciding_ok E (hr_calls R) (hr_reviews R k)"
    using v unfolding hold_inv_def by blast+
  then have "\<forall>a \<in> set (hr_sent R). may_answer E ((hr_calls R)(i \<mapsto> c)) a"
    "\<forall>k. deciding_ok E ((hr_calls R)(i \<mapsto> c)) (hr_reviews R k)"
    using calls_grow [of "hr_calls R" i, OF n] by blast+
  moreover have "distinct (map fst (hr_told R))" using v by (simp add: hold_inv_def)
  ultimately show ?thesis unfolding hold_inv_def using p rows told ran by simp
qed

text \<open>A waiter reads an approval.\<close>

lemma inv_answered:
  assumes v: "hold_inv E view R" and s: "\<And>p. x = Some p \<Longrightarrow> \<exists>m. view (hr_world R) (pending_at i) = Some m \<and> shows_row p m"
  shows "hold_inv E view (answered i (verdict_of x tool) keep R)"
proof (cases "\<exists>p. x = Some p \<and> pa_status p = PendingApproved")
  case False
  then have "\<exists>f. answered i (verdict_of x tool) keep R = R\<lparr>hr_waits := f, hr_ran := hr_ran R\<rparr>"
    by (cases x) (auto simp: answered_def verdict_of_def split: option.splits if_splits intro: exI)
  then show ?thesis using v by auto
next
  case True
  then obtain p where p: "x = Some p" "pa_status p = PendingApproved" by blast
  then obtain m where m: "view (hr_world R) (pending_at i) = Some m" "status m = PendingApproved"
    using s [OF p(1)] by (auto simp: shows_row_def)
  have rk: "row_kept R i m" using v m(1) unfolding hold_inv_def by blast
  then have c: "hr_calls R i \<noteq> None" "\<exists>a \<in> set (hr_sent R). ap_id a = i"
    using m(2) by (auto simp: row_kept_def row_of_def)
  have t: "y = PendingApproved" if "(i, y) \<in> set (hr_told R)" for y
  proof -
    have "\<forall>m. view (hr_world R) (pending_at i) = Some m \<longrightarrow> status m = y \<and> y \<noteq> PendingHeld"
      using v that unfolding hold_inv_def by blast
    then show ?thesis using m by auto
  qed
  have a: "answered i (verdict_of x tool) keep R = R\<lparr>hr_waits := (hr_waits R)(i := Away), hr_ran := i # hr_ran R\<rparr>"
    using p by (simp add: answered_def verdict_of_def)
  have "hold_inv E view (R\<lparr>hr_ran := i # hr_ran R\<rparr>)"
    using v c t m by (auto simp: hold_inv_def)
  then show ?thesis unfolding a by (simp add: hold_inv_def)
qed

context object_store
begin

text \<open>The record of a call, and the note of its notice.\<close>

lemma put_outcome:
  assumes p: "plain_items (view v)" and s: "he_store E = st" and f: "\<And>w. view (snd (he_fresh E w)) = view w"
    and b: "PutPendingAction E v (held_row E t i tool args) = (r, w)"
  shows "plain_items (view w) \<and>
    ((\<forall>j. view w (pending_at j) = view v (pending_at j)) \<or>
     view w (pending_at i) = Some (map_of (pendingAttrs ((held_row E t i tool args)\<lparr>pa_created := he_now E v\<rparr>))) \<and>
     (\<forall>j. j \<noteq> i \<longrightarrow> view w (pending_at j) = view v (pending_at j)))"
proof (cases "i = [] \<or> tm_folder t = [] \<or> tool = []")
  case True
  then have "w = v" using b by (auto simp: PutPendingAction_def held_row_def)
  then show ?thesis using p by simp
next
  case False
  let ?q = "(held_row E t i tool args)\<lparr>pa_created := he_now E v\<rparr>" and ?key = "\<lparr>Partition = OwnerRoutd, Sort = i\<rparr>"
  have k: "PendingActionKey i = Inr ?key" using False by (simp add: PendingActionKey_def)
  obtain x where "TryWriteEntities st (he_fresh E) v [] [put_pending ?key ?q] = (x, w)"
    using b False s k
    by (auto simp: PutPendingAction_def WriteEntities_def held_row_def PendingHeld_def Let_def
        split: prod.splits sum.splits)
  from door_pending [OF p _ _ _ f this, of i] show ?thesis using k by (auto simp: written_rows)
qed

lemma put_recorded:
  assumes v: "hold_inv E view R" and s: "he_store E = st" and f: "\<And>w. view (snd (he_fresh E w)) = view w"
    and n: "hr_calls R i = None" and b: "PutPendingAction E (hr_world R) (held_row E t i tool args) = (r, w)"
  shows "hold_inv E view (R\<lparr>hr_world := w,
    hr_calls := (hr_calls R)(i \<mapsto> \<lparr>cl_folder = tm_folder t, cl_tool = tool, cl_args = he_encode E args\<rparr>)\<rparr>)"
proof -
  have p: "plain_items (view (hr_world R))" using v by (simp add: hold_inv_def)
  have none: "view (hr_world R) (pending_at i) = None"
  proof (cases "view (hr_world R) (pending_at i)")
    case (Some m)
    then have "row_kept R i m" using v unfolding hold_inv_def by blast
    then show ?thesis using n by (simp add: row_kept_def row_of_def)
  qed
  define q where "q = (held_row E t i tool args)\<lparr>pa_created := he_now E (hr_world R)\<rparr>"
  note o = put_outcome [OF p s f b, folded q_def]
  have q: "pa_status q = PendingHeld" "pa_folder q = tm_folder t" "pa_tool q = tool" "pa_args q = he_encode E args"
    by (simp_all add: q_def held_row_def)
  have pw: "plain_items (view w)" and far: "j \<noteq> i \<Longrightarrow> view w (pending_at j) = view (hr_world R) (pending_at j)" for j
    using o by blast+
  have row: "m = map_of (pendingAttrs q)" if "view w (pending_at i) = Some m" for m
    using o none that by auto
  show ?thesis
    by (rule inv_recorded [OF v pw n _ far]) (use row put_row [of q] q in \<open>fastforce+\<close>)
qed

lemma notice_rows:
  assumes p: "plain_items (view v)" and s: "he_store E = st" and f: "\<And>w. view (snd (he_fresh E w)) = view w"
    and b: "SetPendingNotice E v i n = (r, w)"
  shows "plain_items (view w) \<and>
    (\<forall>j m'. view w (pending_at j) = Some m' \<longrightarrow> (\<exists>m. view v (pending_at j) = Some m \<and> same_row m m'))"
proof (cases "PendingActionKey i")
  case (Inl e)
  then have "w = v" using b by (simp add: SetPendingNotice_def setPendingAttr_def)
  then show ?thesis using p same_row_refl by metis
next
  case (Inr key)
  let ?x = "attr_update key AttrPendNoticeID n"
  obtain y where "TryWriteEntities st (he_fresh E) v [] [?x] = (y, w)"
    using b s Inr by (auto simp: SetPendingNotice_def setPendingAttr_def WriteEntities_def split: prod.splits sum.splits)
  from door_pending [OF p _ _ _ f this, of i]
  have o: "plain_items (view w) \<and>
      ((\<forall>j. view w (pending_at j) = view v (pending_at j)) \<or>
       write_ok ?x (view v (pending_at i)) \<and> view w (pending_at i) = written ?x (view v (pending_at i)) \<and>
       (\<forall>j. j \<noteq> i \<longrightarrow> view w (pending_at j) = view v (pending_at j)))"
    using Inr by auto
  have rows: "\<exists>m. view v (pending_at j) = Some m \<and> same_row m m'" if m': "view w (pending_at j) = Some m'" for j m'
  proof (cases "view w (pending_at j) = view v (pending_at j)")
    case True
    then show ?thesis using m' same_row_refl by metis
  next
    case False
    then have j: "j = i" and ok: "write_ok ?x (view v (pending_at i))"
      and at: "view w (pending_at i) = written ?x (view v (pending_at i))" using o by blast+
    obtain m where m: "view v (pending_at i) = Some m"
      using ok by (auto simp: write_ok_def attr_update_def write0_def)
    then have "m' = m(AttrPendNoticeID \<mapsto> n)" using at m' j by (simp add: written_rows)
    then show ?thesis using m j by (simp add: same_row_def sent_upd)
  qed
  then show ?thesis using o by blast
qed

lemma notice_kept:
  assumes v: "hold_inv E view R" and s: "he_store E = st" and f: "\<And>w. view (snd (he_fresh E w)) = view w"
    and b: "SetPendingNotice E (hr_world R) i n = (r, w)"
  shows "hold_inv E view (R\<lparr>hr_world := w\<rparr>)"
proof -
  have p: "plain_items (view (hr_world R))" using v by (simp add: hold_inv_def)
  show ?thesis by (rule inv_rows [OF v]) (use notice_rows [OF p s f b] in blast)+
qed

text \<open>The write of a verdict or of an expiry, wherever it was sent from.\<close>

lemma verdict_kept:
  assumes v: "hold_inv E view R" and k: "PendingActionKey i = Inr key"
    and x: "x = verdict_write key y who now remark \<and> y \<in> {PendingApproved, PendingRejected} \<or>
      x = expire_write key \<and> y = PendingExpired"
    and o: "plain_items (view w) \<and>
      ((\<forall>j. view w (pending_at j) = view (hr_world R) (pending_at j)) \<and> r \<noteq> Inr True \<or>
       write_ok x (view (hr_world R) (pending_at i)) \<and> view w (pending_at i) = written x (view (hr_world R) (pending_at i)) \<and>
       (\<forall>j. j \<noteq> i \<longrightarrow> view w (pending_at j) = view (hr_world R) (pending_at j)))"
    and log: "set (hr_sent R) \<subseteq> set log" "\<And>a. a \<in> set log \<Longrightarrow> may_answer E (hr_calls R) a"
      "y = PendingApproved \<Longrightarrow> \<exists>a \<in> set log. ap_id a = i \<and> ap_by a = who"
  shows "hold_inv E view (R\<lparr>hr_world := w, hr_sent := log, hr_told := (if r = Inr True then (i, y) # hr_told R else hr_told R)\<rparr>)"
proof (cases "(\<forall>j. view w (pending_at j) = view (hr_world R) (pending_at j)) \<and> r \<noteq> Inr True")
  case True
  have rows: "row_kept (R\<lparr>hr_world := w, hr_sent := log\<rparr>) j m" if "view w (pending_at j) = Some m" for j m
  proof -
    have "row_kept R j m" using v that True unfolding hold_inv_def by metis
    then show ?thesis using log(1) by (fastforce simp: row_kept_def)
  qed
  have told: "hr_calls R j \<noteq> None \<and> (\<forall>m. view w (pending_at j) = Some m \<longrightarrow> status m = z \<and> z \<noteq> PendingHeld)"
    if "(j, z) \<in> set (hr_told R)" for j z
  proof -
    have "hr_calls R j \<noteq> None \<and> (\<forall>m. view (hr_world R) (pending_at j) = Some m \<longrightarrow> status m = z \<and> z \<noteq> PendingHeld)"
      using v that unfolding hold_inv_def by blast
    then show ?thesis using True by simp
  qed
  have ran: "hr_calls R j \<noteq> None \<and> (\<exists>a \<in> set log. ap_id a = j) \<and>
      (\<forall>m. view w (pending_at j) = Some m \<longrightarrow> status m = PendingApproved) \<and>
      (\<forall>z. (j, z) \<in> set (hr_told R) \<longrightarrow> z = PendingApproved)" if "j \<in> set (hr_ran R)" for j
  proof -
    have "hr_calls R j \<noteq> None \<and> (\<exists>a \<in> set (hr_sent R). ap_id a = j) \<and>
        (\<forall>m. view (hr_world R) (pending_at j) = Some m \<longrightarrow> status m = PendingApproved) \<and>
        (\<forall>z. (j, z) \<in> set (hr_told R) \<longrightarrow> z = PendingApproved)"
      using v that unfolding hold_inv_def by blast
    then show ?thesis using True log(1) by (metis subsetD)
  qed
  have "\<forall>k. deciding_ok E (hr_calls R) (hr_reviews R k)" "distinct (map fst (hr_told R))"
    using v by (simp_all add: hold_inv_def)
  then show ?thesis unfolding hold_inv_def using True o rows told ran log(2) by simp
next
  case False
  then have ok: "write_ok x (view (hr_world R) (pending_at i))" and at: "view w (pending_at i) = written x (view (hr_world R) (pending_at i))"
    and far: "\<And>j. j \<noteq> i \<Longrightarrow> view w (pending_at j) = view (hr_world R) (pending_at j)" and p: "plain_items (view w)"
    using o by blast+
  obtain m where m: "view (hr_world R) (pending_at i) = Some m" "status m = PendingHeld"
    using asks_held [OF _ ok, of key y who now remark] x by blast
  have T: "(if r = Inr True then (i, y) # hr_told R else hr_told R) \<in> {hr_told R, (i, y) # hr_told R}" by simp
  from x show ?thesis
  proof (elim disjE conjE)
    assume x: "x = verdict_write key y who now remark" "y \<in> {PendingApproved, PendingRejected}"
    have n: "view w (pending_at i) = Some (m(AttrPendStatus \<mapsto> y, AttrPendReviewedBy \<mapsto> who, AttrPendReviewedAt \<mapsto> now,
        AttrPendReviewerNote \<mapsto> remark))"
      using at m(1) x(1) by (simp add: written_rows)
    show ?thesis
      by (rule inv_verdict [OF v p m n _ _ _ _ _ far log(1,2) _ T]) (use x(2) log(3) in \<open>auto simp: sent_upd\<close>)
  next
    assume x: "x = expire_write key" "y = PendingExpired"
    have n: "view w (pending_at i) = Some (m(AttrPendStatus \<mapsto> PendingExpired))"
      using at m(1) x(1) by (simp add: written_rows)
    show ?thesis
      by (rule inv_verdict [OF v p m n _ _ _ _ _ far log(1,2) _ T]) (use x(2) in \<open>auto simp: sent_upd\<close>)
  qed
qed

lemma expire_outcome:
  assumes p: "plain_items (view v)" and s: "he_store E = st" and f: "\<And>w. view (snd (he_fresh E w)) = view w"
    and k: "PendingActionKey i = Inr key" and b: "expirePendingAction E v i = (r, w)"
  shows "plain_items (view w) \<and>
    ((\<forall>j. view w (pending_at j) = view v (pending_at j)) \<and> r \<noteq> Inr True \<or>
     write_ok (expire_write key) (view v (pending_at i)) \<and> view w (pending_at i) = written (expire_write key) (view v (pending_at i)) \<and>
     (\<forall>j. j \<noteq> i \<longrightarrow> view w (pending_at j) = view v (pending_at j)))"
proof -
  obtain y where y: "TryWriteEntities st (he_fresh E) v [] [expire_write key] = (y, w)" "r = Inr True \<longrightarrow> y = Inr True"
    using b k s by (auto simp: expirePendingAction_def split: prod.splits sum.splits)
  show ?thesis using door_pending [OF p _ _ _ f y(1), of i] k y(2) by auto
qed

lemma hold_keeps:
  assumes e: "he_store E = st" and f: "\<And>w. view (snd (he_fresh E w)) = view w"
    and s: "hold_step E R T" and v: "hold_inv E view R"
  shows "hold_inv E view T"
proof -
  have p: "plain_items (view (hr_world R))" using v by (simp add: hold_inv_def)
  have looked: "hold_inv E view (R\<lparr>hr_world := w\<rparr>)" if "view w = view (hr_world R)" for w
    by (rule inv_same [OF v]) (simp_all add: that p)
  show ?thesis
    using s
  proof cases
    case (hold i t tool args r w)
    have "hold_inv E view ((R\<lparr>hr_world := w,
        hr_calls := (hr_calls R)(i \<mapsto> \<lparr>cl_folder = tm_folder t, cl_tool = tool, cl_args = he_encode E args\<rparr>)\<rparr>)
        \<lparr>hr_waits := (hr_waits R)(i := if r = Inr () then Waiting else Away)\<rparr>)"
      using put_recorded [OF v e f hold(2,3)] by (simp only: inv_waits)
    then show ?thesis unfolding hold(1) by simp
  next
    case (notice i n r w)
    then show ?thesis using notice_kept [OF v e f] by simp
  next
    case (poll i x w tool)
    have "GetPendingAction E (hr_world R) i = (x, w)" using poll by simp
    note r = pending_read [OF p e this [unfolded GetPendingAction_def]]
    show ?thesis unfolding poll(1) by (rule inv_answered) (use r looked in auto)
  next
    case (give_up i r w)
    show ?thesis
    proof (cases "PendingActionKey i")
      case (Inl err)
      then have "w = hr_world R" "r \<noteq> Inr True" using give_up(3) by (auto simp: expirePendingAction_def)
      then show ?thesis unfolding give_up(1) using v by (simp add: hold_inv_def)
    next
      case (Inr key)
      note o = expire_outcome [OF p e f Inr give_up(3)]
      have m: "a \<in> set (hr_sent R) \<Longrightarrow> may_answer E (hr_calls R) a" for a using v unfolding hold_inv_def by blast
      have "hold_inv E view (R\<lparr>hr_world := w, hr_sent := hr_sent R,
          hr_told := (if r = Inr True then (i, PendingExpired) # hr_told R else hr_told R)\<rparr>)"
        by (rule verdict_kept [OF v Inr _ o _ m]) simp_all
      then have "hold_inv E view ((R\<lparr>hr_world := w, hr_sent := hr_sent R,
          hr_told := (if r = Inr True then (i, PendingExpired) # hr_told R else hr_told R)\<rparr>)
          \<lparr>hr_waits := (hr_waits R)(i := (if r = Inr True then Away else Closing))\<rparr>)" by (simp only: inv_waits)
      then show ?thesis unfolding give_up(1) by (cases "r = Inr True") (simp_all add: hold_inv_def)
    qed
  next
    case (reread i x w tool)
    have "GetPendingAction E (hr_world R) i = (x, w)" using reread by simp
    note r = pending_read [OF p e this [unfolded GetPendingAction_def]]
    show ?thesis unfolding reread(1) by (rule inv_answered) (use r looked in auto)
  next
    case (review i verdict reviewer remark standing lost a ws w k)
    note o = resolved [OF p e review(2)]
    obtain m where m: "view (hr_world R) (pending_at i) = Some m" "pa_folder a = sent AttrPendGroupFolder m"
      "pa_tool a = sent AttrPendTool m" "pa_args a = sent AttrPendArgs m"
      "Authorize (he_policy E (snd (pendingAction E (hr_world R) i))) (plain_caller reviewer) ''admin'' (pa_folder a) Map.empty"
      using o by blast
    have "row_kept R i m" using v m(1) unfolding hold_inv_def by blast
    then obtain c where "hr_calls R i = Some c" "sent AttrPendGroupFolder m = cl_folder c" "sent AttrPendTool m = cl_tool c"
      "sent AttrPendArgs m = cl_args c" by (auto simp: row_kept_def row_of_def)
    then have d: "deciding_ok E (hr_calls R) (Deciding i verdict (ws_writes ws)
        \<lparr>ap_id = i, ap_by = reviewer, ap_seen = a, ap_world = snd (pendingAction E (hr_world R) i)\<rparr>)"
      using o m by (auto simp: deciding_ok_def may_answer_def)
    from inv_reviews [OF looked, of w, where v = "Deciding i verdict (ws_writes ws)
        \<lparr>ap_id = i, ap_by = reviewer, ap_seen = a, ap_world = snd (pendingAction E (hr_world R) i)\<rparr>" and k = k]
    show ?thesis unfolding review(1) using o d by simp
  next
    case (decide k i verdict wrs a rest r w)
    have d: "deciding_ok E (hr_calls R) (Deciding i verdict wrs a)" using v decide(2) unfolding hold_inv_def by metis
    then obtain key now remark more where k: "PendingActionKey i = Inr key" and b: "beside more"
      and w: "wrs = verdict_write key verdict (ap_by a) now remark # more" and a: "ap_id a = i" "may_answer E (hr_calls R) a"
      and y: "verdict \<in> {PendingApproved, PendingRejected}"
      by (auto simp: deciding_ok_def)
    have st: "st_batch st (hr_world R) [] (verdict_write key verdict (ap_by a) now remark # more @ rest) = (r, w)"
      using decide(4) e w by simp
    have br: "beside (more @ rest)" using b decide(3) by (simp add: beside_app)
    note o = one_pending [OF p _ _ _ br st, of i]
    have m: "x \<in> set (hr_sent R) \<Longrightarrow> may_answer E (hr_calls R) x" for x using v unfolding hold_inv_def by blast
    let ?log = "if verdict = PendingApproved then a # hr_sent R else hr_sent R"
    have "hold_inv E view (R\<lparr>hr_world := w, hr_sent := ?log,
        hr_told := (if r = Inr True then (i, verdict) # hr_told R else hr_told R)\<rparr>)"
      by (rule verdict_kept [OF v k, where x = "verdict_write key verdict (ap_by a) now remark" and who = "ap_by a"])
        (use o k y a m in \<open>auto split: if_splits\<close>)
    from inv_reviews [OF this, of Idle k] show ?thesis unfolding decide(1)
      by (cases "verdict = PendingApproved"; cases "r = Inr True") (simp_all add: hold_inv_def row_kept_def deciding_ok_def)
  next
    case (purge i key rest r w)
    let ?x = "write0 Delete PendingActions key"
    have x: "plain_write ?x" "w_entity ?x = PendingActions" "w_key ?x = key" "written ?x n = None" for n
      by (simp_all add: plain_write_def plain_cond_def no_cond_def write0_def written_def)
    have b: "st_batch st (hr_world R) [] (?x # rest) = (r, w)" using purge(4) e by simp
    note o = one_pending [OF p x(1,2) _ purge(3) b, of i, unfolded x(3,4), OF purge(2)]
    have each: "view w (pending_at j) = view (hr_world R) (pending_at j) \<or> view w (pending_at j) = None" for j
      using conjunct2 [OF o] by (elim disjE conjE, blast, cases "j = i") simp_all
    show ?thesis unfolding purge(1) by (rule inv_same [OF v conjunct1 [OF o] each])
  next
    case (others wrs r w)
    have "plain_items (view w) \<and> (\<forall>k. view w (coord_of PendingActions k) = view (hr_world R) (coord_of PendingActions k))"
      using none_among [OF p, of wrs PendingActions] others(2,3) e by (simp add: beside_def)
    note o = this
    show ?thesis unfolding others(1) by (rule inv_same [OF v]) (simp_all add: o)
  next
    case (draw x w)
    have "view w = view (hr_world R)" using f [of "hr_world R"] draw(2) by simp
    then show ?thesis unfolding draw(1) by (rule looked)
  next
    case (leave k i)
    have "hold_inv E view ((R\<lparr>hr_waits := (hr_waits R)(i := Away)\<rparr>)\<lparr>hr_reviews := (hr_reviews R)(k := Idle)\<rparr>)"
      using inv_reviews [of E view "R\<lparr>hr_waits := (hr_waits R)(i := Away)\<rparr>" Idle k] v by (simp add: deciding_ok_def)
    then show ?thesis unfolding leave by simp
  qed
qed

end

section \<open>A verdict stays\<close>

text \<open>What a step may do to a recorded row: leave it, change nothing the library speaks of, take it away, or answer
  it while it is held.\<close>

definition moved :: "attrs option \<Rightarrow> attrs option \<Rightarrow> bool" where
  "moved n n' \<longleftrightarrow> n' = n \<or> n' = None \<or>
     (\<exists>m m'. n = Some m \<and> n' = Some m' \<and> (same_row m m' \<or> status m = PendingHeld))"

lemma rows_moved: "(\<And>m'. n' = Some m' \<Longrightarrow> \<exists>m. n = Some m \<and> same_row m m') \<Longrightarrow> moved n n'"
  by (cases n') (auto simp: moved_def)

lemma calls_kept: "hold_step E R T \<Longrightarrow> hr_calls R i = Some c \<Longrightarrow> hr_calls T i = Some c"
  by (induction rule: hold_step.induct) (auto simp: answered_def split: option.splits prod.splits)

context object_store
begin

lemma verdict_moved:
  assumes x: "x \<in> {verdict_write key y who now remark, expire_write key}"
    and o: "plain_items (view w') \<and>
      ((\<forall>j. view w' (pending_at j) = view w (pending_at j)) \<and> r \<noteq> Inr True \<or>
       write_ok x (view w (pending_at i)) \<and> view w' (pending_at i) = written x (view w (pending_at i)) \<and>
       (\<forall>j. j \<noteq> i \<longrightarrow> view w' (pending_at j) = view w (pending_at j)))"
  shows "moved (view w (pending_at j)) (view w' (pending_at j))"
proof (cases "view w' (pending_at j) = view w (pending_at j)")
  case True
  then show ?thesis by (simp add: moved_def)
next
  case False
  then have ji: "j = i" and ok: "write_ok x (view w (pending_at i))" using o by blast+
  obtain m where "view w (pending_at i) = Some m" "status m = PendingHeld" using asks_held [OF x ok] by blast
  then show ?thesis using ji by (cases "view w' (pending_at i)") (auto simp: moved_def)
qed

lemma row_moves:
  assumes e: "he_store E = st" and f: "\<And>w. view (snd (he_fresh E w)) = view w"
    and s: "hold_step E R T" and v: "hold_inv E view R" and c: "hr_calls R i \<noteq> None"
  shows "moved (view (hr_world R) (pending_at i)) (view (hr_world T) (pending_at i))"
proof -
  have p: "plain_items (view (hr_world R))" using v by (simp add: hold_inv_def)
  have same: "view w = view (hr_world R) \<Longrightarrow> moved (view (hr_world R) (pending_at i)) (view w (pending_at i))" for w
    by (simp add: moved_def)
  show ?thesis
    using s
  proof cases
    case (hold j t tool args r w)
    then have "i \<noteq> j" using c by auto
    then have "view w (pending_at i) = view (hr_world R) (pending_at i)" using put_outcome [OF p e f hold(3)] by blast
    then show ?thesis unfolding hold(1) by (simp add: moved_def)
  next
    case (notice j n r w)
    show ?thesis unfolding notice(1) using notice_rows [OF p e f notice(2)] by (intro rows_moved) simp
  next
    case (poll j x w tool)
    then show ?thesis using same [of w] pending_read [OF p e poll(3) [unfolded GetPendingAction_def]]
      by (simp add: answered_def split: option.splits prod.splits)
  next
    case (give_up j r w)
    show ?thesis
    proof (cases "PendingActionKey j")
      case (Inl err)
      then have "w = hr_world R" using give_up(3) by (auto simp: expirePendingAction_def)
      then show ?thesis unfolding give_up(1) by (simp add: moved_def)
    next
      case (Inr key)
      have "moved (view (hr_world R) (pending_at i)) (view w (pending_at i))"
        by (rule verdict_moved [where key = key, OF _ expire_outcome [OF p e f Inr give_up(3)]]) simp
      then show ?thesis unfolding give_up(1) by simp
    qed
  next
    case (reread j x w tool)
    then show ?thesis using same [of w] pending_read [OF p e reread(3) [unfolded GetPendingAction_def]]
      by (simp add: answered_def split: option.splits prod.splits)
  next
    case (review j verdict reviewer remark standing lost a ws w k)
    then show ?thesis using same [of w] resolved [OF p e review(2)] by simp
  next
    case (decide k j verdict wrs a rest r w)
    have "deciding_ok E (hr_calls R) (Deciding j verdict wrs a)" using v decide(2) unfolding hold_inv_def by metis
    then obtain key now remark more where k: "PendingActionKey j = Inr key" and b: "beside more"
      and w: "wrs = verdict_write key verdict (ap_by a) now remark # more"
      by (auto simp: deciding_ok_def)
    have st: "st_batch st (hr_world R) [] (verdict_write key verdict (ap_by a) now remark # more @ rest) = (r, w)"
      using decide(4) e w by simp
    have br: "beside (more @ rest)" using b decide(3) by (simp add: beside_app)
    have k': "PendingActionKey j = Inr (w_key (verdict_write key verdict (ap_by a) now remark))" using k by simp
    have "moved (view (hr_world R) (pending_at i)) (view w (pending_at i))"
      by (rule verdict_moved [where x = "verdict_write key verdict (ap_by a) now remark", OF _ one_pending [OF p _ _ k' br st]]) auto
    then show ?thesis unfolding decide(1) by simp
  next
    case (purge j key rest r w)
    let ?x = "write0 Delete PendingActions key"
    have x: "plain_write ?x" "w_entity ?x = PendingActions" "w_key ?x = key" "written ?x n = None" for n
      by (simp_all add: plain_write_def plain_cond_def no_cond_def write0_def written_def)
    have b: "st_batch st (hr_world R) [] (?x # rest) = (r, w)" using purge(4) e by simp
    note o = one_pending [OF p x(1,2) _ purge(3) b, of j, unfolded x(3,4), OF purge(2)]
    have "view w (pending_at i) = view (hr_world R) (pending_at i) \<or> view w (pending_at i) = None"
      using conjunct2 [OF o] by (elim disjE conjE, blast, cases "i = j") simp_all
    then show ?thesis unfolding purge(1) by (auto simp: moved_def)
  next
    case (others wrs r w)
    have "view w (pending_at i) = view (hr_world R) (pending_at i)"
      using none_among [OF p, of wrs PendingActions] others(2,3) e by (simp add: beside_def)
    then show ?thesis unfolding others(1) by (simp add: moved_def)
  next
    case (draw x w)
    then show ?thesis using same [of w] f [of "hr_world R"] by simp
  next
    case (leave k j)
    then show ?thesis by (simp add: moved_def)
  qed
qed

text \<open>A call starts to run when its waiter reads an approved row.\<close>

lemma ran_reads:
  assumes e: "he_store E = st" and s: "hold_step E R T" and v: "hold_inv E view R" and n: "hr_ran T \<noteq> hr_ran R"
  shows "\<exists>i m. hr_ran T = i # hr_ran R \<and> view (hr_world R) (pending_at i) = Some m \<and> status m = PendingApproved"
proof -
  have p: "plain_items (view (hr_world R))" using v by (simp add: hold_inv_def)
  have read: ?thesis if T: "T = answered i (verdict_of x tool) keep (R\<lparr>hr_world := w\<rparr>)"
    and x: "GetPendingAction E (hr_world R) i = (x, w)" for i x w tool keep
  proof -
    obtain a where a: "x = Some a" "pa_status a = PendingApproved" "hr_ran T = i # hr_ran R"
      using n unfolding T by (cases x) (auto simp: answered_def verdict_of_def split: if_splits)
    then obtain m where "view (hr_world R) (pending_at i) = Some m" "shows_row a m"
      using pending_read [OF p e x [unfolded GetPendingAction_def]] by blast
    then show ?thesis using a by (auto simp: shows_row_def)
  qed
  show ?thesis using s
  proof cases
    case (poll i x w tool)
    then show ?thesis using read by blast
  next
    case (reread i x w tool)
    then show ?thesis using read by blast
  qed (use n in simp_all)
qed

text \<open>A verdict that was written stays, with the name of who gave it, and only an approval lets the call run.\<close>

lemma verdict_stays:
  assumes e: "he_store E = st" and f: "\<And>w. view (snd (he_fresh E w)) = view w"
    and s: "(hold_step E)\<^sup>*\<^sup>* R T" and v: "hold_inv E view R"
    and m: "view (hr_world R) (pending_at i) = Some m" "status m \<noteq> PendingHeld"
  shows "(view (hr_world T) (pending_at i) = None \<or> (\<exists>m'. view (hr_world T) (pending_at i) = Some m' \<and> same_row m m')) \<and>
    (status m \<noteq> PendingApproved \<longrightarrow> i \<notin> set (hr_ran T)) \<and> hr_calls T i \<noteq> None \<and> hold_inv E view T"
  using s
proof (induction rule: rtranclp_induct)
  case base
  have "row_kept R i m" using v m(1) unfolding hold_inv_def by blast
  moreover have "i \<in> set (hr_ran R) \<Longrightarrow> status m = PendingApproved" using v m(1) unfolding hold_inv_def by blast
  ultimately show ?case using m(1) v by (auto simp: row_kept_def row_of_def)
next
  case (step T U)
  have mv: "moved (view (hr_world T) (pending_at i)) (view (hr_world U) (pending_at i))"
    using row_moves [OF e f step(2)] step(3) by blast
  have row: "view (hr_world U) (pending_at i) = None \<or> (\<exists>m'. view (hr_world U) (pending_at i) = Some m' \<and> same_row m m')"
    using mv step(3) m(2) by (auto simp: moved_def same_row_def)
  have ran: "i \<notin> set (hr_ran U)" if y: "status m \<noteq> PendingApproved"
  proof
    assume i: "i \<in> set (hr_ran U)"
    have "i \<notin> set (hr_ran T)" using step(3) y by blast
    then have "hr_ran U \<noteq> hr_ran T" using i by metis
    from ran_reads [OF e step(2) _ this] step(3) obtain n where
      "view (hr_world T) (pending_at i) = Some n" "status n = PendingApproved"
      using i \<open>i \<notin> set (hr_ran T)\<close> by auto
    then show False using step(3) y by (auto simp: same_row_def)
  qed
  have "hr_calls U i \<noteq> None" using calls_kept [OF step(2)] step(3) by blast
  moreover have "hold_inv E view U" using hold_keeps [OF e f step(2)] step(3) by blast
  ultimately show ?case using row ran by blast
qed

end

section \<open>The gate is a run of these steps\<close>

text \<open>What others do to the world while a call waits is itself a run of steps, and none of them is the waiter's.\<close>

definition bystander :: "'w hold_env \<Rightarrow> string \<Rightarrow> ('w \<Rightarrow> 'w) \<Rightarrow> bool" where
  "bystander E i f \<longleftrightarrow> (\<forall>R. \<exists>T. (hold_step E)\<^sup>*\<^sup>* R T \<and> hr_world T = f (hr_world R) \<and> hr_waits T i = hr_waits R i \<and>
     (i \<in> set (hr_ran T) \<longleftrightarrow> i \<in> set (hr_ran R)))"

lemma bystanderE:
  assumes "bystander E i f"
  obtains T where "(hold_step E)\<^sup>*\<^sup>* R T" "hr_world T = f (hr_world R)" "hr_waits T i = hr_waits R i"
    "i \<in> set (hr_ran T) \<longleftrightarrow> i \<in> set (hr_ran R)"
  using assms unfolding bystander_def by blast

lemma answered_fields:
  "hr_world (answered i x keep R) = hr_world R"
  "hr_waits (answered i x keep R) i = (if x = None then keep else Away)"
  "i \<in> set (hr_ran (answered i x keep R)) \<longleftrightarrow> i \<in> set (hr_ran R) \<or> (\<exists>t. x = Some (t, False))"
  by (auto simp: answered_def split: option.splits)

text \<open>Where the waiter got to: out of the wait, and among the calls that run exactly when it was let through.\<close>

definition told_by :: "'w hold_env \<Rightarrow> 'w holding \<Rightarrow> string \<Rightarrow> (string \<times> bool) \<times> 'w \<Rightarrow> bool" where
  "told_by E R i out \<longleftrightarrow> (\<exists>T. (hold_step E)\<^sup>*\<^sup>* R T \<and> hr_world T = snd out \<and>
     (i \<in> set (hr_ran T) \<longleftrightarrow> i \<in> set (hr_ran R) \<or> \<not> snd (fst out)))"

lemma told_later: "(hold_step E)\<^sup>*\<^sup>* R V \<Longrightarrow> i \<in> set (hr_ran V) \<longleftrightarrow> i \<in> set (hr_ran R) \<Longrightarrow> told_by E V i out \<Longrightarrow> told_by E R i out"
  unfolding told_by_def by (meson rtranclp_trans)

lemma close_runs:
  assumes "hr_waits R i = Waiting"
  shows "told_by E R i (close_wait E (hr_world R) i tool)"
proof -
  obtain r w where g: "expirePendingAction E (hr_world R) i = (r, w)" by force
  define V where "V = R\<lparr>hr_world := w, hr_waits := (hr_waits R)(i := (if r = Inr True then Away else Closing)),
    hr_told := (if r = Inr True then (i, PendingExpired) # hr_told R else hr_told R)\<rparr>"
  have s: "hold_step E R V" unfolding V_def by (rule give_up [OF assms g])
  show ?thesis
  proof (cases "r = Inr True")
    case True
    then show ?thesis using s g
      unfolding told_by_def by (intro exI [of _ V]) (auto simp: close_wait_def V_def)
  next
    case False
    obtain x u where q: "GetPendingAction E (hr_world V) i = (x, u)" by force
    have "hr_waits V i = Closing" using False by (simp add: V_def)
    from s reread [OF this q] have "(hold_step E)\<^sup>*\<^sup>* R (answered i (verdict_of x tool) Away (V\<lparr>hr_world := u\<rparr>))"
      by (meson converse_rtranclp_into_rtranclp r_into_rtranclp)
    moreover have "close_wait E (hr_world R) i tool =
        (case verdict_of x tool of Some answer \<Rightarrow> (answer, u) | None \<Rightarrow> ((unanswered i tool, True), u))"
      using q False g by (simp add: close_wait_def V_def)
    ultimately show ?thesis
      unfolding told_by_def by (intro exI [of _ "answered i (verdict_of x tool) Away (V\<lparr>hr_world := u\<rparr>)"])
        (auto simp: answered_fields V_def split: option.splits)
  qed
qed

lemma await_runs:
  assumes "bystander E i nap" "hr_waits R i = Waiting"
  shows "told_by E R i (awaitVerdict polls E nap (hr_world R) i tool)"
  using assms(2)
proof (induction polls arbitrary: R)
  case 0
  then show ?case using close_runs by simp
next
  case (Suc polls)
  obtain V where V: "(hold_step E)\<^sup>*\<^sup>* R V" "hr_world V = nap (hr_world R)" "hr_waits V i = hr_waits R i"
    "i \<in> set (hr_ran V) \<longleftrightarrow> i \<in> set (hr_ran R)" by (rule bystanderE [OF assms(1)])
  obtain x u where q: "GetPendingAction E (hr_world V) i = (x, u)" by force
  have w: "hr_waits V i = Waiting" using V(3) Suc.prems by simp
  let ?T = "answered i (verdict_of x tool) Waiting (V\<lparr>hr_world := u\<rparr>)"
  have T: "(hold_step E)\<^sup>*\<^sup>* R ?T" using V(1) poll [OF w q] by (rule rtranclp.rtrancl_into_rtrancl)
  have a: "awaitVerdict (Suc polls) E nap (hr_world R) i tool =
      (case verdict_of x tool of Some answer \<Rightarrow> (answer, u) | None \<Rightarrow> awaitVerdict polls E nap u i tool)"
    using q by (simp add: V(2))
  show ?case
  proof (cases "verdict_of x tool")
    case None
    have "hr_waits ?T i = Waiting" "hr_world ?T = u" "i \<in> set (hr_ran ?T) \<longleftrightarrow> i \<in> set (hr_ran R)"
      using None V(4) by (simp_all add: answered_fields)
    then show ?thesis using Suc.IH [of ?T] told_later [OF T] a None by simp
  next
    case (Some answer)
    then show ?thesis using T V(4)
      unfolding told_by_def a by (intro exI [of _ ?T]) (cases answer, auto simp: answered_fields)
  qed
qed

lemma notified:
  assumes "\<forall>f. send = Some f \<longrightarrow> (\<forall>chat text opts topic idem. bystander E i (\<lambda>w. snd (f w chat text opts topic idem)))"
  shows "bystander E i (\<lambda>w. snd (notifyHold send w t idem text options))"
proof (cases "send = None \<or> tm_chat t = []")
  case True
  then have "snd (notifyHold send w t idem text options) = w" for w by (auto simp: notifyHold_def split: option.split)
  then show ?thesis unfolding bystander_def by (intro allI exI conjI) (rule rtranclp.rtrancl_refl, simp_all)
next
  case False
  then show ?thesis using assms by (auto simp: notifyHold_def)
qed

lemma asked_runs:
  assumes "\<forall>f. send = Some f \<longrightarrow> (\<forall>chat text opts topic idem. bystander E i (\<lambda>w. snd (f w chat text opts topic idem)))"
  shows "bystander (E :: 'a hold_env) i (\<lambda>w. notifyHeld E send w t p)"
  unfolding bystander_def
proof
  fix R :: "'a holding"
  define words where "words = [CHR 0xE2, CHR 0x8F, CHR 0xB8] @ '' '' @ pa_ask p @ '' '' @ [CHR 0xE2, CHR 0x80, CHR 0x94] @
    '' ok? ('' @ pa_id p @ '')'' @ [CHR 0x0A] @ pa_rule p"
  obtain ref w where nt: "notifyHold send (hr_world R) t (''hitl-'' @ pa_id p) words (verdictOptions p) = (ref, w)" by force
  obtain V where V: "(hold_step E)\<^sup>*\<^sup>* R V" "hr_world V = w" "hr_waits V i = hr_waits R i"
    "i \<in> set (hr_ran V) \<longleftrightarrow> i \<in> set (hr_ran R)"
    using bystanderE [OF notified [OF assms], of R t "''hitl-'' @ pa_id p" words "verdictOptions p"] nt by auto
  obtain r u where r: "SetPendingNotice E (hr_world V) (pa_id p) ref = (r, u)" by force
  have h: "notifyHeld E send (hr_world R) t p = (if ref = [] then w else u)"
    using nt r V(2) by (simp add: notifyHeld_def Let_def words_def)
  show "\<exists>T. (hold_step E)\<^sup>*\<^sup>* R T \<and> hr_world T = notifyHeld E send (hr_world R) t p \<and> hr_waits T i = hr_waits R i \<and>
      (i \<in> set (hr_ran T) \<longleftrightarrow> i \<in> set (hr_ran R))"
  proof (cases "ref = []")
    case True
    then show ?thesis using V h by auto
  next
    case False
    have "(hold_step E)\<^sup>*\<^sup>* R (V\<lparr>hr_world := u\<rparr>)" using V(1) notice [OF r] by (rule rtranclp.rtrancl_into_rtrancl)
    then show ?thesis using V h False by (intro exI [of _ "V\<lparr>hr_world := u\<rparr>"]) simp
  qed
qed

text \<open>A call the gate holds: its record, its notice and its wait are steps, and it is among the calls that run exactly
  when the gate lets it through.\<close>

lemma gate_runs:
  assumes gate: "holdGate (Some E) send cause polls nap t = Some gate"
    and held: "CheckHold (he_policy E (hr_world R)) (plain_caller (''folder:'' @ tm_folder t)) tool (tm_folder t) (map_of (stringArgs args))"
    and new: "hr_calls R i = None" "i \<notin> set (hr_ran R)"
    and nap: "bystander E i nap"
    and send: "\<forall>f. send = Some f \<longrightarrow> (\<forall>chat text opts topic idem. bystander E i (\<lambda>w. snd (f w chat text opts topic idem)))"
  shows "told_by E R i (gate i (hr_world R) tool args)"
proof -
  obtain r w where b: "PutPendingAction E (hr_world R) (held_row E t i tool args) = (r, w)" by force
  define V where "V = R\<lparr>hr_world := w,
    hr_calls := (hr_calls R)(i \<mapsto> \<lparr>cl_folder = tm_folder t, cl_tool = tool, cl_args = he_encode E args\<rparr>),
    hr_waits := (hr_waits R)(i := (if r = Inr () then Waiting else Away))\<rparr>"
  have s: "(hold_step E)\<^sup>*\<^sup>* R V" using hold [OF new(1) b] unfolding V_def by (rule r_into_rtranclp)
  have n: "i \<in> set (hr_ran V) \<longleftrightarrow> i \<in> set (hr_ran R)" "hr_world V = w" by (simp_all add: V_def)
  have g: "gate i (hr_world R) tool args = (case r of
      Inl e \<Rightarrow> (([], True), notifyHoldFailed send w t tool (cause e))
    | Inr _ \<Rightarrow> awaitVerdict polls E nap (notifyHeld E send w t (withMatcher E (held_row E t i tool args))) i tool)"
    using gate held b by (auto simp: holdGate_def Let_def split: if_splits sum.splits)
  show ?thesis
  proof (cases r)
    case (Inl e)
    obtain T where "(hold_step E)\<^sup>*\<^sup>* V T" "hr_world T = notifyHoldFailed send w t tool (cause e)"
      "i \<in> set (hr_ran T) \<longleftrightarrow> i \<in> set (hr_ran V)"
      using bystanderE [OF notified [OF send, of t], of V] n(2) unfolding notifyHoldFailed_def by metis
    then have "told_by E V i (gate i (hr_world R) tool args)" unfolding told_by_def g Inl by (intro exI [of _ T]) simp
    then show ?thesis by (rule told_later [OF s n(1)])
  next
    case (Inr u)
    obtain T where T: "(hold_step E)\<^sup>*\<^sup>* V T" "hr_waits T i = hr_waits V i" "i \<in> set (hr_ran T) \<longleftrightarrow> i \<in> set (hr_ran V)"
      "hr_world T = notifyHeld E send w t (withMatcher E (held_row E t i tool args))"
      using bystanderE [OF asked_runs [OF send, of t "withMatcher E (held_row E t i tool args)"], of V] n(2) by metis
    have "hr_waits T i = Waiting" using T(2) Inr by (simp add: V_def)
    from await_runs [OF nap this, of polls tool] have "told_by E T i (gate i (hr_world R) tool args)"
      unfolding g Inr by (simp add: T(4))
    then have "told_by E V i (gate i (hr_world R) tool args)" by (rule told_later [OF T(1,3)])
    then show ?thesis by (rule told_later [OF s n(1)])
  qed
qed

section \<open>What holds of a held call\<close>

text \<open>The start: no held call, nothing told, nothing run.\<close>

definition quiet :: "('w \<Rightarrow> item_map) \<Rightarrow> 'w holding \<Rightarrow> bool" where
  "quiet view R \<longleftrightarrow> plain_items (view (hr_world R)) \<and> (\<forall>i. view (hr_world R) (pending_at i) = None) \<and>
     hr_reviews R = (\<lambda>_. Idle) \<and> hr_sent R = [] \<and> hr_told R = [] \<and> hr_ran R = []"

text \<open>
  C11. Held calls, from any state the steps reach. A call starts to run only when its row is stored as approved: the row
  holds the folder, the tool and the arguments of the call as it was made, and names a reviewer whose approval was
  sent, who was shown just these and whom the policy lets administer the folder. A row that has its verdict keeps it, with the
  reviewer, until it is taken away; and a call whose row is stored as rejected or expired did not run and never will, whatever is answered or lost.
  No call has two verdicts that were reported as given, and a call that ran has no report of a rejection or of an expiry.
  The identifier drawn for a call is taken to be fresh (a \<open>hold\<close> step asks it), as four random bytes nearly always are.
\<close>

theorem held_call_approved:
  assumes "object_store (he_store E) view" and "\<forall>w. view (snd (he_fresh E w)) = view w" and q: "quiet view Q"
    and run: "(hold_step E)\<^sup>*\<^sup>* Q R"
  shows "(\<forall>V. hold_step E R V \<and> hr_ran V \<noteq> hr_ran R \<longrightarrow>
      (\<exists>i m c. hr_ran V = i # hr_ran R \<and> view (hr_world R) (pending_at i) = Some m \<and> status m = PendingApproved \<and>
         hr_calls R i = Some c \<and> sent AttrPendGroupFolder m = cl_folder c \<and> sent AttrPendTool m = cl_tool c \<and>
         sent AttrPendArgs m = cl_args c \<and>
         (\<exists>a \<in> set (hr_sent R). ap_id a = i \<and> ap_by a = sent AttrPendReviewedBy m \<and>
            Authorize (he_policy E (ap_world a)) (plain_caller (ap_by a)) ''admin'' (cl_folder c) Map.empty \<and>
            pa_folder (ap_seen a) = cl_folder c \<and> pa_tool (ap_seen a) = cl_tool c \<and> pa_args (ap_seen a) = cl_args c))) \<and>
    (\<forall>i m T. view (hr_world R) (pending_at i) = Some m \<and> status m \<noteq> PendingHeld \<and> (hold_step E)\<^sup>*\<^sup>* R T \<longrightarrow>
      (view (hr_world T) (pending_at i) = None \<or> (\<exists>m'. view (hr_world T) (pending_at i) = Some m' \<and> same_row m m')) \<and>
      (status m \<in> {PendingRejected, PendingExpired} \<longrightarrow> i \<notin> set (hr_ran T))) \<and>
    distinct (map fst (hr_told R)) \<and>
    (\<forall>i \<in> set (hr_ran R). (i, PendingRejected) \<notin> set (hr_told R) \<and> (i, PendingExpired) \<notin> set (hr_told R))"
proof -
  have f: "\<And>w. view (snd (he_fresh E w)) = view w" using assms(2) by blast
  have "hold_inv E view Q" using q by (simp add: quiet_def hold_inv_def deciding_ok_def)
  with run have v: "hold_inv E view R"
    by (induction rule: rtranclp_induct) (use object_store.hold_keeps [OF assms(1) refl] assms(2) in blast)+
  show ?thesis
  proof (intro conjI allI impI)
    fix V
    assume V: "hold_step E R V \<and> hr_ran V \<noteq> hr_ran R"
    obtain i m where i: "hr_ran V = i # hr_ran R" "view (hr_world R) (pending_at i) = Some m" "status m = PendingApproved"
      using object_store.ran_reads [OF assms(1) refl _ v] V by blast
    have "row_kept R i m" using v i(2) unfolding hold_inv_def by blast
    then obtain a c where "hr_calls R i = Some c" "sent AttrPendGroupFolder m = cl_folder c" "sent AttrPendTool m = cl_tool c"
      "sent AttrPendArgs m = cl_args c" "a \<in> set (hr_sent R)" "ap_id a = i" "ap_by a = sent AttrPendReviewedBy m"
      using i(3) by (auto simp: row_kept_def row_of_def)
    moreover from this have "may_answer E (hr_calls R) a" using v unfolding hold_inv_def by blast
    ultimately show "\<exists>i m c. hr_ran V = i # hr_ran R \<and> view (hr_world R) (pending_at i) = Some m \<and> status m = PendingApproved \<and>
         hr_calls R i = Some c \<and> sent AttrPendGroupFolder m = cl_folder c \<and> sent AttrPendTool m = cl_tool c \<and>
         sent AttrPendArgs m = cl_args c \<and>
         (\<exists>a \<in> set (hr_sent R). ap_id a = i \<and> ap_by a = sent AttrPendReviewedBy m \<and>
            Authorize (he_policy E (ap_world a)) (plain_caller (ap_by a)) ''admin'' (cl_folder c) Map.empty \<and>
            pa_folder (ap_seen a) = cl_folder c \<and> pa_tool (ap_seen a) = cl_tool c \<and> pa_args (ap_seen a) = cl_args c)"
      using i unfolding may_answer_def by (intro exI [of _ i] exI [of _ m] exI [of _ c] conjI bexI [of _ a]) auto
  next
    fix i m T
    assume m: "view (hr_world R) (pending_at i) = Some m \<and> status m \<noteq> PendingHeld \<and> (hold_step E)\<^sup>*\<^sup>* R T"
    note o = object_store.verdict_stays [OF assms(1) refl f _ v, of T i m]
    show "view (hr_world T) (pending_at i) = None \<or> (\<exists>m'. view (hr_world T) (pending_at i) = Some m' \<and> same_row m m')"
      using o m by blast
    assume "status m \<in> {PendingRejected, PendingExpired}"
    then show "i \<notin> set (hr_ran T)" using o m by auto
  next
    show "distinct (map fst (hr_told R))" using v by (simp add: hold_inv_def)
    have t: "i \<in> set (hr_ran R) \<Longrightarrow> (i, y) \<in> set (hr_told R) \<Longrightarrow> y = PendingApproved" for i y
      using v unfolding hold_inv_def by blast
    show "\<forall>i \<in> set (hr_ran R). (i, PendingRejected) \<notin> set (hr_told R) \<and> (i, PendingExpired) \<notin> set (hr_told R)"
      using t by fastforce
  qed
qed

section \<open>One call, approved and run\<close>

definition hold_env0 :: "world hold_env" where
  "hold_env0 = \<lparr>he_store = plain_driver, he_fresh = (\<lambda>w. (''v1'', w)), he_policy = (\<lambda>_. Some team), he_now = (\<lambda>_. ''t''),
     he_clock = (\<lambda>_. 0), he_parse = (\<lambda>_. None), he_decode = (\<lambda>_. (None, [])), he_encode = (\<lambda>_. ''{}'')\<rparr>"

definition turn0 :: turnMCP where
  "turn0 = \<lparr>tm_folder = ''acme'', tm_topic = [], tm_chat = ''c'', tm_turn = ''t1'', tm_trigger = [], tm_elevated = False\<rparr>"

definition row_at :: "attr_list \<Rightarrow> attr_list \<Rightarrow> coord \<times> attr_list" where
  "row_at front back = (pending_at ''i'', [(AttrPendGroupFolder, ''acme''), (AttrPendCallerAgent, ''folder:acme''),
     (AttrPendTool, ''delete''), (AttrPendArgs, ''{}'')] @ front @ [(AttrPendChatJID, ''c''), (AttrPendCreatedAt, ''t'')] @ back)"

definition bumped :: "coord \<times> attr_list" where "bumped = (marker_at, [(markerVersion, ''v1'')])"

abbreviation asked :: world where "asked \<equiv> \<lparr>shelf = [row_at [(AttrPendStatus, ''held'')] [], bumped], mishaps = []\<rparr>"

abbreviation agreed :: world where
  "agreed \<equiv> \<lparr>shelf = [bumped, row_at [] [(AttrPendStatus, ''approved''), (AttrPendReviewedBy, ''google:ann''),
     (AttrPendReviewedAt, ''t''), (AttrPendReviewerNote, [])]], mishaps = []\<rparr>"

definition seen0 :: PendingAction where
  "seen0 = (withMatcher hold_env0 ((held_row hold_env0 turn0 ''i'' ''delete'' [])\<lparr>pa_created := ''t''\<rparr>))
     \<lparr>pa_status := PendingApproved, pa_by := ''google:ann'', pa_at := ''t'', pa_note := []\<rparr>"

definition verdict0 :: "Write list" where
  "verdict0 = [verdict_write \<lparr>Partition = OwnerRoutd, Sort = ''i''\<rparr> PendingApproved ''google:ann'' ''t'' []]"

definition hold0 :: "world holding" where
  "hold0 = \<lparr>hr_world = marked, hr_calls = Map.empty, hr_waits = (\<lambda>_. Away), hr_reviews = (\<lambda>_. Idle), hr_sent = [],
     hr_told = [], hr_ran = []\<rparr>"

lemma hold0_calls:
  "PutPendingAction hold_env0 marked (held_row hold_env0 turn0 ''i'' ''delete'' []) = (Inr (), asked)"
  "resolveHoldInto hold_env0 asked empty_set ''i'' PendingApproved ''google:ann'' [] False (Some ErrRefused) =
     (Inr (seen0, \<lparr>ws_writes = verdict0, ws_refused = Some ErrRefused\<rparr>), asked)"
  "st_batch plain_driver asked [] (verdict0 @ []) = (Inr True, agreed)"
  "(case GetPendingAction hold_env0 agreed ''i'' of (x, w) \<Rightarrow> verdict_of x ''delete'' = Some ([], False) \<and> w = agreed)"
  by code_simp+

lemma held_call_approved_witness:
  "\<exists>R V m. (hold_step hold_env0)\<^sup>*\<^sup>* hold0 R \<and> hold_step hold_env0 R V \<and> hr_ran V = [''i''] \<and>
     items (hr_world R) (pending_at ''i'') = Some m \<and> status m = PendingApproved \<and>
     (\<exists>a \<in> set (hr_sent R). ap_id a = ''i'' \<and> ap_by a = sent AttrPendReviewedBy m \<and>
        Authorize (he_policy hold_env0 (ap_world a)) (plain_caller (ap_by a)) ''admin'' ''acme'' Map.empty)"
proof -
  note c = hold0_calls
  have nil: "beside []" by (simp add: beside_def)
  let ?E = hold_env0
  let ?c = "\<lparr>cl_folder = tm_folder turn0, cl_tool = ''delete'', cl_args = he_encode ?E []\<rparr>"
  let ?R1 = "hold0\<lparr>hr_world := asked, hr_calls := (hr_calls hold0)(''i'' \<mapsto> ?c),
    hr_waits := (hr_waits hold0)(''i'' := (if Inr () = (Inr () :: hold_error + unit) then Waiting else Away))\<rparr>"
  let ?a = "\<lparr>ap_id = ''i'', ap_by = ''google:ann'', ap_seen = seen0, ap_world = snd (pendingAction ?E (hr_world ?R1) ''i'')\<rparr>"
  let ?R2 = "?R1\<lparr>hr_world := asked, hr_reviews := (hr_reviews ?R1)(0 := Deciding ''i'' PendingApproved
    (ws_writes \<lparr>ws_writes = verdict0, ws_refused = Some ErrRefused\<rparr>) ?a)\<rparr>"
  let ?R3 = "?R2\<lparr>hr_world := agreed, hr_reviews := (hr_reviews ?R2)(0 := Idle),
    hr_sent := (if PendingApproved = PendingApproved then ?a # hr_sent ?R2 else hr_sent ?R2),
    hr_told := (if Inr True = (Inr True :: store_error + bool) then (''i'', PendingApproved) # hr_told ?R2 else hr_told ?R2)\<rparr>"
  obtain x where x: "GetPendingAction ?E agreed ''i'' = (x, agreed)" "verdict_of x ''delete'' = Some ([], False)"
    using c(4) by (auto split: prod.splits)
  let ?R4 = "answered ''i'' (verdict_of x ''delete'') Waiting (?R3\<lparr>hr_world := agreed\<rparr>)"
  have s1: "hold_step ?E hold0 ?R1"
    by (rule hold_step.hold [OF _ _]) (use c(1) in \<open>simp_all add: hold0_def\<close>)
  have w1: "hr_world ?R1 = asked" by simp
  have s2: "hold_step ?E ?R1 ?R2"
    by (rule hold_step.review) (subst w1, rule c(2))
  have w2: "hr_world ?R2 = asked" by simp
  have e: "he_store ?E = plain_driver" by (simp add: hold_env0_def)
  have s3: "hold_step ?E ?R2 ?R3"
    by (rule hold_step.decide [OF _ nil]) (simp, subst w2, simp only: e c(3) WriteSet.simps)
  have s4: "hold_step ?E ?R3 ?R4"
    by (rule hold_step.poll) (use x(1) in simp_all)
  have run: "(hold_step ?E)\<^sup>*\<^sup>* hold0 ?R3"
    using s1 s2 s3 by (meson converse_rtranclp_into_rtranclp r_into_rtranclp)
  have ran: "hr_ran ?R4 = [''i'']" "hr_ran ?R3 = []" "hr_calls ?R3 = [''i'' \<mapsto> ?c]"
    using x(2) by (simp_all add: answered_def hold0_def)
  have i: "items marked = Map.empty(marker_at \<mapsto> [markerVersion \<mapsto> ''v0''])" by (auto simp: items_def marked_def)
  have m: "pending_at k \<noteq> marker_at" for k by (simp add: coord_of_def PendingActions_def ScopeEntity_def marker_at_def OwnerScope_def)
  have "quiet items hold0"
    using m unfolding quiet_def by (simp add: hold0_def i plain_items_def partAttr_def sortAttr_def openAttr_def markerVersion_def)
  moreover have "object_store (he_store ?E) items" using plain_driver_store by (simp add: e)
  moreover have "\<forall>w. items (snd (he_fresh ?E w)) = items w" by (simp add: hold_env0_def)
  ultimately have "\<forall>V. hold_step ?E ?R3 V \<and> hr_ran V \<noteq> hr_ran ?R3 \<longrightarrow>
      (\<exists>i m c. hr_ran V = i # hr_ran ?R3 \<and> items (hr_world ?R3) (pending_at i) = Some m \<and> status m = PendingApproved \<and>
         hr_calls ?R3 i = Some c \<and> sent AttrPendGroupFolder m = cl_folder c \<and> sent AttrPendTool m = cl_tool c \<and>
         sent AttrPendArgs m = cl_args c \<and>
         (\<exists>a \<in> set (hr_sent ?R3). ap_id a = i \<and> ap_by a = sent AttrPendReviewedBy m \<and>
            Authorize (he_policy ?E (ap_world a)) (plain_caller (ap_by a)) ''admin'' (cl_folder c) Map.empty \<and>
            pa_folder (ap_seen a) = cl_folder c \<and> pa_tool (ap_seen a) = cl_tool c \<and> pa_args (ap_seen a) = cl_args c))"
    using held_call_approved [OF _ _ _ run] by blast
  then have "\<exists>m. items (hr_world ?R3) (pending_at ''i'') = Some m \<and> status m = PendingApproved \<and>
      (\<exists>a \<in> set (hr_sent ?R3). ap_id a = ''i'' \<and> ap_by a = sent AttrPendReviewedBy m \<and>
        Authorize (he_policy ?E (ap_world a)) (plain_caller (ap_by a)) ''admin'' ''acme'' Map.empty)"
    using s4 ran by (fastforce simp: turn0_def)
  then show ?thesis using run s4 ran(1) by blast
qed

end
