(* ===== verification/Task_Store.thy ===== *)
theory Task_Store
  imports Store_Doors Adapter_Store
begin

text \<open>
  store/tasks.go and core/cron.go, with the task tools of routd/scheduled_tasks_resource.go: the scheduled prompts. A task waits as
  active, is claimed as firing by one poll, and is armed again by the daemon that fired it. The clock, the zones, the cron
  parser of the robfig library and the layouts of instants are arguments; an instant is a count of Unix nanoseconds with the zone
  it is written in.
\<close>

section \<open>Tasks\<close>

definition ScheduledTasks :: string where [go_defs]: "ScheduledTasks = ''scheduled_tasks''"

definition attrTaskOwner :: string where [go_defs]: "attrTaskOwner = ''owner''"
definition attrTaskChatJID :: string where [go_defs]: "attrTaskChatJID = ''chat_jid''"
definition attrTaskPrompt :: string where [go_defs]: "attrTaskPrompt = ''prompt''"
definition attrTaskCron :: string where [go_defs]: "attrTaskCron = ''cron''"
definition attrTaskNextRun :: string where [go_defs]: "attrTaskNextRun = ''next_run''"
definition attrTaskStatus :: string where [go_defs]: "attrTaskStatus = ''status''"
definition attrTaskCreatedAt :: string where [go_defs]: "attrTaskCreatedAt = ''created_at''"
definition attrTaskContextMode :: string where [go_defs]: "attrTaskContextMode = ''context_mode''"

definition TaskContextGroup :: string where [go_defs]: "TaskContextGroup = ''group''"
definition TaskStatusFiring :: string where [go_defs]: "TaskStatusFiring = ''firing''"
definition TaskActive :: string where [go_defs]: "TaskActive = ''active''"
definition TaskPaused :: string where [go_defs]: "TaskPaused = ''paused''"
definition TaskCompleted :: string where [go_defs]: "TaskCompleted = ''completed''"
definition TaskError :: string where [go_defs]: "TaskError = ''error''"

record run_time =
  rt_at :: int
  rt_zone :: string

definition zero_run :: run_time where [go_defs]: "zero_run = \<lparr>rt_at = - 62135596800000000000, rt_zone = ''UTC''\<rparr>"

record Task =
  tk_id :: string
  tk_owner :: string
  tk_chat :: string
  tk_prompt :: string
  tk_cron :: string
  tk_next :: "run_time option"
  tk_status :: string
  tk_created :: int
  tk_mode :: string

text \<open>\<open>te_cron\<close> parses an expression into its schedule, which answers the first instant after another in a zone, the
  zero instant where it finds none.\<close>

record 'w task_env =
  te_store :: "'w Store"
  te_fresh :: "'w \<Rightarrow> string \<times> 'w"
  te_now :: "'w \<Rightarrow> int"
  te_tz :: string
  te_loads :: "string \<Rightarrow> bool"
  te_cron :: "string \<Rightarrow> (run_time \<Rightarrow> run_time) option"
  te_rfc :: "string \<Rightarrow> run_time option"
  te_stamped :: "string \<Rightarrow> int option"
  te_format :: "run_time \<Rightarrow> string"

section \<open>The next instant\<close>

datatype schedule_error = ErrNoSchedule | Bad_Cron

definition Timezone :: "'w task_env \<Rightarrow> string" where
  [go_defs]: "Timezone E = (if te_tz E = [] \<or> \<not> te_loads E (te_tz E) then ''UTC'' else te_tz E)"

text \<open>A duration is a 64-bit count of nanoseconds.\<close>

definition interval :: "string \<Rightarrow> int option" where
  [go_defs]: "interval cronVal = (case Atoi cronVal of None \<Rightarrow> None | Some ms \<Rightarrow> if ms > 0 then Some ms else None)"

definition NextRun :: "'w task_env \<Rightarrow> int \<Rightarrow> string \<Rightarrow> string \<Rightarrow> schedule_error + run_time" where
  [go_defs]: "NextRun E now cronVal tz =
     (case interval cronVal of
        Some ms \<Rightarrow> Inr \<lparr>rt_at = now + wrap64 (ms * 1000000), rt_zone = ''Local''\<rparr>
      | None \<Rightarrow>
          if cronVal = [] then Inl ErrNoSchedule
          else (case te_cron E cronVal of
                  None \<Rightarrow> Inl Bad_Cron
                | Some sched \<Rightarrow> Inr (sched \<lparr>rt_at = now, rt_zone = if te_loads E tz then tz else ''UTC''\<rparr>)))"

section \<open>Items\<close>

datatype task_error =
    No_Task_Id
  | Task_Unread store_error
  | Task_Unwritten write_error
  | Task_Taken
  | Unclaimed store_error
  | Unfilled store_error

definition taskKey :: "string \<Rightarrow> task_error + Key" where
  [go_defs]: "taskKey i = (if i = [] then Inl No_Task_Id else Inr \<lparr>Partition = OwnerRoutd, Sort = i\<rparr>)"

definition taskNextRun :: "'w task_env \<Rightarrow> Item \<Rightarrow> run_time option" where
  [go_defs]: "taskNextRun E it =
     (let raw = sent attrTaskNextRun (i_attrs it) in if raw = [] then None else te_rfc E raw)"

definition taskFrom :: "'w task_env \<Rightarrow> Item \<Rightarrow> Task" where
  [go_defs]: "taskFrom E it =
     (let at = (\<lambda>a. sent a (i_attrs it))
      in \<lparr>tk_id = Sort (i_key it), tk_owner = at attrTaskOwner, tk_chat = at attrTaskChatJID,
          tk_prompt = at attrTaskPrompt, tk_cron = at attrTaskCron, tk_next = taskNextRun E it,
          tk_status = at attrTaskStatus,
          tk_created = (case te_stamped E (at attrTaskCreatedAt) of None \<Rightarrow> rt_at zero_run | Some t \<Rightarrow> t),
          tk_mode = (if at attrTaskContextMode = [] then TaskContextGroup else at attrTaskContextMode)\<rparr>)"

definition taskAttrs :: "'w task_env \<Rightarrow> int \<Rightarrow> Task \<Rightarrow> attr_list" where
  [go_defs]: "taskAttrs E now t =
     (let created = (if tk_created t = rt_at zero_run then now else tk_created t);
          mode = (if tk_mode t = [] then TaskContextGroup else tk_mode t);
          attrs = [(attrTaskCreatedAt, TS created), (attrTaskContextMode, mode)];
          attrs = setAttr attrs attrTaskOwner (tk_owner t);
          attrs = setAttr attrs attrTaskChatJID (tk_chat t);
          attrs = setAttr attrs attrTaskPrompt (tk_prompt t);
          attrs = setAttr attrs attrTaskStatus (tk_status t);
          attrs = setAttr attrs attrTaskCron (tk_cron t)
      in case tk_next t of None \<Rightarrow> attrs | Some run \<Rightarrow> AList.update attrTaskNextRun (te_format E run) attrs)"

definition all_tasks_query :: "Cmp list \<Rightarrow> Query" where
  [go_defs]: "all_tasks_query conds = (query0 ScheduledTasks OwnerRoutd)\<lparr>q_where := conds\<rparr>"

definition status_is :: "string \<Rightarrow> Cmp" where
  [go_defs]: "status_is s = \<lparr>c_attr = attrTaskStatus, c_op = Eq, c_value = s\<rparr>"

definition allTasks :: "'w task_env \<Rightarrow> 'w \<Rightarrow> (store_error + Item list) \<times> 'w" where
  [go_defs]: "allTasks E w = st_query (te_store E) w (all_tasks_query [])"

definition TaskByID :: "'w task_env \<Rightarrow> 'w \<Rightarrow> string \<Rightarrow> (task_error + Task option) \<times> 'w" where
  [go_defs]: "TaskByID E w i =
     (case taskKey i of
        Inl e \<Rightarrow> (Inl e, w)
      | Inr key \<Rightarrow>
          (case point (te_store E) w ScheduledTasks key [] of
             (Inl e, w) \<Rightarrow> (Inl (Task_Unread e), w)
           | (Inr x, w) \<Rightarrow> (Inr (map_option (taskFrom E) x), w)))"

definition GetTask :: "'w task_env \<Rightarrow> 'w \<Rightarrow> string \<Rightarrow> Task option \<times> 'w" where
  [go_defs]: "GetTask E w i = (case TaskByID E w i of (Inl _, w) \<Rightarrow> (None, w) | (Inr t, w) \<Rightarrow> (t, w))"

definition ListTasks :: "'w task_env \<Rightarrow> 'w \<Rightarrow> string \<Rightarrow> bool \<Rightarrow> Task list \<times> 'w" where
  [go_defs]: "ListTasks E w folder isRoot =
     (let owner = (if isRoot then [] else folder)
      in case allTasks E w of
           (Inl _, w) \<Rightarrow> ([], w)
         | (Inr its, w) \<Rightarrow>
             (sort_key (\<lambda>t. - tk_created t)
                (map (taskFrom E) (filter (\<lambda>it. \<not> (owner \<noteq> [] \<and> sent attrTaskOwner (i_attrs it) \<noteq> owner)) its)), w))"

definition CountActiveTasks :: "'w task_env \<Rightarrow> 'w \<Rightarrow> int \<times> 'w" where
  [go_defs]: "CountActiveTasks E w =
     (case st_query (te_store E) w (all_tasks_query [status_is TaskActive]) of
        (Inl _, w) \<Rightarrow> (0, w)
      | (Inr its, w) \<Rightarrow> (int (length its), w))"

section \<open>Writers\<close>

definition taskCreate :: "'w task_env \<Rightarrow> int \<Rightarrow> Task \<Rightarrow> task_error + Write" where
  [go_defs]: "taskCreate E now t =
     and_then (taskKey (tk_id t)) (\<lambda>key. Inr ((write0 Put ScheduledTasks key)\<lparr>
       w_attrs := taskAttrs E now t, w_cond := \<lparr>cond_item = ItemAbsent, cond_where = []\<rparr>\<rparr>))"

definition taskCreateRefusal :: "bool \<Rightarrow> task_error + unit" where
  [go_defs]: "taskCreateRefusal landed = (if landed then Inr () else Inl Task_Taken)"

definition CreateTask :: "'w task_env \<Rightarrow> 'w \<Rightarrow> Task \<Rightarrow> (task_error + unit) \<times> 'w" where
  [go_defs]: "CreateTask E w t =
     (case taskCreate E (te_now E w) t of
        Inl e \<Rightarrow> (Inl e, w)
      | Inr x \<Rightarrow>
          (case TryWriteEntities (te_store E) (te_fresh E) w [] [x] of
             (Inl e, w) \<Rightarrow> (Inl (Task_Unwritten (Door e)), w)
           | (Inr landed, w) \<Rightarrow> (taskCreateRefusal landed, w)))"

definition status_write :: "Key \<Rightarrow> string \<Rightarrow> Write" where
  [go_defs]: "status_write key s = (write0 Update ScheduledTasks key)\<lparr>w_attrs := [(attrTaskStatus, s)]\<rparr>"

definition SetTaskStatus :: "'w task_env \<Rightarrow> 'w \<Rightarrow> string \<Rightarrow> string \<Rightarrow> (task_error + unit) \<times> 'w" where
  [go_defs]: "SetTaskStatus E w i status =
     (case taskKey i of
        Inl e \<Rightarrow> (Inl e, w)
      | Inr key \<Rightarrow>
          (case WriteEntities (te_store E) (te_fresh E) w [] [status_write key status] of
             (Inl e, w) \<Rightarrow> (Inl (Task_Unwritten e), w)
           | (Inr _, w) \<Rightarrow> (Inr (), w)))"

text \<open>The conditional re-arm, and what it sets: the instant it was given, or what the task's own schedule names next.\<close>

definition while_status :: "string \<Rightarrow> Cond" where
  [go_defs]: "while_status s = \<lparr>cond_item = ItemAny, cond_where = [status_is s]\<rparr>"

definition rearm_write :: "'w task_env \<Rightarrow> int \<Rightarrow> Key \<Rightarrow> Task \<Rightarrow> string \<Rightarrow> Write" where
  [go_defs]: "rearm_write E now key t nextRun =
     (let w = (write0 Update ScheduledTasks key)\<lparr>w_cond := while_status TaskStatusFiring\<rparr>
      in if nextRun \<noteq> [] then w\<lparr>w_attrs := [(attrTaskStatus, TaskActive), (attrTaskNextRun, nextRun)]\<rparr>
         else case NextRun E now (tk_cron t) (Timezone E) of
             Inl ErrNoSchedule \<Rightarrow> w\<lparr>w_attrs := [(attrTaskStatus, TaskCompleted)], w_remove := [attrTaskNextRun]\<rparr>
           | Inl Bad_Cron \<Rightarrow> w\<lparr>w_attrs := [(attrTaskStatus, TaskError)], w_remove := [attrTaskNextRun]\<rparr>
           | Inr next \<Rightarrow> w\<lparr>w_attrs := [(attrTaskStatus, TaskActive), (attrTaskNextRun, te_format E next)]\<rparr>)"

definition writeRearm :: "'w task_env \<Rightarrow> 'w \<Rightarrow> Write \<Rightarrow> (task_error + unit) \<times> 'w" where
  [go_defs]: "writeRearm E w x =
     (case TryWriteEntities (te_store E) (te_fresh E) w [] [x] of
        (Inl e, w) \<Rightarrow> (Inl (Task_Unwritten (Door e)), w)
      | (Inr _, w) \<Rightarrow> (Inr (), w))"

definition RescheduleTask :: "'w task_env \<Rightarrow> 'w \<Rightarrow> string \<Rightarrow> string \<Rightarrow> (task_error + unit) \<times> 'w" where
  [go_defs]: "RescheduleTask E w i nextRun =
     (case TaskByID E w i of
        (Inl e, w) \<Rightarrow> (Inl e, w)
      | (Inr None, w) \<Rightarrow> (Inr (), w)
      | (Inr (Some t), w) \<Rightarrow>
          (case taskKey i of
             Inl e \<Rightarrow> (Inl e, w)
           | Inr key \<Rightarrow> writeRearm E w (rearm_write E (te_now E w) key t nextRun)))"

definition attrIs :: "string \<Rightarrow> string \<Rightarrow> Cmp" where
  [go_defs]: "attrIs name value =
     (if value = [] then \<lparr>c_attr = name, c_op = Absent, c_value = []\<rparr>
      else \<lparr>c_attr = name, c_op = Eq, c_value = value\<rparr>)"

definition move_write :: "Key \<Rightarrow> Task \<Rightarrow> string \<Rightarrow> string option \<Rightarrow> Write" where
  [go_defs]: "move_write key t to nextRun =
     (let w = (write0 Update ScheduledTasks key)\<lparr>
         w_attrs := [(attrTaskStatus, to)],
         w_cond := \<lparr>cond_item = ItemAny,
                   cond_where = [attrIs attrTaskStatus (tk_status t), attrIs attrTaskCron (tk_cron t)]\<rparr>\<rparr>
      in case nextRun of
           None \<Rightarrow> w
         | Some n \<Rightarrow> if n = [] then w\<lparr>w_remove := [attrTaskNextRun]\<rparr>
                    else w\<lparr>w_attrs := w_attrs w @ [(attrTaskNextRun, n)]\<rparr>)"

definition guarded_task :: "WriteSet \<Rightarrow> write_error option \<Rightarrow> Write \<Rightarrow> task_error + WriteSet" where
  [go_defs]: "guarded_task ws gone x = (case AddGuarded ws gone x of Inl e \<Rightarrow> Inl (Task_Unwritten e) | Inr ws \<Rightarrow> Inr ws)"

definition MoveTaskInto :: "WriteSet \<Rightarrow> Task \<Rightarrow> string \<Rightarrow> string option \<Rightarrow> write_error option \<Rightarrow> task_error + WriteSet" where
  [go_defs]: "MoveTaskInto ws t to nextRun gone =
     and_then (taskKey (tk_id t)) (\<lambda>key. guarded_task ws gone (move_write key t to nextRun))"

definition ResumeTaskInto :: "WriteSet \<Rightarrow> Task \<Rightarrow> write_error option \<Rightarrow> task_error + WriteSet" where
  [go_defs]: "ResumeTaskInto ws t gone =
     (if tk_status t \<noteq> TaskPaused then Inr ws
      else MoveTaskInto ws t TaskActive (if tk_cron t \<noteq> [] then Some [] else None) gone)"

definition CreateTaskInto :: "'w task_env \<Rightarrow> int \<Rightarrow> WriteSet \<Rightarrow> Task \<Rightarrow> write_error option \<Rightarrow> task_error + WriteSet" where
  [go_defs]: "CreateTaskInto E now ws t gone = and_then (taskCreate E now t) (guarded_task ws gone)"

definition SetTaskStatusInto :: "WriteSet \<Rightarrow> string \<Rightarrow> string \<Rightarrow> write_error option \<Rightarrow> task_error + WriteSet" where
  [go_defs]: "SetTaskStatusInto ws i status gone =
     and_then (taskKey i) (\<lambda>key. guarded_task ws gone (status_write key status))"

definition patch_attrs :: "string \<Rightarrow> string \<Rightarrow> attr_list" where
  [go_defs]: "patch_attrs status nextRun = setAttr (setAttr [] attrTaskStatus status) attrTaskNextRun nextRun"

definition PatchTaskInto :: "WriteSet \<Rightarrow> string \<Rightarrow> string \<Rightarrow> string \<Rightarrow> write_error option \<Rightarrow> task_error + WriteSet" where
  [go_defs]: "PatchTaskInto ws i status nextRun gone =
     and_then (taskKey i) (\<lambda>key.
       if patch_attrs status nextRun = [] then Inr ws
       else guarded_task ws gone ((write0 Update ScheduledTasks key)\<lparr>w_attrs := patch_attrs status nextRun\<rparr>))"

definition DeleteTaskInto :: "WriteSet \<Rightarrow> string \<Rightarrow> task_error + WriteSet" where
  [go_defs]: "DeleteTaskInto ws i = and_then (taskKey i) (\<lambda>key. Inr (Add ws [write0 Delete ScheduledTasks key]))"

section \<open>The recovery\<close>

definition RecoverFiringTasks :: "'w task_env \<Rightarrow> 'w \<Rightarrow> (nat \<times> task_error option) \<times> 'w" where
  [go_defs]: "RecoverFiringTasks E w =
     (case st_query (te_store E) w (all_tasks_query [status_is TaskStatusFiring]) of
        (Inl e, w) \<Rightarrow> ((0, Some (Task_Unread e)), w)
      | (Inr its, w) \<Rightarrow>
          (case applyInChunks (te_store E) (te_fresh E) w (map (\<lambda>it. status_write (i_key it) TaskActive) its) of
             ((n, e), w) \<Rightarrow> ((n, map_option Task_Unwritten e), w)))"

section \<open>The poll\<close>

definition fill_write :: "'w task_env \<Rightarrow> int \<Rightarrow> Item \<Rightarrow> Write" where
  [go_defs]: "fill_write E now it =
     (let w = (write0 Update ScheduledTasks (i_key it))\<lparr>
         w_cond := \<lparr>cond_item = ItemAny, cond_where = [status_is TaskActive, attrIs attrTaskNextRun []]\<rparr>\<rparr>
      in case NextRun E now (tk_cron (taskFrom E it)) (Timezone E) of
           Inl _ \<Rightarrow> w\<lparr>w_attrs := [(attrTaskStatus, TaskError)]\<rparr>
         | Inr next \<Rightarrow> w\<lparr>w_attrs := [(attrTaskNextRun, te_format E next)]\<rparr>)"

definition fillNextRun :: "'w task_env \<Rightarrow> 'w \<Rightarrow> Item \<Rightarrow> (task_error + unit) \<times> 'w" where
  [go_defs]: "fillNextRun E w it =
     (case TryWriteEntities (te_store E) (te_fresh E) w [] [fill_write E (te_now E w) it] of
        (Inl e, w) \<Rightarrow> (Inl (Unfilled e), w)
      | (Inr _, w) \<Rightarrow> (Inr (), w))"

definition claim_task :: "Item \<Rightarrow> Write" where
  [go_defs]: "claim_task it = (status_write (i_key it) TaskStatusFiring)\<lparr>w_cond := while_status TaskActive\<rparr>"

text \<open>What one poll does with one item it read: True is a claim it won.\<close>

definition due_visit :: "'w task_env \<Rightarrow> int \<Rightarrow> 'w \<Rightarrow> Item \<Rightarrow> (task_error + bool) \<times> 'w" where
  [go_defs]: "due_visit E now w it =
     (if sent attrTaskNextRun (i_attrs it) = [] then (case fillNextRun E w it of (_, w) \<Rightarrow> (Inr False, w))
      else case taskNextRun E it of
          None \<Rightarrow> (Inr False, w)
        | Some run \<Rightarrow>
            if rt_at run > now then (Inr False, w)
            else (case TryWriteEntities (te_store E) (te_fresh E) w [] [claim_task it] of
                    (Inl e, w) \<Rightarrow> (Inl (Unclaimed e), w)
                  | (Inr claimed, w) \<Rightarrow> (Inr claimed, w)))"

fun due_loop :: "'w task_env \<Rightarrow> int \<Rightarrow> 'w \<Rightarrow> Item list \<Rightarrow> Task list \<Rightarrow> (task_error + Task list) \<times> 'w" where
  "due_loop E now w [] out = (Inr out, w)"
| "due_loop E now w (it # its) out =
     (case due_visit E now w it of
        (Inl e, w) \<Rightarrow> (Inl e, w)
      | (Inr True, w) \<Rightarrow> due_loop E now w its (out @ [(taskFrom E it)\<lparr>tk_status := TaskStatusFiring\<rparr>])
      | (Inr False, w) \<Rightarrow> due_loop E now w its out)"

definition due_read :: "'w task_env \<Rightarrow> 'w \<Rightarrow> (store_error + Item list) \<times> 'w" where
  [go_defs]: "due_read E w = st_query (te_store E) w (all_tasks_query [status_is TaskActive])"

definition DueTasks :: "'w task_env \<Rightarrow> 'w \<Rightarrow> int \<Rightarrow> (task_error + Task list) \<times> 'w" where
  [go_defs]: "DueTasks E w now =
     (case due_read E w of
        (Inl e, w) \<Rightarrow> (Inl (Task_Unread e), w)
      | (Inr its, w) \<Rightarrow> due_loop E now w its [])"

section \<open>The tasks of a new group\<close>

definition defaultTasks :: "(string \<times> string) list" where
  [go_defs]: "defaultTasks =
     [(''/compact-memories episodes day'', ''0 2 * * *''),
      (''/compact-memories episodes week'', ''0 3 * * 1''),
      (''/compact-memories episodes month'', ''0 4 1 * *''),
      (''/compact-memories diary week'', ''0 3 * * 1''),
      (''/compact-memories diary month'', ''0 4 1 * *'')]"

definition seed_task :: "string \<Rightarrow> string \<Rightarrow> int \<Rightarrow> nat \<Rightarrow> string \<times> string \<Rightarrow> Task" where
  [go_defs]: "seed_task folder chatJID now i t =
     \<lparr>tk_id = folder @ ''-mem-'' @ itoa (int i), tk_owner = folder, tk_chat = chatJID, tk_prompt = fst t, tk_cron = snd t,
      tk_next = None, tk_status = TaskActive, tk_created = now, tk_mode = ''isolated''\<rparr>"

fun seed_loop :: "'w task_env \<Rightarrow> 'w \<Rightarrow> string \<Rightarrow> string \<Rightarrow> int \<Rightarrow> nat \<Rightarrow> (string \<times> string) list \<Rightarrow> (task_error + unit) \<times> 'w" where
  "seed_loop E w folder chatJID now i [] = (Inr (), w)"
| "seed_loop E w folder chatJID now i (t # ts) =
     (case taskCreate E (te_now E w) (seed_task folder chatJID now i t) of
        Inl e \<Rightarrow> (Inl e, w)
      | Inr x \<Rightarrow>
          (case TryWriteEntities (te_store E) (te_fresh E) w [] [x] of
             (Inl e, w) \<Rightarrow> (Inl (Task_Unwritten (Door e)), w)
           | (Inr _, w) \<Rightarrow> seed_loop E w folder chatJID now (Suc i) ts))"

definition SeedDefaultTasks :: "'w task_env \<Rightarrow> 'w \<Rightarrow> string \<Rightarrow> string \<Rightarrow> (task_error + unit) \<times> 'w" where
  [go_defs]: "SeedDefaultTasks E w folder chatJID = seed_loop E w folder chatJID (te_now E w) 0 defaultTasks"

section \<open>The tools\<close>

text \<open>\<open>contain\<close> is the face's test of a folder; the routes' answer and the register of groups are asked of the world.\<close>

datatype tool_error =
    Not_Registered
  | Not_Permitted
  | Cron_Required
  | Bad_Schedule
  | Task_Not_Found
  | Nothing_To_Patch
  | Bad_Next_Run
  | Task_Failed task_error

definition parseTaskSchedule :: "'w task_env \<Rightarrow> int \<Rightarrow> string \<Rightarrow> schedule_error + run_time option \<times> string" where
  [go_defs]: "parseTaskSchedule E now cronExpr =
     (if cronExpr = [] then Inr (None, [])
      else case te_rfc E cronExpr of
          Some t \<Rightarrow> Inr (Some t, [])
        | None \<Rightarrow> (case NextRun E now cronExpr (Timezone E) of Inl e \<Rightarrow> Inl e | Inr _ \<Rightarrow> Inr (None, cronExpr)))"

definition task_failed :: "task_error + 'a \<Rightarrow> tool_error + 'a" where
  [go_defs]: "task_failed r = (case r of Inl e \<Rightarrow> Inl (Task_Failed e) | Inr x \<Rightarrow> Inr x)"

definition schedule_action ::
  "'w task_env \<Rightarrow> ('w \<Rightarrow> string \<Rightarrow> string) \<Rightarrow> ('w \<Rightarrow> string \<Rightarrow> bool) \<Rightarrow> (string \<Rightarrow> bool) \<Rightarrow> 'w \<Rightarrow> WriteSet \<Rightarrow> string
   \<Rightarrow> string \<Rightarrow> string \<Rightarrow> string \<Rightarrow> string \<Rightarrow> (tool_error + string \<times> WriteSet) \<times> 'w" where
  [go_defs]: "schedule_action E folder_of_jid group_exists contain w ws i targetJid mode cron prompt =
     (let contextMode = (if mode \<noteq> ''isolated'' then ''group'' else mode);
          target = (if CHR '':'' \<in> set targetJid then folder_of_jid w targetJid
                    else if group_exists w targetJid then targetJid else [])
      in if target = [] then (Inl Not_Registered, w)
         else if \<not> contain target then (Inl Not_Permitted, w)
         else if cron = [] then (Inl Cron_Required, w)
         else case parseTaskSchedule E (te_now E w) cron of
             Inl _ \<Rightarrow> (Inl Bad_Schedule, w)
           | Inr (nextRun, cronStore) \<Rightarrow>
               (case (if cronStore \<noteq> [] then ListTasks E w target False else ([], w)) of
                  (ts, w) \<Rightarrow>
                    (case find (\<lambda>t. tk_status t = TaskActive \<and> tk_cron t = cronStore \<and> tk_prompt t = prompt) ts of
                       Some t \<Rightarrow> (Inr (tk_id t, ws), w)
                     | None \<Rightarrow>
                         (task_failed (and_then
                            (CreateTaskInto E (te_now E w) ws
                               \<lparr>tk_id = i, tk_owner = target, tk_chat = targetJid, tk_prompt = prompt, tk_cron = cronStore,
                                tk_next = nextRun, tk_status = TaskActive, tk_created = te_now E w, tk_mode = contextMode\<rparr>
                               (Some (Refused ''already exists'')))
                            (\<lambda>ws. Inr (i, ws))), w))))"

datatype task_action = Pause | Resume | Cancel

definition status_action ::
  "'w task_env \<Rightarrow> (string \<Rightarrow> bool) \<Rightarrow> 'w \<Rightarrow> WriteSet \<Rightarrow> task_action \<Rightarrow> string \<Rightarrow> (tool_error + WriteSet) \<times> 'w" where
  [go_defs]: "status_action E contain w ws act taskID =
     (case GetTask E w taskID of
        (None, w) \<Rightarrow> (Inl Task_Not_Found, w)
      | (Some task, w) \<Rightarrow>
          if \<not> contain (tk_owner task) then (Inl Not_Permitted, w)
          else let gone = Some (Refused ''task not found'')
               in (task_failed (case act of
                     Pause \<Rightarrow> SetTaskStatusInto ws taskID TaskPaused gone
                   | Resume \<Rightarrow> ResumeTaskInto ws task gone
                   | Cancel \<Rightarrow> DeleteTaskInto ws taskID), w))"

definition patch_action ::
  "'w task_env \<Rightarrow> (string \<Rightarrow> bool) \<Rightarrow> 'w \<Rightarrow> WriteSet \<Rightarrow> string \<Rightarrow> string \<Rightarrow> string \<Rightarrow> (tool_error + Task \<times> WriteSet) \<times> 'w" where
  [go_defs]: "patch_action E contain w ws taskID status nextRun =
     (case GetTask E w taskID of
        (None, w) \<Rightarrow> (Inl Task_Not_Found, w)
      | (Some task, w) \<Rightarrow>
          if \<not> contain (tk_owner task) then (Inl Not_Permitted, w)
          else if status = [] \<and> nextRun = [] then (Inl Nothing_To_Patch, w)
          else if nextRun \<noteq> [] \<and> te_rfc E nextRun = None then (Inl Bad_Next_Run, w)
          else
            let gone = Some (Refused ''task not found'');
                resume = (status = TaskActive \<and> nextRun = [] \<and> tk_status task = TaskPaused);
                status = (if \<not> resume \<and> status = [] \<and> nextRun \<noteq> [] \<and>
                             (tk_status task = TaskCompleted \<or> tk_status task = TaskStatusFiring)
                          then TaskActive else status);
                r = (if resume then ResumeTaskInto ws task gone else PatchTaskInto ws taskID status nextRun gone);
                task = (if status \<noteq> [] then task\<lparr>tk_status := status\<rparr> else task);
                task = (case te_rfc E nextRun of
                          Some t \<Rightarrow> if nextRun \<noteq> [] then task\<lparr>tk_next := Some t\<rparr> else task
                        | None \<Rightarrow> task)
            in (task_failed (and_then r (\<lambda>ws. Inr (task, ws))), w))"

end
