(* ===== verification/Task_Race.thy ===== *)
theory Task_Race
  imports Task_Store
begin

text \<open>
  Polls, re-arms and every other writer of the scheduled tasks at the same time, over any store that keeps its contract and with
  requests and answers that may be lost: between two claims of one task it was freed. A poll that
  runs alone claims exactly the tasks that are due. And three sequences in which a schedule goes wrong.
\<close>

section \<open>The steps\<close>

abbreviation task_at :: "string \<Rightarrow> coord" where
  "task_at i \<equiv> coord_of ScheduledTasks \<lparr>Partition = OwnerRoutd, Sort = i\<rparr>"

abbreviation task_status :: "attrs \<Rightarrow> string" where "task_status \<equiv> sent attrTaskStatus"

datatype poller = Rest | Going int "Item list" | Arming string Task string

record 'w polling =
  po_world :: 'w
  po_phase :: "nat \<Rightarrow> poller"
  po_claims :: "string list"
  po_frees :: "string list"

text \<open>A write that may take a task out of firing, and a batch of other writers, none of which marks a task as firing.\<close>

definition frees :: "Write \<Rightarrow> bool" where
  "frees x \<longleftrightarrow> w_entity x = ScheduledTasks \<and>
     (w_op x \<noteq> Update \<or> attrTaskStatus \<in> fst ` set (w_attrs x) \<or> attrTaskStatus \<in> set (w_remove x))"

definition freed :: "Write list \<Rightarrow> string list" where
  "freed wrs = map (\<lambda>x. Sort (w_key x)) (filter frees wrs)"

definition never_fires :: "Write \<Rightarrow> bool" where
  "never_fires x \<longleftrightarrow> w_entity x = ScheduledTasks \<longrightarrow>
     map_of (w_attrs x) attrTaskStatus \<noteq> Some TaskStatusFiring \<and> (attrTaskStatus, TaskStatusFiring) \<notin> set (w_init x)"

text \<open>\<open>po_claims\<close> are the claims that were answered as won, \<open>po_frees\<close> the writes sent that may free a task. A poll reads,
  then visits the items it read one request at a time; a re-arm reads the task, then writes.\<close>

inductive poll_step :: "'w task_env \<Rightarrow> 'w polling \<Rightarrow> 'w polling \<Rightarrow> bool" for E where
  poll: "due_read E (po_world R) = (Inr its, w) \<Longrightarrow>
    poll_step E R (R\<lparr>po_world := w, po_phase := (po_phase R)(i := Going now its)\<rparr>)"
| visit: "po_phase R i = Going now (it # its) \<Longrightarrow> due_visit E now (po_world R) it = (r, w) \<Longrightarrow>
    poll_step E R (R\<lparr>po_world := w, po_phase := (po_phase R)(i := (case r of Inl _ \<Rightarrow> Rest | Inr _ \<Rightarrow> Going now its)),
      po_claims := (if r = Inr True then Sort (i_key it) # po_claims R else po_claims R)\<rparr>)"
| look_up: "TaskByID E (po_world R) n = (Inr (Some t), w) \<Longrightarrow>
    poll_step E R (R\<lparr>po_world := w, po_phase := (po_phase R)(i := Arming n t nextRun)\<rparr>)"
| arm: "po_phase R i = Arming n t nextRun \<Longrightarrow> taskKey n = Inr key \<Longrightarrow>
    writeRearm E (po_world R) (rearm_write E now key t nextRun) = (r, w) \<Longrightarrow>
    poll_step E R (R\<lparr>po_world := w, po_phase := (po_phase R)(i := Rest), po_frees := n # po_frees R\<rparr>)"
| others: "list_all plain_write wrs \<Longrightarrow> list_all never_fires wrs \<Longrightarrow>
    st_batch (te_store E) (po_world R) [] wrs = (r, w) \<Longrightarrow>
    poll_step E R (R\<lparr>po_world := w, po_frees := freed wrs @ po_frees R\<rparr>)"
| give_up: "poll_step E R (R\<lparr>po_phase := (po_phase R)(i := Rest)\<rparr>)"

section \<open>The invariant\<close>

definition fires :: "attrs option \<Rightarrow> bool" where
  "fires n \<longleftrightarrow> (case n of None \<Rightarrow> False | Some m \<Rightarrow> m attrTaskStatus = Some TaskStatusFiring)"

abbreviation firing :: "item_map \<Rightarrow> string \<Rightarrow> bool" where "firing db i \<equiv> fires (db (task_at i))"

definition read_here :: "poller \<Rightarrow> bool" where
  "read_here p \<longleftrightarrow> (case p of Going _ its \<Rightarrow> list_all (\<lambda>it. Partition (i_key it) = OwnerRoutd) its | _ \<Rightarrow> True)"

definition poll_inv :: "('w \<Rightarrow> item_map) \<Rightarrow> 'w polling \<Rightarrow> bool" where
  "poll_inv view R \<longleftrightarrow> plain_items (view (po_world R)) \<and> (\<forall>i. read_here (po_phase R i)) \<and>
     (\<forall>n. count_list (po_claims R) n \<le> count_list (po_frees R) n + (if firing (view (po_world R)) n then 1 else 0))"

lemma task_attrs [simp]:
  "plain_attr attrTaskOwner" "plain_attr attrTaskChatJID" "plain_attr attrTaskPrompt" "plain_attr attrTaskCron"
  "plain_attr attrTaskNextRun" "plain_attr attrTaskStatus" "plain_attr attrTaskCreatedAt" "plain_attr attrTaskContextMode"
  by (simp_all add: plain_attr_def partAttr_def sortAttr_def openAttr_def attrTaskOwner_def attrTaskChatJID_def
      attrTaskPrompt_def attrTaskCron_def attrTaskNextRun_def attrTaskStatus_def attrTaskCreatedAt_def attrTaskContextMode_def)

lemma task_names [simp]:
  "attrTaskStatus \<noteq> attrTaskNextRun" "attrTaskNextRun \<noteq> attrTaskStatus" "attrTaskStatus \<noteq> attrTaskCron" "attrTaskCron \<noteq> attrTaskStatus"
  "ScheduledTasks \<noteq> ScopeEntity" "ScopeEntity \<noteq> ScheduledTasks"
  by (simp_all add: attrTaskStatus_def attrTaskNextRun_def attrTaskCron_def ScheduledTasks_def ScopeEntity_def)

lemma states_apart [simp]:
  "TaskActive \<noteq> TaskStatusFiring" "TaskStatusFiring \<noteq> TaskActive" "TaskError \<noteq> TaskStatusFiring" "TaskCompleted \<noteq> TaskStatusFiring"
  "TaskStatusFiring \<noteq> TaskError" "TaskStatusFiring \<noteq> TaskCompleted" "TaskStatusFiring \<noteq> TaskPaused"
  "TaskPaused \<noteq> TaskStatusFiring" "TaskActive \<noteq> TaskError" "TaskError \<noteq> TaskActive" "TaskActive \<noteq> TaskCompleted" "TaskActive \<noteq> []"
  "TaskStatusFiring \<noteq> []"
  by (simp_all add: TaskActive_def TaskStatusFiring_def TaskError_def TaskCompleted_def TaskPaused_def)

lemma task_at_inj [simp]: "task_at a = task_at b \<longleftrightarrow> a = b"
  by (simp add: coord_of_def)

lemma here_at: "Partition k = OwnerRoutd \<Longrightarrow> coord_of ScheduledTasks k = task_at (Sort k)"
  by (simp add: coord_of_def)

lemma taskKey_at: "taskKey n = Inr key \<Longrightarrow> key = \<lparr>Partition = OwnerRoutd, Sort = n\<rparr>"
  by (auto simp: taskKey_def split: if_splits)

text \<open>What one write, and a batch, does to whether a task fires.\<close>

lemma written_fires: "never_fires x \<Longrightarrow> w_entity x = ScheduledTasks \<Longrightarrow> fires (written x n) \<Longrightarrow> fires n"
  by (cases "w_op x"; cases n)
    (auto simp: fires_def written_def merged_def attrs_of_def never_fires_def split: if_splits option.splits dest!: map_of_SomeD)

lemma kept_fires: "\<not> frees x \<Longrightarrow> w_entity x = ScheduledTasks \<Longrightarrow> fires n \<Longrightarrow> fires (written x n)"
  by (auto simp: frees_def fires_def written_def merged_def attrs_of_def split: option.splits)
    (auto simp: map_of_eq_None_iff [symmetric])

lemma effect_fires:
  assumes "list_all never_fires wrs"
  shows "(fires (batch_effect db wrs (task_at n)) \<longrightarrow> fires (db (task_at n))) \<and>
    (fires (db (task_at n)) \<longrightarrow> fires (batch_effect db wrs (task_at n)) \<or> n \<in> set (freed wrs))"
  using assms
proof (induction wrs arbitrary: db)
  case Nil
  then show ?case by simp
next
  case (Cons x wrs)
  let ?db = "db(place_of x := written x (db (place_of x)))"
  have e: "w_entity x = ScheduledTasks" and s: "Sort (w_key x) = n" if "place_of x = task_at n"
    using that by (simp_all add: place_of_def coord_of_def)
  have one: "fires (?db (task_at n)) \<longrightarrow> fires (db (task_at n))"
    using Cons.prems e written_fires [of x] by auto
  have two: "fires (db (task_at n)) \<longrightarrow> fires (?db (task_at n)) \<or> n \<in> set (freed [x])"
    using e s kept_fires [of x] by (auto simp: freed_def)
  have all: "set (freed (x # wrs)) = set (freed [x]) \<union> set (freed wrs)" by (auto simp: freed_def)
  have rest: "list_all never_fires wrs" using Cons.prems by simp
  show ?case unfolding batch_effect.simps all using Cons.IH [OF rest, of ?db] one two by blast
qed

text \<open>The writes of the code: a claim, a fill and a re-arm, and what the other writers render.\<close>

lemma code_writes [simp]:
  "plain_write (claim_task it)" "plain_write (fill_write E now it)" "plain_write (rearm_write E now key t nextRun)"
  "plain_write (status_write key s)"
  "w_entity (claim_task it) = ScheduledTasks" "w_entity (fill_write E now it) = ScheduledTasks"
  "w_entity (rearm_write E now key t nextRun) = ScheduledTasks" "w_entity (status_write key s) = ScheduledTasks"
  "w_key (claim_task it) = i_key it" "w_key (fill_write E now it) = i_key it"
  "w_key (rearm_write E now key t nextRun) = key" "w_key (status_write key s) = key"
  by (simp_all add: claim_task_def fill_write_def rearm_write_def status_write_def while_status_def status_is_def attrIs_def
      plain_write_def plain_cond_def no_cond_def write0_def Let_def split: sum.splits schedule_error.splits)

lemma rearm_frees [simp]: "never_fires (rearm_write E now key t nextRun)" "frees (rearm_write E now key t nextRun)"
  by (simp_all add: never_fires_def frees_def rearm_write_def write0_def Let_def split: sum.splits schedule_error.splits)

lemma fill_never [simp]: "never_fires (fill_write E now it)"
  by (simp add: never_fires_def fill_write_def write0_def Let_def split: sum.splits)

lemma asks_active:
  assumes "x = claim_task it \<or> x = fill_write E now it" "write_ok x n"
  shows "\<exists>m. n = Some m \<and> m attrTaskStatus = Some TaskActive"
  using assms by (cases n)
    (auto simp: write_ok_def cond_ok_def claim_task_def fill_write_def while_status_def status_is_def status_write_def write0_def
      cmp_match_def attrs_of_def cmp_eval_def Let_def split: option.splits sum.splits)

lemma claimed_fires: "n \<noteq> None \<Longrightarrow> fires (written (claim_task it) n)"
  by (auto simp: fires_def written_def merged_def claim_task_def status_write_def write0_def attrs_of_def)

context object_store
begin

lemma task_door:
  assumes p: "plain_items (view w)" and f: "keeps_view view fresh" and x: "plain_write x" "w_entity x = ScheduledTasks"
    and k: "Partition (w_key x) = OwnerRoutd" and b: "TryWriteEntities st fresh w [] [x] = (r, w')"
  shows "plain_items (view w') \<and> (\<forall>n. n \<noteq> Sort (w_key x) \<longrightarrow> view w' (task_at n) = view w (task_at n)) \<and>
    (view w' (task_at (Sort (w_key x))) = view w (task_at (Sort (w_key x))) \<and> r \<noteq> Inr True \<or>
     write_ok x (view w (task_at (Sort (w_key x)))) \<and>
     view w' (task_at (Sort (w_key x))) = written x (view w (task_at (Sort (w_key x)))))"
proof -
  have at: "place_of x = task_at (Sort (w_key x))" using x(2) here_at [OF k] by (simp add: place_of_def)
  have ne: "w_entity x \<noteq> ScopeEntity" using x(2) by simp
  note o = door_one [OF p f x(1) ne b, unfolded at x(2)]
  have far: "(\<forall>k. coord_of ScheduledTasks k \<noteq> task_at (Sort (w_key x)) \<longrightarrow> view w' (coord_of ScheduledTasks k) = view w (coord_of ScheduledTasks k)) \<Longrightarrow>
      n \<noteq> Sort (w_key x) \<Longrightarrow> view w' (task_at n) = view w (task_at n)" for n
    using task_at_inj [of n "Sort (w_key x)"] by blast
  show ?thesis using o far by blast
qed

lemma due_read_here:
  assumes p: "plain_items (view w)" and s: "te_store E = st" and r: "due_read E w = (Inr its, w')"
  shows "view w' = view w \<and> distinct (map i_key its) \<and> list_all (\<lambda>it. Partition (i_key it) = OwnerRoutd) its \<and>
    (\<forall>it. it \<in> set its \<longleftrightarrow> Partition (i_key it) = OwnerRoutd \<and>
      view w (task_at (Sort (i_key it))) = Some (i_attrs it) \<and> i_attrs it attrTaskStatus = Some TaskActive)"
proof -
  let ?q = "all_tasks_query [status_is TaskActive]"
  have q: "plain_query ?q" "q_limit ?q = 0" "q_project ?q = []" "q_entity ?q = ScheduledTasks"
    by (simp_all add: all_tasks_query_def query0_def plain_query_def status_is_def plain_attr_def attrTaskStatus_def
        partAttr_def sortAttr_def)
  have c: "cmp_match (i_attrs it) (status_is TaskActive) = (i_attrs it attrTaskStatus = Some TaskActive)" for it
    by (auto simp: cmp_match_def status_is_def cmp_eval_def split: option.splits)
  have k: "picks ?q it \<longleftrightarrow> Partition (i_key it) = OwnerRoutd \<and> i_attrs it attrTaskStatus = Some TaskActive" for it
    by (simp add: picks_def all_tasks_query_def query0_def key_match_def any_key_def c)
  have a: "st_query st w ?q = (Inr its, w')" using r s by (simp add: due_read_def)
  note o = scan [OF p q(1-3) a, unfolded k q(4)]
  have at: "Partition (i_key it) = OwnerRoutd \<Longrightarrow> coord_of ScheduledTasks (i_key it) = task_at (Sort (i_key it))" for it :: Item
    by (rule here_at)
  show ?thesis using o at by (auto simp: list_all_iff)
qed

text \<open>A visit: nothing but its own item changes, and a claim is won only of a task that was active.\<close>

lemma visit_effect:
  assumes p: "plain_items (view w)" and s: "te_store E = st" and f: "keeps_view view (te_fresh E)"
    and k: "Partition (i_key it) = OwnerRoutd" and v: "due_visit E now w it = (r, w')"
  shows "plain_items (view w') \<and> (\<forall>n. n \<noteq> Sort (i_key it) \<longrightarrow> view w' (task_at n) = view w (task_at n)) \<and>
    (\<forall>n. fires (view w (task_at n)) \<longrightarrow> fires (view w' (task_at n))) \<and>
    (r = Inr True \<longrightarrow> \<not> fires (view w (task_at (Sort (i_key it)))) \<and> fires (view w' (task_at (Sort (i_key it)))))"
proof -
  have step: ?thesis if x: "x = claim_task it \<or> x = fill_write E now' it"
    and b: "TryWriteEntities st (te_fresh E) w [] [x] = (y, w')" and y: "r = Inr True \<longrightarrow> y = Inr True \<and> x = claim_task it" for x y now'
  proof -
    have xs: "plain_write x" "w_entity x = ScheduledTasks" "w_key x = i_key it" using x by auto
    note o = task_door [OF p f xs(1,2) _ b, unfolded xs(3), OF k]
    have "\<not> fires (view w (task_at (Sort (i_key it))))" if "write_ok x (view w (task_at (Sort (i_key it))))"
      using asks_active [OF x that] by (auto simp: fires_def)
    moreover have "fires (written x (view w (task_at (Sort (i_key it)))))"
      if "write_ok x (view w (task_at (Sort (i_key it))))" "x = claim_task it"
      using asks_active [OF x that(1)] claimed_fires [of "view w (task_at (Sort (i_key it)))"] that(2) by auto
    ultimately show ?thesis using o y by metis
  qed
  have still: ?thesis if "w' = w" "r = Inr False" using that p by simp
  show ?thesis
  proof (cases "sent attrTaskNextRun (i_attrs it) = []")
    case True
    obtain y where b: "TryWriteEntities st (te_fresh E) w [] [fill_write E (te_now E w) it] = (y, w')" and r: "r = Inr False"
      using v True s by (auto simp: due_visit_def fillNextRun_def split: prod.splits sum.splits)
    show ?thesis by (rule step [OF disjI2 b]) (auto simp: r)
  next
    case False
    show ?thesis
    proof (cases "\<exists>run. taskNextRun E it = Some run \<and> rt_at run \<le> now")
      case True
      then obtain y where b: "TryWriteEntities st (te_fresh E) w [] [claim_task it] = (y, w')"
        and y: "r = Inr True \<longrightarrow> y = Inr True"
        using v False s by (auto simp: due_visit_def split: prod.splits sum.splits)
      show ?thesis by (rule step [OF disjI1 b]) (use y in auto)
    next
      case no: False
      then have "due_visit E now w it = (Inr False, w)" using False by (auto simp: due_visit_def split: option.splits)
      then show ?thesis using v still by simp
    qed
  qed
qed

end

section \<open>Every step keeps it\<close>

context object_store
begin

lemma poll_keeps:
  assumes s: "te_store E = st" and f: "keeps_view view (te_fresh E)" and v: "poll_inv view R" and t: "poll_step E R R'"
  shows "poll_inv view R'"
proof -
  have p: "plain_items (view (po_world R))" and h: "\<And>i. read_here (po_phase R i)"
    and c: "\<And>n. count_list (po_claims R) n \<le> count_list (po_frees R) n + (if firing (view (po_world R)) n then 1 else 0)"
    using v by (auto simp: poll_inv_def)
  from t show ?thesis
  proof cases
    case (poll its w i now)
    show ?thesis unfolding poll(1) using due_read_here [OF p s poll(2)] p h c by (simp add: poll_inv_def read_here_def)
  next
    case (visit i now it its r w)
    have g: "read_here (Going now (it # its))" using h [of i] visit(2) by simp
    then have k: "Partition (i_key it) = OwnerRoutd" by (simp add: read_here_def)
    note o = visit_effect [OF p s f k visit(3)]
    have "count_list (if r = Inr True then Sort (i_key it) # po_claims R else po_claims R) n
        \<le> count_list (po_frees R) n + (if firing (view w) n then 1 else 0)" for n
      using o c [of n] by (auto split: if_splits)
    moreover have "read_here (((po_phase R)(i := (case r of Inl _ \<Rightarrow> Rest | Inr _ \<Rightarrow> Going now its))) j)" for j
      using h g by (auto simp: read_here_def split: sum.splits)
    ultimately show ?thesis unfolding visit(1) using o by (simp add: poll_inv_def)
  next
    case (look_up n t w i nextRun)
    obtain y where q: "point st (po_world R) ScheduledTasks \<lparr>Partition = OwnerRoutd, Sort = n\<rparr> [] = (y, w)"
      using look_up(2) s by (auto simp: TaskByID_def taskKey_def split: prod.splits sum.splits if_splits)
    show ?thesis unfolding look_up(1) using point_looks [OF q] v by (simp add: poll_inv_def read_here_def)
  next
    case (arm i n t nextRun key now r w)
    obtain y where b: "TryWriteEntities st (te_fresh E) (po_world R) [] [rearm_write E now key t nextRun] = (y, w)"
      using arm(4) s by (auto simp: writeRearm_def split: prod.splits sum.splits)
    have k: "key = \<lparr>Partition = OwnerRoutd, Sort = n\<rparr>" by (rule taskKey_at [OF arm(3)])
    have o: "plain_items (view w) \<and> (\<forall>m. m \<noteq> n \<longrightarrow> view w (task_at m) = view (po_world R) (task_at m))"
      using task_door [OF p f _ _ _ b] by (simp add: k)
    have "count_list (po_claims R) m \<le> count_list (n # po_frees R) m + (if firing (view w) m then 1 else 0)" for m
      using o c [of m] by (auto split: if_splits)
    then show ?thesis unfolding arm(1) using o h by (simp add: poll_inv_def read_here_def)
  next
    case (others wrs r w)
    have b: "plain_batch [] wrs" using others(2) by (simp add: plain_batch_def)
    note o = batch_outcome [OF p b others(4) [unfolded s]]
    have "\<not> firing (view w) n \<longrightarrow> firing (view (po_world R)) n \<longrightarrow> n \<in> set (freed wrs)" for n
      using o effect_fires [OF others(3), of "view (po_world R)" n] by auto
    then have "count_list (po_claims R) n \<le> count_list (freed wrs @ po_frees R) n + (if firing (view w) n then 1 else 0)" for n
      using c [of n] count_list_0_iff [of "freed wrs" n] by (auto split: if_splits simp: Suc_leI)
    then show ?thesis unfolding others(1) using o h by (auto simp: poll_inv_def)
  next
    case (give_up i)
    show ?thesis unfolding give_up using v by (simp add: poll_inv_def read_here_def)
  qed
qed

end

text \<open>The other writers of the code: creations, status changes, moves, patches, removals and the recovery, of any
  status but firing.\<close>

lemma writers_never_fire:
  assumes "tk_status t \<noteq> TaskStatusFiring" "to \<noteq> TaskStatusFiring"
  shows "taskCreate E now t = Inr x \<Longrightarrow> plain_write x \<and> never_fires x"
    and "plain_write (status_write key to) \<and> never_fires (status_write key to)"
    and "plain_write (move_write key u to nextRun) \<and> never_fires (move_write key u to nextRun)"
    and "plain_write ((write0 Update ScheduledTasks key)\<lparr>w_attrs := patch_attrs to n\<rparr>) \<and>
      never_fires ((write0 Update ScheduledTasks key)\<lparr>w_attrs := patch_attrs to n\<rparr>)"
    and "plain_write (write0 Delete ScheduledTasks key) \<and> never_fires (write0 Delete ScheduledTasks key)"
proof -
  have "attrTaskCreatedAt \<noteq> attrTaskContextMode" by (simp add: attrTaskCreatedAt_def attrTaskContextMode_def)
  then have d: "distinct (map fst (taskAttrs E now t))"
    unfolding taskAttrs_def Let_def
    by (auto simp: setAttr_distinct distinct_update simp del: AList.update.simps split: option.splits)
  have n: "list_all plain_attr (map fst (taskAttrs E now t))"
    unfolding taskAttrs_def Let_def
    by (auto simp: setAttr_plain update_plain simp del: AList.update.simps list.pred_map split: option.splits)
  have m: "map_of (taskAttrs E now t) attrTaskStatus \<noteq> Some TaskStatusFiring"
    using assms(1) by (auto simp: taskAttrs_def Let_def setAttr_at update_conv' attrTaskOwner_def attrTaskChatJID_def attrTaskPrompt_def
        attrTaskCron_def attrTaskNextRun_def attrTaskStatus_def attrTaskCreatedAt_def attrTaskContextMode_def
        simp del: AList.update.simps split: option.splits)
  show "plain_write x \<and> never_fires x" if "taskCreate E now t = Inr x"
    using that d n m by (auto simp: taskCreate_def and_then_def plain_write_def plain_cond_def write0_def never_fires_def
        simp del: list.pred_map split: sum.splits)
  show "plain_write (status_write key to) \<and> never_fires (status_write key to)"
    using assms(2) by (simp add: status_write_def plain_write_def plain_cond_def no_cond_def write0_def never_fires_def)
  show "plain_write (move_write key u to nextRun) \<and> never_fires (move_write key u to nextRun)"
    using assms(2) by (auto simp: move_write_def attrIs_def plain_write_def plain_cond_def write0_def never_fires_def Let_def split: option.splits)
  show "plain_write ((write0 Update ScheduledTasks key)\<lparr>w_attrs := patch_attrs to n\<rparr>) \<and>
      never_fires ((write0 Update ScheduledTasks key)\<lparr>w_attrs := patch_attrs to n\<rparr>)"
    using assms(2) by (auto simp: patch_attrs_def setAttr_def plain_write_def plain_cond_def no_cond_def write0_def never_fires_def)
  show "plain_write (write0 Delete ScheduledTasks key) \<and> never_fires (write0 Delete ScheduledTasks key)"
    by (simp add: plain_write_def plain_cond_def no_cond_def write0_def never_fires_def)
qed

section \<open>One claim a time\<close>

text \<open>
  C14. Any number of polls and re-arms that overlap, and any other writers, requests and answers that may be
  lost: a task is claimed at most once more than writes were sent that may free it, and not once more unless it stands as firing. So
  between two claims of a task somebody armed, moved or removed it, and a task that stands as firing is not claimed.
\<close>

theorem task_claimed_once:
  assumes "object_store (te_store E) view" and "keeps_view view (te_fresh E)" and "plain_items (view (po_world R))"
    and "po_phase R = (\<lambda>_. Rest)" "po_claims R = []" "po_frees R = []"
    and run: "(poll_step E)\<^sup>*\<^sup>* R T"
  shows "count_list (po_claims T) n \<le>
     count_list (po_frees T) n + (if fires (view (po_world T) (task_at n)) then 1 else 0)"
proof -
  have "poll_inv view R" using assms(3-6) by (simp add: poll_inv_def read_here_def)
  with run have "poll_inv view T"
    by (induction rule: rtranclp_induct) (use object_store.poll_keeps [OF assms(1) refl assms(2)] in blast)+
  then show ?thesis by (simp add: poll_inv_def)
qed

section \<open>A poll alone\<close>

text \<open>A stored task is due: its next instant parses and is not after \<open>now\<close>.\<close>

definition due_at :: "'w task_env \<Rightarrow> int \<Rightarrow> attrs \<Rightarrow> bool" where
  "due_at E now m \<longleftrightarrow> sent attrTaskNextRun m \<noteq> [] \<and>
     (case te_rfc E (sent attrTaskNextRun m) of None \<Rightarrow> False | Some run \<Rightarrow> rt_at run \<le> now)"

definition as_firing :: "attrs \<Rightarrow> attrs" where "as_firing m = m(attrTaskStatus \<mapsto> TaskStatusFiring)"

lemma claim_written: "written (claim_task it) (Some m) = Some (as_firing m)"
  by (auto simp: as_firing_def written_def merged_def claim_task_def status_write_def write0_def attrs_of_def fun_eq_iff split: option.splits)

lemma claim_ok: "m attrTaskStatus = Some TaskActive \<Longrightarrow> write_ok (claim_task it) (Some m)"
  by (simp add: write_ok_def cond_ok_def claim_task_def while_status_def status_is_def status_write_def write0_def
      cmp_match_def attrs_of_def cmp_eval_def)

context object_store
begin

lemma visit_alone:
  assumes p: "plain_items (view w)" and s: "te_store E = st" and f: "keeps_view view (te_fresh E)"
    and g: "scoped (view w) ScheduledTasks" and k: "Partition (i_key it) = OwnerRoutd"
    and at: "view w (task_at (Sort (i_key it))) = Some (i_attrs it)" "i_attrs it attrTaskStatus = Some TaskActive"
    and v: "due_visit E now w it = (Inr b, w')"
  shows "plain_items (view w') \<and> scoped (view w') ScheduledTasks \<and> (b \<longleftrightarrow> due_at E now (i_attrs it)) \<and>
    (\<forall>n. n \<noteq> Sort (i_key it) \<longrightarrow> view w' (task_at n) = view w (task_at n)) \<and>
    (due_at E now (i_attrs it) \<longrightarrow>
       view w' (task_at (Sort (i_key it))) = Some (as_firing (i_attrs it))) \<and>
    (\<not> due_at E now (i_attrs it) \<and> sent attrTaskNextRun (i_attrs it) \<noteq> [] \<longrightarrow>
       view w' (task_at (Sort (i_key it))) = Some (i_attrs it))"
proof (cases "sent attrTaskNextRun (i_attrs it) = []")
  case True
  obtain y where t: "TryWriteEntities st (te_fresh E) w [] [fill_write E (te_now E w) it] = (y, w')" and r: "b = False"
    using v True s by (auto simp: due_visit_def fillNextRun_def split: prod.splits sum.splits)
  show ?thesis
    using task_door [OF p f _ _ _ t] door_scoped [OF p f _ _ g t] k True r by (auto simp: due_at_def)
next
  case some: False
  show ?thesis
  proof (cases "due_at E now (i_attrs it)")
    case True
    obtain y where t: "TryWriteEntities st (te_fresh E) w [] [claim_task it] = (y, w')" and y: "y = Inr b"
      using v True some s by (auto simp: due_visit_def due_at_def taskNextRun_def Let_def split: prod.splits sum.splits option.splits)
    have pl: "place_of (claim_task it) = task_at (Sort (i_key it))" using here_at [OF k] by (simp add: place_of_def)
    have "b"
    proof (rule ccontr)
      assume "\<not> b"
      then have "TryWriteEntities st (te_fresh E) w [] [claim_task it] = (Inr False, w')" using t y by simp
      from door_refused [OF p f _ _ this] g have "\<not> write_ok (claim_task it) (Some (i_attrs it))" by (simp add: pl at)
      then show False using claim_ok at(2) by blast
    qed
    then show ?thesis
      using task_door [OF p f _ _ _ t] door_scoped [OF p f _ _ g t] k True some y by (auto simp: at claim_written)
  next
    case False
    then have "due_visit E now w it = (Inr False, w)"
      using some by (auto simp: due_visit_def due_at_def taskNextRun_def Let_def split: option.splits)
    then show ?thesis using v False p g at by auto
  qed
qed

lemma loop_alone:
  assumes "plain_items (view w)" and s: "te_store E = st" and f: "keeps_view view (te_fresh E)"
    and "scoped (view w) ScheduledTasks" "distinct (map i_key its)"
    and "\<And>it. it \<in> set its \<Longrightarrow> Partition (i_key it) = OwnerRoutd \<and>
      view w (task_at (Sort (i_key it))) = Some (i_attrs it) \<and> i_attrs it attrTaskStatus = Some TaskActive"
    and "due_loop E now w its out = (Inr res, w')"
  shows "map tk_id res = map tk_id out @ map (\<lambda>it. Sort (i_key it)) (filter (\<lambda>it. due_at E now (i_attrs it)) its) \<and>
    (\<forall>n. (\<forall>it \<in> set its. Sort (i_key it) \<noteq> n) \<longrightarrow> view w' (task_at n) = view w (task_at n)) \<and>
    (\<forall>it \<in> set its. due_at E now (i_attrs it) \<longrightarrow>
       view w' (task_at (Sort (i_key it))) = Some (as_firing (i_attrs it))) \<and>
    (\<forall>it \<in> set its. \<not> due_at E now (i_attrs it) \<and> sent attrTaskNextRun (i_attrs it) \<noteq> [] \<longrightarrow>
       view w' (task_at (Sort (i_key it))) = Some (i_attrs it))"
  using assms(1,4-7)
proof (induction its arbitrary: w out)
  case Nil
  then show ?case by simp
next
  case (Cons it its)
  obtain b u where v: "due_visit E now w it = (Inr b, u)"
    and l: "due_loop E now u its (if b then out @ [(taskFrom E it)\<lparr>tk_status := TaskStatusFiring\<rparr>] else out) = (Inr res, w')"
    using Cons.prems(5) by (auto split: prod.splits sum.splits bool.splits if_splits)
  have h: "Partition (i_key it) = OwnerRoutd" "view w (task_at (Sort (i_key it))) = Some (i_attrs it)"
    "i_attrs it attrTaskStatus = Some TaskActive"
    using Cons.prems(4) [of it] by simp_all
  note o = visit_alone [OF Cons.prems(1) s f Cons.prems(2) h v]
  have far: "Sort (i_key x) \<noteq> Sort (i_key it)" if "x \<in> set its" for x
  proof
    assume e: "Sort (i_key x) = Sort (i_key it)"
    have "Partition (i_key x) = OwnerRoutd" using Cons.prems(4) [of x] that by simp
    then have "i_key x = i_key it" using e h(1) by simp
    then show False using Cons.prems(3) that by (metis distinct.simps(2) image_eqI list.simps(9) set_map)
  qed
  have tail: "Partition (i_key x) = OwnerRoutd \<and> view u (task_at (Sort (i_key x))) = Some (i_attrs x) \<and>
      i_attrs x attrTaskStatus = Some TaskActive" if "x \<in> set its" for x
    using Cons.prems(4) [of x] o far [OF that] that by simp
  have pu: "plain_items (view u)" "scoped (view u) ScheduledTasks" using o by blast+
  have dt: "distinct (map i_key its)" using Cons.prems(3) by simp
  note ih = Cons.IH [OF pu dt tail l]
  have here: "view w' (task_at (Sort (i_key it))) = view u (task_at (Sort (i_key it)))" using ih far by blast
  have ids: "tk_id ((taskFrom E it)\<lparr>tk_status := st'\<rparr>) = Sort (i_key it)" for st' by (simp add: taskFrom_def Let_def)
  have "map tk_id res = map tk_id out @ map (\<lambda>it. Sort (i_key it)) (filter (\<lambda>it. due_at E now (i_attrs it)) (it # its))"
    using ih o by (cases "due_at E now (i_attrs it)") (simp_all add: ids)
  moreover have "view w' (task_at n) = view w (task_at n)" if "\<forall>x \<in> set (it # its). Sort (i_key x) \<noteq> n" for n
    using ih o that by (metis list.set_intros)
  ultimately show ?case using ih o here by auto
qed

end

text \<open>
  C17. A poll that answers, with nobody beside it and the marker of the scope in place, hands out exactly the
  active tasks whose next instant is not after now, each once; it leaves each of them as firing and otherwise as it
  was, and leaves every task that has an instant and is not due, or is not active, as it was.
\<close>

theorem due_exact:
  assumes "object_store (te_store E) view" and "keeps_view view (te_fresh E)" and "plain_items (view w)"
    and "scoped (view w) ScheduledTasks" and "DueTasks E w now = (Inr out, w')"
  shows "distinct (map tk_id out) \<and>
    (\<forall>n. n \<in> tk_id ` set out \<longleftrightarrow>
       (\<exists>m. view w (task_at n) = Some m \<and> m attrTaskStatus = Some TaskActive \<and> due_at E now m)) \<and>
    (\<forall>n m. view w (task_at n) = Some m \<longrightarrow>
       (n \<in> tk_id ` set out \<longrightarrow> view w' (task_at n) = Some (as_firing m)) \<and>
       (n \<notin> tk_id ` set out \<and> (sent attrTaskNextRun m \<noteq> [] \<or> m attrTaskStatus \<noteq> Some TaskActive) \<longrightarrow>
          view w' (task_at n) = Some m))"
proof -
  obtain its u where q: "due_read E w = (Inr its, u)" and l: "due_loop E now u its [] = (Inr out, w')"
    using assms(5) by (auto simp: DueTasks_def split: prod.splits sum.splits)
  note r = object_store.due_read_here [OF assms(1,3) refl q]
  let ?id = "\<lambda>it. Sort (i_key it)"
  have g: "Partition (i_key it) = OwnerRoutd \<and> view u (task_at (?id it)) = Some (i_attrs it) \<and>
      i_attrs it attrTaskStatus = Some TaskActive" if "it \<in> set its" for it
    using r that by metis
  have pu: "plain_items (view u)" "scoped (view u) ScheduledTasks" "distinct (map i_key its)" using r assms(3,4) by simp_all
  note o = object_store.loop_alone [OF assms(1) pu(1) refl assms(2) pu(2,3) g l]
  have inj: "inj_on ?id (set its)" using pu(3) g by (intro inj_onI) (metis Key.equality distinct_map inj_onD old.unit.exhaust)
  have di: "distinct (map ?id its)" using inj pu(3) by (simp add: distinct_map)
  have ids: "map tk_id out = map ?id (filter (\<lambda>it. due_at E now (i_attrs it)) its)" using o by simp
  have act: "\<exists>it \<in> set its. ?id it = n \<and> i_attrs it = m" if "view w (task_at n) = Some m" "m attrTaskStatus = Some TaskActive" for n m
    using r that by (intro bexI [of _ "\<lparr>i_key = \<lparr>Partition = OwnerRoutd, Sort = n\<rparr>, i_attrs = m\<rparr>"]) auto
  have stored: "view w (task_at (?id it)) = Some (i_attrs it)" if "it \<in> set its" for it using r g [OF that] by simp
  have mem: "n \<in> tk_id ` set out \<longleftrightarrow> (\<exists>it \<in> set its. ?id it = n \<and> due_at E now (i_attrs it))" for n
    using arg_cong [OF ids, of set] by auto
  have "n \<in> tk_id ` set out \<longleftrightarrow> (\<exists>m. view w (task_at n) = Some m \<and> m attrTaskStatus = Some TaskActive \<and> due_at E now m)" for n
    unfolding mem using act stored g by metis
  moreover have "view w' (task_at n) = Some (as_firing m)" if "view w (task_at n) = Some m" "n \<in> tk_id ` set out" for n m
    using that(2) o stored that(1) unfolding mem by (metis option.inject)
  moreover have "view w' (task_at n) = Some m"
    if m: "view w (task_at n) = Some m" and n: "n \<notin> tk_id ` set out"
      and k: "sent attrTaskNextRun m \<noteq> [] \<or> m attrTaskStatus \<noteq> Some TaskActive" for n m
  proof (cases "\<exists>it \<in> set its. ?id it = n")
    case True
    then obtain it where it: "it \<in> set its" "?id it = n" by blast
    then have "i_attrs it = m" using stored m by force
    then show ?thesis using o it n k g [OF it(1)] unfolding mem by auto
  next
    case False
    then show ?thesis using o r m by simp
  qed
  moreover have "distinct (map tk_id out)" unfolding ids using di by (rule distinct_map_filter)
  ultimately show ?thesis by blast
qed

section \<open>A small timetable\<close>

text \<open>Instants written as numbers; the clock stands at 50.\<close>

definition timetable :: "(string \<Rightarrow> (run_time \<Rightarrow> run_time) option) \<Rightarrow> world task_env" where
  "timetable cr =
     \<lparr>te_store = plain_driver, te_fresh = (\<lambda>w. (''v'', w)), te_now = (\<lambda>_. 50), te_tz = [], te_loads = (\<lambda>_. False), te_cron = cr,
      te_rfc = (\<lambda>s. map_option (\<lambda>n. \<lparr>rt_at = n, rt_zone = ''UTC''\<rparr>) (Atoi s)), te_stamped = (\<lambda>_. Some 0),
      te_format = (\<lambda>r. itoa (rt_at r))\<rparr>"

definition tasks_world :: "(string \<times> attr_list) list \<Rightarrow> mishap list \<Rightarrow> world" where
  "tasks_world rows ms =
     \<lparr>shelf = map (\<lambda>(n, as). (task_at n, as)) rows @
        [(coord_of ScopeEntity \<lparr>Partition = scopePartition, Sort = OwnerRoutd\<rparr>, [(markerVersion, ''v'')])], mishaps = ms\<rparr>"

abbreviation no_crons :: "world task_env" where "no_crons \<equiv> timetable (\<lambda>_. None)"

abbreviation one_due :: world where "one_due \<equiv> tasks_world [(''a'', [(attrTaskNextRun, ''10''), (attrTaskStatus, TaskActive)])] []"
abbreviation one_firing :: world where "one_firing \<equiv> tasks_world [(''a'', [(attrTaskNextRun, ''10''), (attrTaskStatus, TaskStatusFiring)])] []"

definition first_read :: Item where "first_read = hd (projr (fst (due_read no_crons one_due)))"

lemma table_env: "object_store (te_store (timetable cr)) items" "keeps_view items (te_fresh (timetable cr))"
  by (simp_all add: timetable_def plain_driver_store keeps_view_def)

lemma read_one: "due_read no_crons one_due = (Inr [first_read], one_due)"
proof -
  have "\<not> isl (fst (due_read no_crons one_due))" "snd (due_read no_crons one_due) = one_due"
    "length (projr (fst (due_read no_crons one_due))) = 1" by code_simp+
  then show ?thesis unfolding first_read_def
    by (cases "fst (due_read no_crons one_due)"; cases "projr (fst (due_read no_crons one_due))")
      (auto simp: prod_eq_iff)
qed

lemma one_plain: "plain_items (items one_due)"
  by (auto simp: plain_items_def items_def tasks_world_def coord_of_def attrTaskNextRun_def attrTaskStatus_def partAttr_def sortAttr_def
      openAttr_def markerVersion_def split: if_splits)

definition polls0 :: "world polling" where
  "polls0 = \<lparr>po_world = one_due, po_phase = (\<lambda>_. Rest), po_claims = [], po_frees = []\<rparr>"

text \<open>Two polls read the same due task; one claims it and the other does not.\<close>

lemma task_claimed_once_witness:
  "\<exists>T. (poll_step no_crons)\<^sup>*\<^sup>* polls0 T \<and> po_claims T = [''a''] \<and> po_frees T = [] \<and>
     count_list (po_claims T) ''a'' \<le> count_list (po_frees T) ''a'' + (if fires (items (po_world T) (task_at ''a'')) then 1 else 0)"
proof -
  let ?E = no_crons
  have v: "due_visit ?E 50 one_due first_read = (Inr True, one_firing)"
    "due_visit ?E 50 one_firing first_read = (Inr False, one_firing)" "Sort (i_key first_read) = ''a''" by code_simp+
  let ?R1 = "polls0\<lparr>po_world := one_due, po_phase := (po_phase polls0)(0 := Going 50 [first_read])\<rparr>"
  let ?R2 = "?R1\<lparr>po_world := one_due, po_phase := (po_phase ?R1)(1 := Going 50 [first_read])\<rparr>"
  let ?after = "\<lambda>r R w i. R\<lparr>po_world := w, po_phase := (po_phase R)(i := (case r of Inl _ \<Rightarrow> Rest | Inr _ \<Rightarrow> Going 50 [])),
      po_claims := (if r = Inr True then Sort (i_key first_read) # po_claims R else po_claims R)\<rparr>"
  let ?R3 = "?after (Inr True :: task_error + bool) ?R2 one_firing 0"
  let ?R4 = "?after (Inr False :: task_error + bool) ?R3 one_firing 1"
  have "poll_step ?E polls0 ?R1" by (rule poll_step.poll) (simp add: read_one polls0_def)
  moreover have "poll_step ?E ?R1 ?R2" by (rule poll_step.poll) (simp add: read_one)
  moreover have "poll_step ?E ?R2 ?R3" by (rule poll_step.visit [where it = first_read and now = 50]) (simp_all add: v)
  moreover have "poll_step ?E ?R3 ?R4" by (rule poll_step.visit [where it = first_read and now = 50]) (simp_all add: v)
  ultimately have run: "(poll_step ?E)\<^sup>*\<^sup>* polls0 ?R4" by (meson converse_rtranclp_into_rtranclp rtranclp.rtrancl_refl)
  have "count_list (po_claims ?R4) ''a'' \<le> count_list (po_frees ?R4) ''a'' + (if fires (items (po_world ?R4) (task_at ''a'')) then 1 else 0)"
    by (rule task_claimed_once [OF table_env _ _ _ _ run]) (simp_all add: polls0_def one_plain)
  moreover have "po_claims ?R4 = [''a'']" "po_frees ?R4 = []" by (simp_all add: polls0_def v(3))
  ultimately show ?thesis using run by (intro exI [of _ ?R4] conjI)
qed

lemma due_exact_witness:
  "\<exists>t. DueTasks no_crons one_due 50 = (Inr [t], one_firing) \<and> ''a'' \<in> tk_id ` set [t] \<and>
     (\<exists>m. items one_due (task_at ''a'') = Some m \<and> items one_firing (task_at ''a'') = Some (as_firing m))"
proof -
  obtain t where t: "DueTasks no_crons one_due 50 = (Inr [t], one_firing)" "tk_id t = ''a''"
  proof -
    let ?x = "DueTasks no_crons one_due 50"
    have "\<not> isl (fst ?x)" "snd ?x = one_firing" "map tk_id (projr (fst ?x)) = [''a'']" by code_simp+
    then show thesis using that [of "hd (projr (fst ?x))"]
      by (cases "fst ?x"; cases "projr (fst ?x)") (auto simp: prod_eq_iff)
  qed
  have sc: "scoped (items one_due) ScheduledTasks"
    by (simp add: scoped_def EntityScope_def scopedEntities_def onbod_entities_def routd_entities_def ScheduledTasks_def OwnerScope_def
        items_def tasks_world_def coord_of_def)
  note d = due_exact [OF table_env one_plain sc t(1)]
  have a: "''a'' \<in> tk_id ` set [t]" using t(2) by simp
  then obtain m where "items one_due (task_at ''a'') = Some m" using d by blast
  then show ?thesis using t(1) a d by blast
qed

section \<open>Three schedules that go wrong\<close>

definition row_ab :: "string \<Rightarrow> string \<Rightarrow> attr_list" where
  "row_ab run st = [(attrTaskNextRun, run), (attrTaskStatus, st)]"

text \<open>
  A poll whose later claim fails answers the error and drops the claims it had won: the first of two due tasks stands as
  firing and nobody was told to fire it; the next poll, which succeeds, hands out the other one only.
\<close>

lemma claims_dropped:
  "\<exists>w1 w2 t. DueTasks no_crons (tasks_world [(''a'', row_ab ''10'' TaskActive), (''b'', row_ab ''20'' TaskActive)] [Fine, Fine, Lost]) 50
       = (Inl (Unclaimed Fault), w1) \<and>
     fires (items w1 (task_at ''a'')) \<and>
     DueTasks no_crons w1 60 = (Inr [t], w2) \<and> tk_id t = ''b'' \<and> fires (items w2 (task_at ''a''))"
proof -
  let ?w1 = "tasks_world [(''b'', row_ab ''20'' TaskActive), (''a'', row_ab ''10'' TaskStatusFiring)] []"
  let ?w2 = "tasks_world [(''a'', row_ab ''10'' TaskStatusFiring), (''b'', row_ab ''20'' TaskStatusFiring)] []"
  let ?t = "\<lparr>tk_id = ''b'', tk_owner = [], tk_chat = [], tk_prompt = [], tk_cron = [], tk_next = Some \<lparr>rt_at = 20, rt_zone = ''UTC''\<rparr>,
    tk_status = TaskStatusFiring, tk_created = 0, tk_mode = TaskContextGroup\<rparr>"
  have "DueTasks no_crons (tasks_world [(''a'', row_ab ''10'' TaskActive), (''b'', row_ab ''20'' TaskActive)] [Fine, Fine, Lost]) 50
      = (Inl (Unclaimed Fault), ?w1)" by code_simp
  moreover have "fires (items ?w1 (task_at ''a''))" "fires (items ?w2 (task_at ''a''))" by code_simp+
  moreover have "DueTasks no_crons ?w1 60 = (Inr [?t], ?w2)" by code_simp
  ultimately show ?thesis by (intro exI [of _ ?w1] exI [of _ ?w2] exI [of _ ?t] conjI) simp_all
qed

definition hourly :: "world task_env" where
  "hourly = timetable (\<lambda>c. if c = ''c'' then Some (\<lambda>t. t\<lparr>rt_at := rt_at t + 60\<rparr>) else None)"

abbreviation cron_world :: "string \<Rightarrow> string \<Rightarrow> world" where
  "cron_world run st \<equiv> tasks_world [(''a'', [(attrTaskCron, ''c''), (attrTaskNextRun, run), (attrTaskStatus, st)])] []"

text \<open>
  A task that is moved to a later instant between a poll's read and its claim fires all the same, and the re-arm
  then replaces the instant it was moved to by the next one of its cron: the claim and the re-arm ask for the status only.
\<close>

lemma moved_task_fires:
  "\<exists>it task ws w1 w2 w3.
     due_read hourly (cron_world ''10'' TaskActive) = (Inr [it], cron_world ''10'' TaskActive) \<and>
     patch_action hourly (\<lambda>_. True) (cron_world ''10'' TaskActive) empty_set ''a'' [] ''900'' =
       (Inr (task, ws), cron_world ''10'' TaskActive) \<and>
     Apply plain_driver (te_fresh hourly) (cron_world ''10'' TaskActive) ws [] = (Inr (), w1) \<and>
     sent attrTaskNextRun (attrs_of (items w1 (task_at ''a''))) = ''900'' \<and>
     due_visit hourly 50 w1 it = (Inr True, w2) \<and> RescheduleTask hourly w2 ''a'' [] = (Inr (), w3) \<and>
     sent attrTaskNextRun (attrs_of (items w3 (task_at ''a''))) = ''110''"
proof -
  let ?w = "cron_world ''10'' TaskActive"
  let ?r = "due_read hourly ?w" and ?p = "patch_action hourly (\<lambda>_. True) ?w empty_set ''a'' [] ''900''"
  let ?w1 = "tasks_world [(''a'', [(attrTaskCron, ''c''), (attrTaskStatus, TaskActive), (attrTaskNextRun, ''900'')])] []"
  let ?w2 = "cron_world ''900'' TaskStatusFiring"
  let ?w3 = "tasks_world [(''a'', [(attrTaskCron, ''c''), (attrTaskStatus, TaskActive), (attrTaskNextRun, ''110'')])] []"
  have "\<not> isl (fst ?r)" "snd ?r = ?w" "length (projr (fst ?r)) = 1" by code_simp+
  then have 1: "?r = (Inr [hd (projr (fst ?r))], ?w)"
    by (cases "fst ?r"; cases "projr (fst ?r)") (auto simp: prod_eq_iff)
  have "\<not> isl (fst ?p)" "snd ?p = ?w" by code_simp+
  then have 2: "?p = (Inr (fst (projr (fst ?p)), snd (projr (fst ?p))), ?w)"
    by (cases "fst ?p") (auto simp: prod_eq_iff)
  have 3: "Apply plain_driver (te_fresh hourly) ?w (snd (projr (fst ?p))) [] = (Inr (), ?w1)" by code_simp
  have 4: "due_visit hourly 50 ?w1 (hd (projr (fst ?r))) = (Inr True, ?w2)" by code_simp
  have 5: "RescheduleTask hourly ?w2 ''a'' [] = (Inr (), ?w3)" by code_simp
  have 6: "sent attrTaskNextRun (attrs_of (items ?w1 (task_at ''a''))) = ''900''"
    "sent attrTaskNextRun (attrs_of (items ?w3 (task_at ''a''))) = ''110''" by code_simp+
  show ?thesis using 1 2 3 4 5 6 by blast
qed

text \<open>An environment whose cron parser answers a schedule that no instant meets; the text is that of the zero instant.\<close>

definition calendar :: "world task_env" where
  "calendar = (timetable (\<lambda>_. Some (\<lambda>_. zero_run)))\<lparr>
     te_rfc := (\<lambda>s. if s = ''0001-01-01T00:00:00Z'' then Some zero_run else None), te_format := (\<lambda>_. ''0001-01-01T00:00:00Z'')\<rparr>"

abbreviation leap_world :: "attr_list \<Rightarrow> world" where
  "leap_world as \<equiv> tasks_world [(''a'', (attrTaskCron, ''0 0 30 2 *'') # as)] []"

text \<open>
  A schedule that parses and that no instant meets is accepted, and its task is due at every poll: the first fills the
  zero instant in, each later one claims the task and each re-arm writes the zero instant again.
\<close>

lemma impossible_schedule_fires:
  "parseTaskSchedule calendar 50 ''0 0 30 2 *'' = Inr (None, ''0 0 30 2 *'') \<and>
   (\<exists>w1 w2 t. DueTasks calendar (leap_world [(attrTaskStatus, TaskActive)]) 50 = (Inr [], w1) \<and>
     DueTasks calendar w1 50 = (Inr [t], w2) \<and> tk_id t = ''a'' \<and> RescheduleTask calendar w2 ''a'' [] = (Inr (), w1))"
proof -
  let ?z = "''0001-01-01T00:00:00Z''"
  let ?w1 = "leap_world [(attrTaskStatus, TaskActive), (attrTaskNextRun, ?z)]"
  let ?w2 = "leap_world [(attrTaskNextRun, ?z), (attrTaskStatus, TaskStatusFiring)]"
  let ?t = "\<lparr>tk_id = ''a'', tk_owner = [], tk_chat = [], tk_prompt = [], tk_cron = ''0 0 30 2 *'', tk_next = Some zero_run,
    tk_status = TaskStatusFiring, tk_created = 0, tk_mode = TaskContextGroup\<rparr>"
  have "parseTaskSchedule calendar 50 ''0 0 30 2 *'' = Inr (None, ''0 0 30 2 *'')" by code_simp
  moreover have "DueTasks calendar (leap_world [(attrTaskStatus, TaskActive)]) 50 = (Inr [], ?w1)" by code_simp
  moreover have "DueTasks calendar ?w1 50 = (Inr [?t], ?w2)" by code_simp
  moreover have "RescheduleTask calendar ?w2 ''a'' [] = (Inr (), ?w1)" by code_simp
  ultimately show ?thesis by (intro conjI exI [of _ ?w1] exI [of _ ?w2] exI [of _ ?t]) simp_all
qed

end
