(* ===== verification/Token_Store.thy ===== *)
theory Token_Store
  imports Store_Doors Adapter_Store Membership_Race Groupfolder
begin

text \<open>
  store/route_tokens.go, store/token_ref.go and store/pairing.go: the bearers that deliver messages to a folder, and the pairing
  links, which are bearers of another kind that bind a channel identity to an account. The digest of a bearer, fresh
  bearers, the clock, the parser of instants and the audit records are arguments; an instant is a count of Unix nanoseconds.
\<close>

section \<open>Route tokens\<close>

definition RouteTokens :: string where [go_defs]: "RouteTokens = ''route_tokens''"

definition attrTokJID :: string where [go_defs]: "attrTokJID = ''jid''"
definition attrTokOwnerFolder :: string where [go_defs]: "attrTokOwnerFolder = ''owner_folder''"
definition attrTokTargetFolder :: string where [go_defs]: "attrTokTargetFolder = ''target_folder''"
definition attrTokCreatedAt :: string where [go_defs]: "attrTokCreatedAt = ''created_at''"
definition attrTokContext :: string where [go_defs]: "attrTokContext = ''context''"
definition attrTokKind :: string where [go_defs]: "attrTokKind = ''kind''"

definition RouteTokenJIDKindChat :: string where [go_defs]: "RouteTokenJIDKindChat = ''chat''"
definition RouteTokenJIDKindHook :: string where [go_defs]: "RouteTokenJIDKindHook = ''hook''"
definition RouteTokenKindRoute :: string where [go_defs]: "RouteTokenKindRoute = ''route''"
definition RouteTokenKindPair :: string where [go_defs]: "RouteTokenKindPair = ''pair''"

record RouteToken =
  tok_jid :: string
  tok_owner :: string
  tok_created :: int
  tok_context :: string
  tok_target :: string

definition year_one :: int where [go_defs]: "year_one = - 62135596800000000000"

record 'w token_env =
  ke_store :: "'w Store"
  ke_fresh :: "'w \<Rightarrow> string \<times> 'w"
  ke_ref :: "string \<Rightarrow> string"
  ke_now :: "'w \<Rightarrow> int"
  ke_parse :: "string \<Rightarrow> int option"

datatype token_error =
    No_Bearer
  | No_Jid
  | Bad_Owner
  | Bad_Jid
  | ErrRouteTokenTargetTaken
  | No_Hash
  | Tok_Unread store_error
  | Tok_Unwritten write_error
  | Bad_Created
  | ErrPairingUnavailable
  | ErrPairingConflict
  | Tok_Edge membership_error

definition Folder :: "RouteToken \<Rightarrow> string" where
  [go_defs]: "Folder t = (if tok_target t \<noteq> [] then tok_target t else JidFolder (tok_jid t))"

definition routeTokenKey :: "'w token_env \<Rightarrow> string \<Rightarrow> token_error + Key" where
  [go_defs]: "routeTokenKey E rawToken =
     (if rawToken = [] then Inl No_Bearer else Inr \<lparr>Partition = OwnerRoutd, Sort = ke_ref E rawToken\<rparr>)"

definition routeTokenFrom :: "'w token_env \<Rightarrow> Item \<Rightarrow> RouteToken" where
  [go_defs]: "routeTokenFrom E it =
     (let at = (\<lambda>a. sent a (i_attrs it))
      in \<lparr>tok_jid = at attrTokJID, tok_owner = at attrTokOwnerFolder,
          tok_created = (case ke_parse E (at attrTokCreatedAt) of None \<Rightarrow> year_one | Some t \<Rightarrow> t),
          tok_context = at attrTokContext, tok_target = at attrTokTargetFolder\<rparr>)"

definition kind_is :: "string \<Rightarrow> Cmp" where
  [go_defs]: "kind_is kind = \<lparr>c_attr = attrTokKind, c_op = Eq, c_value = kind\<rparr>"

definition routeTokensOfKind :: "'w token_env \<Rightarrow> 'w \<Rightarrow> string \<Rightarrow> (token_error + Item list) \<times> 'w" where
  [go_defs]: "routeTokensOfKind E w kind =
     (case st_query (ke_store E) w ((query0 RouteTokens OwnerRoutd)\<lparr>q_where := [kind_is kind]\<rparr>) of
        (Inl e, w) \<Rightarrow> (Inl (Tok_Unread e), w)
      | (Inr its, w) \<Rightarrow> (Inr its, w))"

definition RouteTokenJIDKind :: "string \<Rightarrow> string" where
  [go_defs]: "RouteTokenJIDKind jid =
     (if has_prefix jid ''web:'' then RouteTokenJIDKindChat
      else if has_prefix jid ''hook:'' then RouteTokenJIDKindHook
      else [])"

definition takes_target :: "string \<Rightarrow> string \<Rightarrow> Item \<Rightarrow> bool" where
  [go_defs]: "takes_target jid target it =
     (let other = sent attrTokTargetFolder (i_attrs it)
      in sent attrTokJID (i_attrs it) = jid \<and> other \<noteq> [] \<and> other \<noteq> target)"

definition CheckRouteTokenTarget :: "'w token_env \<Rightarrow> 'w \<Rightarrow> string \<Rightarrow> string \<Rightarrow> (token_error + unit) \<times> 'w" where
  [go_defs]: "CheckRouteTokenTarget E w jid target =
     (case routeTokensOfKind E w RouteTokenKindRoute of
        (Inl e, w) \<Rightarrow> (Inl e, w)
      | (Inr its, w) \<Rightarrow> (if list_ex (takes_target jid target) its then Inl ErrRouteTokenTargetTaken else Inr (), w))"

definition RouteTokenTargetByJID :: "'w token_env \<Rightarrow> 'w \<Rightarrow> string \<Rightarrow> (token_error + string) \<times> 'w" where
  [go_defs]: "RouteTokenTargetByJID E w jid =
     (case routeTokensOfKind E w RouteTokenKindRoute of
        (Inl e, w) \<Rightarrow> (Inl e, w)
      | (Inr its, w) \<Rightarrow>
          (Inr (case find (\<lambda>it. sent attrTokJID (i_attrs it) = jid \<and> sent attrTokTargetFolder (i_attrs it) \<noteq> []) its of
             None \<Rightarrow> [] | Some it \<Rightarrow> sent attrTokTargetFolder (i_attrs it)), w))"

definition token_attrs :: "string \<Rightarrow> string \<Rightarrow> string \<Rightarrow> string \<Rightarrow> string \<Rightarrow> string \<Rightarrow> attr_list" where
  [go_defs]: "token_attrs jid created kind owner target ctx =
     (let attrs = [(attrTokJID, jid), (attrTokCreatedAt, created), (attrTokKind, kind)];
          attrs = setAttr attrs attrTokOwnerFolder owner;
          attrs = setAttr attrs attrTokTargetFolder target
      in setAttr attrs attrTokContext ctx)"

definition routeTokenPut :: "'w token_env \<Rightarrow> int \<Rightarrow> string \<Rightarrow> RouteToken \<Rightarrow> string \<Rightarrow> token_error + Write" where
  [go_defs]: "routeTokenPut E now rawToken t kind =
     and_then (routeTokenKey E rawToken) (\<lambda>key.
       let ts = (if tok_created t = year_one then now else tok_created t)
       in Inr ((write0 Put RouteTokens key)\<lparr>
            w_attrs := token_attrs (tok_jid t) (TS ts) kind (tok_owner t) (tok_target t) (tok_context t)\<rparr>))"

definition InsertRouteToken ::
  "'w token_env \<Rightarrow> 'w \<Rightarrow> string \<Rightarrow> RouteToken \<Rightarrow> Write \<Rightarrow> (token_error + unit) \<times> 'w" where
  [go_defs]: "InsertRouteToken E w rawToken t rec =
     (if rawToken = [] then (Inl No_Bearer, w)
      else if tok_jid t = [] \<or> tok_owner t = [] then (Inl Bad_Owner, w)
      else if RouteTokenJIDKind (tok_jid t) = [] then (Inl Bad_Jid, w)
      else case CheckRouteTokenTarget E w (tok_jid t) (tok_target t) of
          (Inl e, w) \<Rightarrow> (Inl e, w)
        | (Inr _, w) \<Rightarrow>
            (case routeTokenPut E (ke_now E w) rawToken t RouteTokenKindRoute of
               Inl e \<Rightarrow> (Inl e, w)
             | Inr x \<Rightarrow>
                 (case writeAudited (ke_store E) (ke_fresh E) w (Inr [x]) rec of
                    (Inl e, w) \<Rightarrow> (Inl (Tok_Unwritten e), w)
                  | (Inr _, w) \<Rightarrow> (Inr (), w))))"

definition routeTokenItem :: "'w token_env \<Rightarrow> 'w \<Rightarrow> string \<Rightarrow> string \<Rightarrow> (token_error + Item option) \<times> 'w" where
  [go_defs]: "routeTokenItem E w rawToken kind =
     (case routeTokenKey E rawToken of
        Inl e \<Rightarrow> (Inl e, w)
      | Inr key \<Rightarrow>
          (case point (ke_store E) w RouteTokens key [] of
             (Inl e, w) \<Rightarrow> (Inl (Tok_Unread e), w)
           | (Inr None, w) \<Rightarrow> (Inr None, w)
           | (Inr (Some it), w) \<Rightarrow> (Inr (if sent attrTokKind (i_attrs it) \<noteq> kind then None else Some it), w)))"

definition LookupRouteToken :: "'w token_env \<Rightarrow> 'w \<Rightarrow> string \<Rightarrow> RouteToken option \<times> 'w" where
  [go_defs]: "LookupRouteToken E w rawToken =
     (case routeTokenItem E w rawToken RouteTokenKindRoute of
        (Inr (Some it), w) \<Rightarrow> (Some (routeTokenFrom E it), w)
      | (_, w) \<Rightarrow> (None, w))"

text \<open>Newest first; tokens of one instant, whose order the sort leaves open, keep that of the read here.\<close>

definition ListRouteTokens :: "'w token_env \<Rightarrow> 'w \<Rightarrow> string \<Rightarrow> RouteToken list \<times> 'w" where
  [go_defs]: "ListRouteTokens E w ownerFolder =
     (case routeTokensOfKind E w RouteTokenKindRoute of
        (Inl _, w) \<Rightarrow> ([], w)
      | (Inr its, w) \<Rightarrow>
          (sort_key (\<lambda>t. - tok_created t)
             (map (routeTokenFrom E) (filter (\<lambda>it. sent attrTokOwnerFolder (i_attrs it) = ownerFolder) its)), w))"

definition RouteTokenOwner :: "'w token_env \<Rightarrow> 'w \<Rightarrow> string \<Rightarrow> string option \<times> 'w" where
  [go_defs]: "RouteTokenOwner E w jid =
     (case routeTokensOfKind E w RouteTokenKindRoute of
        (Inl _, w) \<Rightarrow> (None, w)
      | (Inr its, w) \<Rightarrow>
          (map_option (\<lambda>it. sent attrTokOwnerFolder (i_attrs it)) (find (\<lambda>it. sent attrTokJID (i_attrs it) = jid) its), w))"

text \<open>The deletions of every delivery token of a jid its owner holds.\<close>

definition revoke_writes :: "string \<Rightarrow> string \<Rightarrow> Item list \<Rightarrow> Write list" where
  [go_defs]: "revoke_writes jid ownerFolder its =
     map (\<lambda>it. write0 Delete RouteTokens (i_key it))
       (filter (\<lambda>it. \<not> (sent attrTokJID (i_attrs it) \<noteq> jid \<or> sent attrTokOwnerFolder (i_attrs it) \<noteq> ownerFolder)) its)"

text \<open>The answer is whether any went, and what failed.\<close>

definition RevokeRouteToken ::
  "'w token_env \<Rightarrow> 'w \<Rightarrow> string \<Rightarrow> string \<Rightarrow> Write \<Rightarrow> (bool \<times> token_error option) \<times> 'w" where
  [go_defs]: "RevokeRouteToken E w jid ownerFolder rec =
     (case routeTokensOfKind E w RouteTokenKindRoute of
        (Inl e, w) \<Rightarrow> ((False, Some e), w)
      | (Inr its, w) \<Rightarrow>
          let writes = revoke_writes jid ownerFolder its
          in if writes = [] then ((False, None), w)
             else case applyInChunks (ke_store E) (ke_fresh E) w writes of
                 ((_, Some e), w) \<Rightarrow> ((False, Some (Tok_Unwritten e)), w)
               | ((_, None), w) \<Rightarrow>
                   (case WriteEntities (ke_store E) (ke_fresh E) w [] [rec] of
                      (Inl e, w) \<Rightarrow> ((True, Some (Tok_Unwritten e)), w)
                    | (Inr _, w) \<Rightarrow> ((True, None), w)))"

definition RevokeRouteTokenInto ::
  "'w token_env \<Rightarrow> 'w \<Rightarrow> WriteSet \<Rightarrow> string \<Rightarrow> string \<Rightarrow> (token_error + bool \<times> WriteSet) \<times> 'w" where
  [go_defs]: "RevokeRouteTokenInto E w ws jid ownerFolder =
     (case routeTokensOfKind E w RouteTokenKindRoute of
        (Inl e, w) \<Rightarrow> (Inl e, w)
      | (Inr its, w) \<Rightarrow>
          let writes = revoke_writes jid ownerFolder its
          in (Inr (if writes = [] then (False, ws) else (True, Add ws writes)), w))"

definition MintRouteTokenInto ::
  "'w token_env \<Rightarrow> 'w \<Rightarrow> WriteSet \<Rightarrow> string \<Rightarrow> string \<Rightarrow> string \<Rightarrow> string \<Rightarrow> string
   \<Rightarrow> (token_error + string \<times> WriteSet) \<times> 'w" where
  [go_defs]: "MintRouteTokenInto E w ws raw jid ownerFolder targetFolder linkContext =
     (if jid = [] then (Inl No_Jid, w)
      else case CheckRouteTokenTarget E w jid targetFolder of
          (Inl e, w) \<Rightarrow> (Inl e, w)
        | (Inr _, w) \<Rightarrow>
            (and_then (routeTokenPut E (ke_now E w) raw
                \<lparr>tok_jid = jid, tok_owner = ownerFolder, tok_created = year_one, tok_context = linkContext, tok_target = targetFolder\<rparr>
                RouteTokenKindRoute) (\<lambda>x. Inr (raw, Add ws [x])), w))"

section \<open>The archive lane\<close>

record ArchiveRouteTokenRow =
  ar_hash :: string
  ar_jid :: string
  ar_owner :: string
  ar_target :: string
  ar_created :: string
  ar_context :: string

definition archive_row :: "'w token_env \<Rightarrow> Item \<Rightarrow> ArchiveRouteTokenRow" where
  [go_defs]: "archive_row E it =
     (let t = routeTokenFrom E it
      in \<lparr>ar_hash = Sort (i_key it), ar_jid = tok_jid t, ar_owner = tok_owner t, ar_target = tok_target t,
          ar_created = sent attrTokCreatedAt (i_attrs it), ar_context = tok_context t\<rparr>)"

definition ExportRouteTokens :: "'w token_env \<Rightarrow> 'w \<Rightarrow> (token_error + ArchiveRouteTokenRow list) \<times> 'w" where
  [go_defs]: "ExportRouteTokens E w =
     (case routeTokensOfKind E w RouteTokenKindRoute of
        (Inl e, w) \<Rightarrow> (Inl e, w)
      | (Inr its, w) \<Rightarrow> (Inr (sort_key ar_jid (map (archive_row E) its)), w))"

definition import_write :: "ArchiveRouteTokenRow \<Rightarrow> Write" where
  [go_defs]: "import_write r =
     (write0 Put RouteTokens \<lparr>Partition = OwnerRoutd, Sort = ar_hash r\<rparr>)\<lparr>
       w_attrs := token_attrs (ar_jid r) (ar_created r) RouteTokenKindRoute (ar_owner r) (ar_target r) (ar_context r),
       w_cond := \<lparr>cond_item = ItemAbsent, cond_where = []\<rparr>\<rparr>"

fun import_writes :: "ArchiveRouteTokenRow list \<Rightarrow> string list \<Rightarrow> token_error + Write list" where
  "import_writes [] seen = Inr []"
| "import_writes (r # rows) seen =
     (if ar_hash r = [] then Inl No_Hash
      else if ar_hash r \<in> set seen then import_writes rows seen
      else and_then (import_writes rows (ar_hash r # seen)) (\<lambda>xs. Inr (import_write r # xs)))"

definition ImportRouteTokens :: "'w token_env \<Rightarrow> 'w \<Rightarrow> ArchiveRouteTokenRow list \<Rightarrow> (token_error + int) \<times> 'w" where
  [go_defs]: "ImportRouteTokens E w rows =
     (if rows = [] then (Inr 0, w)
      else case st_query (ke_store E) w (query0 RouteTokens OwnerRoutd) of
          (Inl e, w) \<Rightarrow> (Inl (Tok_Unread e), w)
        | (Inr have_items, w) \<Rightarrow>
            (case import_writes rows (map (\<lambda>it. Sort (i_key it)) have_items) of
               Inl e \<Rightarrow> (Inl e, w)
             | Inr writes \<Rightarrow>
                 (case applyInChunks (ke_store E) (ke_fresh E) w writes of
                    ((_, Some e), w) \<Rightarrow> (Inl (Tok_Unwritten e), w)
                  | ((_, None), w) \<Rightarrow> (Inr (int (length rows)), w))))"

definition CountRouteTokens :: "'w token_env \<Rightarrow> 'w \<Rightarrow> (token_error + int) \<times> 'w" where
  [go_defs]: "CountRouteTokens E w =
     (case st_query (ke_store E) w (query0 RouteTokens OwnerRoutd) of
        (Inl e, w) \<Rightarrow> (Inl (Tok_Unread e), w)
      | (Inr its, w) \<Rightarrow> (Inr (int (length its)), w))"

section \<open>Pairing\<close>

definition PairingTTL :: int where [go_defs]: "PairingTTL = 600000000000"
definition PairingAddedBy :: string where [go_defs]: "PairingAddedBy = ''pairing''"

definition pairingMint :: "'w token_env \<Rightarrow> int \<Rightarrow> string \<Rightarrow> string \<Rightarrow> string \<Rightarrow> token_error + string \<times> Write" where
  [go_defs]: "pairingMint E now raw jid ownerFolder =
     (if jid = [] then Inl No_Jid
      else and_then (routeTokenPut E now raw
          \<lparr>tok_jid = jid, tok_owner = ownerFolder, tok_created = year_one, tok_context = [], tok_target = []\<rparr>
          RouteTokenKindPair) (\<lambda>x. Inr (raw, x)))"

definition IssuePairingLink :: "'w token_env \<Rightarrow> 'w \<Rightarrow> string \<Rightarrow> string \<Rightarrow> string \<Rightarrow> (token_error + string) \<times> 'w" where
  [go_defs]: "IssuePairingLink E w raw jid ownerFolder =
     (case pairingMint E (ke_now E w) raw jid ownerFolder of
        Inl e \<Rightarrow> (Inl e, w)
      | Inr (raw, x) \<Rightarrow>
          (case WriteEntities (ke_store E) (ke_fresh E) w [] [x] of
             (Inl e, w) \<Rightarrow> (Inl (Tok_Unwritten e), w)
           | (Inr _, w) \<Rightarrow> (Inr raw, w)))"

definition IssuePairingLinkInto ::
  "'w token_env \<Rightarrow> int \<Rightarrow> WriteSet \<Rightarrow> string \<Rightarrow> string \<Rightarrow> string \<Rightarrow> token_error + string \<times> WriteSet" where
  [go_defs]: "IssuePairingLinkInto E now ws raw jid ownerFolder =
     and_then (pairingMint E now raw jid ownerFolder) (\<lambda>(raw, x). Inr (raw, Add ws [x]))"

definition pairingItem :: "'w token_env \<Rightarrow> 'w \<Rightarrow> string \<Rightarrow> (token_error + Item \<times> string) \<times> 'w" where
  [go_defs]: "pairingItem E w rawToken =
     (if rawToken = [] then (Inl ErrPairingUnavailable, w)
      else case routeTokenItem E w rawToken RouteTokenKindPair of
          (Inl e, w) \<Rightarrow> (Inl e, w)
        | (Inr None, w) \<Rightarrow> (Inl ErrPairingUnavailable, w)
        | (Inr (Some it), w) \<Rightarrow>
            (case ke_parse E (sent attrTokCreatedAt (i_attrs it)) of
               None \<Rightarrow> (Inl Bad_Created, w)
             | Some ts \<Rightarrow>
                 if ke_now E w - ts > PairingTTL then (Inl ErrPairingUnavailable, w)
                 else (Inr (it, sent attrTokJID (i_attrs it)), w)))"

definition PeekPairing :: "'w token_env \<Rightarrow> 'w \<Rightarrow> string \<Rightarrow> (token_error + string) \<times> 'w" where
  [go_defs]: "PeekPairing E w rawToken =
     (case pairingItem E w rawToken of (Inl e, w) \<Rightarrow> (Inl e, w) | (Inr (_, jid), w) \<Rightarrow> (Inr jid, w))"

text \<open>The two halves of a redemption: what is read and decided, and the batch.\<close>

definition redeem_check :: "'w token_env \<Rightarrow> 'w \<Rightarrow> string \<Rightarrow> string \<Rightarrow> (token_error + Item \<times> string) \<times> 'w" where
  [go_defs]: "redeem_check E w rawToken parentSub =
     (if parentSub = [] then (Inl ErrPairingUnavailable, w)
      else case pairingItem E w rawToken of
          (Inl e, w) \<Rightarrow> (Inl e, w)
        | (Inr (it, jid), w) \<Rightarrow>
            (case ParentsAt (ke_store E) w jid of
               (Inl e, w) \<Rightarrow> (Inl (Tok_Unread e), w)
             | (Inr parents, w) \<Rightarrow>
                 if list_ex (\<lambda>p. \<not> has_prefix p ''role:'' \<and> p \<noteq> parentSub) parents then (Inl ErrPairingConflict, w)
                 else (Inr (it, jid), w)))"

definition spend_token :: "Item \<Rightarrow> Write" where
  [go_defs]: "spend_token it =
     (write0 Delete RouteTokens (i_key it))\<lparr>w_cond := \<lparr>cond_item = ItemPresent, cond_where = []\<rparr>\<rparr>"

definition redeem_write ::
  "'w token_env \<Rightarrow> string \<Rightarrow> 'w \<Rightarrow> Item \<Rightarrow> string \<Rightarrow> string \<Rightarrow> (token_error + string) \<times> 'w" where
  [go_defs]: "redeem_write E now w it jid parentSub =
     (case AddEdgeWith (ke_store E) (ke_fresh E) now w jid parentSub PairingAddedBy [spend_token it] of
        (Inl e, w) \<Rightarrow> (Inl (Tok_Edge e), w)
      | (Inr spent, w) \<Rightarrow> (if \<not> spent then Inl ErrPairingUnavailable else Inr jid, w))"

definition RedeemPairing :: "'w token_env \<Rightarrow> string \<Rightarrow> 'w \<Rightarrow> string \<Rightarrow> string \<Rightarrow> (token_error + string) \<times> 'w" where
  [go_defs]: "RedeemPairing E now w rawToken parentSub =
     (case redeem_check E w rawToken parentSub of
        (Inl e, w) \<Rightarrow> (Inl e, w)
      | (Inr (it, jid), w) \<Rightarrow> redeem_write E now w it jid parentSub)"

definition UnpairInto :: "WriteSet \<Rightarrow> string \<Rightarrow> string \<Rightarrow> write_error option \<Rightarrow> (store_error + write_error) + WriteSet" where
  [go_defs]: "UnpairInto ws child parent gone =
     (case membershipKey child parent of
        Inl e \<Rightarrow> Inl (Inl e)
      | Inr key \<Rightarrow>
          (case AddGuarded ws gone ((write0 Delete ACLMembership key)\<lparr>
                  w_cond := \<lparr>cond_item = ItemAny,
                            cond_where = [\<lparr>c_attr = attrMemAddedBy, c_op = Eq, c_value = PairingAddedBy\<rparr>]\<rparr>\<rparr>) of
             Inl e \<Rightarrow> Inl (Inr e)
           | Inr ws \<Rightarrow> Inr ws))"

end
