(* ===== verification/Token_Race.thy ===== *)
theory Token_Race
  imports Token_Store
begin

text \<open>
  What a pairing link promises: a redemption that succeeds spends the link and writes the edge in one batch, and however many
  redemptions run at the same time a link is redeemed at most once for each time it was minted. And two reads that are not part of
  the batch that rests on them: the parents of a redemption and the targets of a mint.
\<close>

section \<open>Names\<close>

abbreviation token_at :: "string \<Rightarrow> coord" where
  "token_at ref \<equiv> coord_of RouteTokens \<lparr>Partition = OwnerRoutd, Sort = ref\<rparr>"

lemma token_attrs_plain [simp]:
  "plain_attr attrTokJID" "plain_attr attrTokOwnerFolder" "plain_attr attrTokTargetFolder" "plain_attr attrTokCreatedAt"
  "plain_attr attrTokContext" "plain_attr attrTokKind"
  by (simp_all add: plain_attr_def partAttr_def sortAttr_def openAttr_def attrTokJID_def attrTokOwnerFolder_def
      attrTokTargetFolder_def attrTokCreatedAt_def attrTokContext_def attrTokKind_def)

lemma token_at_inj [simp]: "token_at a = token_at b \<longleftrightarrow> a = b"
  by (simp add: coord_of_def)

lemma token_apart [simp]:
  "token_at r \<noteq> marker_at" "marker_at \<noteq> token_at r" "token_at r \<noteq> edge_at c p" "edge_at c p \<noteq> token_at r"
  by (simp_all add: coord_of_def marker_at_def edge_at_def OwnerScope_def RouteTokens_def ScopeEntity_def ACLMembership_def)

lemma token_key: "routeTokenKey E raw = Inr key \<Longrightarrow> key = \<lparr>Partition = OwnerRoutd, Sort = ke_ref E raw\<rparr>"
  by (auto simp: routeTokenKey_def split: if_splits)

lemma spend_facts [simp]:
  "plain_write (spend_token it)" "w_entity (spend_token it) = RouteTokens" "w_key (spend_token it) = i_key it"
  "written (spend_token it) m = None"
  by (simp_all add: spend_token_def plain_write_def plain_cond_def write0_def written_def)

lemma spend_ok: "write_ok (spend_token it) m \<Longrightarrow> m \<noteq> None"
  by (auto simp: write_ok_def cond_ok_def spend_token_def write0_def)

lemma spend_place: "Partition (i_key it) = OwnerRoutd \<Longrightarrow> place_of (spend_token it) = token_at (Sort (i_key it))"
  by (simp add: place_of_def coord_of_def)

lemma put_token:
  assumes "routeTokenPut E now raw t kind = Inr x"
  shows "plain_write x \<and> place_of x = token_at (ke_ref E raw) \<and> w_entity x = RouteTokens"
proof -
  obtain key where k: "routeTokenKey E raw = Inr key" using assms by (auto simp: routeTokenPut_def and_then_def split: sum.splits)
  have ne: "attrTokJID \<noteq> attrTokCreatedAt" "attrTokJID \<noteq> attrTokKind" "attrTokCreatedAt \<noteq> attrTokKind"
    by (simp_all add: attrTokJID_def attrTokCreatedAt_def attrTokKind_def)
  have "distinct (map fst (token_attrs jid created kd ow tg cx))" for jid created kd ow tg cx
    using ne by (simp add: token_attrs_def setAttr_distinct)
  moreover have "list_all plain_attr (map fst (token_attrs jid created kd ow tg cx))" for jid created kd ow tg cx
    by (simp add: token_attrs_def setAttr_plain del: list.pred_map)
  ultimately show ?thesis
    using assms token_key [OF k] k
    by (auto simp: routeTokenPut_def and_then_def plain_write_def plain_cond_def no_cond_def write0_def place_of_def Let_def
        simp del: list.pred_map)
qed

section \<open>A redemption alone\<close>

context object_store
begin

lemma scope_read:
  assumes p: "plain_items (view w)" and r: "readMarker st w routd_scope = (x, w')"
  shows "view w' = view w"
proof -
  have sc: "scope_valid routd_scope"
    by (simp add: scope_valid_def OwnerScope_def ScopeEntity_def scopePartition_def OwnerRoutd_def)
  then obtain y where "point st w (sp_entity routd_scope) (sp_key routd_scope) [markerVersion, markerHolder, markerIntent, markerSince] = (y, w')"
    using r by (auto simp: readMarker_def split: prod.splits sum.splits option.splits)
  then show ?thesis by (rule point_looks)
qed

lemma walk_run_look: "walk_run (ParentsAt st) w to seen frontier = (x, w') \<Longrightarrow> view w' = view w"
proof (induction "ParentsAt st" w to seen frontier rule: walk_run.induct)
  case (1 w to seen frontier)
  show ?case
  proof (cases "length seen > maxWalkNodes")
    case True
    then show ?thesis using 1(2) by (simp add: walk_run.simps [of _ w])
  next
    case False
    obtain y u where y: "walk_at (ParentsAt st) w to seen frontier = (y, u)" by force
    have u: "view u = view w" by (rule walk_look [OF y])
    show ?thesis
    proof (cases y)
      case (Answer r)
      then show ?thesis using 1(2) y u False by (simp add: walk_run.simps [of _ w])
    next
      case (Walking s' f')
      then have "walk_run (ParentsAt st) u to s' f' = (x, w')" using 1(2) y False by (simp add: walk_run.simps [of _ w])
      from 1(1) [OF False y [symmetric] Walking this] show ?thesis using u by simp
    qed
  qed
qed

text \<open>Whatever the guarded edge answers: nothing was written, or the whole batch was, and that it was where it says so.\<close>

lemma edge_loop_effect:
  assumes p: "plain_items (view w)" and f: "keeps_view view fresh" and ws: "list_all plain_write writes"
    and r: "edge_loop left st fresh w routd_scope (ParentsAt st) child parent writes = (x, w')"
  shows "view w' = view w \<and> x \<noteq> Inr True \<or>
    (\<exists>was v. batch_ok (view w) [] (version_write routd_scope was v # writes) \<and>
       view w' = batch_effect (view w) (version_write routd_scope was v # writes))"
  using p r
proof (induction left arbitrary: w)
  case 0
  then show ?case by auto
next
  case (Suc left)
  obtain y u where m: "readMarker st w routd_scope = (y, u)" by force
  have u: "view u = view w" by (rule scope_read [OF Suc.prems(1) m])
  show ?case
  proof (cases "\<exists>was. y = Inr was \<and> mr_present was \<and> settled was")
    case False
    then have "w' = u \<and> x \<noteq> Inr True" using Suc.prems(2) m by (auto split: sum.splits if_splits)
    then show ?thesis using u by simp
  next
    case True
    then obtain was where was: "y = Inr was" "mr_present was" "settled was" by blast
    obtain q u2 where q: "ReachableFrom (ParentsAt st) u parent child = (q, u2)" by force
    have u2: "view u2 = view w" using walk_run_look [OF q [unfolded ReachableFrom_def]] u by simp
    show ?thesis
    proof (cases "q = Inr False")
      case False
      then have "w' = u2 \<and> x \<noteq> Inr True" using Suc.prems(2) m was q by (auto split: sum.splits bool.splits)
      then show ?thesis using u2 by simp
    next
      case True
      obtain v u3 where v: "fresh u2 = (v, u3)" by force
      have u3: "view u3 = view w" using f u2 v unfolding keeps_view_def by (metis snd_conv)
      let ?ws = "version_write routd_scope (mr_version was) v # writes"
      obtain b u4 where b: "st_batch st u3 [] ?ws = (b, u4)" by force
      have pb: "plain_batch [] ?ws" using ws by (simp add: plain_batch_def)
      have p3: "plain_items (view u3)" using Suc.prems(1) u3 by simp
      note o = batch_outcome [OF p3 pb b, unfolded u3]
      show ?thesis
      proof (cases "b = Inr False")
        case False
        then have "w' = u4 \<and> (x = Inr True \<longleftrightarrow> b = Inr True)" using Suc.prems(2) m was q True v b
          by (auto split: sum.splits bool.splits)
        then show ?thesis using o by blast
      next
        case lost: True
        have u4: "view u4 = view w" using refused [OF p3 pb, of u4] b lost u3 by simp
        obtain z u5 where z: "readMarker st u4 routd_scope = (z, u5)" by force
        have u5: "view u5 = view w" using scope_read [OF _ z] u4 Suc.prems(1) by simp
        have "w' = u5 \<and> x \<noteq> Inr True \<or>
            edge_loop left st fresh u5 routd_scope (ParentsAt st) child parent writes = (x, w')"
          using Suc.prems(2) m was q True v b lost z by (auto split: sum.splits if_splits)
        then show ?thesis using Suc.IH [of u5] u5 Suc.prems(1) by auto
      qed
    qed
  qed
qed

end

context object_store
begin

lemma pair_item_read:
  assumes p: "plain_items (view w)" and s: "ke_store E = st" and r: "pairingItem E w raw = (Inr (it, jid), w')"
  shows "view w' = view w \<and> i_key it = \<lparr>Partition = OwnerRoutd, Sort = ke_ref E raw\<rparr> \<and>
    view w (token_at (ke_ref E raw)) = Some (i_attrs it) \<and> sent attrTokKind (i_attrs it) = RouteTokenKindPair \<and>
    sent attrTokJID (i_attrs it) = jid \<and>
    (\<exists>ts. ke_parse E (sent attrTokCreatedAt (i_attrs it)) = Some ts \<and> ke_now E w' - ts \<le> PairingTTL)"
proof -
  obtain key x where k: "routeTokenKey E raw = Inr key" and q: "point st w RouteTokens key [] = (Inr (Some x), w')"
    and it: "it = x" "sent attrTokKind (i_attrs x) = RouteTokenKindPair" "sent attrTokJID (i_attrs x) = jid"
    and ts: "\<exists>ts. ke_parse E (sent attrTokCreatedAt (i_attrs x)) = Some ts \<and> \<not> ke_now E w' - ts > PairingTTL"
    using r s by (auto simp: pairingItem_def routeTokenItem_def split: if_splits sum.splits prod.splits option.splits)
  have "Some x = map_option (\<lambda>m. projected [] \<lparr>i_key = key, i_attrs = m\<rparr>) (view w (coord_of RouteTokens key))"
    by (rule point_reads [OF p _ _ q]) simp_all
  then have "i_key x = key" "view w (coord_of RouteTokens key) = Some (i_attrs x)"
    by (cases "view w (coord_of RouteTokens key)"; simp add: projected_def)+
  then show ?thesis using it ts point_looks [OF q] token_key [OF k] by auto
qed

lemma redeem_checked:
  assumes p: "plain_items (view w)" and s: "ke_store E = st" and r: "redeem_check E w raw sub = (Inr (it, jid), w')"
  shows "\<exists>u. pairingItem E w raw = (Inr (it, jid), u) \<and> view u = view w \<and> view w' = view w \<and>
    (KeySep \<notin> set jid \<longrightarrow> (\<forall>q. (jid, q) \<in> graph_of (view w) \<longrightarrow> has_prefix q ''role:'' \<or> q = sub))"
proof -
  obtain u ps where i: "pairingItem E w raw = (Inr (it, jid), u)" and a: "ParentsAt st u jid = (Inr ps, w')"
    and c: "\<not> list_ex (\<lambda>p. \<not> has_prefix p ''role:'' \<and> p \<noteq> sub) ps"
    using r s by (auto simp: redeem_check_def split: if_splits sum.splits prod.splits)
  have u: "view u = view w" using pair_item_read [OF p s i] by simp
  then have pu: "plain_items (view u)" using p by simp
  have "has_prefix q ''role:'' \<or> q = sub" if "KeySep \<notin> set jid" "(jid, q) \<in> graph_of (view w)" for q
    using parents_read [OF pu that(1) a] that(2) c by (auto simp: u list_ex_iff)
  then show ?thesis using i parents_looks [OF a] u by (intro exI [of _ u]) auto
qed

end

text \<open>
  C16. A redemption that succeeds, with nobody beside it, was given a live pairing link: one stored under the digest of
  the bearer, of the kind of pairing and not older than ten minutes. It names the link's identity, which had no
  parent but roles and the account; it leaves the link spent and the identity below the account.
\<close>

theorem redeem_pairing_exact:
  assumes "object_store (ke_store E) view" and "keeps_view view (ke_fresh E)" and "plain_items (view w)"
    and "RedeemPairing E now w raw sub = (Inr jid, w')"
  shows "\<exists>m ts u. view w (token_at (ke_ref E raw)) = Some m \<and> sent attrTokKind m = RouteTokenKindPair \<and> sent attrTokJID m = jid \<and>
      ke_parse E (sent attrTokCreatedAt m) = Some ts \<and> view u = view w \<and> ke_now E u - ts \<le> PairingTTL \<and>
      (\<forall>q. (jid, q) \<in> graph_of (view w) \<longrightarrow> has_prefix q ''role:'' \<or> q = sub) \<and>
      view w' (token_at (ke_ref E raw)) = None \<and> (jid, sub) \<in> graph_of (view w') \<and> jid \<noteq> sub"
proof -
  obtain it j u where c: "redeem_check E w raw sub = (Inr (it, j), u)" and d: "redeem_write E now u it j sub = (Inr jid, w')"
    using assms(4) by (auto simp: RedeemPairing_def split: sum.splits prod.splits)
  have j: "j = jid" using d by (auto simp: redeem_write_def split: sum.splits prod.splits if_splits)
  obtain v where i: "pairingItem E w raw = (Inr (it, jid), v)" and vv: "view v = view w" and uv: "view u = view w"
    and q: "\<And>q. KeySep \<notin> set jid \<Longrightarrow> (jid, q) \<in> graph_of (view w) \<Longrightarrow> has_prefix q ''role:'' \<or> q = sub"
    using object_store.redeem_checked [OF assms(1,3) refl c [unfolded j]] by blast
  note r = object_store.pair_item_read [OF assms(1,3) refl i]
  obtain edge b where ne: "jid \<noteq> sub" and e: "membershipPut now jid sub PairingAddedBy = Inr edge"
    and a: "AddEdge (ke_store E) (ke_fresh E) u routd_scope (ParentsAt (ke_store E)) jid sub [edge, spend_token it] = (Inr True, w')"
    using d j by (auto simp: redeem_write_def AddEdgeWith_def edge_result_def PairingAddedBy_def
        split: sum.splits prod.splits if_splits)
  have l: "edge_loop maxCASAttempts (ke_store E) (ke_fresh E) u routd_scope (ParentsAt (ke_store E)) jid sub [edge, spend_token it]
      = (Inr True, w')" using a by (simp add: AddEdge_def)
  have pu: "plain_items (view u)" using assms(3) uv by simp
  note ep = edge_put [OF e]
  obtain was n where o: "batch_ok (view w) [] (version_write routd_scope was n # [edge, spend_token it])"
    and w': "view w' = batch_effect (view w) (version_write routd_scope was n # [edge, spend_token it])"
    using object_store.edge_loop_effect [OF assms(1) pu assms(2) _ l] ep uv by auto
  have at: "place_of (spend_token it) = token_at (ke_ref E raw)" using spend_place [of it] r by simp
  have "view w' (token_at (ke_ref E raw)) = None" using ep at by (simp add: w')
  moreover have "view w' (edge_at jid sub) \<noteq> None"
    using ep at by (auto simp: w' written_def split: option.splits)
  then have "(jid, sub) \<in> graph_of (view w')" using ep by (simp add: graph_of_def)
  moreover have "\<forall>q. (jid, q) \<in> graph_of (view w) \<longrightarrow> has_prefix q ''role:'' \<or> q = sub" using q ep by blast
  ultimately show ?thesis using r vv ne
    by (intro exI [of _ "i_attrs it"] exI [of _ v]) (auto intro!: exI [of _ v])
qed

section \<open>Many redemptions at once\<close>

text \<open>Where a redemption is: it has read the link and found no conflict, and is to write.\<close>

datatype redeemer = Idle | Holding Item string string

record 'w redeeming =
  rd_world :: 'w
  rd_phase :: "nat \<Rightarrow> redeemer"
  rd_wins :: "string list"
  rd_mints :: "string list"

definition mints :: "Write list \<Rightarrow> string list" where
  "mints wrs = map (\<lambda>x. Sort (w_key x)) (filter (\<lambda>x. w_entity x = RouteTokens \<and> w_op x \<noteq> Delete) wrs)"

text \<open>
  A redemption reads and decides, walks under the marker any number of times, and sends its batch under whatever version it
  read; it is over when the batch commits, or it gives up. Others send batches of their own, and what they may mint is counted.
\<close>

inductive redeem_step :: "'w token_env \<Rightarrow> 'w redeeming \<Rightarrow> 'w redeeming \<Rightarrow> bool" for E where
  check: "redeem_check E (rd_world R) raw sub = (Inr (it, jid), w) \<Longrightarrow>
    redeem_step E R (R\<lparr>rd_world := w, rd_phase := (rd_phase R)(i := Holding it jid sub)\<rparr>)"
| marker: "readMarker (ke_store E) (rd_world R) routd_scope = (r, w) \<Longrightarrow> redeem_step E R (R\<lparr>rd_world := w\<rparr>)"
| walk: "walk_run (ParentsAt (ke_store E)) (rd_world R) to seen frontier = (r, w) \<Longrightarrow> redeem_step E R (R\<lparr>rd_world := w\<rparr>)"
| draw: "ke_fresh E (rd_world R) = (v, w) \<Longrightarrow> redeem_step E R (R\<lparr>rd_world := w\<rparr>)"
| commit: "rd_phase R i = Holding it jid sub \<Longrightarrow> membershipPut now jid sub PairingAddedBy = Inr edge \<Longrightarrow>
    st_batch (ke_store E) (rd_world R) [] [version_write routd_scope was v, edge, spend_token it] = (r, w) \<Longrightarrow>
    redeem_step E R (R\<lparr>rd_world := w, rd_phase := (if r = Inr True then (rd_phase R)(i := Idle) else rd_phase R),
      rd_wins := (if r = Inr True then Sort (i_key it) # rd_wins R else rd_wins R)\<rparr>)"
| others: "list_all plain_write wrs \<Longrightarrow> st_batch (ke_store E) (rd_world R) [] wrs = (r, w) \<Longrightarrow>
    redeem_step E R (R\<lparr>rd_world := w, rd_mints := mints wrs @ rd_mints R\<rparr>)"
| leave: "redeem_step E R (R\<lparr>rd_phase := (rd_phase R)(i := Idle)\<rparr>)"

definition held_here :: "redeemer \<Rightarrow> bool" where
  "held_here x \<longleftrightarrow> (case x of Idle \<Rightarrow> True | Holding it _ _ \<Rightarrow> Partition (i_key it) = OwnerRoutd)"

definition live :: "item_map \<Rightarrow> string \<Rightarrow> nat" where
  "live db ref = (if db (token_at ref) = None then 0 else 1)"

definition redeem_inv :: "('w \<Rightarrow> item_map) \<Rightarrow> (string \<Rightarrow> nat) \<Rightarrow> 'w redeeming \<Rightarrow> bool" where
  "redeem_inv view first R \<longleftrightarrow> plain_items (view (rd_world R)) \<and> (\<forall>i. held_here (rd_phase R i)) \<and>
     (\<forall>n. count_list (rd_wins R) n + live (view (rd_world R)) n \<le> count_list (rd_mints R) n + first n)"

lemma effect_live: "live (batch_effect db wrs) n \<le> count_list (mints wrs) n + live db n"
proof (induction wrs arbitrary: db)
  case Nil
  then show ?case by (simp add: mints_def)
next
  case (Cons x wrs)
  let ?db = "db(place_of x := written x (db (place_of x)))"
  have "live ?db n \<le> count_list (mints [x]) n + live db n"
  proof (cases "place_of x = token_at n \<and> w_op x \<noteq> Delete")
    case True
    then have "count_list (mints [x]) n = 1" by (simp add: mints_def place_of_def coord_of_def)
    then show ?thesis by (simp add: live_def)
  next
    case False
    then have "?db (token_at n) = None" if "db (token_at n) = None" using that by (auto simp: written_def)
    then show ?thesis by (auto simp: live_def)
  qed
  moreover have "count_list (mints (x # wrs)) n = count_list (mints [x]) n + count_list (mints wrs) n" by (simp add: mints_def)
  ultimately show ?case unfolding batch_effect.simps using Cons.IH [of ?db] by linarith
qed

text \<open>A redemption of the code is such steps: its check, and the rounds of its guarded edge.\<close>

lemma rounds_are_steps:
  assumes "membershipPut now jid sub PairingAddedBy = Inr edge"
    and "edge_loop left (ke_store E) (ke_fresh E) (rd_world R) routd_scope (ParentsAt (ke_store E)) jid sub [edge, spend_token it] = (x, w')"
    and "rd_phase R i = Holding it jid sub"
  shows "\<exists>T. (redeem_step E)\<^sup>*\<^sup>* R T \<and> rd_world T = w' \<and> rd_mints T = rd_mints R \<and>
    rd_wins T = (if x = Inr True then Sort (i_key it) # rd_wins R else rd_wins R)"
  using assms(2,3)
proof (induction left arbitrary: R)
  case 0
  then show ?case by auto
next
  case (Suc left)
  obtain y u where m: "readMarker (ke_store E) (rd_world R) routd_scope = (y, u)" by force
  let ?R1 = "R\<lparr>rd_world := u\<rparr>"
  have s1: "(redeem_step E)\<^sup>*\<^sup>* R ?R1" using redeem_step.marker [OF m] by blast
  show ?case
  proof (cases "\<exists>was. y = Inr was \<and> mr_present was \<and> settled was")
    case False
    then have "w' = u \<and> x \<noteq> Inr True" using Suc.prems(1) m by (auto split: sum.splits if_splits)
    then show ?thesis using s1 by (intro exI [of _ ?R1]) simp
  next
    case True
    then obtain was where was: "y = Inr was" "mr_present was" "settled was" by blast
    obtain q u2 where q: "ReachableFrom (ParentsAt (ke_store E)) u sub jid = (q, u2)" by force
    let ?R2 = "R\<lparr>rd_world := u2\<rparr>"
    have "redeem_step E ?R1 ?R2" using redeem_step.walk [of E ?R1] q by (fastforce simp: ReachableFrom_def)
    with s1 have s2: "(redeem_step E)\<^sup>*\<^sup>* R ?R2" by (rule rtranclp.rtrancl_into_rtrancl)
    show ?thesis
    proof (cases "q = Inr False")
      case False
      then have "w' = u2 \<and> x \<noteq> Inr True" using Suc.prems(1) m was q by (auto split: sum.splits bool.splits)
      then show ?thesis using s2 by (intro exI [of _ ?R2]) simp
    next
      case True
      obtain v u3 where v: "ke_fresh E u2 = (v, u3)" by force
      let ?R3 = "R\<lparr>rd_world := u3\<rparr>" and ?ws = "[version_write routd_scope (mr_version was) v, edge, spend_token it]"
      have "redeem_step E ?R2 ?R3" using redeem_step.draw [of E ?R2] v by fastforce
      with s2 have s3: "(redeem_step E)\<^sup>*\<^sup>* R ?R3" by (rule rtranclp.rtrancl_into_rtrancl)
      obtain b u4 where b: "st_batch (ke_store E) u3 [] ?ws = (b, u4)" by force
      let ?R4 = "R\<lparr>rd_world := u4, rd_phase := (if b = Inr True then (rd_phase R)(i := Idle) else rd_phase R),
        rd_wins := (if b = Inr True then Sort (i_key it) # rd_wins R else rd_wins R)\<rparr>"
      have "redeem_step E ?R3 ?R4" using redeem_step.commit [of ?R3 i it jid sub now edge E] Suc.prems(2) assms(1) b by fastforce
      with s3 have s4: "(redeem_step E)\<^sup>*\<^sup>* R ?R4" by (rule rtranclp.rtrancl_into_rtrancl)
      show ?thesis
      proof (cases "b = Inr False")
        case False
        then have "w' = u4 \<and> (x = Inr True \<longleftrightarrow> b = Inr True)" using Suc.prems(1) m was q True v b
          by (auto split: sum.splits bool.splits)
        then show ?thesis using s4 by (intro exI [of _ ?R4]) simp
      next
        case lost: True
        obtain z u5 where z: "readMarker (ke_store E) u4 routd_scope = (z, u5)" by force
        let ?R5 = "R\<lparr>rd_world := u5\<rparr>"
        have "redeem_step E ?R4 ?R5" using redeem_step.marker [of E ?R4] z lost by fastforce
        with s4 have s5: "(redeem_step E)\<^sup>*\<^sup>* R ?R5" by (rule rtranclp.rtrancl_into_rtrancl)
        have "w' = u5 \<and> x \<noteq> Inr True \<or>
            edge_loop left (ke_store E) (ke_fresh E) u5 routd_scope (ParentsAt (ke_store E)) jid sub [edge, spend_token it] = (x, w')"
          using Suc.prems(1) m was q True v b lost z by (auto split: sum.splits if_splits)
        then show ?thesis
        proof
          assume "w' = u5 \<and> x \<noteq> Inr True"
          then show ?thesis using s5 by (intro exI [of _ ?R5]) simp
        next
          assume l: "edge_loop left (ke_store E) (ke_fresh E) u5 routd_scope (ParentsAt (ke_store E)) jid sub [edge, spend_token it] = (x, w')"
          then show ?thesis using Suc.IH [of ?R5] Suc.prems(2) s5 by (auto intro: rtranclp_trans)
        qed
      qed
    qed
  qed
qed

context object_store
begin

lemma redeem_keeps:
  assumes s: "ke_store E = st" and f: "keeps_view view (ke_fresh E)" and v: "redeem_inv view first R" and t: "redeem_step E R R'"
  shows "redeem_inv view first R'"
proof -
  have p: "plain_items (view (rd_world R))" and h: "\<And>i. held_here (rd_phase R i)"
    and c: "\<And>n. count_list (rd_wins R) n + live (view (rd_world R)) n \<le> count_list (rd_mints R) n + first n"
    using v by (auto simp: redeem_inv_def)
  have still: "redeem_inv view first (R\<lparr>rd_world := w\<rparr>)" if "view w = view (rd_world R)" for w
    using that p h c by (simp add: redeem_inv_def)
  from t show ?thesis
  proof cases
    case (check raw sub it jid w i)
    obtain u where u: "pairingItem E (rd_world R) raw = (Inr (it, jid), u)" and w: "view w = view (rd_world R)"
      using redeem_checked [OF p s check(2)] by blast
    have "held_here (Holding it jid sub)" using pair_item_read [OF p s u] by (simp add: held_here_def)
    then show ?thesis using check(1) w p h c by (simp add: redeem_inv_def)
  next
    case (marker r w)
    show ?thesis unfolding marker(1) by (rule still) (rule scope_read [OF p marker(2) [unfolded s]])
  next
    case (walk to seen frontier r w)
    show ?thesis unfolding walk(1) by (rule still) (rule walk_run_look [OF walk(2) [unfolded s]])
  next
    case (draw v w)
    show ?thesis unfolding draw(1) by (rule still) (use f draw(2) in \<open>metis keeps_view_def snd_conv\<close>)
  next
    case (commit i it jid sub now edge was v r w)
    let ?ws = "[version_write routd_scope was v, edge, spend_token it]"
    note e = edge_put [OF commit(3)]
    have at: "place_of (spend_token it) = token_at (Sort (i_key it))"
      using h [of i] commit(2) by (intro spend_place) (simp add: held_here_def)
    have b: "plain_batch [] ?ws" using e by (simp add: plain_batch_def)
    note o = batch_outcome [OF p b commit(4) [unfolded s]]
    have gone: "live (batch_effect (view (rd_world R)) ?ws) n =
        (if n = Sort (i_key it) then 0 else live (view (rd_world R)) n)" for n
      using e by (simp add: live_def at)
    have was: "live (view (rd_world R)) (Sort (i_key it)) = 1" if "batch_ok (view (rd_world R)) [] ?ws"
      using that spend_ok [of it] by (auto simp: batch_ok_def at live_def)
    have "count_list (if r = Inr True then Sort (i_key it) # rd_wins R else rd_wins R) n + live (view w) n
        \<le> count_list (rd_mints R) n + first n" for n
      using o c [of n] gone [of n] was by (auto split: if_splits)
    then show ?thesis unfolding commit(1) using o h by (simp add: redeem_inv_def held_here_def)
  next
    case (others wrs r w)
    have b: "plain_batch [] wrs" using others(2) by (simp add: plain_batch_def)
    note o = batch_outcome [OF p b others(3) [unfolded s]]
    have "count_list (rd_wins R) n + live (view w) n \<le> count_list (mints wrs @ rd_mints R) n + first n" for n
      using o c [of n] effect_live [of "view (rd_world R)" wrs n] by auto
    then show ?thesis unfolding others(1) using o h by (auto simp: redeem_inv_def)
  next
    case (leave i)
    show ?thesis unfolding leave using v by (simp add: redeem_inv_def held_here_def)
  qed
qed

end

text \<open>
  C15. Any number of redemptions that overlap, at every interleaving of their reads and batches with the batches of others, and
  requests and answers that may be lost: a link is redeemed, or still live, at most once for the time it was there at first
  and for each write sent since that may mint it.
\<close>

theorem pairing_spent_once:
  assumes "object_store (ke_store E) view" and "keeps_view view (ke_fresh E)" and "plain_items (view (rd_world R))"
    and "rd_phase R = (\<lambda>_. Idle)" "rd_wins R = []" "rd_mints R = []"
    and run: "(redeem_step E)\<^sup>*\<^sup>* R T"
  shows "count_list (rd_wins T) ref + live (view (rd_world T)) ref \<le> count_list (rd_mints T) ref + live (view (rd_world R)) ref"
proof -
  have "redeem_inv view (live (view (rd_world R))) R" using assms(3-6) by (simp add: redeem_inv_def held_here_def)
  with run have "redeem_inv view (live (view (rd_world R))) T"
    by (induction rule: rtranclp_induct) (use object_store.redeem_keeps [OF assms(1) refl assms(2)] in blast)+
  then show ?thesis by (simp add: redeem_inv_def)
qed

text \<open>So a redemption that answers the identity is a path of steps with one win.\<close>

lemma redemption_is_steps:
  assumes "object_store (ke_store E) view" and "plain_items (view (rd_world R))"
    and "RedeemPairing E now (rd_world R) raw sub = (Inr jid, w')"
  shows "\<exists>T. (redeem_step E)\<^sup>*\<^sup>* R T \<and> rd_world T = w' \<and> rd_mints T = rd_mints R \<and> rd_wins T = ke_ref E raw # rd_wins R"
proof -
  obtain it j u where c: "redeem_check E (rd_world R) raw sub = (Inr (it, j), u)" and d: "redeem_write E now u it j sub = (Inr jid, w')"
    using assms(3) by (auto simp: RedeemPairing_def split: sum.splits prod.splits)
  obtain v where i: "pairingItem E (rd_world R) raw = (Inr (it, j), v)"
    using object_store.redeem_checked [OF assms(1,2) refl c] by blast
  have k: "Sort (i_key it) = ke_ref E raw" using object_store.pair_item_read [OF assms(1,2) refl i] by simp
  obtain edge where e: "membershipPut now j sub PairingAddedBy = Inr edge"
    and a: "AddEdge (ke_store E) (ke_fresh E) u routd_scope (ParentsAt (ke_store E)) j sub [edge, spend_token it] = (Inr True, w')"
    using d by (auto simp: redeem_write_def AddEdgeWith_def edge_result_def PairingAddedBy_def
        split: sum.splits prod.splits if_splits)
  let ?R = "R\<lparr>rd_world := u, rd_phase := (rd_phase R)(0 := Holding it j sub)\<rparr>"
  have s: "redeem_step E R ?R" by (rule redeem_step.check [OF c])
  obtain T where "(redeem_step E)\<^sup>*\<^sup>* ?R T" "rd_world T = w'" "rd_mints T = rd_mints R" "rd_wins T = Sort (i_key it) # rd_wins R"
    using rounds_are_steps [OF e, of maxCASAttempts E ?R it "Inr True" w' 0] a by (auto simp: AddEdge_def)
  then show ?thesis using converse_rtranclp_into_rtranclp [of "redeem_step E", OF s] k by auto
qed

section \<open>Two links and two targets\<close>

text \<open>A store with a marker, some tokens and some edges; the digest is the bearer, and every token was minted a moment ago.\<close>

definition bearers :: "world token_env" where
  "bearers = \<lparr>ke_store = plain_driver, ke_fresh = fixed_version, ke_ref = (\<lambda>raw. raw), ke_now = (\<lambda>_. 0), ke_parse = (\<lambda>_. Some 0)\<rparr>"

definition pair_row :: "string \<Rightarrow> string \<Rightarrow> coord \<times> attr_list" where
  "pair_row ref jid = (token_at ref, [(attrTokJID, jid), (attrTokCreatedAt, ''t''), (attrTokKind, RouteTokenKindPair)])"

definition linked :: "string \<Rightarrow> string list \<Rightarrow> (string \<times> string) list \<Rightarrow> world" where
  "linked v refs es = \<lparr>shelf = map (\<lambda>r. pair_row r ''j'') refs @ [(marker_at, [(markerVersion, v)])] @
     map (\<lambda>(c, p). (edge_at c p, [(attrMemAddedBy, PairingAddedBy), (attrMemAddedAt, ''t0'')])) es, mishaps = []\<rparr>"

definition checked :: "string \<Rightarrow> string \<Rightarrow> Item" where
  "checked raw sub = fst (projr (fst (redeem_check bearers (linked ''v0'' [''a'', ''b''] []) raw sub)))"

lemma inr_pair: "\<not> isl (fst x) \<Longrightarrow> snd (projr (fst x)) = j \<Longrightarrow> snd x = w \<Longrightarrow> x = (Inr (fst (projr (fst x)), j), w)"
  by (cases x; cases "fst x") auto

lemma checks:
  "redeem_check bearers (linked ''v0'' [''a'', ''b''] []) ''a'' ''u'' = (Inr (checked ''a'' ''u'', ''j''), linked ''v0'' [''a'', ''b''] [])"
  "redeem_check bearers (linked ''v0'' [''a'', ''b''] []) ''b'' ''v'' = (Inr (checked ''b'' ''v'', ''j''), linked ''v0'' [''a'', ''b''] [])"
  unfolding checked_def by (rule inr_pair; code_simp)+

lemma linked_env: "object_store (ke_store bearers) items" "keeps_view items (ke_fresh bearers)"
  by (simp_all add: bearers_def plain_driver_store keeps_view_def fixed_version_def)

lemma linked_plain: "plain_items (items (linked ''v0'' [''a'', ''b''] []))"
  by (auto simp: plain_items_def items_def linked_def pair_row_def markerVersion_def partAttr_def sortAttr_def openAttr_def
      attrTokJID_def attrTokCreatedAt_def attrTokKind_def split: if_splits)

lemma redeem_pairing_exact_witness:
  "RedeemPairing bearers ''t0'' (linked ''v0'' [''a'', ''b''] []) ''a'' ''u'' = (Inr ''j'', linked ''v1'' [''b''] [(''j'', ''u'')]) \<and>
   (''j'', ''u'') \<in> graph_of (items (linked ''v1'' [''b''] [(''j'', ''u'')])) \<and>
   items (linked ''v1'' [''b''] [(''j'', ''u'')]) (token_at ''a'') = None"
proof -
  have r: "RedeemPairing bearers ''t0'' (linked ''v0'' [''a'', ''b''] []) ''a'' ''u'' = (Inr ''j'', linked ''v1'' [''b''] [(''j'', ''u'')])"
    by code_simp
  from redeem_pairing_exact [OF linked_env linked_plain r] show ?thesis using r by (auto simp: bearers_def)
qed

definition linked_races :: "world redeeming" where
  "linked_races = \<lparr>rd_world = linked ''v0'' [''a'', ''b''] [], rd_phase = (\<lambda>_. Idle), rd_wins = [], rd_mints = []\<rparr>"

lemma pairing_spent_once_witness:
  "\<exists>T. (redeem_step bearers)\<^sup>*\<^sup>* linked_races T \<and> rd_wins T = [''a''] \<and>
    count_list (rd_wins T) ''a'' + live (items (rd_world T)) ''a'' \<le> count_list (rd_mints T) ''a'' + live (items (rd_world linked_races)) ''a''"
proof -
  have w: "rd_world linked_races = linked ''v0'' [''a'', ''b''] []" by (simp add: linked_races_def)
  have "RedeemPairing bearers ''t0'' (rd_world linked_races) ''a'' ''u'' = (Inr ''j'', linked ''v1'' [''b''] [(''j'', ''u'')])"
    unfolding w by code_simp
  from redemption_is_steps [OF linked_env(1) linked_plain [folded w] this]
  obtain T where T: "(redeem_step bearers)\<^sup>*\<^sup>* linked_races T" "rd_wins T = [''a'']"
    by (auto simp: linked_races_def bearers_def)
  show ?thesis using pairing_spent_once [OF linked_env linked_plain [folded w] _ _ _ T(1), of "''a''"] T
    by (intro exI [of _ T]) (simp add: linked_races_def)
qed

text \<open>
  C23. Two links of one identity, each redeemed by an account of its own, both read before either writes: neither sees a parent, and
  the guarded edge compares nothing the other wrote, for it reads the marker after the check. Both answer the identity, which
  is left with two accounts above it.
\<close>

theorem pairing_two_parents:
  "\<exists>ia ib w. redeem_check bearers (linked ''v0'' [''a'', ''b''] []) ''a'' ''u'' = (Inr (ia, ''j''), linked ''v0'' [''a'', ''b''] []) \<and>
     redeem_check bearers (linked ''v0'' [''a'', ''b''] []) ''b'' ''v'' = (Inr (ib, ''j''), linked ''v0'' [''a'', ''b''] []) \<and>
     redeem_write bearers ''t0'' (linked ''v0'' [''a'', ''b''] []) ia ''j'' ''u'' = (Inr ''j'', linked ''v1'' [''b''] [(''j'', ''u'')]) \<and>
     redeem_write bearers ''t0'' (linked ''v1'' [''b''] [(''j'', ''u'')]) ib ''j'' ''v'' = (Inr ''j'', w) \<and>
     {(''j'', ''u''), (''j'', ''v'')} \<subseteq> graph_of (items w)"
proof -
  let ?w = "redeem_write bearers ''t0'' (linked ''v1'' [''b''] [(''j'', ''u'')]) (checked ''b'' ''v'') ''j'' ''v''"
  have 1: "redeem_write bearers ''t0'' (linked ''v0'' [''a'', ''b''] []) (checked ''a'' ''u'') ''j'' ''u'' =
      (Inr ''j'', linked ''v1'' [''b''] [(''j'', ''u'')])" by code_simp
  have 2: "fst ?w = Inr ''j''" "edge_at ''j'' ''u'' \<in> fst ` set (shelf (snd ?w))" "edge_at ''j'' ''v'' \<in> fst ` set (shelf (snd ?w))"
    by code_simp+
  have "{(''j'', ''u''), (''j'', ''v'')} \<subseteq> graph_of (items (snd ?w))"
    using 2(2,3) by (auto simp: graph_of_def items_def map_of_eq_None_iff)
  then show ?thesis using checks 1 2(1)
    by (intro exI [of _ "checked ''a'' ''u''"] exI [of _ "checked ''b'' ''v''"] exI [of _ "snd ?w"]) (simp add: prod_eq_iff)
qed

definition minted :: "string \<Rightarrow> string \<Rightarrow> WriteSet" where
  "minted ref target = snd (projr (fst (MintRouteTokenInto bearers (linked ''v0'' [] []) empty_set ref ''hook:x'' ''f'' target [])))"

text \<open>
  Two mints of one delivery address for two folders, both checked before either commits: both batches commit, nothing in
  them rests on the check, and the address delivers to the folder of whichever token is read first.
\<close>

theorem jid_two_targets:
  "\<exists>w. MintRouteTokenInto bearers (linked ''v0'' [] []) empty_set ''a'' ''hook:x'' ''f'' ''f'' [] = (Inr (''a'', minted ''a'' ''f''), linked ''v0'' [] []) \<and>
     MintRouteTokenInto bearers (linked ''v0'' [] []) empty_set ''b'' ''hook:x'' ''f'' ''g'' [] = (Inr (''b'', minted ''b'' ''g''), linked ''v0'' [] []) \<and>
     fst (Apply plain_driver fixed_version (linked ''v0'' [] []) (minted ''b'' ''g'') []) = Inr () \<and>
     Apply plain_driver fixed_version (snd (Apply plain_driver fixed_version (linked ''v0'' [] []) (minted ''b'' ''g'') [])) (minted ''a'' ''f'') [] =
       (Inr (), w) \<and>
     map_option (sent attrTokTargetFolder) (items w (token_at ''a'')) = Some ''f'' \<and>
     map_option (sent attrTokTargetFolder) (items w (token_at ''b'')) = Some ''g'' \<and>
     fst (RouteTokenTargetByJID bearers (snd (Apply plain_driver fixed_version (linked ''v0'' [] []) (minted ''b'' ''g'') [])) ''hook:x'') = Inr ''g'' \<and>
     fst (RouteTokenTargetByJID bearers w ''hook:x'') = Inr ''f''"
proof -
  let ?w1 = "snd (Apply plain_driver fixed_version (linked ''v0'' [] []) (minted ''b'' ''g'') [])"
  let ?w2 = "snd (Apply plain_driver fixed_version ?w1 (minted ''a'' ''f'') [])"
  have m: "MintRouteTokenInto bearers (linked ''v0'' [] []) empty_set ''a'' ''hook:x'' ''f'' ''f'' [] = (Inr (''a'', minted ''a'' ''f''), linked ''v0'' [] [])"
    "MintRouteTokenInto bearers (linked ''v0'' [] []) empty_set ''b'' ''hook:x'' ''f'' ''g'' [] = (Inr (''b'', minted ''b'' ''g''), linked ''v0'' [] [])"
    by code_simp+
  have a: "fst (Apply plain_driver fixed_version (linked ''v0'' [] []) (minted ''b'' ''g'') []) = Inr ()"
    "fst (Apply plain_driver fixed_version ?w1 (minted ''a'' ''f'') []) = Inr ()" by code_simp+
  have i: "map_option (sent attrTokTargetFolder) (items ?w2 (token_at ''a'')) = Some ''f''"
    "map_option (sent attrTokTargetFolder) (items ?w2 (token_at ''b'')) = Some ''g''" by code_simp+
  have t: "fst (RouteTokenTargetByJID bearers ?w1 ''hook:x'') = Inr ''g''"
    "fst (RouteTokenTargetByJID bearers ?w2 ''hook:x'') = Inr ''f''" by code_simp+
  show ?thesis using m a i t by (intro exI [of _ ?w2]) (simp add: prod_eq_iff)
qed

end
