(* ===== verification/Run_Store.thy ===== *)
theory Run_Store
  imports Store_Doors Adapter_Store Groupfolder
begin

text \<open>
  runed/runstore: the spawns, one item a run; the failure streaks, one item a folder; and the session log, one item a
  session. Its batches go to the store with no marker beside them. The clock and the random identifiers are arguments.
\<close>

section \<open>Entities\<close>

definition Spawns :: string where [go_defs]: "Spawns = ''spawns''"
definition SessionLog :: string where [go_defs]: "SessionLog = ''session_log''"
definition CircuitBreaker :: string where [go_defs]: "CircuitBreaker = ''circuit_breaker''"

record 'w run_env =
  re_store :: "'w Store"
  re_widths :: widths
  re_now :: "'w \<Rightarrow> int"

datatype run_error =
    Run_Unread store_error
  | Run_Unwritten store_error
  | Slot_Refused
  | ErrNotFound
  | Sweep_Refused
  | Bad_Streak
  | Streak_Failed protocol_error
  | Streak_Refused
  | Session_Recorded
  | No_Such_Session
  | Unknown_Kind

text \<open>Each chunk of a sweep commits on its own; how many writes landed, and what stopped it.\<close>

function run_chunks :: "'w Store \<Rightarrow> 'w \<Rightarrow> Write list \<Rightarrow> nat \<Rightarrow> (nat \<times> run_error option) \<times> 'w" where
  "run_chunks st w writes sofar =
     (if writes = [] then ((sofar, None), w)
      else
        let n = min (length writes) MaxBatchActions
        in (case st_batch st w [] (take n writes) of
              (Inl e, w) \<Rightarrow> ((sofar, Some (Run_Unwritten e)), w)
            | (Inr False, w) \<Rightarrow> ((sofar, Some Sweep_Refused), w)
            | (Inr True, w) \<Rightarrow> run_chunks st w (drop n writes) (sofar + n)))"
  by pat_completeness auto
termination
  by (relation "measure (\<lambda>(_, _, writes, _). length writes)") (auto simp: MaxBatchActions_def)

declare run_chunks.simps [simp del]

section \<open>Spawns\<close>

definition spawnPartition :: string where [go_defs]: "spawnPartition = ''spawn''"

definition attrFolder :: string where [go_defs]: "attrFolder = ''folder''"
definition attrTopic :: string where [go_defs]: "attrTopic = ''topic''"
definition attrContainer :: string where [go_defs]: "attrContainer = ''container_name''"
definition attrSessionLogID :: string where [go_defs]: "attrSessionLogID = ''session_log_id''"
definition attrSessionID :: string where [go_defs]: "attrSessionID = ''session_id''"
definition attrKind :: string where [go_defs]: "attrKind = ''kind''"
definition attrState :: string where [go_defs]: "attrState = ''state''"
definition attrOutcome :: string where [go_defs]: "attrOutcome = ''outcome''"
definition attrExitCode :: string where [go_defs]: "attrExitCode = ''exit_code''"
definition attrCreatedAt :: string where [go_defs]: "attrCreatedAt = ''created_at''"
definition attrStartedAt :: string where [go_defs]: "attrStartedAt = ''started_at''"
definition attrEndedAt :: string where [go_defs]: "attrEndedAt = ''ended_at''"

definition KindAgent :: string where [go_defs]: "KindAgent = ''agent''"

record Spawn =
  rn_id :: string
  rn_folder :: string
  rn_topic :: string
  rn_container :: string
  rn_log :: string
  rn_session :: string
  rn_kind :: string
  rn_state :: string
  rn_outcome :: string
  rn_exit :: int
  rn_created :: string
  rn_started :: string
  rn_ended :: string

definition spawnKey :: "string \<Rightarrow> Key" where
  [go_defs]: "spawnKey runID = \<lparr>Partition = spawnPartition, Sort = runID\<rparr>"

definition terminalStates :: "string list" where [go_defs]: "terminalStates = [''exited'', ''error'', ''killed'']"

definition live_cmps :: "Cmp list" where
  [go_defs]: "live_cmps = map (\<lambda>s. \<lparr>c_attr = attrState, c_op = Ne, c_value = s\<rparr>) terminalStates"

definition create_write :: "int \<Rightarrow> Spawn \<Rightarrow> Write" where
  [go_defs]: "create_write now sp =
     (let kind = (if rn_kind sp = [] then KindAgent else rn_kind sp);
          attrs = [(attrFolder, rn_folder sp), (attrContainer, rn_container sp), (attrKind, kind),
                   (attrState, rn_state sp), (attrCreatedAt, TS now)];
          attrs = setAttr attrs attrTopic (rn_topic sp);
          attrs = setAttr attrs attrSessionLogID (rn_log sp);
          attrs = setAttr attrs attrSessionID (rn_session sp)
      in (write0 Put Spawns (spawnKey (rn_id sp)))\<lparr>w_attrs := attrs, w_cond := \<lparr>cond_item = ItemAbsent, cond_where = []\<rparr>\<rparr>)"

definition CreateSpawn :: "'w run_env \<Rightarrow> 'w \<Rightarrow> Spawn \<Rightarrow> (run_error + unit) \<times> 'w" where
  [go_defs]: "CreateSpawn E w sp =
     (case st_batch (re_store E) w [] [create_write (re_now E w) sp] of
        (Inl e, w) \<Rightarrow> (Inl (Run_Unwritten e), w)
      | (Inr landed, w) \<Rightarrow> (if landed then Inr () else Inl Slot_Refused, w))"

definition spawnFrom :: "Item \<Rightarrow> Spawn" where
  [go_defs]: "spawnFrom it =
     (let at = (\<lambda>a. sent a (i_attrs it))
      in \<lparr>rn_id = Sort (i_key it), rn_folder = at attrFolder, rn_topic = at attrTopic, rn_container = at attrContainer,
          rn_log = at attrSessionLogID, rn_session = at attrSessionID, rn_kind = at attrKind, rn_state = at attrState,
          rn_outcome = at attrOutcome, rn_exit = (case Atoi (at attrExitCode) of None \<Rightarrow> 0 | Some n \<Rightarrow> n),
          rn_created = at attrCreatedAt, rn_started = at attrStartedAt, rn_ended = at attrEndedAt\<rparr>)"

definition SpawnByRunID :: "'w run_env \<Rightarrow> 'w \<Rightarrow> string \<Rightarrow> (run_error + Spawn) \<times> 'w" where
  [go_defs]: "SpawnByRunID E w runID =
     (case point (re_store E) w Spawns (spawnKey runID) [] of
        (Inl e, w) \<Rightarrow> (Inl (Run_Unread e), w)
      | (Inr None, w) \<Rightarrow> (Inl ErrNotFound, w)
      | (Inr (Some it), w) \<Rightarrow> (Inr (spawnFrom it), w))"

definition while_queued :: Cond where
  [go_defs]: "while_queued = \<lparr>cond_item = ItemAny, cond_where = [\<lparr>c_attr = attrState, c_op = Eq, c_value = ''queued''\<rparr>]\<rparr>"

definition start_write :: "int \<Rightarrow> string \<Rightarrow> string \<Rightarrow> Write" where
  [go_defs]: "start_write now runID sessionID =
     (write0 Update Spawns (spawnKey runID))\<lparr>
       w_attrs := setAttr [(attrState, ''running''), (attrStartedAt, TS now)] attrSessionID sessionID,
       w_cond := while_queued\<rparr>"

definition StartSpawn :: "'w run_env \<Rightarrow> 'w \<Rightarrow> string \<Rightarrow> string \<Rightarrow> (run_error + bool) \<times> 'w" where
  [go_defs]: "StartSpawn E w runID sessionID =
     (case st_batch (re_store E) w [] [start_write (re_now E w) runID sessionID] of
        (Inl e, w) \<Rightarrow> (Inl (Run_Unwritten e), w)
      | (Inr started, w) \<Rightarrow> (Inr started, w))"

definition end_write :: "int \<Rightarrow> string \<Rightarrow> string \<Rightarrow> string \<Rightarrow> int \<Rightarrow> Write" where
  [go_defs]: "end_write now runID state outcome exitCode =
     (write0 Update Spawns (spawnKey runID))\<lparr>
       w_attrs := setAttr [(attrState, state), (attrExitCode, itoa exitCode), (attrEndedAt, TS now)] attrOutcome outcome,
       w_remove := (if outcome = [] then [attrOutcome] else []),
       w_cond := \<lparr>cond_item = ItemAny, cond_where = [\<lparr>c_attr = attrState, c_op = Ne, c_value = ''killed''\<rparr>]\<rparr>\<rparr>"

definition EndSpawn :: "'w run_env \<Rightarrow> 'w \<Rightarrow> string \<Rightarrow> string \<Rightarrow> string \<Rightarrow> int \<Rightarrow> (run_error + unit) \<times> 'w" where
  [go_defs]: "EndSpawn E w runID state outcome exitCode =
     (case st_batch (re_store E) w [] [end_write (re_now E w) runID state outcome exitCode] of
        (Inl e, w) \<Rightarrow> (Inl (Run_Unwritten e), w)
      | (Inr _, w) \<Rightarrow> (Inr (), w))"

definition kill_write :: "int \<Rightarrow> string \<Rightarrow> Write" where
  [go_defs]: "kill_write now runID =
     (write0 Update Spawns (spawnKey runID))\<lparr>
       w_attrs := [(attrState, ''killed''), (attrExitCode, ''-1''), (attrEndedAt, TS now)],
       w_remove := [attrOutcome],
       w_cond := \<lparr>cond_item = ItemAny, cond_where = live_cmps\<rparr>\<rparr>"

definition KillSpawn :: "'w run_env \<Rightarrow> 'w \<Rightarrow> string \<Rightarrow> (run_error + unit) \<times> 'w" where
  [go_defs]: "KillSpawn E w runID =
     (case st_batch (re_store E) w [] [kill_write (re_now E w) runID] of
        (Inl e, w) \<Rightarrow> (Inl (Run_Unwritten e), w)
      | (Inr _, w) \<Rightarrow> (Inr (), w))"

definition link_write :: "string \<Rightarrow> string \<Rightarrow> Write" where
  [go_defs]: "link_write runID logID = (write0 Update Spawns (spawnKey runID))\<lparr>w_attrs := [(attrSessionLogID, logID)]\<rparr>"

definition LinkSessionLog :: "'w run_env \<Rightarrow> 'w \<Rightarrow> string \<Rightarrow> string \<Rightarrow> (run_error + unit) \<times> 'w" where
  [go_defs]: "LinkSessionLog E w runID logID =
     (case st_batch (re_store E) w [] [link_write runID logID] of
        (Inl e, w) \<Rightarrow> (Inl (Run_Unwritten e), w)
      | (Inr _, w) \<Rightarrow> (Inr (), w))"

definition spawns_query :: "Cmp list \<Rightarrow> string list \<Rightarrow> Query" where
  [go_defs]: "spawns_query conds project = (query0 Spawns spawnPartition)\<lparr>q_where := conds, q_project := project\<rparr>"

text \<open>Newest first, the greater identifier first among those of one instant.\<close>

definition RecentSpawns :: "'w run_env \<Rightarrow> 'w \<Rightarrow> string \<Rightarrow> string \<Rightarrow> int \<Rightarrow> (run_error + Spawn list) \<times> 'w" where
  [go_defs]: "RecentSpawns E w state folder limit =
     (let limit = (if limit \<le> 0 \<or> limit > 500 then 50 else limit);
          conds = (if state \<noteq> [] then [\<lparr>c_attr = attrState, c_op = Eq, c_value = state\<rparr>] else [])
      in case st_query (re_store E) w (spawns_query conds []) of
           (Inl e, w) \<Rightarrow> (Inl (Run_Unread e), w)
         | (Inr its, w) \<Rightarrow>
             (Inr (take (nat limit) (rev (sort_key rn_created (sort_key rn_id
                (filter (\<lambda>sp. \<not> (folder \<noteq> [] \<and> \<not> Contains folder (rn_folder sp))) (map spawnFrom its)))))), w))"

definition newer :: "Item \<Rightarrow> Item option \<Rightarrow> Item option" where
  [go_defs]: "newer it best =
     (case best of
        None \<Rightarrow> Some it
      | Some b \<Rightarrow> if sent attrCreatedAt (i_attrs b) < sent attrCreatedAt (i_attrs it) then Some it else best)"

definition in_folder :: "string \<Rightarrow> Cmp" where
  [go_defs]: "in_folder folder = \<lparr>c_attr = attrFolder, c_op = Eq, c_value = folder\<rparr>"

definition LiveSpawnInFolder :: "'w run_env \<Rightarrow> 'w \<Rightarrow> string \<Rightarrow> (run_error + string option) \<times> 'w" where
  [go_defs]: "LiveSpawnInFolder E w folder =
     (case st_query (re_store E) w (spawns_query (in_folder folder # live_cmps) [attrCreatedAt]) of
        (Inl e, w) \<Rightarrow> (Inl (Run_Unread e), w)
      | (Inr its, w) \<Rightarrow> (Inr (map_option (\<lambda>it. Sort (i_key it)) (fold newer its None)), w))"

definition countLive :: "'w run_env \<Rightarrow> 'w \<Rightarrow> Cmp list \<Rightarrow> (run_error + int) \<times> 'w" where
  [go_defs]: "countLive E w extra =
     (case st_query (re_store E) w (spawns_query (live_cmps @ extra) [attrKind]) of
        (Inl e, w) \<Rightarrow> (Inl (Run_Unread e), w)
      | (Inr its, w) \<Rightarrow> (Inr (int (length its)), w))"

definition LiveSpawnCount :: "'w run_env \<Rightarrow> 'w \<Rightarrow> (run_error + int) \<times> 'w" where
  [go_defs]: "LiveSpawnCount E w = countLive E w []"

definition agent_cmp :: Cmp where [go_defs]: "agent_cmp = \<lparr>c_attr = attrKind, c_op = Eq, c_value = KindAgent\<rparr>"

definition LiveAgentSpawnCount :: "'w run_env \<Rightarrow> 'w \<Rightarrow> (run_error + int) \<times> 'w" where
  [go_defs]: "LiveAgentSpawnCount E w = countLive E w [agent_cmp]"

definition orphan_write :: "int \<Rightarrow> Item \<Rightarrow> Write" where
  [go_defs]: "orphan_write now it =
     (write0 Update Spawns (i_key it))\<lparr>
       w_attrs := [(attrState, ''exited''), (attrOutcome, ''error''), (attrExitCode, ''-1''), (attrEndedAt, TS now)],
       w_cond := \<lparr>cond_item = ItemAny, cond_where = live_cmps\<rparr>\<rparr>"

definition ExpireOrphans :: "'w run_env \<Rightarrow> 'w \<Rightarrow> (nat \<times> run_error option) \<times> 'w" where
  [go_defs]: "ExpireOrphans E w =
     (case st_query (re_store E) w (spawns_query live_cmps [attrState]) of
        (Inl e, w) \<Rightarrow> ((0, Some (Run_Unread e)), w)
      | (Inr its, w) \<Rightarrow> run_chunks (re_store E) w (map (orphan_write (re_now E w)) its) 0)"

definition DropSpawnsBefore :: "'w run_env \<Rightarrow> 'w \<Rightarrow> int \<Rightarrow> (nat \<times> run_error option) \<times> 'w" where
  [go_defs]: "DropSpawnsBefore E w cutoff =
     (case st_query (re_store E) w (spawns_query [\<lparr>c_attr = attrCreatedAt, c_op = Lt, c_value = TS cutoff\<rparr>] [attrCreatedAt]) of
        (Inl e, w) \<Rightarrow> ((0, Some (Run_Unread e)), w)
      | (Inr its, w) \<Rightarrow> run_chunks (re_store E) w (map (\<lambda>it. write0 Delete Spawns (i_key it)) its) 0)"

section \<open>Failure streaks\<close>

definition attrFailures :: string where [go_defs]: "attrFailures = ''failures''"

definition breakerKey :: "string \<Rightarrow> Key" where
  [go_defs]: "breakerKey folder = \<lparr>Partition = folder, Sort = folder\<rparr>"

definition FailureStreak :: "'w run_env \<Rightarrow> 'w \<Rightarrow> string \<Rightarrow> (run_error + int) \<times> 'w" where
  [go_defs]: "FailureStreak E w folder =
     (case point (re_store E) w CircuitBreaker (breakerKey folder) [attrFailures] of
        (Inl e, w) \<Rightarrow> (Inl (Run_Unread e), w)
      | (Inr None, w) \<Rightarrow> (Inr 0, w)
      | (Inr (Some it), w) \<Rightarrow>
          ((case Atoi (sent attrFailures (i_attrs it)) of None \<Rightarrow> Inl Bad_Streak | Some n \<Rightarrow> Inr n), w))"

definition streak_write :: "string \<Rightarrow> string \<Rightarrow> Write" where
  [go_defs]: "streak_write folder n = (write0 Put CircuitBreaker (breakerKey folder))\<lparr>w_attrs := [(attrFailures, n)]\<rparr>"

definition RecordFailure :: "'w run_env \<Rightarrow> 'w \<Rightarrow> string \<Rightarrow> (run_error + int) \<times> 'w" where
  [go_defs]: "RecordFailure E w folder =
     (case st_batch (re_store E) w []
             [(streak_write folder ''1'')\<lparr>w_cond := \<lparr>cond_item = ItemAbsent, cond_where = []\<rparr>\<rparr>] of
        (Inl e, w) \<Rightarrow> (Inl (Run_Unwritten e), w)
      | (Inr True, w) \<Rightarrow> (Inr 1, w)
      | (Inr False, w) \<Rightarrow>
          (case Increment (re_store E) (re_widths E) w CircuitBreaker (breakerKey folder) attrFailures 1 [] [] of
             (Inl e, w) \<Rightarrow> (Inl (Streak_Failed e), w)
           | (Inr (n, ok), w) \<Rightarrow> (if ok then Inr n else Inl Streak_Refused, w)))"

definition ClearFailures :: "'w run_env \<Rightarrow> 'w \<Rightarrow> string \<Rightarrow> (run_error + unit) \<times> 'w" where
  [go_defs]: "ClearFailures E w folder =
     (case st_batch (re_store E) w [] [streak_write folder ''0''] of
        (Inl e, w) \<Rightarrow> (Inl (Run_Unwritten e), w)
      | (Inr _, w) \<Rightarrow> (Inr (), w))"

section \<open>The session log\<close>

definition tsWidth :: nat where [go_defs]: "tsWidth = 30"

definition attrSessSessionID :: string where [go_defs]: "attrSessSessionID = ''session_id''"
definition attrSessEndedAt :: string where [go_defs]: "attrSessEndedAt = ''ended_at''"
definition attrSessResult :: string where [go_defs]: "attrSessResult = ''result''"
definition attrSessError :: string where [go_defs]: "attrSessError = ''error''"
definition attrSessMsgCount :: string where [go_defs]: "attrSessMsgCount = ''message_count''"

definition defaultSessionPage :: int where [go_defs]: "defaultSessionPage = 20"

record Session =
  ss_id :: string
  ss_folder :: string
  ss_session :: string
  ss_started :: string
  ss_ended :: string
  ss_result :: string
  ss_error :: string
  ss_messages :: int

definition sessionKey :: "string \<Rightarrow> string \<Rightarrow> Key" where
  [go_defs]: "sessionKey folder i = \<lparr>Partition = folder, Sort = i\<rparr>"

definition sessionIDAt :: "string \<Rightarrow> string \<Rightarrow> string" where
  [go_defs]: "sessionIDAt ts sfx = ts @ ''-'' @ sfx"

definition startedAtOf :: "string \<Rightarrow> string" where
  [go_defs]: "startedAtOf i = (if length i < tsWidth then [] else take tsWidth i)"

definition OpenSession :: "'w run_env \<Rightarrow> 'w \<Rightarrow> string \<Rightarrow> string \<Rightarrow> string \<Rightarrow> (run_error + string) \<times> 'w" where
  [go_defs]: "OpenSession E w sfx folder sessionID =
     (let i = sessionIDAt (TS (re_now E w)) sfx
      in case st_batch (re_store E) w []
                [(write0 Put SessionLog (sessionKey folder i))\<lparr>
                   w_attrs := setAttr [] attrSessSessionID sessionID,
                   w_cond := \<lparr>cond_item = ItemAbsent, cond_where = []\<rparr>\<rparr>] of
           (Inl e, w) \<Rightarrow> (Inl (Run_Unwritten e), w)
         | (Inr landed, w) \<Rightarrow> (if landed then Inr i else Inl Session_Recorded, w))"

definition CloseSession ::
  "'w run_env \<Rightarrow> 'w \<Rightarrow> string \<Rightarrow> string \<Rightarrow> string \<Rightarrow> string \<Rightarrow> int \<Rightarrow> (run_error + unit) \<times> 'w" where
  [go_defs]: "CloseSession E w folder i result errMsg msgs =
     (let attrs = setAttr [(attrSessEndedAt, TS (re_now E w)), (attrSessMsgCount, itoa msgs)] attrSessResult result
      in case st_batch (re_store E) w []
                [(write0 Update SessionLog (sessionKey folder i))\<lparr>w_attrs := setAttr attrs attrSessError errMsg\<rparr>] of
           (Inl e, w) \<Rightarrow> (Inl (Run_Unwritten e), w)
         | (Inr landed, w) \<Rightarrow> (if landed then Inr () else Inl No_Such_Session, w))"

definition sessionFrom :: "string \<Rightarrow> Item \<Rightarrow> Session" where
  [go_defs]: "sessionFrom folder it =
     (let at = (\<lambda>a. sent a (i_attrs it))
      in \<lparr>ss_id = Sort (i_key it), ss_folder = folder, ss_session = at attrSessSessionID,
          ss_started = startedAtOf (Sort (i_key it)), ss_ended = at attrSessEndedAt, ss_result = at attrSessResult,
          ss_error = at attrSessError,
          ss_messages = (case Atoi (at attrSessMsgCount) of None \<Rightarrow> 0 | Some n \<Rightarrow> n)\<rparr>)"

definition RecentSessions :: "'w run_env \<Rightarrow> 'w \<Rightarrow> string \<Rightarrow> int \<Rightarrow> (run_error + Session list) \<times> 'w" where
  [go_defs]: "RecentSessions E w folder limit =
     (case st_query (re_store E) w ((query0 SessionLog folder)\<lparr>
             q_descending := True, q_limit := (if limit \<le> 0 then defaultSessionPage else limit)\<rparr>) of
        (Inl e, w) \<Rightarrow> (Inl (Run_Unread e), w)
      | (Inr its, w) \<Rightarrow> (Inr (map (sessionFrom folder) its), w))"

end
