(* ===== verification/Run_Manager.thy ===== *)
theory Run_Manager
  imports Run_Store
begin

text \<open>
  runed/manager.go: who may run in a folder, and what one run does from its claim to its end. A substrate, the renderer of a turn
  and the random identifiers are arguments; what happens beside a run happens inside the call of its substrate, or is a step of
  the relation in Run_Race.
\<close>

section \<open>Requests and answers\<close>

definition KindHold :: string where [go_defs]: "KindHold = ''hold''"

definition OutcomeOK :: string where [go_defs]: "OutcomeOK = ''ok''"
definition OutcomeError :: string where [go_defs]: "OutcomeError = ''error''"

definition circuitBreakerThreshold :: int where [go_defs]: "circuitBreakerThreshold = 3"
definition defaultMaxConcurrent :: int where [go_defs]: "defaultMaxConcurrent = 5"

text \<open>The fields of a request the manager reads.\<close>

record RunRequest =
  rr_folder :: string
  rr_topic :: string
  rr_session :: string
  rr_kind :: string
  rr_isolated :: bool
  rr_key :: string

record RunOutcome =
  ro_run :: string
  ro_outcome :: string
  ro_error :: string
  ro_busy :: bool
  ro_open :: bool
  ro_terminal :: bool

definition no_outcome :: RunOutcome where
  [go_defs]: "no_outcome = \<lparr>ro_run = [], ro_outcome = [], ro_error = [], ro_busy = False, ro_open = False, ro_terminal = False\<rparr>"

record RunResult =
  rs_outcome :: string
  rs_error :: string
  rs_exit :: int
  rs_messages :: int
  rs_terminal :: bool

record run_claim =
  cl_run :: string
  cl_session :: string
  cl_container :: string

text \<open>
  The manager's own state is the set of runs with a steer callback; the world holds the rest. \<open>ex_run\<close> is an executor: the kind, the
  request, the handle and the run it may arm a callback for. \<open>mc_render\<close> is the renderer, an error text when it fails.
\<close>

record 'w manager =
  mg_world :: 'w
  mg_steers :: "string set"

record 'w manager_env =
  mc_db :: "'w run_env"
  mc_kinds :: "string list"
  mc_max :: int
  mc_wired :: bool
  mc_gateway :: string
  mc_render :: "'w \<Rightarrow> RunRequest \<Rightarrow> string \<Rightarrow> string option"
  mc_handle :: "string \<Rightarrow> 'w \<Rightarrow> string"
  mc_id :: "'w \<Rightarrow> string \<times> 'w"
  mc_run :: "string \<Rightarrow> RunRequest \<Rightarrow> string \<Rightarrow> string \<Rightarrow> 'w manager \<Rightarrow> RunResult \<times> 'w manager"
  mc_kill :: "string \<Rightarrow> string \<Rightarrow> 'w manager \<Rightarrow> 'w manager"

definition NewManager :: "'w manager_env \<Rightarrow> 'w manager_env" where
  [go_defs]: "NewManager M =
     M\<lparr>mc_max := (if mc_max M \<le> 0 then defaultMaxConcurrent else mc_max M), mc_kinds := [KindAgent]\<rparr>"

definition RegisterExecutor :: "'w manager_env \<Rightarrow> string \<Rightarrow> 'w manager_env" where
  [go_defs]: "RegisterExecutor M kind =
     (if kind = [] \<or> kind = KindAgent then M else M\<lparr>mc_kinds := kind # mc_kinds M\<rparr>)"

definition kindOf :: "string \<Rightarrow> string" where
  [go_defs]: "kindOf kind = (if kind = [] then KindAgent else kind)"

text \<open>The kind whose executor serves.\<close>

definition executor :: "'w manager_env \<Rightarrow> string \<Rightarrow> string" where
  [go_defs]: "executor M kind = (if kindOf kind \<in> set (mc_kinds M) then kindOf kind else KindAgent)"

definition requireExecutor :: "'w manager_env \<Rightarrow> string \<Rightarrow> run_error + unit" where
  [go_defs]: "requireExecutor M kind = (if kind \<in> set (mc_kinds M) then Inr () else Inl Unknown_Kind)"

section \<open>Admission\<close>

text \<open>The claim of an idle folder under the cap; the identifiers are drawn in the code's order.\<close>

definition claim_slot :: "'w manager_env \<Rightarrow> 'w \<Rightarrow> RunRequest \<Rightarrow> string \<Rightarrow> (run_error + run_claim) \<times> 'w" where
  [go_defs]: "claim_slot M w req kind =
     (case mc_id M w of
        (r, w) \<Rightarrow>
          (case (if rr_session req = [] then mc_id M w else (rr_session req, w)) of
             (s, w) \<Rightarrow>
               let c = \<lparr>cl_run = ''run_'' @ r, cl_session = s, cl_container = mc_handle M (rr_folder req) w\<rparr>
               in (case CreateSpawn (mc_db M) w
                      \<lparr>rn_id = cl_run c, rn_folder = rr_folder req, rn_topic = rr_topic req, rn_container = cl_container c,
                       rn_log = [], rn_session = cl_session c, rn_kind = kind, rn_state = ''queued'', rn_outcome = [],
                       rn_exit = 0, rn_created = [], rn_started = [], rn_ended = []\<rparr> of
                     (Inl e, w) \<Rightarrow> (Inl e, w)
                   | (Inr _, w) \<Rightarrow> (Inr c, w))))"

text \<open>The cap, which bounds agents alone.\<close>

definition full_house :: "'w manager_env \<Rightarrow> 'w \<Rightarrow> string \<Rightarrow> (run_error + bool) \<times> 'w" where
  [go_defs]: "full_house M w kind =
     (if kind = KindAgent
      then (case LiveAgentSpawnCount (mc_db M) w of (Inl e, w) \<Rightarrow> (Inl e, w) | (Inr n, w) \<Rightarrow> (Inr (n \<ge> mc_max M), w))
      else (Inr False, w))"

text \<open>A claim, or None for a busy folder or a full house.\<close>

definition admit :: "'w manager_env \<Rightarrow> 'w \<Rightarrow> RunRequest \<Rightarrow> string \<Rightarrow> (run_error + run_claim option) \<times> 'w" where
  [go_defs]: "admit M w req kind =
     (case LiveSpawnInFolder (mc_db M) w (rr_folder req) of
        (Inl e, w) \<Rightarrow> (Inl e, w)
      | (Inr (Some _), w) \<Rightarrow> (Inr None, w)
      | (Inr None, w) \<Rightarrow>
          (case full_house M w kind of
             (Inl e, w) \<Rightarrow> (Inl e, w)
           | (Inr True, w) \<Rightarrow> (Inr None, w)
           | (Inr False, w) \<Rightarrow>
               (case claim_slot M w req kind of
                  (Inl e, w) \<Rightarrow> (Inl e, w)
                | (Inr c, w) \<Rightarrow> (Inr (Some c), w))))"

section \<open>One run\<close>

definition refusal :: "string \<Rightarrow> RunResult" where
  [go_defs]: "refusal e = \<lparr>rs_outcome = OutcomeError, rs_error = e, rs_exit = 0, rs_messages = 0, rs_terminal = True\<rparr>"

definition SetSteer :: "'w manager \<Rightarrow> string \<Rightarrow> 'w manager" where
  [go_defs]: "SetSteer s runID = s\<lparr>mg_steers := insert runID (mg_steers s)\<rparr>"

definition execute :: "'w manager_env \<Rightarrow> 'w manager \<Rightarrow> RunRequest \<Rightarrow> string \<Rightarrow> string \<Rightarrow> string \<Rightarrow> RunResult \<times> 'w manager" where
  [go_defs]: "execute M s req kind runID handle =
     (if kind = KindAgent \<and> \<not> mc_wired M then (refusal ''no turn renderer configured'', s)
      else if kind = KindAgent \<and> mc_gateway M \<noteq> [] \<and> rr_key req = [] then (refusal ''no virtual key'', s)
      else case (if kind = KindAgent then mc_render M (mg_world s) req handle else None) of
          Some e \<Rightarrow> (refusal (''render turn: '' @ e), s)
        | None \<Rightarrow> mc_run M (executor M kind) req handle runID s)"

definition endRun :: "'w manager_env \<Rightarrow> 'w manager \<Rightarrow> string \<Rightarrow> string \<Rightarrow> bool \<Rightarrow> string \<Rightarrow> bool \<times> 'w manager" where
  [go_defs]: "endRun M s folder runID failed kind =
     (case (if kind = KindAgent
            then if failed
                 then (case RecordFailure (mc_db M) (mg_world s) folder of
                         (Inl _, w) \<Rightarrow> (False, w)
                       | (Inr n, w) \<Rightarrow> (n = circuitBreakerThreshold, w))
                 else (case ClearFailures (mc_db M) (mg_world s) folder of (_, w) \<Rightarrow> (False, w))
            else (False, mg_world s)) of
        (tripped, w) \<Rightarrow> (tripped, \<lparr>mg_world = w, mg_steers = mg_steers s - {runID}\<rparr>))"

text \<open>The log row of a run, where it has one: its identifier, or none.\<close>

definition open_log :: "'w manager_env \<Rightarrow> 'w manager \<Rightarrow> RunRequest \<Rightarrow> string \<Rightarrow> string \<Rightarrow> string \<Rightarrow> string \<times> 'w manager" where
  [go_defs]: "open_log M s req kind runID sessionID =
     (if \<not> rr_isolated req \<and> kind = KindAgent
      then (case mc_id M (mg_world s) of
              (sfx, w) \<Rightarrow>
                (case OpenSession (mc_db M) w sfx (rr_folder req) sessionID of
                   (Inl _, w) \<Rightarrow> ([], s\<lparr>mg_world := w\<rparr>)
                 | (Inr i, w) \<Rightarrow>
                     (case LinkSessionLog (mc_db M) w runID i of (_, w) \<Rightarrow> (i, s\<lparr>mg_world := w\<rparr>))))
      else ([], s))"

text \<open>What follows the executor: the end of the row, of the log, and of the run.\<close>

definition finish :: "'w manager_env \<Rightarrow> 'w manager \<Rightarrow> string \<Rightarrow> string \<Rightarrow> string \<Rightarrow> string \<Rightarrow> RunResult \<Rightarrow> RunOutcome \<times> 'w manager" where
  [go_defs]: "finish M s folder kind runID logID res =
     (let failed = (rs_outcome res = OutcomeError);
          state = (if failed then ''error'' else ''exited'')
      in case EndSpawn (mc_db M) (mg_world s) runID state (rs_outcome res) (rs_exit res) of
           (_, w) \<Rightarrow>
             (case (if logID \<noteq> []
                    then CloseSession (mc_db M) w folder logID (rs_outcome res) (rs_error res) (rs_messages res)
                    else (Inr (), w)) of
                (_, w) \<Rightarrow>
                  (case endRun M (s\<lparr>mg_world := w\<rparr>) folder runID failed kind of
                     (tripped, s) \<Rightarrow>
                       let out = no_outcome\<lparr>ro_run := runID, ro_outcome := rs_outcome res, ro_error := rs_error res,
                             ro_terminal := rs_terminal res\<rparr>
                       in (if tripped
                           then out\<lparr>ro_open := True, ro_error := (if rs_error res = [] then ''circuit breaker open'' else rs_error res)\<rparr>
                           else out, s))))"

text \<open>A spawn up to the return of its executor: None when the claim was not there to take. The row is not read again
  between the claim and the launch.\<close>

definition start_run ::
  "'w manager_env \<Rightarrow> 'w manager \<Rightarrow> RunRequest \<Rightarrow> run_claim \<Rightarrow> (string \<times> RunResult) option \<times> 'w manager" where
  [go_defs]: "start_run M s req c =
     (let kind = kindOf (rr_kind req)
      in case StartSpawn (mc_db M) (mg_world s) (cl_run c) (cl_session c) of
           (Inr True, w) \<Rightarrow>
             (case open_log M (s\<lparr>mg_world := w\<rparr>) req kind (cl_run c) (cl_session c) of
                (logID, s) \<Rightarrow>
                  (case execute M s (req\<lparr>rr_session := cl_session c\<rparr>) kind (cl_run c) (cl_container c) of
                     (res, s) \<Rightarrow> (Some (logID, res), s)))
         | (_, w) \<Rightarrow> (None, s\<lparr>mg_world := w\<rparr>))"

definition spawn_run :: "'w manager_env \<Rightarrow> 'w manager \<Rightarrow> RunRequest \<Rightarrow> run_claim \<Rightarrow> RunOutcome \<times> 'w manager" where
  [go_defs]: "spawn_run M s req c =
     (case start_run M s req c of
        (Some (logID, res), s) \<Rightarrow> finish M s (rr_folder req) (kindOf (rr_kind req)) (cl_run c) logID res
      | (None, s) \<Rightarrow> (no_outcome\<lparr>ro_busy := True\<rparr>, s))"

definition Run :: "'w manager_env \<Rightarrow> 'w manager \<Rightarrow> RunRequest \<Rightarrow> (run_error + RunOutcome) \<times> 'w manager" where
  [go_defs]: "Run M s req =
     (let kind = kindOf (rr_kind req); folder = rr_folder req
      in case requireExecutor M kind of
           Inl e \<Rightarrow> (Inl e, s)
         | Inr _ \<Rightarrow>
             (case (if kind = KindAgent
                    then (case FailureStreak (mc_db M) (mg_world s) folder of
                            (Inl e, w) \<Rightarrow> (Inl e, w)
                          | (Inr n, w) \<Rightarrow>
                              if n \<ge> circuitBreakerThreshold then ClearFailures (mc_db M) w folder else (Inr (), w))
                    else (Inr (), mg_world s)) of
                (Inl e, w) \<Rightarrow> (Inl e, s\<lparr>mg_world := w\<rparr>)
              | (Inr _, w) \<Rightarrow>
                  (case admit M w req kind of
                     (Inl e, w) \<Rightarrow> (Inl e, s\<lparr>mg_world := w\<rparr>)
                   | (Inr None, w) \<Rightarrow> (Inr (no_outcome\<lparr>ro_busy := True\<rparr>), s\<lparr>mg_world := w\<rparr>)
                   | (Inr (Some c), w) \<Rightarrow>
                       (case spawn_run M (s\<lparr>mg_world := w\<rparr>) req c of (out, s) \<Rightarrow> (Inr out, s)))))"

text \<open>A hold answers its run, and what its spawn does beside the caller is \<open>spawn_run\<close>; None is a busy folder.\<close>

definition hold_request :: "string \<Rightarrow> string \<Rightarrow> RunRequest" where
  [go_defs]: "hold_request folder reason =
     \<lparr>rr_folder = folder, rr_topic = reason, rr_session = [], rr_kind = KindHold, rr_isolated = False, rr_key = []\<rparr>"

definition Hold :: "'w manager_env \<Rightarrow> 'w manager \<Rightarrow> string \<Rightarrow> string \<Rightarrow> (run_error + run_claim option) \<times> 'w manager" where
  [go_defs]: "Hold M s folder reason =
     (case requireExecutor M KindHold of
        Inl e \<Rightarrow> (Inl e, s)
      | Inr _ \<Rightarrow>
          (case admit M (mg_world s) (hold_request folder reason) KindHold of (r, w) \<Rightarrow> (r, s\<lparr>mg_world := w\<rparr>)))"

section \<open>Stopping\<close>

definition Kill :: "'w manager_env \<Rightarrow> 'w manager \<Rightarrow> string \<Rightarrow> (run_error + unit) \<times> 'w manager" where
  [go_defs]: "Kill M s runID =
     (case SpawnByRunID (mc_db M) (mg_world s) runID of
        (Inl e, w) \<Rightarrow> (Inl e, s\<lparr>mg_world := w\<rparr>)
      | (Inr sp, w) \<Rightarrow>
          (case (if rn_state sp = ''running'' \<or> rn_state sp = ''queued''
                 then (case mc_kill M (executor M (rn_kind sp)) (rn_container sp) (s\<lparr>mg_world := w\<rparr>) of
                         s \<Rightarrow> (case KillSpawn (mc_db M) (mg_world s) runID of (r, w) \<Rightarrow> (r, s\<lparr>mg_world := w\<rparr>)))
                 else (Inr (), s\<lparr>mg_world := w\<rparr>)) of
             (Inl e, s) \<Rightarrow> (Inl e, s)
           | (Inr _, s) \<Rightarrow> (Inr (), s\<lparr>mg_steers := mg_steers s - {runID}\<rparr>)))"

definition ActiveRunID :: "'w manager_env \<Rightarrow> 'w \<Rightarrow> string \<Rightarrow> (run_error + string) \<times> 'w" where
  [go_defs]: "ActiveRunID M w folder =
     (case LiveSpawnInFolder (mc_db M) w folder of
        (Inl e, w) \<Rightarrow> (Inl e, w)
      | (Inr None, w) \<Rightarrow> (Inr [], w)
      | (Inr (Some i), w) \<Rightarrow> (Inr i, w))"

definition StopFolder :: "'w manager_env \<Rightarrow> 'w manager \<Rightarrow> string \<Rightarrow> (run_error + string \<times> bool) \<times> 'w manager" where
  [go_defs]: "StopFolder M s folder =
     (case ActiveRunID M (mg_world s) folder of
        (Inl e, w) \<Rightarrow> (Inl e, s\<lparr>mg_world := w\<rparr>)
      | (Inr i, w) \<Rightarrow>
          if i = [] then (Inr ([], False), s\<lparr>mg_world := w\<rparr>)
          else (case Kill M (s\<lparr>mg_world := w\<rparr>) i of
                  (Inl e, s) \<Rightarrow> (Inl e, s)
                | (Inr _, s) \<Rightarrow> (Inr (i, True), s)))"

definition ActiveCount :: "'w manager_env \<Rightarrow> 'w \<Rightarrow> int \<times> 'w" where
  [go_defs]: "ActiveCount M w =
     (case LiveSpawnCount (mc_db M) w of (Inl _, w) \<Rightarrow> (0, w) | (Inr n, w) \<Rightarrow> (n, w))"

end
