(* ===== verification/Run_Race.thy ===== *)
theory Run_Race
  imports Run_Manager
begin

text \<open>
  What the admission of runed promises while runs start, end and are killed beside it and the store loses requests and answers: one
  live run a folder, agents within the cap, and a run that ended never alive again. And what one run does alone, with two
  sequences in which a killed run breaks a promise.
\<close>

section \<open>Live runs\<close>

abbreviation spawn_at :: "string \<Rightarrow> coord" where "spawn_at n \<equiv> coord_of Spawns (spawnKey n)"

definition alive :: "attrs \<Rightarrow> bool" where
  "alive m \<longleftrightarrow> (\<exists>s. m attrState = Some s \<and> s \<notin> {''exited'', ''error'', ''killed''})"

definition lives :: "item_map \<Rightarrow> string \<Rightarrow> string set" where
  "lives db f = {n. \<exists>m. db (spawn_at n) = Some m \<and> alive m \<and> m attrFolder = Some f}"

definition agents :: "item_map \<Rightarrow> string set" where
  "agents db = {n. \<exists>m. db (spawn_at n) = Some m \<and> alive m \<and> m attrKind = Some KindAgent}"

text \<open>A write that makes no run: it keeps folder and kind, ends a run or leaves it, and leaves a killed run killed.\<close>

definition calm :: "Write \<Rightarrow> bool" where
  "calm x \<longleftrightarrow> (w_entity x = Spawns \<longrightarrow> (\<forall>m m'. write_ok x m \<and> written x m = Some m' \<longrightarrow>
     (\<exists>a. m = Some a \<and> m' attrFolder = a attrFolder \<and> m' attrKind = a attrKind \<and> (alive m' \<longrightarrow> alive a) \<and>
       (a attrState = Some ''killed'' \<longrightarrow> m' attrState = Some ''killed''))))"

section \<open>The steps\<close>

text \<open>The admission under the manager's lock: nobody, or one that has found the folder idle, or the cap open as well.\<close>

datatype admission = Free | Asked string string | Counted string string

record 'w slots =
  sl_world :: 'w
  sl_admit :: admission

inductive slot_step :: "'w manager_env \<Rightarrow> 'w slots \<Rightarrow> 'w slots \<Rightarrow> bool" for M where
  ask: "sl_admit R = Free \<Longrightarrow> LiveSpawnInFolder (mc_db M) (sl_world R) f = (r, w) \<Longrightarrow>
    slot_step M R \<lparr>sl_world = w, sl_admit = (if r = Inr None then Asked f (kindOf k) else Free)\<rparr>"
| count: "sl_admit R = Asked f kind \<Longrightarrow> full_house M (sl_world R) kind = (r, w) \<Longrightarrow>
    slot_step M R \<lparr>sl_world = w, sl_admit = (if r = Inr False then Counted f kind else Free)\<rparr>"
| claim: "sl_admit R = Counted (rr_folder req) kind \<Longrightarrow> claim_slot M (sl_world R) req kind = (r, w) \<Longrightarrow>
    slot_step M R \<lparr>sl_world = w, sl_admit = Free\<rparr>"
| start: "StartSpawn (mc_db M) (sl_world R) n s = (r, w) \<Longrightarrow> slot_step M R (R\<lparr>sl_world := w\<rparr>)"
| finished: "state \<in> {''error'', ''exited''} \<Longrightarrow> EndSpawn (mc_db M) (sl_world R) n state outcome code = (e, w) \<Longrightarrow>
    slot_step M R (R\<lparr>sl_world := w\<rparr>)"
| killed: "KillSpawn (mc_db M) (sl_world R) n = (e, w) \<Longrightarrow> slot_step M R (R\<lparr>sl_world := w\<rparr>)"
| logged: "LinkSessionLog (mc_db M) (sl_world R) n i = (e, w) \<Longrightarrow> slot_step M R (R\<lparr>sl_world := w\<rparr>)"
| others: "list_all plain_write wrs \<Longrightarrow> list_all calm wrs \<Longrightarrow> distinct (map place_of wrs) \<Longrightarrow>
    st_batch (re_store (mc_db M)) (sl_world R) [] wrs = (b, w) \<Longrightarrow> slot_step M R (R\<lparr>sl_world := w\<rparr>)"
| looked: "st_query (re_store (mc_db M)) (sl_world R) q = (a, w) \<Longrightarrow> slot_step M R (R\<lparr>sl_world := w\<rparr>)"

definition admission_ok :: "item_map \<Rightarrow> int \<Rightarrow> admission \<Rightarrow> bool" where
  "admission_ok db cap a \<longleftrightarrow>
     (case a of
        Free \<Rightarrow> True
      | Asked f kind \<Rightarrow> lives db f = {} \<and> kind \<noteq> []
      | Counted f kind \<Rightarrow> lives db f = {} \<and> kind \<noteq> [] \<and> (kind = KindAgent \<longrightarrow> int (card (agents db)) < cap))"

definition slot_inv :: "('w \<Rightarrow> item_map) \<Rightarrow> int \<Rightarrow> 'w slots \<Rightarrow> bool" where
  "slot_inv view cap R \<longleftrightarrow> plain_items (view (sl_world R)) \<and> admission_ok (view (sl_world R)) cap (sl_admit R) \<and>
     finite (agents (view (sl_world R))) \<and> int (card (agents (view (sl_world R)))) \<le> cap \<and>
     (\<forall>f. \<forall>a \<in> lives (view (sl_world R)) f. \<forall>b \<in> lives (view (sl_world R)) f. a = b)"

section \<open>The code's writes\<close>

lemma spawn_attrs [simp]:
  "plain_attr attrFolder" "plain_attr attrTopic" "plain_attr attrContainer" "plain_attr attrSessionLogID"
  "plain_attr attrSessionID" "plain_attr attrKind" "plain_attr attrState" "plain_attr attrOutcome" "plain_attr attrExitCode"
  "plain_attr attrCreatedAt" "plain_attr attrStartedAt" "plain_attr attrEndedAt"
  by (simp_all add: plain_attr_def partAttr_def sortAttr_def openAttr_def attrFolder_def attrTopic_def attrContainer_def
      attrSessionLogID_def attrSessionID_def attrKind_def attrState_def attrOutcome_def attrExitCode_def attrCreatedAt_def
      attrStartedAt_def attrEndedAt_def)

lemma spawn_names [simp]:
  "attrState \<noteq> attrFolder" "attrState \<noteq> attrKind" "attrState \<noteq> attrStartedAt" "attrState \<noteq> attrSessionID"
  "attrState \<noteq> attrExitCode" "attrState \<noteq> attrEndedAt" "attrState \<noteq> attrOutcome" "attrState \<noteq> attrSessionLogID"
  "attrState \<noteq> attrTopic" "attrState \<noteq> attrCreatedAt" "attrState \<noteq> attrContainer" "attrFolder \<noteq> attrState" "attrFolder \<noteq> attrKind"
  "attrFolder \<noteq> attrStartedAt" "attrFolder \<noteq> attrSessionID" "attrFolder \<noteq> attrExitCode" "attrFolder \<noteq> attrEndedAt"
  "attrFolder \<noteq> attrOutcome" "attrFolder \<noteq> attrSessionLogID" "attrFolder \<noteq> attrTopic" "attrFolder \<noteq> attrCreatedAt"
  "attrFolder \<noteq> attrContainer" "attrKind \<noteq> attrState" "attrKind \<noteq> attrFolder" "attrKind \<noteq> attrStartedAt" "attrKind \<noteq> attrSessionID"
  "attrKind \<noteq> attrExitCode" "attrKind \<noteq> attrEndedAt" "attrKind \<noteq> attrOutcome" "attrKind \<noteq> attrSessionLogID"
  "attrKind \<noteq> attrTopic" "attrKind \<noteq> attrCreatedAt" "attrKind \<noteq> attrContainer" "attrContainer \<noteq> attrKind" "attrContainer \<noteq> attrState"
  "attrContainer \<noteq> attrCreatedAt" "attrContainer \<noteq> attrFolder" "attrExitCode \<noteq> attrEndedAt" "attrStartedAt \<noteq> attrState" "attrOutcome \<noteq> attrExitCode"
  "attrOutcome \<noteq> attrEndedAt" "attrEndedAt \<noteq> attrOutcome" "attrExitCode \<noteq> attrOutcome"
  by (simp_all add: attrFolder_def attrTopic_def attrContainer_def
      attrSessionLogID_def attrSessionID_def attrKind_def attrState_def attrOutcome_def attrExitCode_def attrCreatedAt_def
      attrStartedAt_def attrEndedAt_def)

lemma alive_cmps: "list_all (cmp_match m) live_cmps = alive m"
  by (auto simp: live_cmps_def terminalStates_def alive_def cmp_match_def cmp_eval_def split: option.splits)

lemma spawn_at_inj [simp]: "spawn_at a = spawn_at b \<longleftrightarrow> a = b"
  by (simp add: coord_of_def spawnKey_def)

lemma code_plain:
  "plain_write (start_write now n s)" "plain_write (end_write now n state outcome code)" "plain_write (kill_write now n)"
  "plain_write (link_write n i)" "plain_write (orphan_write now it)"
  by (auto simp: start_write_def end_write_def kill_write_def link_write_def orphan_write_def plain_write_def plain_cond_def
      write0_def no_cond_def while_queued_def live_cmps_def terminalStates_def setAttr_def)

lemma code_calm:
  "calm (start_write now n s)" "state \<in> {''error'', ''exited''} \<Longrightarrow> calm (end_write now n state outcome code)"
  "calm (kill_write now n)" "calm (link_write n i)" "calm (orphan_write now it)" "calm (write0 Delete Spawns k)"
proof -
  note defs = calm_def write_ok_def cond_ok_def written_def merged_def attrs_of_def write0_def no_cond_def alive_cmps alive_def
    cmp_match_def cmp_eval_def setAttr_def
  show "calm (start_write now n s)"
    by (auto simp: defs start_write_def while_queued_def split: option.splits)
  show "calm (end_write now n state outcome code)" if "state \<in> {''error'', ''exited''}"
    using that by (auto simp: defs end_write_def split: option.splits)
  show "calm (kill_write now n)" by (auto simp: defs kill_write_def split: option.splits)
  show "calm (link_write n i)" by (auto simp: defs link_write_def split: option.splits)
  show "calm (orphan_write now it)" by (auto simp: defs orphan_write_def split: option.splits)
  show "calm (write0 Delete Spawns k)" by (simp add: defs)
qed

section \<open>What a batch and a read do\<close>

lemma effect_at:
  "distinct (map place_of wrs) \<Longrightarrow> batch_effect db wrs c =
     (case find (\<lambda>x. place_of x = c) wrs of None \<Rightarrow> db c | Some x \<Rightarrow> written x (db c))"
proof (induction wrs arbitrary: db)
  case Nil
  then show ?case by simp
next
  case (Cons x wrs)
  show ?case
  proof (cases "place_of x = c")
    case True
    then have "\<forall>y \<in> set wrs. place_of y \<noteq> c" using Cons.prems by (auto simp: image_iff)
    then show ?thesis using True by (simp add: untouched)
  next
    case False
    then show ?thesis using Cons by (auto split: option.splits)
  qed
qed

text \<open>What a calm batch leaves of one run.\<close>

lemma calm_batch:
  assumes "list_all calm wrs" "distinct (map place_of wrs)" "batch_ok db [] wrs"
    and "batch_effect db wrs (spawn_at n) = Some m'"
  shows "\<exists>a. db (spawn_at n) = Some a \<and> m' attrFolder = a attrFolder \<and> m' attrKind = a attrKind \<and> (alive m' \<longrightarrow> alive a) \<and>
    (a attrState = Some ''killed'' \<longrightarrow> m' attrState = Some ''killed'')"
proof (cases "find (\<lambda>x. place_of x = spawn_at n) wrs")
  case None
  then show ?thesis using assms(4) effect_at [OF assms(2)] by simp
next
  case (Some x)
  then have x: "x \<in> set wrs" "place_of x = spawn_at n" by (auto simp: find_Some_iff)
  then have "calm x" "write_ok x (db (spawn_at n))" "w_entity x = Spawns"
    using assms(1,3) by (auto simp: list_all_iff batch_ok_def place_of_def coord_of_def)
  then show ?thesis using assms(4) effect_at [OF assms(2)] Some by (auto simp: calm_def)
qed

lemma calm_sets:
  assumes "list_all calm wrs" "distinct (map place_of wrs)" "batch_ok db [] wrs"
  shows "lives (batch_effect db wrs) f \<subseteq> lives db f" "agents (batch_effect db wrs) \<subseteq> agents db"
  using calm_batch [OF assms] by (fastforce simp: lives_def agents_def)+

lemma shrunk:
  assumes "admission_ok db cap a" "finite (agents db)" "\<And>f. lives db' f \<subseteq> lives db f" "agents db' \<subseteq> agents db"
  shows "admission_ok db' cap a"
  using assms card_mono [OF assms(2,4)] by (fastforce simp: admission_ok_def split: admission.splits)

context object_store
begin

text \<open>What a read of the partition answers, projected or not.\<close>

lemma scan_rows:
  assumes p: "plain_items (view w)" and q: "plain_query q" "q_limit q = 0" and r: "st_query st w q = (Inr its, w')"
  shows "\<exists>rows. its = map (projected (q_project q)) rows \<and> distinct (map i_key rows) \<and>
    (\<forall>it. it \<in> set rows \<longleftrightarrow> picks q it \<and> view w (coord_of (q_entity q) (i_key it)) = Some (i_attrs it))"
proof -
  obtain rows where l: "lists (view w) (q_entity q) rows" and s: "its = selected q rows"
    using answers [OF p q(1) r] by blast
  let ?xs = "filter (picks q) (ordered (q_descending q) rows)"
  have i: "its = map (projected (q_project q)) ?xs" using q by (simp add: s selected_def limited_def)
  have d: "distinct (map i_key (ordered (q_descending q) rows))" and e: "set (ordered (q_descending q) rows) = set rows"
    using l by (auto simp: lists_def ordered_def distinct_map Let_def)
  have same: "x = y" if "i_key x = i_key y" "i_attrs x = i_attrs y" for x y :: Item
    using that by (cases x; cases y) simp
  have "it \<in> set rows \<longleftrightarrow> view w (coord_of (q_entity q) (i_key it)) = Some (i_attrs it)" for it
  proof -
    have "(\<exists>x \<in> set rows. i_key x = i_key it \<and> i_attrs x = i_attrs it) \<longleftrightarrow>
        view w (coord_of (q_entity q) (i_key it)) = Some (i_attrs it)" using l unfolding lists_def by blast
    then show ?thesis using same [of _ it] by blast
  qed
  then show ?thesis using i distinct_map_filter [OF d] by (intro exI [of _ ?xs]) (simp add: e conj_commute)
qed

text \<open>The runs a read of the live rows selects.\<close>

lemma live_rows:
  assumes p: "plain_items (view w)" and c: "\<And>m. list_all (cmp_match m) cs \<longleftrightarrow> alive m \<and> ok m"
    and n: "partAttr \<notin> set ps \<and> sortAttr \<notin> set ps" and pl: "list_all (\<lambda>x. plain_attr (c_attr x)) cs"
    and r: "st_query st w (spawns_query cs ps) = (Inr its, w')"
  shows "view w' = view w \<and> finite {n. \<exists>m. view w (spawn_at n) = Some m \<and> alive m \<and> ok m} \<and>
    length its = card {n. \<exists>m. view w (spawn_at n) = Some m \<and> alive m \<and> ok m}"
proof -
  let ?q = "spawns_query cs ps" and ?N = "{n. \<exists>m. view w (spawn_at n) = Some m \<and> alive m \<and> ok m}"
  have q: "plain_query ?q" "q_limit ?q = 0" "q_entity ?q = Spawns"
    using n pl by (auto simp: plain_query_def spawns_query_def query0_def list_all_iff plain_attr_def)
  have pk: "picks ?q it \<longleftrightarrow> Partition (i_key it) = spawnPartition \<and> alive (i_attrs it) \<and> ok (i_attrs it)" for it
    by (simp add: picks_def spawns_query_def query0_def key_match_def any_key_def c)
  obtain rows where rows: "its = map (projected (q_project ?q)) rows" "distinct (map i_key rows)"
    "\<And>it. it \<in> set rows \<longleftrightarrow> Partition (i_key it) = spawnPartition \<and> alive (i_attrs it) \<and> ok (i_attrs it) \<and>
       view w (coord_of Spawns (i_key it)) = Some (i_attrs it)"
    using scan_rows [OF p q(1,2) r] pk q(3) by auto
  have key: "Partition k = spawnPartition \<Longrightarrow> k = spawnKey (Sort k)" for k by (simp add: spawnKey_def)
  have im: "(\<lambda>it. Sort (i_key it)) ` set rows = ?N"
  proof
    show "(\<lambda>it. Sort (i_key it)) ` set rows \<subseteq> ?N" using rows(3) key by fastforce
    show "?N \<subseteq> (\<lambda>it. Sort (i_key it)) ` set rows"
    proof
      fix n assume "n \<in> ?N"
      then obtain m where "view w (spawn_at n) = Some m" "alive m" "ok m" by blast
      then have "\<lparr>i_key = spawnKey n, i_attrs = m\<rparr> \<in> set rows" using rows(3) by (simp add: spawnKey_def)
      then show "n \<in> (\<lambda>it. Sort (i_key it)) ` set rows" by (force simp: spawnKey_def)
    qed
  qed
  have inj: "inj_on (\<lambda>it. Sort (i_key it)) (set rows)"
    using rows(2,3) key by (metis (no_types, lifting) distinct_map inj_on_def)
  have "distinct rows" using rows(2) by (simp add: distinct_map)
  then have "card ?N = length rows" using card_image [OF inj] distinct_card im by metis
  moreover have "finite ?N" using im by (metis finite_imageI finite_set)
  ultimately show ?thesis using rows(1) looks [OF r] by simp
qed

lemma idle_read:
  assumes p: "plain_items (view w)" and s: "re_store E = st" and r: "LiveSpawnInFolder E w f = (x, w')"
  shows "view w' = view w \<and> (\<forall>y. x = Inr y \<longrightarrow> (y = None \<longleftrightarrow> lives (view w) f = {}))"
proof -
  let ?cs = "in_folder f # live_cmps"
  obtain y where y: "st_query st w (spawns_query ?cs [attrCreatedAt]) = (y, w')"
    and x: "x = (case y of Inl e \<Rightarrow> Inl (Run_Unread e) | Inr its \<Rightarrow> Inr (map_option (\<lambda>it. Sort (i_key it)) (fold newer its None)))"
    using r s by (auto simp: LiveSpawnInFolder_def split: prod.splits sum.splits)
  have some: "fold newer its b \<noteq> None" if "b \<noteq> None" for its b
    using that by (induction its arbitrary: b) (auto simp: newer_def split: option.splits)
  have none: "fold newer its None = None \<longleftrightarrow> its = []" for its
    by (cases its) (auto simp: newer_def some)
  have c: "list_all (cmp_match m) ?cs \<longleftrightarrow> alive m \<and> m attrFolder = Some f" for m
    by (auto simp: alive_cmps in_folder_def cmp_match_def cmp_eval_def split: option.splits)
  have pl: "list_all (\<lambda>x. plain_attr (c_attr x)) ?cs" by (simp add: in_folder_def live_cmps_def terminalStates_def)
  have n: "partAttr \<notin> set [attrCreatedAt] \<and> sortAttr \<notin> set [attrCreatedAt]"
    using spawn_attrs(10) by (auto simp: plain_attr_def)
  have "z = None \<longleftrightarrow> lives (view w) f = {}" if z: "x = Inr z" for z
  proof -
    obtain its where i: "y = Inr its" using z x by (cases y) auto
    then have "z = map_option (\<lambda>it. Sort (i_key it)) (fold newer its None)" using z x by simp
    then have its: "y = Inr its" "z = None \<longleftrightarrow> its = []" using none [of its] i by simp_all
    have "card (lives (view w) f) = length its" "finite (lives (view w) f)"
      using live_rows [OF p c n pl y [unfolded its(1)]] by (simp_all add: lives_def)
    then show ?thesis using its(2) card_0_eq length_0_conv by metis
  qed
  then show ?thesis using looks [OF y] by blast
qed

lemma count_read:
  assumes p: "plain_items (view w)" and s: "re_store (mc_db M) = st" and r: "full_house M w kind = (x, w')"
  shows "view w' = view w \<and> (\<forall>b. x = Inr b \<longrightarrow> (b \<longleftrightarrow> kind = KindAgent \<and> mc_max M \<le> int (card (agents (view w)))))"
proof (cases "kind = KindAgent")
  case True
  let ?cs = "live_cmps @ [agent_cmp]"
  obtain y where y: "st_query st w (spawns_query ?cs [attrKind]) = (y, w')"
    and x: "x = (case y of Inl e \<Rightarrow> Inl (Run_Unread e) | Inr its \<Rightarrow> Inr (int (length its) \<ge> mc_max M))"
    using r s True by (auto simp: full_house_def LiveAgentSpawnCount_def countLive_def split: prod.splits sum.splits)
  have c: "list_all (cmp_match m) ?cs \<longleftrightarrow> alive m \<and> m attrKind = Some KindAgent" for m
    by (auto simp: alive_cmps agent_cmp_def cmp_match_def cmp_eval_def split: option.splits)
  have pl: "list_all (\<lambda>x. plain_attr (c_attr x)) ?cs" by (simp add: agent_cmp_def live_cmps_def terminalStates_def)
  have n: "partAttr \<notin> set [attrKind] \<and> sortAttr \<notin> set [attrKind]" using spawn_attrs(6) by (auto simp: plain_attr_def)
  show ?thesis
  proof (cases y)
    case (Inr its)
    show ?thesis using live_rows [OF p c n pl y [unfolded Inr]] x Inr True by (simp add: agents_def)
  qed (use x looks [OF y] in auto)
qed (use r in \<open>auto simp: full_house_def\<close>)

end

section \<open>Every step keeps it\<close>

text \<open>The row of a claim.\<close>

lemma row_shape:
  "plain_write (create_write now sp)" "place_of (create_write now sp) = spawn_at (rn_id sp)"
  "w_entity (create_write now sp) = Spawns" "write_ok (create_write now sp) m \<Longrightarrow> m = None"
proof -
  have ne: "attrContainer \<noteq> attrFolder" "attrCreatedAt \<noteq> attrFolder" "attrCreatedAt \<noteq> attrContainer" "attrCreatedAt \<noteq> attrKind"
    "attrCreatedAt \<noteq> attrState"
    by (simp_all add: attrFolder_def attrContainer_def attrKind_def attrState_def attrCreatedAt_def)
  show "plain_write (create_write now sp)"
    by (simp add: create_write_def Let_def plain_write_def plain_cond_def write0_def setAttr_distinct setAttr_plain ne ne [symmetric]
        del: list.pred_map)
  show "place_of (create_write now sp) = spawn_at (rn_id sp)" "w_entity (create_write now sp) = Spawns"
    by (simp_all add: create_write_def Let_def place_of_def write0_def)
  show "write_ok (create_write now sp) m \<Longrightarrow> m = None"
    by (simp add: create_write_def Let_def write_ok_def cond_ok_def write0_def)
qed

lemma row_written:
  assumes "rn_kind sp \<noteq> []" "rn_state sp = ''queued''"
  shows "\<exists>m'. written (create_write now sp) m = Some m' \<and> alive m' \<and> m' attrState = Some ''queued'' \<and> m' attrFolder = Some (rn_folder sp) \<and> m' attrKind = Some (rn_kind sp)"
proof -
  have "attrTopic \<noteq> attrFolder" "attrTopic \<noteq> attrKind" "attrTopic \<noteq> attrState" "attrSessionID \<noteq> attrFolder"
    "attrSessionID \<noteq> attrKind" "attrSessionID \<noteq> attrState" "attrSessionLogID \<noteq> attrFolder" "attrSessionLogID \<noteq> attrKind"
    "attrSessionLogID \<noteq> attrState" "attrCreatedAt \<noteq> attrFolder" "attrCreatedAt \<noteq> attrKind" "attrCreatedAt \<noteq> attrState"
    by (simp_all add: attrFolder_def attrKind_def attrState_def attrTopic_def attrSessionID_def attrSessionLogID_def attrCreatedAt_def)
  then show ?thesis using assms by (simp add: create_write_def Let_def written_def write0_def setAttr_at alive_def)
qed

text \<open>The operations on one run are batches of one calm write, and a claim is a batch of one row.\<close>

lemma calm_ops:
  "StartSpawn E w n ss = (r1, w') \<Longrightarrow> \<exists>x b. plain_write x \<and> calm x \<and> st_batch (re_store E) w [] [x] = (b, w')"
  "state \<in> {''error'', ''exited''} \<Longrightarrow> EndSpawn E w n state outcome code = (r2, w') \<Longrightarrow>
    \<exists>x b. plain_write x \<and> calm x \<and> st_batch (re_store E) w [] [x] = (b, w')"
  "KillSpawn E w n = (r2, w') \<Longrightarrow> \<exists>x b. plain_write x \<and> calm x \<and> st_batch (re_store E) w [] [x] = (b, w')"
  "LinkSessionLog E w n i = (r2, w') \<Longrightarrow> \<exists>x b. plain_write x \<and> calm x \<and> st_batch (re_store E) w [] [x] = (b, w')"
proof -
  show "\<exists>x b. plain_write x \<and> calm x \<and> st_batch (re_store E) w [] [x] = (b, w')" if "StartSpawn E w n ss = (r1, w')"
    using that code_plain(1) code_calm(1) unfolding StartSpawn_def by (fastforce split: prod.splits sum.splits)
  show "\<exists>x b. plain_write x \<and> calm x \<and> st_batch (re_store E) w [] [x] = (b, w')"
    if "state \<in> {''error'', ''exited''}" "EndSpawn E w n state outcome code = (r2, w')"
    using that(2) code_plain(2) code_calm(2) [OF that(1)] unfolding EndSpawn_def by (fastforce split: prod.splits sum.splits)
  show "\<exists>x b. plain_write x \<and> calm x \<and> st_batch (re_store E) w [] [x] = (b, w')" if "KillSpawn E w n = (r2, w')"
    using that code_plain(3) code_calm(3) unfolding KillSpawn_def by (fastforce split: prod.splits sum.splits)
  show "\<exists>x b. plain_write x \<and> calm x \<and> st_batch (re_store E) w [] [x] = (b, w')" if "LinkSessionLog E w n i = (r2, w')"
    using that code_plain(4) code_calm(4) unfolding LinkSessionLog_def by (fastforce split: prod.splits sum.splits)
qed

lemma claim_batch:
  assumes f: "keeps_view view (mc_id M)" and c: "claim_slot M w req kind = (r, w')"
  shows "\<exists>u sp b. view u = view w \<and> rn_folder sp = rr_folder req \<and> rn_kind sp = kind \<and> rn_state sp = ''queued'' \<and>
    st_batch (re_store (mc_db M)) u [] [create_write (re_now (mc_db M) u) sp] = (b, w') \<and>
    (\<forall>c. r = Inr c \<longrightarrow> b = Inr True \<and> rn_id sp = cl_run c)"
proof -
  obtain i u1 where i: "mc_id M w = (i, u1)" by force
  obtain j u2 where j: "(if rr_session req = [] then mc_id M u1 else (rr_session req, u1)) = (j, u2)" by force
  have u1: "view u1 = view w" using f i unfolding keeps_view_def by (metis snd_conv)
  have u2: "view u2 = view w" using f j u1 unfolding keeps_view_def by (metis snd_conv)
  let ?sp = "\<lparr>rn_id = ''run_'' @ i, rn_folder = rr_folder req, rn_topic = rr_topic req, rn_container = mc_handle M (rr_folder req) u2,
    rn_log = [], rn_session = j, rn_kind = kind, rn_state = ''queued'', rn_outcome = [], rn_exit = 0, rn_created = [],
    rn_started = [], rn_ended = []\<rparr>"
  obtain y where "CreateSpawn (mc_db M) u2 ?sp = (y, w')" and y: "\<forall>c. r = Inr c \<longrightarrow> y = Inr () \<and> ''run_'' @ i = cl_run c"
    using c i j by (auto simp: claim_slot_def Let_def split: prod.splits sum.splits)
  then obtain b where b: "st_batch (re_store (mc_db M)) u2 [] [create_write (re_now (mc_db M) u2) ?sp] = (b, w')"
    and ok: "y = Inr () \<longrightarrow> b = Inr True"
    by (auto simp: CreateSpawn_def split: prod.splits sum.splits if_splits)
  show ?thesis using u2 b ok y by (intro exI [of _ u2] exI [of _ ?sp] exI [of _ b]) auto
qed

context object_store
begin

lemma calm_step:
  assumes v: "slot_inv view cap R" and ws: "list_all plain_write wrs" "list_all calm wrs" "distinct (map place_of wrs)"
    and b: "st_batch st (sl_world R) [] wrs = (r, w)"
  shows "slot_inv view cap (R\<lparr>sl_world := w\<rparr>)"
proof -
  have p: "plain_items (view (sl_world R))" using v by (simp add: slot_inv_def)
  have pb: "plain_batch [] wrs" using ws(1) by (simp add: plain_batch_def)
  note o = batch_outcome [OF p pb b]
  show ?thesis
  proof (cases "view w = view (sl_world R)")
    case True
    then show ?thesis using v by (simp add: slot_inv_def)
  next
    case False
    then have ok: "batch_ok (view (sl_world R)) [] wrs" and w: "view w = batch_effect (view (sl_world R)) wrs" using o by auto
    note sub = calm_sets [OF ws(2,3) ok, folded w]
    have fin: "finite (agents (view (sl_world R)))" using v by (simp add: slot_inv_def)
    have "card (agents (view w)) \<le> card (agents (view (sl_world R)))" by (rule card_mono [OF fin sub(2)])
    moreover have "\<forall>f. \<forall>a \<in> lives (view w) f. \<forall>b \<in> lives (view w) f. a = b" using v sub(1) unfolding slot_inv_def by (meson subsetD)
    ultimately show ?thesis using v o finite_subset [OF sub(2) fin] shrunk [OF _ fin sub] by (simp add: slot_inv_def)
  qed
qed

lemma slot_keeps:
  assumes s: "re_store (mc_db M) = st" and f: "keeps_view view (mc_id M)"
    and v: "slot_inv view (mc_max M) R" and t: "slot_step M R R'"
  shows "slot_inv view (mc_max M) R'"
proof -
  have p: "plain_items (view (sl_world R))" and a: "admission_ok (view (sl_world R)) (mc_max M) (sl_admit R)"
    using v by (simp_all add: slot_inv_def)
  have one: ?thesis if "R' = R\<lparr>sl_world := w\<rparr>" "plain_write x" "calm x" "st_batch st (sl_world R) [] [x] = (y, w)" for x y w
    using calm_step [OF v, of "[x]" y w] that by simp
  from t show ?thesis
  proof cases
    case (ask fld r w k)
    have "kindOf k \<noteq> []" by (simp add: kindOf_def KindAgent_def)
    then show ?thesis unfolding ask(1) using idle_read [OF p s ask(3)] v by (auto simp: slot_inv_def admission_ok_def)
  next
    case (count fld kind r w)
    show ?thesis unfolding count(1) using count_read [OF p s count(3)] v a count(2) by (auto simp: slot_inv_def admission_ok_def)
  next
    case (claim req kind r w)
    obtain u sp b where u: "view u = view (sl_world R)" "rn_folder sp = rr_folder req" "rn_kind sp = kind" "rn_state sp = ''queued''"
      and b: "st_batch st u [] [create_write (re_now (mc_db M) u) sp] = (b, w)"
      using claim_batch [OF f claim(3)] s by blast
    let ?x = "create_write (re_now (mc_db M) u) sp"
    have k: "kind \<noteq> []" and idle: "lives (view (sl_world R)) (rr_folder req) = {}"
      and room: "kind = KindAgent \<longrightarrow> int (card (agents (view (sl_world R)))) < mc_max M"
      using a claim(2) by (simp_all add: admission_ok_def)
    have pu: "plain_items (view u)" using p u(1) by simp
    have pb: "plain_batch [] [?x]" by (simp add: plain_batch_def row_shape(1))
    note o = batch_outcome [OF pu pb b, unfolded u(1)]
    show ?thesis
    proof (cases "view w = view (sl_world R)")
      case True
      then show ?thesis unfolding claim(1) using v by (simp add: slot_inv_def admission_ok_def)
    next
      case False
      then have "write_ok ?x (view (sl_world R) (spawn_at (rn_id sp)))"
        and w: "view w = (view (sl_world R))(spawn_at (rn_id sp) := written ?x (view (sl_world R) (spawn_at (rn_id sp))))"
        using o by (auto simp: batch_ok_def row_shape(2))
      obtain m' where m': "view w (spawn_at (rn_id sp)) = Some m'" "alive m'" "m' attrFolder = Some (rr_folder req)" "m' attrKind = Some kind"
        using row_written [of sp "re_now (mc_db M) u" "view (sl_world R) (spawn_at (rn_id sp))"] k u(2-4) w by auto
      have other: "view w (spawn_at n) = view (sl_world R) (spawn_at n)" if "n \<noteq> rn_id sp" for n using that by (simp add: w)
      have l: "lives (view w) g \<subseteq> (if g = rr_folder req then {rn_id sp} else lives (view (sl_world R)) g)" for g
      proof
        fix n assume n: "n \<in> lives (view w) g"
        show "n \<in> (if g = rr_folder req then {rn_id sp} else lives (view (sl_world R)) g)"
          using n m' idle other [of n] by (cases "n = rn_id sp") (auto simp: lives_def)
      qed
      have ag: "agents (view w) \<subseteq> (if kind = KindAgent then insert (rn_id sp) (agents (view (sl_world R))) else agents (view (sl_world R)))"
      proof
        fix n assume n: "n \<in> agents (view w)"
        show "n \<in> (if kind = KindAgent then insert (rn_id sp) (agents (view (sl_world R))) else agents (view (sl_world R)))"
          using n m' other [of n] by (cases "n = rn_id sp") (auto simp: agents_def)
      qed
      have fin: "finite (agents (view (sl_world R)))" using v by (simp add: slot_inv_def)
      have "finite (agents (view w))" using finite_subset [OF ag] fin by (simp split: if_splits)
      moreover have "int (card (agents (view w))) \<le> mc_max M"
      proof (cases "kind = KindAgent")
        case True
        have "card (agents (view w)) \<le> Suc (card (agents (view (sl_world R))))"
          using card_mono [of "insert (rn_id sp) (agents (view (sl_world R)))" "agents (view w)"] ag fin True
          by (simp add: card_insert_if split: if_splits)
        then show ?thesis using room True by simp
      next
        case False
        then have "card (agents (view w)) \<le> card (agents (view (sl_world R)))" using card_mono [OF fin] ag by simp
        then show ?thesis using v by (simp add: slot_inv_def)
      qed
      moreover have "\<forall>g. \<forall>x \<in> lives (view w) g. \<forall>y \<in> lives (view w) g. x = y"
      proof (intro allI ballI)
        fix g x y
        assume "x \<in> lives (view w) g" "y \<in> lives (view w) g"
        then have "g = rr_folder req \<and> x = rn_id sp \<and> y = rn_id sp \<or> x \<in> lives (view (sl_world R)) g \<and> y \<in> lives (view (sl_world R)) g"
          using l [of g] by (auto split: if_splits)
        then show "x = y" using v unfolding slot_inv_def by blast
      qed
      ultimately show ?thesis unfolding claim(1) using o by (simp add: slot_inv_def admission_ok_def)
    qed
  next
    case (start n ss r w)
    then show ?thesis using calm_ops(1) [OF start(2)] one s by blast
  next
    case (finished state n outcome code e w)
    then show ?thesis using calm_ops(2) [OF finished(2,3)] one s by blast
  next
    case (killed n e w)
    then show ?thesis using calm_ops(3) [OF killed(2)] one s by blast
  next
    case (logged n i e w)
    then show ?thesis using calm_ops(4) [OF logged(2)] one s by blast
  next
    case (others wrs b w)
    show ?thesis unfolding others(1) by (rule calm_step [OF v others(2-4) others(5) [unfolded s]])
  next
    case (looked q r w)
    show ?thesis unfolding looked(1) using looks [OF looked(2) [unfolded s]] v by (simp add: slot_inv_def)
  qed
qed

end

section \<open>One run a folder\<close>

text \<open>A store to begin with: no live run, as after the recovery at the start.\<close>

definition nobody_lives :: "item_map \<Rightarrow> bool" where
  "nobody_lives db \<longleftrightarrow> (\<forall>n m. db (spawn_at n) = Some m \<longrightarrow> \<not> alive m)"

lemma slots_from:
  assumes "object_store (re_store (mc_db M)) view" "keeps_view view (mc_id M)" "plain_items (view (sl_world R))"
    and "nobody_lives (view (sl_world R))" "sl_admit R = Free" "0 \<le> mc_max M" and "(slot_step M)\<^sup>*\<^sup>* R T"
  shows "slot_inv view (mc_max M) T"
proof -
  have "lives (view (sl_world R)) f = {}" "agents (view (sl_world R)) = {}" for f
    using assms(4) by (auto simp: lives_def agents_def nobody_lives_def)
  then have "slot_inv view (mc_max M) R" using assms(3,5,6) by (simp add: slot_inv_def admission_ok_def)
  with assms(7) show ?thesis
    by (induction rule: rtranclp_induct) (use object_store.slot_keeps [OF assms(1) refl assms(2)] in blast)+
qed

text \<open>
  C18. From a store without a live run, at every interleaving of admissions, starts, ends, kills, log links and sweeps, and
  with requests and answers that may be lost: at most one live run stands for a folder.
\<close>

theorem one_run_a_folder:
  assumes "object_store (re_store (mc_db M)) view" "keeps_view view (mc_id M)" "plain_items (view (sl_world R))"
    and "nobody_lives (view (sl_world R))" "sl_admit R = Free" "0 \<le> mc_max M" and run: "(slot_step M)\<^sup>*\<^sup>* R T"
    and "a \<in> lives (view (sl_world T)) f" "b \<in> lives (view (sl_world T)) f"
  shows "a = b"
  using slots_from [OF assms(1-6) run] assms(8,9) by (simp add: slot_inv_def)

text \<open>C19. And the agents that live, of all folders, are never more than the cap.\<close>

theorem agents_within_cap:
  assumes "object_store (re_store (mc_db M)) view" "keeps_view view (mc_id M)" "plain_items (view (sl_world R))"
    and "nobody_lives (view (sl_world R))" "sl_admit R = Free" "0 \<le> mc_max M" and run: "(slot_step M)\<^sup>*\<^sup>* R T"
  shows "finite (agents (view (sl_world T))) \<and> int (card (agents (view (sl_world T)))) \<le> mc_max M"
  using slots_from [OF assms(1-6) run] by (simp add: slot_inv_def)

section \<open>The end of a run\<close>

context object_store
begin

lemma step_row:
  assumes s: "re_store (mc_db M) = st" and f: "keeps_view view (mc_id M)" and p: "plain_items (view (sl_world R))"
    and t: "slot_step M R R'" and g: "view (sl_world R) (spawn_at n) = Some a" and d: "\<not> alive a"
    and m: "view (sl_world R') (spawn_at n) = Some b"
  shows "\<not> alive b \<and> (a attrState = Some ''killed'' \<longrightarrow> b attrState = Some ''killed'')"
proof -
  have still: ?thesis if "view (sl_world R') = view (sl_world R)" using that g m d by simp
  have batch: ?thesis if ws: "list_all plain_write wrs" "list_all calm wrs" "distinct (map place_of wrs)"
    and b: "st_batch st (sl_world R) [] wrs = (r, sl_world R')" for wrs r
  proof (cases "view (sl_world R') = view (sl_world R)")
    case True
    then show ?thesis by (rule still)
  next
    case False
    have pb: "plain_batch [] wrs" using ws(1) by (simp add: plain_batch_def)
    have ok: "batch_ok (view (sl_world R)) [] wrs" and w: "view (sl_world R') = batch_effect (view (sl_world R)) wrs"
      using batch_outcome [OF p pb b] False by auto
    show ?thesis using calm_batch [OF ws(2,3) ok m [unfolded w]] g d by auto
  qed
  have one: ?thesis if "plain_write x" "calm x" "st_batch st (sl_world R) [] [x] = (r, sl_world R')" for x r
    using batch [of "[x]" r] that by simp
  from t show ?thesis
  proof cases
    case (ask fld r w k)
    then show ?thesis using still idle_read [OF p s ask(3)] by simp
  next
    case (count fld kind r w)
    then show ?thesis using still count_read [OF p s count(3)] by simp
  next
    case (claim req kind r w)
    obtain u sp c where u: "view u = view (sl_world R)" and c: "st_batch st u [] [create_write (re_now (mc_db M) u) sp] = (c, w)"
      using claim_batch [OF f claim(3)] s by blast
    let ?x = "create_write (re_now (mc_db M) u) sp"
    have pb: "plain_batch [] [?x]" by (simp add: plain_batch_def row_shape(1))
    have pu: "plain_items (view u)" using p u by simp
    have "view w (spawn_at n) = view (sl_world R) (spawn_at n)"
      using batch_outcome [OF pu pb c] row_shape(4) [of "re_now (mc_db M) u" sp "Some a"] g u by (auto simp: batch_ok_def row_shape(2))
    then show ?thesis using claim(1) g m d by simp
  next
    case (start k ss r w)
    then show ?thesis using calm_ops(1) [OF start(2)] one s by auto
  next
    case (finished state k outcome code e w)
    then show ?thesis using calm_ops(2) [OF finished(2,3)] one s by auto
  next
    case (killed k e w)
    then show ?thesis using calm_ops(3) [OF killed(2)] one s by auto
  next
    case (logged k i e w)
    then show ?thesis using calm_ops(4) [OF logged(2)] one s by auto
  next
    case (others wrs c w)
    then show ?thesis using batch [of wrs c] s by simp
  next
    case (looked q r w)
    then show ?thesis using still looks [of "sl_world R" q r w] s by simp
  qed
qed

end

text \<open>
  C20. A run that has ended is never alive again, whatever step of the relation follows, and a run that was killed stays
  killed: its row is as it was, or gone.
\<close>

theorem ended_stays_ended:
  assumes "object_store (re_store (mc_db M)) view" "keeps_view view (mc_id M)" "plain_items (view (sl_world R))"
    and "slot_step M R T" and "view (sl_world R) (spawn_at n) = Some a" "\<not> alive a" "view (sl_world T) (spawn_at n) = Some b"
  shows "\<not> alive b \<and> (a attrState = Some ''killed'' \<longrightarrow> b attrState = Some ''killed'')"
  by (rule object_store.step_row [OF assms(1) refl assms(2-7)])

section \<open>An admission alone\<close>

text \<open>
  C21. An admission with nobody beside it that answers: it refuses exactly when a live run stands in the folder or, for an agent, as
  many agents live as the cap allows, and then changes nothing; otherwise it adds one queued run of the folder and the kind.
\<close>

theorem admit_decides:
  assumes "object_store (re_store (mc_db M)) view" "keeps_view view (mc_id M)" "plain_items (view w)" "kind \<noteq> []"
    and "admit M w req kind = (Inr r, w')"
  shows "(r = None \<longleftrightarrow> lives (view w) (rr_folder req) \<noteq> {} \<or> kind = KindAgent \<and> mc_max M \<le> int (card (agents (view w)))) \<and>
    (case r of
       None \<Rightarrow> view w' = view w
     | Some c \<Rightarrow> view w (spawn_at (cl_run c)) = None \<and>
         (\<exists>m. view w' = (view w)(spawn_at (cl_run c) := Some m) \<and> m attrState = Some ''queued'' \<and>
            m attrFolder = Some (rr_folder req) \<and> m attrKind = Some kind))"
proof -
  obtain x u where x: "LiveSpawnInFolder (mc_db M) w (rr_folder req) = (Inr x, u)"
    using assms(5) by (auto simp: admit_def split: prod.splits sum.splits)
  note i = object_store.idle_read [OF assms(1,3) refl x]
  have pu: "plain_items (view u)" using assms(3) i by simp
  show ?thesis
  proof (cases x)
    case (Some n)
    then have "r = None \<and> w' = u" using assms(5) x by (simp add: admit_def)
    then show ?thesis using i Some by simp
  next
    case None
    obtain b v where b: "full_house M u kind = (Inr b, v)"
      using assms(5) x None by (auto simp: admit_def split: prod.splits sum.splits)
    have c: "view v = view w" "b \<longleftrightarrow> kind = KindAgent \<and> mc_max M \<le> int (card (agents (view w)))"
      using object_store.count_read [OF assms(1) pu refl b] i by simp_all
    show ?thesis
    proof (cases b)
      case True
      then have "r = None \<and> w' = v" using assms(5) x None b by (simp add: admit_def)
      then show ?thesis using c True by auto
    next
      case False
      then obtain k where k: "claim_slot M v req kind = (Inr k, w')" and r: "r = Some k"
        using assms(5) x None b by (auto simp: admit_def split: prod.splits sum.splits)
      obtain u2 sp where sp: "view u2 = view v" "rn_folder sp = rr_folder req" "rn_kind sp = kind" "rn_state sp = ''queued''"
        "rn_id sp = cl_run k" and t: "st_batch (re_store (mc_db M)) u2 [] [create_write (re_now (mc_db M) u2) sp] = (Inr True, w')"
        using claim_batch [OF assms(2) k] by blast
      let ?x = "create_write (re_now (mc_db M) u2) sp"
      have pb: "plain_batch [] [?x]" by (simp add: plain_batch_def row_shape(1))
      have vu: "view u2 = view w" "plain_items (view u2)" using sp(1) c i assms(3) by simp_all
      note o = object_store.batch_outcome [OF assms(1) vu(2) pb t]
      obtain m where m: "written ?x (view w (spawn_at (cl_run k))) = Some m" "m attrState = Some ''queued''"
        "m attrFolder = Some (rr_folder req)" "m attrKind = Some kind"
        using row_written [of sp "re_now (mc_db M) u2" "view w (spawn_at (cl_run k))"] assms(4) sp by auto
      have "view w (spawn_at (cl_run k)) = None"
        using o row_shape(4) [of "re_now (mc_db M) u2" sp] vu by (simp add: batch_ok_def row_shape(2) sp(5))
      moreover have "view w' = (view w)(spawn_at (cl_run k) := Some m)"
        using o vu m(1) by (simp add: row_shape(2) sp(5))
      moreover have "lives (view w) (rr_folder req) = {}" using i None by simp
      ultimately show ?thesis using c(2) False m r by auto
    qed
  qed
qed

section \<open>A small house\<close>

text \<open>A store of runs and streaks over the driver; an identifier is the number of items there, a guest that never registered
  is nothing to kill.\<close>

definition house :: "world manager_env" where
  "house = \<lparr>mc_db = \<lparr>re_store = plain_driver, re_widths = (\<lambda>_. None), re_now = (\<lambda>_. 0)\<rparr>, mc_kinds = [KindAgent], mc_max = 5, mc_wired = True,
     mc_gateway = [], mc_render = (\<lambda>_ _ _. None), mc_handle = (\<lambda>_ _. ''c''), mc_id = (\<lambda>w. (itoa (int (length (shelf w))), w)),
     mc_run = (\<lambda>_ _ _ _ s. (\<lparr>rs_outcome = OutcomeOK, rs_error = [], rs_exit = 0, rs_messages = 0, rs_terminal = False\<rparr>, s)),
     mc_kill = (\<lambda>_ _ s. s)\<rparr>"

definition quiet :: "(string \<times> string) list \<Rightarrow> world" where
  "quiet streaks = \<lparr>shelf = map (\<lambda>(f, n). (coord_of CircuitBreaker (breakerKey f), [(attrFailures, n)])) streaks, mishaps = []\<rparr>"

definition wish :: "string \<Rightarrow> RunRequest" where
  "wish f = \<lparr>rr_folder = f, rr_topic = [], rr_session = ''s'', rr_kind = [], rr_isolated = True, rr_key = []\<rparr>"

definition after :: "world \<Rightarrow> (world \<Rightarrow> 'a \<times> world) \<Rightarrow> world" where "after w act = snd (act w)"

definition claimed :: world where "claimed = after (quiet []) (\<lambda>w. claim_slot house w (wish ''f'') KindAgent)"
definition started :: world where "started = after claimed (\<lambda>w. StartSpawn (mc_db house) w ''run_0'' ''s'')"

lemma house_env: "object_store (re_store (mc_db house)) items" "keeps_view items (mc_id house)" "0 \<le> mc_max house"
  by (simp_all add: house_def plain_driver_store keeps_view_def)

lemma quiet_empty: "items (quiet []) = Map.empty" by (simp add: items_def quiet_def)

lemma quiet_start: "plain_items (items (quiet []))" "nobody_lives (items (quiet []))"
  by (simp_all add: quiet_empty plain_items_def nobody_lives_def)

lemma shelf_plain:
  assumes "list_all (\<lambda>(_, as). list_all plain_attr (map fst as)) (shelf w)"
  shows "plain_items (items w)"
  unfolding plain_items_def
proof (intro allI impI)
  fix c x
  assume "items w c = Some x"
  then obtain as where as: "map_of (shelf w) c = Some as" and x: "x = map_of as" by (auto simp: items_def)
  have "list_all plain_attr (map fst as)" using assms map_of_SomeD [OF as] by (auto simp: list_all_iff)
  then show "x partAttr = None \<and> x sortAttr = None \<and> x openAttr = None"
    by (auto simp: x map_of_eq_None_iff list_all_iff plain_attr_def)
qed

definition slots0 :: "world slots" where "slots0 = \<lparr>sl_world = quiet [], sl_admit = Free\<rparr>"

lemma first_claim: "(slot_step house)\<^sup>*\<^sup>* slots0 \<lparr>sl_world = claimed, sl_admit = Free\<rparr>"
proof -
  have 1: "LiveSpawnInFolder (mc_db house) (sl_world slots0) ''f'' = (Inr None, quiet [])" by code_simp
  have 2: "full_house house (quiet []) KindAgent = (Inr False, quiet [])" by code_simp
  have k: "kindOf [] = KindAgent" by (simp add: kindOf_def)
  have 3: "claim_slot house (quiet []) (wish ''f'') KindAgent = (fst (claim_slot house (quiet []) (wish ''f'') KindAgent), claimed)"
    by (simp add: claimed_def after_def)
  have "slot_step house slots0 \<lparr>sl_world = quiet [], sl_admit = Asked ''f'' KindAgent\<rparr>" (is "slot_step _ _ ?R1")
    using slot_step.ask [OF _ 1, of "[]"] k by (simp add: slots0_def)
  moreover have "slot_step house ?R1 \<lparr>sl_world = quiet [], sl_admit = Counted ''f'' KindAgent\<rparr>" (is "slot_step _ _ ?R2")
    using slot_step.count [of ?R1 "''f''" KindAgent house] 2 by simp
  moreover have "slot_step house ?R2 \<lparr>sl_world = claimed, sl_admit = Free\<rparr>"
    using slot_step.claim [of ?R2 "wish ''f''" KindAgent house] 3 by (simp add: wish_def)
  ultimately show ?thesis by (meson converse_rtranclp_into_rtranclp rtranclp.rtrancl_refl)
qed

lemma claimed_lives: "''run_0'' \<in> lives (items claimed) ''f''" "''run_0'' \<in> agents (items claimed)"
proof -
  have "map_option (\<lambda>m. m attrState) (items claimed (spawn_at ''run_0'')) = Some (Some ''queued'')"
    "map_option (\<lambda>m. m attrFolder) (items claimed (spawn_at ''run_0'')) = Some (Some ''f'')"
    "map_option (\<lambda>m. m attrKind) (items claimed (spawn_at ''run_0'')) = Some (Some KindAgent)" by code_simp+
  then show "''run_0'' \<in> lives (items claimed) ''f''" "''run_0'' \<in> agents (items claimed)"
    by (auto simp: lives_def agents_def alive_def)
qed

lemma one_run_a_folder_witness:
  "\<exists>T. (slot_step house)\<^sup>*\<^sup>* slots0 T \<and> lives (items (sl_world T)) ''f'' = {''run_0''}"
proof -
  let ?T = "\<lparr>sl_world = claimed, sl_admit = Free\<rparr>"
  have "lives (items (sl_world ?T)) ''f'' \<subseteq> {''run_0''}"
  proof
    fix a
    assume a: "a \<in> lives (items (sl_world ?T)) ''f''"
    have "a = ''run_0''"
      by (rule one_run_a_folder [OF house_env(1,2) _ _ _ house_env(3) first_claim a])
        (use claimed_lives(1) quiet_start in \<open>simp_all add: slots0_def\<close>)
    then show "a \<in> {''run_0''}" by simp
  qed
  moreover have "''run_0'' \<in> lives (items (sl_world ?T)) ''f''" using claimed_lives(1) by simp
  ultimately have "lives (items (sl_world ?T)) ''f'' = {''run_0''}" by blast
  then show ?thesis using first_claim by blast
qed

lemma admit_decides_witness:
  "\<exists>c. admit house (quiet []) (wish ''f'') KindAgent = (Inr (Some c), claimed) \<and> items (quiet []) (spawn_at (cl_run c)) = None \<and>
     items claimed (spawn_at (cl_run c)) \<noteq> None"
proof -
  let ?c = "\<lparr>cl_run = ''run_0'', cl_session = ''s'', cl_container = ''c''\<rparr>"
  have "fst (admit house (quiet []) (wish ''f'') KindAgent) = Inr (Some ?c)" "snd (admit house (quiet []) (wish ''f'') KindAgent) = claimed"
    by code_simp+
  then have a: "admit house (quiet []) (wish ''f'') KindAgent = (Inr (Some ?c), claimed)" by (simp add: prod_eq_iff)
  show ?thesis using admit_decides [OF house_env(1,2) quiet_start(1) _ a] a by (intro exI [of _ ?c]) (auto simp: KindAgent_def)
qed

lemma agents_within_cap_witness:
  "\<exists>T. (slot_step house)\<^sup>*\<^sup>* slots0 T \<and> ''run_0'' \<in> agents (items (sl_world T)) \<and>
    finite (agents (items (sl_world T))) \<and> int (card (agents (items (sl_world T)))) \<le> mc_max house"
  using agents_within_cap [OF house_env(1,2) _ _ _ house_env(3) first_claim] first_claim claimed_lives(2) quiet_start
  by (intro exI [of _ "\<lparr>sl_world = claimed, sl_admit = Free\<rparr>"]) (simp add: slots0_def)

definition killed_row :: world where "killed_row = after claimed (\<lambda>w. KillSpawn (mc_db house) w ''run_0'')"

definition late_start :: world where "late_start = after killed_row (\<lambda>w. StartSpawn (mc_db house) w ''run_0'' ''s'')"

lemma ended_stays_ended_witness:
  "\<exists>a b. slot_step house \<lparr>sl_world = killed_row, sl_admit = Free\<rparr> \<lparr>sl_world = late_start, sl_admit = Free\<rparr> \<and>
     items killed_row (spawn_at ''run_0'') = Some a \<and> items late_start (spawn_at ''run_0'') = Some b \<and>
     \<not> alive b \<and> b attrState = Some ''killed''"
proof -
  let ?R = "\<lparr>sl_world = killed_row, sl_admit = Free\<rparr>" and ?T = "\<lparr>sl_world = late_start, sl_admit = Free\<rparr>"
  have "StartSpawn (mc_db house) (sl_world ?R) ''run_0'' ''s'' = (fst (StartSpawn (mc_db house) killed_row ''run_0'' ''s''), late_start)"
    by (simp add: late_start_def after_def)
  from slot_step.start [OF this] have t: "slot_step house ?R ?T" by simp
  have "map_option (\<lambda>m. m attrState) (items killed_row (spawn_at ''run_0'')) = Some (Some ''killed'')"
    "items late_start (spawn_at ''run_0'') \<noteq> None" by code_simp+
  then obtain a b where ab: "items killed_row (spawn_at ''run_0'') = Some a" "a attrState = Some ''killed''"
    "items late_start (spawn_at ''run_0'') = Some b" by auto
  have d: "\<not> alive a" using ab(2) by (simp add: alive_def)
  have "list_all (\<lambda>(_, as). list_all plain_attr (map fst as)) (shelf killed_row)" by code_simp
  then have p: "plain_items (items (sl_world ?R))" by (simp add: shelf_plain)
  show ?thesis using ended_stays_ended [OF house_env(1,2) p t, of "''run_0''" a b] ab d t by auto
qed

section \<open>Two ways a killed run goes wrong\<close>

text \<open>A substrate as qemu.go is one to its manager: a run is launched by the record of its guest, and a kill reaps the guest the
  handle records and is content when there is none. The records stand beside the rows.\<close>

definition guest_at :: "string \<Rightarrow> coord" where "guest_at handle = (''guests'', ''qemu'', handle)"

definition boot :: "string \<Rightarrow> string \<Rightarrow> string \<Rightarrow> world \<Rightarrow> world" where
  "boot handle folder run w = w\<lparr>shelf := shelf w @ [(guest_at handle, [(''folder'', folder), (''run'', run)])]\<rparr>"

definition reap :: "string \<Rightarrow> world \<Rightarrow> world" where
  "reap handle w = w\<lparr>shelf := filter (\<lambda>(c, _). c \<noteq> guest_at handle) (shelf w)\<rparr>"

definition guests :: "world \<Rightarrow> (string \<times> string) list" where
  "guests w = map (\<lambda>(_, as). (sent ''run'' (map_of as), sent ''folder'' (map_of as))) (filter (\<lambda>(c, _). fst c = ''guests'') (shelf w))"

definition guesthouse :: "world manager_env" where
  "guesthouse = house\<lparr>
     mc_handle := (\<lambda>f w. f @ ''-'' @ itoa (int (length (shelf w)))),
     mc_run := (\<lambda>kind req handle run s. (\<lparr>rs_outcome = OutcomeOK, rs_error = [], rs_exit = 0, rs_messages = 0, rs_terminal = False\<rparr>,
       s\<lparr>mg_world := boot handle (rr_folder req) run (mg_world s)\<rparr>)),
     mc_kill := (\<lambda>kind handle s. s\<lparr>mg_world := reap handle (mg_world s)\<rparr>)\<rparr>"

text \<open>The same house where others take the world from \<open>v\<close> to \<open>u\<close> while a run that took its claim draws the identifier of its log row.\<close>

definition meanwhile :: "world \<Rightarrow> world \<Rightarrow> world manager_env" where
  "meanwhile v u = guesthouse\<lparr>mc_id := (\<lambda>w. mc_id guesthouse (if w = v then u else w))\<rparr>"

definition turn_of :: "string \<Rightarrow> RunRequest" where "turn_of f = (wish f)\<lparr>rr_isolated := False\<rparr>"

abbreviation managing :: "world \<Rightarrow> world manager" where "managing w \<equiv> \<lparr>mg_world = w, mg_steers = {}\<rparr>"

definition held1 :: world where "held1 = after (quiet []) (\<lambda>w. admit guesthouse w (turn_of ''f'') KindAgent)"
definition taken1 :: world where "taken1 = after held1 (\<lambda>w. StartSpawn (mc_db guesthouse) w ''run_0'' ''s'')"
definition stopped1 :: world where "stopped1 = mg_world (snd (Kill guesthouse (managing taken1) ''run_0''))"
definition held2 :: world where "held2 = after stopped1 (\<lambda>w. admit guesthouse w (turn_of ''f'') KindAgent)"

definition claim1 :: run_claim where "claim1 = \<lparr>cl_run = ''run_0'', cl_session = ''s'', cl_container = ''f-0''\<rparr>"
definition claim2 :: run_claim where "claim2 = \<lparr>cl_run = ''run_1'', cl_session = ''s'', cl_container = ''f-1''\<rparr>"

definition busy2 :: world where "busy2 = mg_world (snd (start_run guesthouse (managing held2) (turn_of ''f'') claim2))"

text \<open>
  C24. A stop that lands after a run took its claim and before its substrate has recorded a guest: the kill finds no guest and
  answers success, the row is killed and the folder free, and a second run is admitted and launches its guest. The first does not look at
  its row again: it goes on from its claim to its executor and launches its own, so that the folder has two guests, one of them of a run
  whose row says killed, which no later stop reaches.
\<close>

theorem killed_run_launches:
  "admit guesthouse (quiet []) (turn_of ''f'') KindAgent = (Inr (Some claim1), held1) \<and>
   StartSpawn (mc_db guesthouse) held1 (cl_run claim1) (cl_session claim1) = (Inr True, taken1) \<and>
   Kill guesthouse (managing taken1) (cl_run claim1) = (Inr (), managing stopped1) \<and>
   admit guesthouse stopped1 (turn_of ''f'') KindAgent = (Inr (Some claim2), held2) \<and>
   (\<exists>out2 out1 s. start_run guesthouse (managing held2) (turn_of ''f'') claim2 = (Some out2, managing busy2) \<and>
      start_run (meanwhile taken1 busy2) (managing held1) (turn_of ''f'') claim1 = (Some out1, s) \<and>
      guests (mg_world s) = [(cl_run claim2, ''f''), (cl_run claim1, ''f'')] \<and>
      map_option (sent attrState) (items (mg_world s) (spawn_at (cl_run claim1))) = Some ''killed'' \<and>
      map_option (sent attrState) (items (mg_world s) (spawn_at (cl_run claim2))) = Some ''running'' \<and>
      guests (mg_world (snd (Kill guesthouse s (cl_run claim1)))) = guests (mg_world s))"
proof -
  let ?k = "Kill guesthouse (managing taken1) ''run_0''"
  let ?b = "start_run guesthouse (managing held2) (turn_of ''f'') claim2"
  let ?a = "start_run (meanwhile taken1 busy2) (managing held1) (turn_of ''f'') claim1"
  have 1: "fst (admit guesthouse (quiet []) (turn_of ''f'') KindAgent) = Inr (Some claim1)" by code_simp
  have 2: "fst (StartSpawn (mc_db guesthouse) held1 ''run_0'' ''s'') = Inr True" by code_simp
  have 3: "fst ?k = Inr ()" by code_simp
  have 4: "fst (admit guesthouse stopped1 (turn_of ''f'') KindAgent) = Inr (Some claim2)" by code_simp
  have 5: "fst ?b \<noteq> None" by code_simp
  have 6: "fst ?a \<noteq> None" by code_simp
  have 7: "guests (mg_world (snd ?a)) = [(''run_1'', ''f''), (''run_0'', ''f'')]" by code_simp
  have 8: "map_option (sent attrState) (items (mg_world (snd ?a)) (spawn_at ''run_0'')) = Some ''killed''"
    "map_option (sent attrState) (items (mg_world (snd ?a)) (spawn_at ''run_1'')) = Some ''running''" by code_simp+
  have 9: "guests (mg_world (snd (Kill guesthouse (snd ?a) ''run_0''))) = [(''run_1'', ''f''), (''run_0'', ''f'')]" by code_simp
  have st: "mg_steers (snd ?k) = {}" "mg_steers (snd ?b) = {}" by code_simp+
  obtain k where "?k = (Inr (), k)" "mg_world k = stopped1" "mg_steers k = {}"
    using 3 st(1) by (cases ?k) (simp add: stopped1_def)
  then have k: "?k = (Inr (), managing stopped1)" by (simp add: manager.equality)
  obtain y t where b: "?b = (Some y, t)" using 5 by (cases ?b) auto
  then have t: "t = managing busy2" using st(2) by (simp add: busy2_def manager.equality)
  obtain x u where a: "?a = (Some x, u)" using 6 by (cases ?a) auto
  show ?thesis
    using 1 2 4 k b t a 7 8 9
    by (simp add: prod_eq_iff held1_def taken1_def held2_def after_def claim1_def claim2_def)
qed

text \<open>A house whose guest is killed by a stop while it runs, and ends without an exit frame.\<close>

definition stopped_guest :: RunResult where
  "stopped_guest = \<lparr>rs_outcome = OutcomeError, rs_error = ''guest ended without an exit frame'', rs_exit = 0, rs_messages = 0, rs_terminal = False\<rparr>"

definition stopping :: "world manager_env" where
  "stopping = house\<lparr>mc_run := (\<lambda>_ _ _ r s. (stopped_guest, snd (Kill house s r)))\<rparr>"

text \<open>
  A run that an operator stops counts as a failure: its row says killed and carries no outcome, but the end of the run
  counts the error of the guest against the folder all the same. After two failures the stop opens the breaker.
\<close>

theorem killed_run_counts:
  "\<exists>out s. Run stopping \<lparr>mg_world = quiet [(''f'', ''2'')], mg_steers = {}\<rparr> (wish ''f'') = (Inr out, s) \<and>
     map_option (sent attrState) (items (mg_world s) (spawn_at (ro_run out))) = Some ''killed'' \<and>
     map_option (\<lambda>m. m attrOutcome) (items (mg_world s) (spawn_at (ro_run out))) = Some None \<and>
     fst (FailureStreak (mc_db stopping) (mg_world s) ''f'') = Inr 3 \<and> ro_open out"
proof -
  let ?r = "Run stopping \<lparr>mg_world = quiet [(''f'', ''2'')], mg_steers = {}\<rparr> (wish ''f'')"
  have 1: "\<not> isl (fst ?r)" "ro_run (projr (fst ?r)) = ''run_1''" "ro_open (projr (fst ?r))" by code_simp+
  have 2: "map_option (sent attrState) (items (mg_world (snd ?r)) (spawn_at ''run_1'')) = Some ''killed''"
    "map_option (\<lambda>m. m attrOutcome) (items (mg_world (snd ?r)) (spawn_at ''run_1'')) = Some None"
    "fst (FailureStreak (mc_db stopping) (mg_world (snd ?r)) ''f'') = Inr 3" by code_simp+
  show ?thesis using 1 2 by (intro exI [of _ "projr (fst ?r)"] exI [of _ "snd ?r"]) (simp add: prod_eq_iff)
qed

end
